(* ===== verification/Prelude.thy ===== *)
theory Prelude
  imports Complex_Main "HOL-Library.List_Lexorder" "HOL-Library.Char_ord"
begin

text \<open>
  Shared vocabulary of the development: byte strings, 64-bit integers, the outcomes of
  Go code that may panic, and the state monad in which the keepers of the SDK run.

  \<^item> A Go \<open>[]byte\<close> and a Go \<open>string\<close> are lists of 8-bit characters; the library
    order on lists of characters is the order of \<open>bytes.Compare\<close> and \<open>strings.Compare\<close>.
    A byte slice that may be \<open>nil\<close> is an option.
  \<^item> An \<open>int64\<close> is an integer kept in range by \<open>wrap64\<close>, written wherever the source
    adds or subtracts.
  \<^item> A panic is a value: \<open>outcome\<close> for pure code, \<open>M\<close> for code that also writes state.
    The state at the panic is kept, because a recovered panic does not undo earlier writes.
\<close>

named_theorems run_simps "execution of the state and panic monad, step by step"
named_theorems run_iffs "what a run that returned a value says about its parts"

section \<open>Bytes and numbers\<close>

type_synonym bytes = "char list"

definition wrap64 :: "int \<Rightarrow> int" where
  "wrap64 x = (x + 2 ^ 63) mod 2 ^ 64 - 2 ^ 63"

definition in_int64 :: "int \<Rightarrow> bool" where
  "in_int64 x \<longleftrightarrow> - (2 ^ 63) \<le> x \<and> x < 2 ^ 63"

lemma wrap64_id [simp]: "in_int64 x \<Longrightarrow> wrap64 x = x"
  by (simp add: wrap64_def in_int64_def)

lemma in_int64_wrap64 [simp]: "in_int64 (wrap64 x)"
proof -
  have "0 \<le> (x + 2 ^ 63) mod (2 ^ 64 :: int)" and "(x + 2 ^ 63) mod (2 ^ 64 :: int) < 2 ^ 64"
    by simp_all
  then show ?thesis by (simp add: wrap64_def in_int64_def)
qed

lemma in_int64_zero [simp]: "in_int64 0"
  by (simp add: in_int64_def)

lemma wrap64_congI: "x mod 2 ^ 64 = y mod 2 ^ 64 \<Longrightarrow> wrap64 x = wrap64 y"
  unfolding wrap64_def by (metis mod_add_left_eq)

lemma wrap64_cong: "wrap64 x mod 2 ^ 64 = x mod 2 ^ 64"
  unfolding wrap64_def by (metis add_diff_cancel_right' mod_diff_left_eq)

lemma wrap64_add_left [simp]: "wrap64 (wrap64 a + b) = wrap64 (a + b)"
  by (rule wrap64_congI) (metis mod_add_left_eq wrap64_cong)

lemma wrap64_add_right [simp]: "wrap64 (a + wrap64 b) = wrap64 (a + b)"
  by (metis add.commute wrap64_add_left)

lemma wrap64_diff_left [simp]: "wrap64 (wrap64 a - b) = wrap64 (a - b)"
  by (rule wrap64_congI) (metis mod_diff_left_eq wrap64_cong)

lemma wrap64_diff_right [simp]: "wrap64 (a - wrap64 b) = wrap64 (a - b)"
  by (rule wrap64_congI) (metis mod_diff_right_eq wrap64_cong)

lemma wrap64_succ_neq: "wrap64 (x + 1) \<noteq> x"
proof
  assume "wrap64 (x + 1) = x"
  then have "(x + 1) mod 2 ^ 64 = x mod 2 ^ 64" by (metis wrap64_cong)
  then show False by (simp add: mod_eq_dvd_iff)
qed

text \<open>Decimal printing, as the verb \<open>%d\<close> of \<open>fmt\<close> and \<open>big.Int.String\<close> do.\<close>

definition digit_char :: "nat \<Rightarrow> char" where
  "digit_char d = char_of (48 + d)"

fun show_nat :: "nat \<Rightarrow> string" where
  "show_nat n = (if n < 10 then [digit_char n] else show_nat (n div 10) @ [digit_char (n mod 10)])"

declare show_nat.simps [simp del]

definition show_int :: "int \<Rightarrow> string" where
  "show_int i = (if i < 0 then ''-'' @ show_nat (nat (- i)) else show_nat (nat i))"

text \<open>Go's truncated division and remainder (\<open>/\<close>, \<open>%\<close>, \<open>big.Int.QuoRem\<close>).\<close>

definition quo :: "int \<Rightarrow> int \<Rightarrow> int" where
  "quo a b = sgn a * sgn b * (\<bar>a\<bar> div \<bar>b\<bar>)"

definition rem :: "int \<Rightarrow> int \<Rightarrow> int" where
  "rem a b = a - b * quo a b"

section \<open>Outcomes of pure code\<close>

datatype panic = OutOfGas string | GoPanic string

datatype 'a outcome = Val 'a | Panic panic

fun obind :: "'a outcome \<Rightarrow> ('a \<Rightarrow> 'b outcome) \<Rightarrow> 'b outcome" where
  "obind (Val x) f = f x"
| "obind (Panic p) f = Panic p"

lemma obind_Val_iff [run_iffs]: "obind m f = Val y \<longleftrightarrow> (\<exists>x. m = Val x \<and> f x = Val y)"
  by (cases m) auto

lemma obind_assoc: "obind (obind m f) g = obind m (\<lambda>x. obind (f x) g)"
  by (cases m) auto

definition is_val :: "'a outcome \<Rightarrow> bool" where
  "is_val m \<longleftrightarrow> (\<exists>x. m = Val x)"

lemma is_val_simps [simp]: "is_val (Val x)" "\<not> is_val (Panic p)"
  by (simp_all add: is_val_def)

lemma is_val_code [code]: "is_val m = (case m of Val _ \<Rightarrow> True | Panic _ \<Rightarrow> False)"
  by (cases m) simp_all

section \<open>The state and panic monad\<close>

type_synonym ('s, 'a) M = "'s \<Rightarrow> 'a outcome \<times> 's"

definition ret :: "'a \<Rightarrow> ('s, 'a) M" where
  "ret x = (\<lambda>s. (Val x, s))"

definition panicM :: "panic \<Rightarrow> ('s, 'a) M" where
  "panicM p = (\<lambda>s. (Panic p, s))"

definition lift :: "'a outcome \<Rightarrow> ('s, 'a) M" where
  "lift m = (\<lambda>s. (m, s))"

definition bnd :: "('s, 'a) M \<Rightarrow> ('a \<Rightarrow> ('s, 'b) M) \<Rightarrow> ('s, 'b) M" where
  "bnd m f = (\<lambda>s. case m s of (Val x, t) \<Rightarrow> f x t | (Panic p, t) \<Rightarrow> (Panic p, t))"

fun iterM :: "'a list \<Rightarrow> ('a \<Rightarrow> ('s, unit) M) \<Rightarrow> ('s, unit) M" where
  "iterM [] f = ret ()"
| "iterM (x # xs) f = bnd (f x) (\<lambda>_. iterM xs f)"

fun foldM :: "('b \<Rightarrow> 'a \<Rightarrow> ('s, 'b) M) \<Rightarrow> 'b \<Rightarrow> 'a list \<Rightarrow> ('s, 'b) M" where
  "foldM f b [] = ret b"
| "foldM f b (x # xs) = bnd (f b x) (\<lambda>b'. foldM f b' xs)"

lemma ret_run [run_simps]: "ret x s = (Val x, s)"
  by (simp add: ret_def)

lemma panicM_run [run_simps]: "panicM p s = (Panic p, s)"
  by (simp add: panicM_def)

lemma lift_run [run_simps]: "lift m s = (m, s)"
  by (simp add: lift_def)

lemma bnd_run [run_simps]:
  "m s = (Val x, t) \<Longrightarrow> bnd m f s = f x t"
  "m s = (Panic p, t) \<Longrightarrow> bnd m f s = (Panic p, t)"
  by (simp_all add: bnd_def)

lemma ret_iff [run_iffs]: "ret x s = (r, t) \<longleftrightarrow> r = Val x \<and> t = s"
  by (auto simp: ret_def)

lemma panicM_iff [run_iffs]: "panicM p s = (r, t) \<longleftrightarrow> r = Panic p \<and> t = s"
  by (auto simp: panicM_def)

lemma lift_iff [run_iffs]: "lift m s = (r, t) \<longleftrightarrow> m = r \<and> t = s"
  by (auto simp: lift_def)

lemma bnd_Val_iff [run_iffs]:
  "bnd m f s = (Val y, t) \<longleftrightarrow> (\<exists>x u. m s = (Val x, u) \<and> f x u = (Val y, t))"
  by (auto simp: bnd_def split: prod.splits outcome.splits)

lemma bnd_Panic_iff:
  "bnd m f s = (Panic p, t) \<longleftrightarrow>
    m s = (Panic p, t) \<or> (\<exists>x u. m s = (Val x, u) \<and> f x u = (Panic p, t))"
  by (auto simp: bnd_def split: prod.splits outcome.splits)

text \<open>Branches of a computation, as alternatives.\<close>

lemma branch_run_iffs [run_iffs]:
  "(if b then f else g) s = r \<longleftrightarrow> (b \<and> f s = r) \<or> (\<not> b \<and> g s = r)"
  "case_sum h k x s = r \<longleftrightarrow> (\<exists>a. x = Inl a \<and> h a s = r) \<or> (\<exists>b. x = Inr b \<and> k b s = r)"
  "case_option f k y s = r \<longleftrightarrow> (y = None \<and> f s = r) \<or> (\<exists>b. y = Some b \<and> k b s = r)"
  "case_prod m z s = r \<longleftrightarrow> (\<exists>a b. z = (a, b) \<and> m a b s = r)"
  by (auto split: sum.splits option.splits prod.splits)

lemma bnd_assoc: "bnd (bnd m f) g = bnd m (\<lambda>x. bnd (f x) g)"
  by (rule ext) (auto simp: bnd_def split: prod.splits outcome.splits)

lemma bnd_ret_left [simp]: "bnd (ret x) f = f x"
  by (rule ext) (simp add: bnd_def ret_def)

text \<open>A relation between the states before and after, whatever the outcome.\<close>

definition steps :: "('s \<Rightarrow> 's \<Rightarrow> bool) \<Rightarrow> ('s, 'a) M \<Rightarrow> bool" where
  "steps R m \<longleftrightarrow> (\<forall>s. R s (snd (m s)))"

lemma stepsI: "(\<And>s. R s (snd (m s))) \<Longrightarrow> steps R m"
  by (simp add: steps_def)

lemma stepsD: "steps R m \<Longrightarrow> m s = (r, t) \<Longrightarrow> R s t"
  by (metis snd_conv steps_def)

lemma steps_ret: "reflp R \<Longrightarrow> steps R (ret x)"
  by (simp add: steps_def ret_def reflp_def)

lemma steps_panicM: "reflp R \<Longrightarrow> steps R (panicM p)"
  by (simp add: steps_def panicM_def reflp_def)

lemma steps_lift: "reflp R \<Longrightarrow> steps R (lift m)"
  by (simp add: steps_def lift_def reflp_def)

lemma steps_bnd:
  assumes "transp R" and "steps R m" and "\<And>x. steps R (f x)"
  shows "steps R (bnd m f)"
proof (rule stepsI)
  fix s
  obtain r u where m: "m s = (r, u)" by fastforce
  then have "R s u" using assms(2) by (rule stepsD [rotated])
  show "R s (snd (bnd m f s))"
  proof (cases r)
    case (Val x)
    have "R u (snd (f x u))" using assms(3) by (simp add: steps_def)
    with \<open>R s u\<close> have "R s (snd (f x u))" by (rule transpD [OF assms(1)])
    then show ?thesis using m Val by (simp add: bnd_def)
  next
    case (Panic p)
    then show ?thesis using m \<open>R s u\<close> by (simp add: bnd_def)
  qed
qed

lemma steps_iterM:
  assumes "reflp R" and "transp R" and "\<And>x. x \<in> set xs \<Longrightarrow> steps R (f x)"
  shows "steps R (iterM xs f)"
  using assms(3) by (induction xs) (auto intro!: steps_ret steps_bnd assms(1,2))

lemma steps_foldM:
  assumes "reflp R" and "transp R" and "\<And>b x. x \<in> set xs \<Longrightarrow> steps R (f b x)"
  shows "steps R (foldM f b xs)"
  using assms(3) by (induction xs arbitrary: b) (auto intro!: steps_ret steps_bnd assms(1,2))

end
