(* ===== verification/GoStrings.thy ===== *)
theory GoStrings
  imports Prelude
begin

text \<open>
  The text functions of Go's standard library that the SDK relies on: scanning integers
  (\<open>math/big\<close> in base 0 and 10, \<open>strconv.Atoi\<close>), and \<open>strings.Split\<close> and \<open>strings.TrimSpace\<close>.
\<close>

section \<open>Scanning integers\<close>

definition digit_val :: "char \<Rightarrow> nat" where
  "digit_val c = (let n = of_char c :: nat in
     if 48 \<le> n \<and> n \<le> 57 then n - 48
     else if 97 \<le> n \<and> n \<le> 122 then n - 97 + 10
     else if 65 \<le> n \<and> n \<le> 90 then n - 65 + 10
     else 37)"

fun scan_digits :: "nat \<Rightarrow> nat \<Rightarrow> string \<Rightarrow> nat option" where
  "scan_digits b acc [] = Some acc"
| "scan_digits b acc (c # cs) =
     (if digit_val c < b then scan_digits b (acc * b + digit_val c) cs else None)"

definition scan_abs :: "string \<Rightarrow> nat option" where
  "scan_abs s = (case s of
     [] \<Rightarrow> None
   | c # cs \<Rightarrow>
       if c = CHR ''0'' then
         (case cs of
            [] \<Rightarrow> Some 0
          | d # ds \<Rightarrow>
              if d = CHR ''x'' \<or> d = CHR ''X'' then (if ds = [] then None else scan_digits 16 0 ds)
              else if d = CHR ''b'' \<or> d = CHR ''B'' then (if ds = [] then None else scan_digits 2 0 ds)
              else scan_digits 8 0 cs)
       else scan_digits 10 0 s)"

definition SetString0 :: "string \<Rightarrow> int option" where
  "SetString0 s = (case s of
     [] \<Rightarrow> None
   | c # cs \<Rightarrow>
       if c = CHR ''-'' then map_option (\<lambda>n. - int n) (scan_abs cs)
       else if c = CHR ''+'' then map_option int (scan_abs cs)
       else map_option int (scan_abs s))"

text \<open>\<open>strings.Split\<close> on a single character.\<close>

fun split_on :: "char \<Rightarrow> string \<Rightarrow> string list" where
  "split_on c [] = [[]]"
| "split_on c (x # xs) =
     (if x = c then [] # split_on c xs
      else case split_on c xs of [] \<Rightarrow> [[x]] | w # ws \<Rightarrow> (x # w) # ws)"

text \<open>
  \<open>strconv.Atoi\<close>: an optional sign and decimal digits.  The scan stops with a range error as
  soon as the value leaves 64 bits, before it has looked at the digits that follow.
\<close>

datatype conv = ConvOk int | ConvSyntax | ConvRange

fun parse_uint_loop :: "nat \<Rightarrow> string \<Rightarrow> conv" where
  "parse_uint_loop n [] = ConvOk (int n)"
| "parse_uint_loop n (c # cs) =
     (if \<not> digit_val c < 10 then ConvSyntax
      else if n \<ge> (2 ^ 64 - 1) div 10 + 1 \<or> n * 10 + digit_val c > 2 ^ 64 - 1 then ConvRange
      else parse_uint_loop (n * 10 + digit_val c) cs)"

definition Atoi :: "string \<Rightarrow> conv" where
  "Atoi s = (case s of
     [] \<Rightarrow> ConvSyntax
   | c # cs \<Rightarrow>
       let neg = (c = CHR ''-'');
           ds = (if c = CHR ''+'' \<or> c = CHR ''-'' then cs else s)
       in if ds = [] then ConvSyntax
          else (case parse_uint_loop 0 ds of
            ConvOk un \<Rightarrow>
              if \<not> neg \<and> un \<ge> 2 ^ 63 then ConvRange
              else if neg \<and> un > 2 ^ 63 then ConvRange
              else ConvOk (if neg then - un else un)
          | e \<Rightarrow> e))"

definition SetString10 :: "string \<Rightarrow> int option" where
  "SetString10 s = (case s of
     [] \<Rightarrow> None
   | c # cs \<Rightarrow>
       let ds = (if c = CHR ''+'' \<or> c = CHR ''-'' then cs else s)
       in if ds = [] then None
          else map_option (\<lambda>n. if c = CHR ''-'' then - int n else int n) (scan_digits 10 0 ds))"

section \<open>Trimming and joining\<close>

text \<open>
  \<open>strings.TrimSpace\<close> removes the runes that Unicode counts as white space: six ASCII
  characters and the UTF-8 encodings of the others.
\<close>

definition is_space_char :: "char \<Rightarrow> bool" where
  "is_space_char c \<longleftrightarrow> c \<in> {CHR 0x09, CHR 0x0A, CHR 0x0B, CHR 0x0C, CHR 0x0D, CHR 0x20}"

definition wide_spaces :: "bytes list" where
  "wide_spaces =
     [[CHR 0xC2, CHR 0x85], [CHR 0xC2, CHR 0xA0], [CHR 0xE1, CHR 0x9A, CHR 0x80],
      [CHR 0xE2, CHR 0x80, CHR 0x80], [CHR 0xE2, CHR 0x80, CHR 0x81], [CHR 0xE2, CHR 0x80, CHR 0x82],
      [CHR 0xE2, CHR 0x80, CHR 0x83], [CHR 0xE2, CHR 0x80, CHR 0x84], [CHR 0xE2, CHR 0x80, CHR 0x85],
      [CHR 0xE2, CHR 0x80, CHR 0x86], [CHR 0xE2, CHR 0x80, CHR 0x87], [CHR 0xE2, CHR 0x80, CHR 0x88],
      [CHR 0xE2, CHR 0x80, CHR 0x89], [CHR 0xE2, CHR 0x80, CHR 0x8A], [CHR 0xE2, CHR 0x80, CHR 0xA8],
      [CHR 0xE2, CHR 0x80, CHR 0xA9], [CHR 0xE2, CHR 0x80, CHR 0xAF], [CHR 0xE2, CHR 0x81, CHR 0x9F],
      [CHR 0xE3, CHR 0x80, CHR 0x80]]"

fun trim_left :: "bytes list \<Rightarrow> bytes \<Rightarrow> bytes" where
  "trim_left ws [] = []"
| "trim_left ws (c # cs) =
     (if is_space_char c then trim_left ws cs
      else (case cs of
        [] \<Rightarrow> c # cs
      | d # ds \<Rightarrow>
          if [c, d] \<in> set ws then trim_left ws ds
          else (case ds of
            [] \<Rightarrow> c # cs
          | e # es \<Rightarrow> if [c, d, e] \<in> set ws then trim_left ws es else c # cs)))"

declare trim_left.simps(2) [simp del]

definition TrimSpace :: "string \<Rightarrow> string" where
  "TrimSpace s = rev (trim_left (map rev wide_spaces) (rev (trim_left wide_spaces s)))"

fun join_on :: "char \<Rightarrow> string list \<Rightarrow> string" where
  "join_on c [] = []"
| "join_on c [w] = w"
| "join_on c (w # ws) = w @ [c] @ join_on c ws"

section \<open>Round trips\<close>

lemma scan_digits_append:
  "scan_digits b acc (xs @ ys) = Option.bind (scan_digits b acc xs) (\<lambda>a. scan_digits b a ys)"
  by (induction xs arbitrary: acc) auto

lemma digit_val_digit_char [simp]: "d < 10 \<Longrightarrow> digit_val (digit_char d) = d"
  by (simp add: digit_val_def digit_char_def)

lemma scan_digits_show_nat: "scan_digits 10 0 (show_nat n) = Some n"
proof (induction n rule: show_nat.induct)
  case (1 n)
  then show ?case
    by (subst show_nat.simps) (simp add: scan_digits_append)
qed

lemma digit_char_eq_zero_iff: "d < 10 \<Longrightarrow> digit_char d = CHR ''0'' \<longleftrightarrow> d = 0"
proof
  assume "d < 10" and "digit_char d = CHR ''0''"
  moreover have "digit_val (CHR ''0'') = 0" by code_simp
  ultimately show "d = 0" using digit_val_digit_char [of d] by simp
next
  have "digit_char 0 = CHR ''0''" by code_simp
  then show "d = 0 \<Longrightarrow> digit_char d = CHR ''0''" by simp
qed

lemma show_nat_head:
  "\<exists>d ds. show_nat n = digit_char d # ds \<and> d < 10 \<and> (d = 0 \<longrightarrow> n = 0 \<and> ds = [])"
proof (induction n rule: show_nat.induct)
  case (1 n)
  show ?case
  proof (cases "n < 10")
    case True
    then show ?thesis by (subst show_nat.simps) auto
  next
    case False
    then have eq: "show_nat n = show_nat (n div 10) @ [digit_char (n mod 10)]"
      by (subst show_nat.simps) simp
    obtain d ds where d: "show_nat (n div 10) = digit_char d # ds" "d < 10" "d = 0 \<longrightarrow> n div 10 = 0"
      using 1 [OF False] by blast
    moreover have "d \<noteq> 0" using d False by auto
    ultimately show ?thesis using eq by auto
  qed
qed

lemma scan_abs_show_nat: "scan_abs (show_nat n) = Some n"
proof -
  obtain d ds where d: "show_nat n = digit_char d # ds" "d < 10" "d = 0 \<longrightarrow> n = 0 \<and> ds = []"
    using show_nat_head by blast
  show ?thesis
    using d scan_digits_show_nat [of n] digit_char_eq_zero_iff [of d]
    by (auto simp: scan_abs_def)
qed

lemma digit_char_not_sign: "d < 10 \<Longrightarrow> digit_char d \<noteq> CHR ''-'' \<and> digit_char d \<noteq> CHR ''+''"
  using digit_val_digit_char [of d] by (auto simp: digit_val_def)

lemma SetString0_show_int: "SetString0 (show_int i) = Some i"
proof (cases "i < 0")
  case True
  then show ?thesis by (simp add: SetString0_def show_int_def scan_abs_show_nat)
next
  case False
  obtain d ds where d: "show_nat (nat i) = digit_char d # ds" "d < 10"
    using show_nat_head by blast
  then show ?thesis
    using False scan_abs_show_nat [of "nat i"] digit_char_not_sign [of d]
    by (simp add: SetString0_def show_int_def)
qed

lemma split_on_no_sep: "c \<notin> set w \<Longrightarrow> split_on c w = [w]"
  by (induction w) auto

lemma split_on_append: "c \<notin> set w \<Longrightarrow> split_on c (w @ c # s) = w # split_on c s"
  by (induction w) (auto split: list.splits)

lemma split_on_join:
  "\<lbrakk>ws \<noteq> []; \<forall>w \<in> set ws. c \<notin> set w\<rbrakk> \<Longrightarrow> split_on c (join_on c ws) = ws"
  by (induction c ws rule: join_on.induct) (auto simp: split_on_no_sep split_on_append)

text \<open>Trimming leaves a text alone that begins and ends with a plain ASCII character.\<close>

definition plain_char :: "char \<Rightarrow> bool" where
  "plain_char c \<longleftrightarrow> \<not> is_space_char c \<and> of_char c < (128 :: nat)"

lemma wide_spaces_high:
  "list_all (\<lambda>w. 128 \<le> (of_char (hd w) :: nat) \<and> 128 \<le> (of_char (last w) :: nat)) wide_spaces"
  by (simp add: wide_spaces_def)

lemma wide_spaces_plain:
  assumes "plain_char c"
  shows "c # w \<notin> set wide_spaces" and "c # w \<notin> rev ` set wide_spaces"
proof -
  have low: "(of_char c :: nat) < 128" using assms by (simp add: plain_char_def)
  show "c # w \<notin> set wide_spaces"
    using wide_spaces_high low by (auto simp: list_all_iff)
  show "c # w \<notin> rev ` set wide_spaces"
  proof
    assume "c # w \<in> rev ` set wide_spaces"
    then obtain v where v: "v \<in> set wide_spaces" "c # w = rev v" by auto
    then have "last v = c" by (metis last_rev list.sel(1) rev_rev_ident)
    then show False using wide_spaces_high v(1) low by (auto simp: list_all_iff)
  qed
qed

lemma trim_left_plain:
  "plain_char c \<Longrightarrow> trim_left wide_spaces (c # cs) = c # cs"
  "plain_char c \<Longrightarrow> trim_left (map rev wide_spaces) (c # cs) = c # cs"
  by (subst trim_left.simps, auto simp: wide_spaces_plain plain_char_def split: list.split)+

lemma TrimSpace_plain:
  assumes "s \<noteq> []" and "plain_char (hd s)" and "plain_char (last s)"
  shows "TrimSpace s = s"
proof -
  have "trim_left wide_spaces s = s"
    using assms(1,2) trim_left_plain(1) [of "hd s" "tl s"] by simp
  moreover have r: "rev s = last s # rev (butlast s)"
    using assms(1) by (metis append_butlast_last_id rev_append rev_singleton_conv append_Cons append_Nil)
  have "trim_left (map rev wide_spaces) (rev s) = rev s"
    unfolding r by (rule trim_left_plain(2) [OF assms(3)])
  ultimately show ?thesis by (simp add: TrimSpace_def)
qed

lemma parse_uint_loop_scan:
  assumes "scan_digits 10 n ds = Some m" and "m < 2 ^ 64"
  shows "parse_uint_loop n ds = ConvOk (int m)"
  using assms(1)
proof (induction ds arbitrary: n)
  case Nil
  then show ?case by simp
next
  case (Cons c cs)
  have mono: "k \<le> m" if "scan_digits 10 k xs = Some m" for k xs
    using that
  proof (induction xs arbitrary: k)
    case (Cons x xs)
    then have "k * 10 + digit_val x \<le> m" by (simp split: if_splits)
    then show ?case by simp
  qed simp
  from Cons.prems have d: "digit_val c < 10" and s: "scan_digits 10 (n * 10 + digit_val c) cs = Some m"
    by (auto split: if_splits)
  have "n * 10 + digit_val c \<le> m" using mono s by blast
  then have "n * 10 + digit_val c \<le> 2 ^ 64 - 1" using assms(2) by simp
  moreover from this have "n < (2 ^ 64 - 1) div 10 + 1" by simp
  ultimately show ?case using Cons.IH [OF s] d by simp
qed

lemma Atoi_show_nat:
  assumes "int n < 2 ^ 63"
  shows "Atoi (show_nat n) = ConvOk (int n)"
proof -
  obtain d ds where d: "show_nat n = digit_char d # ds" "d < 10"
    using show_nat_head by blast
  have "parse_uint_loop 0 (show_nat n) = ConvOk (int n)"
    using parse_uint_loop_scan [OF scan_digits_show_nat, of n] assms by simp
  then show ?thesis
    using d digit_char_not_sign [of d] assms by (simp add: Atoi_def)
qed

end
