(* ===== verification/SdkInt.thy ===== *)
theory SdkInt
  imports GoStrings
begin

text \<open>
  The bounded integers of \<open>types/int.go\<close>: \<open>Int\<close>, which holds values of at most 255 bits
  with either sign, and \<open>Uint\<close>, which holds values of 0 to 256 bits.  A \<open>big.Int\<close> is an
  \<open>int\<close>; every range check of the source is a branch that panics.
\<close>

section \<open>The part of math/big that the source uses\<close>

fun nat_bits :: "nat \<Rightarrow> nat" where
  "nat_bits n = (if n = 0 then 0 else Suc (nat_bits (n div 2)))"

declare nat_bits.simps [simp del]

definition BitLen :: "int \<Rightarrow> int" where
  "BitLen i = int (nat_bits (nat \<bar>i\<bar>))"

definition euclid_div :: "int \<Rightarrow> int \<Rightarrow> int" where
  "euclid_div a b = sgn b * (a div \<bar>b\<bar>)"

section \<open>Helpers of int.go\<close>

definition newIntegerFromString :: "string \<Rightarrow> int option" where
  "newIntegerFromString s = SetString0 s"

definition newIntegerWithDecimal :: "int \<Rightarrow> int \<Rightarrow> int option" where
  "newIntegerWithDecimal n dec = (if dec < 0 then None else Some (n * 10 ^ nat dec))"

definition marshalAmino :: "int \<Rightarrow> string" where
  "marshalAmino i = show_int i"

definition unmarshalAmino :: "string \<Rightarrow> int option" where
  "unmarshalAmino text = SetString0 text"

definition marshalJSON :: "int \<Rightarrow> bytes" where
  "marshalJSON i = [CHR 0x22] @ show_int i @ [CHR 0x22]"

definition nil_deref :: panic where
  "nil_deref = GoPanic ''invalid memory address or nil pointer dereference''"

section \<open>Int\<close>

type_synonym sdk_int = int

definition NewInt :: "int \<Rightarrow> sdk_int" where
  "NewInt n = n"

definition NewIntFromBigInt :: "int \<Rightarrow> sdk_int outcome" where
  "NewIntFromBigInt i =
     (if BitLen i > 255 then Panic (GoPanic ''NewIntFromBigInt() out of bound'') else Val i)"

definition NewIntFromString :: "string \<Rightarrow> sdk_int option" where
  "NewIntFromString s = (case newIntegerFromString s of
     None \<Rightarrow> None
   | Some i \<Rightarrow> if BitLen i > 255 then None else Some i)"

definition NewIntWithDecimal :: "int \<Rightarrow> int \<Rightarrow> sdk_int outcome" where
  "NewIntWithDecimal n dec = (case newIntegerWithDecimal n dec of
     None \<Rightarrow> Panic nil_deref
   | Some i \<Rightarrow>
       if BitLen i > 255 then Panic (GoPanic ''NewIntWithDecimal() out of bound'') else Val i)"

definition ZeroInt :: sdk_int where "ZeroInt = 0"

definition OneInt :: sdk_int where "OneInt = 1"

definition Int_Int64 :: "sdk_int \<Rightarrow> int outcome" where
  "Int_Int64 i = (if \<not> in_int64 i then Panic (GoPanic ''Int64() out of bound'') else Val i)"

definition Int_IsZero :: "sdk_int \<Rightarrow> bool" where
  "Int_IsZero i \<longleftrightarrow> sgn i = 0"

definition Int_Sign :: "sdk_int \<Rightarrow> int" where
  "Int_Sign i = sgn i"

definition Int_Equal :: "sdk_int \<Rightarrow> sdk_int \<Rightarrow> bool" where
  "Int_Equal i i2 \<longleftrightarrow> i = i2"

definition Int_GT :: "sdk_int \<Rightarrow> sdk_int \<Rightarrow> bool" where
  "Int_GT i i2 \<longleftrightarrow> i > i2"

definition Int_LT :: "sdk_int \<Rightarrow> sdk_int \<Rightarrow> bool" where
  "Int_LT i i2 \<longleftrightarrow> i < i2"

definition Int_Add :: "sdk_int \<Rightarrow> sdk_int \<Rightarrow> sdk_int outcome" where
  "Int_Add i i2 = (let res = i + i2 in
     if BitLen res > 255 then Panic (GoPanic ''Int overflow'') else Val res)"

definition Int_AddRaw :: "sdk_int \<Rightarrow> int \<Rightarrow> sdk_int outcome" where
  "Int_AddRaw i i2 = Int_Add i (NewInt i2)"

definition Int_Sub :: "sdk_int \<Rightarrow> sdk_int \<Rightarrow> sdk_int outcome" where
  "Int_Sub i i2 = (let res = i - i2 in
     if BitLen res > 255 then Panic (GoPanic ''Int overflow'') else Val res)"

definition Int_SubRaw :: "sdk_int \<Rightarrow> int \<Rightarrow> sdk_int outcome" where
  "Int_SubRaw i i2 = Int_Sub i (NewInt i2)"

definition Int_Mul :: "sdk_int \<Rightarrow> sdk_int \<Rightarrow> sdk_int outcome" where
  "Int_Mul i i2 =
     (if BitLen i + BitLen i2 - 1 > 255 then Panic (GoPanic ''Int overflow'')
      else let res = i * i2 in
        if BitLen res > 255 then Panic (GoPanic ''Int overflow'') else Val res)"

definition Int_MulRaw :: "sdk_int \<Rightarrow> int \<Rightarrow> sdk_int outcome" where
  "Int_MulRaw i i2 = Int_Mul i (NewInt i2)"

definition Int_Div :: "sdk_int \<Rightarrow> sdk_int \<Rightarrow> sdk_int outcome" where
  "Int_Div i i2 =
     (if sgn i2 = 0 then Panic (GoPanic ''Division by zero'') else Val (euclid_div i i2))"

definition Int_DivRaw :: "sdk_int \<Rightarrow> int \<Rightarrow> sdk_int outcome" where
  "Int_DivRaw i i2 = Int_Div i (NewInt i2)"

definition Int_Neg :: "sdk_int \<Rightarrow> sdk_int" where
  "Int_Neg i = - i"

definition Int_String :: "sdk_int \<Rightarrow> string" where
  "Int_String i = show_int i"

text \<open>The zero value of the struct has a nil pointer, which the encoders read as zero.\<close>

definition Int_MarshalAmino :: "sdk_int option \<Rightarrow> string" where
  "Int_MarshalAmino i = marshalAmino (case i of None \<Rightarrow> 0 | Some n \<Rightarrow> n)"

definition Int_UnmarshalAmino :: "string \<Rightarrow> sdk_int option" where
  "Int_UnmarshalAmino text = unmarshalAmino text"

definition Int_MarshalJSON :: "sdk_int option \<Rightarrow> bytes" where
  "Int_MarshalJSON i = marshalJSON (case i of None \<Rightarrow> 0 | Some n \<Rightarrow> n)"

section \<open>Uint\<close>

type_synonym sdk_uint = int

definition uint_out_of_range :: "int \<Rightarrow> bool" where
  "uint_out_of_range i \<longleftrightarrow> sgn i = -1 \<or> sgn i = 1 \<and> BitLen i > 256"

definition NewUint :: "int \<Rightarrow> sdk_uint" where
  "NewUint n = n"

definition NewUintFromBigInt :: "int \<Rightarrow> sdk_uint outcome" where
  "NewUintFromBigInt i =
     (if uint_out_of_range i then Panic (GoPanic ''Uint overflow'') else Val i)"

definition NewUintFromString :: "string \<Rightarrow> sdk_uint option" where
  "NewUintFromString s = (case newIntegerFromString s of
     None \<Rightarrow> None
   | Some i \<Rightarrow> if uint_out_of_range i then None else Some i)"

definition NewUintWithDecimal :: "int \<Rightarrow> int \<Rightarrow> sdk_uint outcome" where
  "NewUintWithDecimal n dec = (case newIntegerWithDecimal n dec of
     None \<Rightarrow> Panic nil_deref
   | Some i \<Rightarrow>
       if uint_out_of_range i then Panic (GoPanic ''NewUintWithDecimal() out of bound'') else Val i)"

definition Uint_Uint64 :: "sdk_uint \<Rightarrow> int outcome" where
  "Uint_Uint64 i =
     (if \<not> (0 \<le> i \<and> i < 2 ^ 64) then Panic (GoPanic ''Uint64() out of bound'') else Val i)"

definition Uint_Add :: "sdk_uint \<Rightarrow> sdk_uint \<Rightarrow> sdk_uint outcome" where
  "Uint_Add i i2 = (let res = i + i2 in
     if uint_out_of_range res then Panic (GoPanic ''Uint overflow'') else Val res)"

definition Uint_Sub :: "sdk_uint \<Rightarrow> sdk_uint \<Rightarrow> sdk_uint outcome" where
  "Uint_Sub i i2 = (let res = i - i2 in
     if uint_out_of_range res then Panic (GoPanic ''Uint overflow'') else Val res)"

definition Uint_Mul :: "sdk_uint \<Rightarrow> sdk_uint \<Rightarrow> sdk_uint outcome" where
  "Uint_Mul i i2 =
     (if BitLen i + BitLen i2 - 1 > 256 then Panic (GoPanic ''Uint overflow'')
      else let res = i * i2 in
        if uint_out_of_range res then Panic (GoPanic ''Uint overflow'') else Val res)"

definition Uint_Div :: "sdk_uint \<Rightarrow> sdk_uint \<Rightarrow> sdk_uint outcome" where
  "Uint_Div i i2 =
     (if sgn i2 = 0 then Panic (GoPanic ''division-by-zero'') else Val (euclid_div i i2))"

definition Uint_AddRaw :: "sdk_uint \<Rightarrow> int \<Rightarrow> sdk_uint outcome" where
  "Uint_AddRaw i i2 = Uint_Add i (NewUint i2)"

definition Uint_SubRaw :: "sdk_uint \<Rightarrow> int \<Rightarrow> sdk_uint outcome" where
  "Uint_SubRaw i i2 = Uint_Sub i (NewUint i2)"

definition Uint_MulRaw :: "sdk_uint \<Rightarrow> int \<Rightarrow> sdk_uint outcome" where
  "Uint_MulRaw i i2 = Uint_Mul i (NewUint i2)"

definition Uint_DivRaw :: "sdk_uint \<Rightarrow> int \<Rightarrow> sdk_uint outcome" where
  "Uint_DivRaw i i2 = Uint_Div i (NewUint i2)"

section \<open>Ranges\<close>

text \<open>The ranges that the comments of the two types promise.\<close>

definition Int_range :: "int \<Rightarrow> bool" where
  "Int_range i \<longleftrightarrow> - (2 ^ 255 - 1) \<le> i \<and> i \<le> 2 ^ 255 - 1"

definition Uint_range :: "int \<Rightarrow> bool" where
  "Uint_range i \<longleftrightarrow> 0 \<le> i \<and> i \<le> 2 ^ 256 - 1"

lemma nat_bits_le_iff: "nat_bits n \<le> k \<longleftrightarrow> n < 2 ^ k"
proof (induction n arbitrary: k rule: nat_bits.induct)
  case (1 n)
  show ?case
  proof (cases "n = 0")
    case True
    then show ?thesis by (simp add: nat_bits.simps)
  next
    case False
    then have eq: "nat_bits n = Suc (nat_bits (n div 2))" by (subst nat_bits.simps) simp
    show ?thesis
    proof (cases k)
      case 0
      then show ?thesis using eq False by simp
    next
      case (Suc k')
      then show ?thesis using eq 1 [OF False, of k'] by auto
    qed
  qed
qed

lemma BitLen_le_iff: "BitLen i \<le> int k \<longleftrightarrow> \<bar>i\<bar> < 2 ^ k"
proof -
  have "BitLen i \<le> int k \<longleftrightarrow> nat \<bar>i\<bar> < 2 ^ k"
    by (simp add: BitLen_def nat_bits_le_iff)
  also have "\<dots> \<longleftrightarrow> \<bar>i\<bar> < 2 ^ k"
    by (metis abs_ge_zero int_nat_eq of_nat_less_iff of_nat_numeral of_nat_power)
  finally show ?thesis .
qed

lemma BitLen_nonneg [simp]: "0 \<le> BitLen i"
  by (simp add: BitLen_def)

lemma BitLen_zero [simp]: "BitLen 0 = 0"
  by (simp add: BitLen_def nat_bits.simps)

lemma BitLen_255: "BitLen i > 255 \<longleftrightarrow> \<not> Int_range i"
  using BitLen_le_iff [of i 255] by (auto simp: Int_range_def)

lemma uint_out_of_range_iff: "uint_out_of_range i \<longleftrightarrow> \<not> Uint_range i"
  using BitLen_le_iff [of i 256] by (auto simp: Uint_range_def uint_out_of_range_def sgn_if)

lemma BitLen_pos_lower: "i \<noteq> 0 \<Longrightarrow> 2 ^ nat (BitLen i - 1) \<le> \<bar>i\<bar>"
proof -
  assume "i \<noteq> 0"
  then have "BitLen i > 0"
    using BitLen_le_iff [of i 0] by auto
  then have "\<not> BitLen i \<le> int (nat (BitLen i - 1))" by simp
  then show ?thesis by (simp only: BitLen_le_iff not_less)
qed

text \<open>The quick rejection before a multiplication never rejects a product that fits.\<close>

lemma BitLen_mult_lower:
  assumes "\<bar>a * b\<bar> < 2 ^ k" and "a \<noteq> 0" and "b \<noteq> 0"
  shows "BitLen a + BitLen b - 1 \<le> int k"
proof -
  have pos: "BitLen a > 0" "BitLen b > 0"
    using assms(2,3) BitLen_le_iff [of a 0] BitLen_le_iff [of b 0] by auto
  have "(2::int) ^ (nat (BitLen a - 1) + nat (BitLen b - 1)) \<le> \<bar>a\<bar> * \<bar>b\<bar>"
    unfolding power_add using assms(2,3) by (intro mult_mono BitLen_pos_lower) auto
  also have "\<dots> < 2 ^ k" using assms(1) by (simp add: abs_mult)
  finally have "nat (BitLen a - 1) + nat (BitLen b - 1) < k" by simp
  then show ?thesis using pos by linarith
qed

section \<open>Checked arithmetic\<close>

text \<open>
  What both types promise of an operation: inside the range it is the operation of the
  integers, and it panics exactly when the exact result is out of range.
\<close>

locale checked_arith =
  fixes rng :: "int \<Rightarrow> bool"
    and cadd csub cmul :: "int \<Rightarrow> int \<Rightarrow> int outcome"
  assumes rng_zero: "rng 0"
    and add_exact: "\<lbrakk>rng a; rng b\<rbrakk> \<Longrightarrow> cadd a b = Val c \<longleftrightarrow> c = a + b \<and> rng c"
    and sub_exact: "\<lbrakk>rng a; rng b\<rbrakk> \<Longrightarrow> csub a b = Val c \<longleftrightarrow> c = a - b \<and> rng c"
    and mul_exact: "\<lbrakk>rng a; rng b\<rbrakk> \<Longrightarrow> cmul a b = Val c \<longleftrightarrow> c = a * b \<and> rng c"
begin

lemma add_sub_cancel: "\<lbrakk>rng a; rng b; cadd a b = Val c\<rbrakk> \<Longrightarrow> csub c b = Val a"
  by (auto simp: add_exact sub_exact)

lemma sub_add_cancel: "\<lbrakk>rng a; rng b; csub a b = Val c\<rbrakk> \<Longrightarrow> cadd c b = Val a"
  by (auto simp: add_exact sub_exact)

lemma add_commute: "\<lbrakk>rng a; rng b; cadd a b = Val c\<rbrakk> \<Longrightarrow> cadd b a = Val c"
  by (auto simp: add_exact add.commute)

lemma mul_commute: "\<lbrakk>rng a; rng b; cmul a b = Val c\<rbrakk> \<Longrightarrow> cmul b a = Val c"
  by (auto simp: mul_exact mult.commute)

lemma mul_add_distrib:
  "\<lbrakk>rng a; rng b; rng c; cadd b c = Val d; cmul a d = Val e; cmul a b = Val x; cmul a c = Val y\<rbrakk>
   \<Longrightarrow> cadd x y = Val e"
  by (auto simp: mul_exact add_exact distrib_left)

lemma sub_self: "rng a \<Longrightarrow> csub a a = Val 0"
  by (simp add: sub_exact rng_zero)

end

lemma Int_Add_iff: "Int_Add a b = Val c \<longleftrightarrow> c = a + b \<and> Int_range c"
  by (auto simp: Int_Add_def Let_def BitLen_255)

lemma Int_Sub_iff: "Int_Sub a b = Val c \<longleftrightarrow> c = a - b \<and> Int_range c"
  by (auto simp: Int_Sub_def Let_def BitLen_255)

lemma Uint_Add_iff: "Uint_Add a b = Val c \<longleftrightarrow> c = a + b \<and> Uint_range c"
  by (auto simp: Uint_Add_def Let_def uint_out_of_range_iff)

lemma Uint_Sub_iff: "Uint_Sub a b = Val c \<longleftrightarrow> c = a - b \<and> Uint_range c"
  by (auto simp: Uint_Sub_def Let_def uint_out_of_range_iff)

lemma Int_Mul_iff:
  assumes "Int_range a" and "Int_range b"
  shows "Int_Mul a b = Val c \<longleftrightarrow> c = a * b \<and> Int_range c"
proof -
  have "\<not> BitLen a + BitLen b - 1 > 255" if "Int_range (a * b)"
  proof (cases "a = 0 \<or> b = 0")
    case True
    then show ?thesis
      using assms BitLen_255 [of a] BitLen_255 [of b] by auto
  next
    case False
    have "\<bar>a * b\<bar> < 2 ^ 255" using that by (auto simp: Int_range_def)
    then show ?thesis using False BitLen_mult_lower [of a b 255] by simp
  qed
  then show ?thesis by (auto simp: Int_Mul_def Let_def BitLen_255)
qed

lemma Uint_Mul_iff:
  assumes "Uint_range a" and "Uint_range b"
  shows "Uint_Mul a b = Val c \<longleftrightarrow> c = a * b \<and> Uint_range c"
proof -
  have small: "BitLen x \<le> 256" if "Uint_range x" for x
    using that BitLen_le_iff [of x 256] by (auto simp: Uint_range_def)
  have "\<not> BitLen a + BitLen b - 1 > 256" if "Uint_range (a * b)"
  proof (cases "a = 0 \<or> b = 0")
    case True
    then show ?thesis using small [OF assms(1)] small [OF assms(2)] by auto
  next
    case False
    have "\<bar>a * b\<bar> < 2 ^ 256" using that by (auto simp: Uint_range_def)
    then show ?thesis using False BitLen_mult_lower [of a b 256] by simp
  qed
  then show ?thesis by (auto simp: Uint_Mul_def Let_def uint_out_of_range_iff)
qed

interpretation int_arith: checked_arith Int_range Int_Add Int_Sub Int_Mul
  by unfold_locales (simp_all add: Int_Add_iff Int_Sub_iff Int_Mul_iff, simp add: Int_range_def)

interpretation uint_arith: checked_arith Uint_range Uint_Add Uint_Sub Uint_Mul
  by unfold_locales (simp_all add: Uint_Add_iff Uint_Sub_iff Uint_Mul_iff, simp add: Uint_range_def)

section \<open>Properties\<close>

text \<open>
  C27: for operands in range, \<open>Int.Mul\<close> returns exactly when the product is in the documented
  range, and then it returns the product: the check of the operands' bit lengths before the
  multiplication rejects no product that fits, and the check after it lets none through that
  does not.
\<close>

theorem Int_Mul_exact:
  assumes "Int_range a" and "Int_range b"
  shows "(Int_Mul a b = Val c \<longleftrightarrow> c = a * b \<and> Int_range (a * b))
    \<and> (Int_Mul a b = Panic (GoPanic ''Int overflow'') \<longleftrightarrow> \<not> Int_range (a * b))"
  using Int_Mul_iff [OF assms, of c] Int_Mul_iff [OF assms, of "a * b"]
  by (auto simp: Int_Mul_def Let_def BitLen_255 split: if_splits)

theorem Int_Mul_exact_witness:
  "Int_Mul (- (2 ^ 127)) (2 ^ 127) = Val (- (2 ^ 254))
   \<and> Int_Mul (2 ^ 127) (2 ^ 128) = Panic (GoPanic ''Int overflow'')"
  using Int_Mul_exact [of "- (2 ^ 127)" "2 ^ 127" "- (2 ^ 254)"]
    Int_Mul_exact [of "2 ^ 127" "2 ^ 128" 0]
  by (simp add: Int_range_def)

text \<open>
  The same for \<open>Uint\<close>: subtraction and multiplication of values in range return the exact
  result when it is in the range of the type and panic otherwise; a difference below zero
  panics.
\<close>

theorem Uint_arith_exact:
  assumes "Uint_range a" and "Uint_range b"
  shows "Uint_Mul a b = (if a * b < 2 ^ 256 then Val (a * b) else Panic (GoPanic ''Uint overflow''))
    \<and> Uint_Add a b = (if a + b < 2 ^ 256 then Val (a + b) else Panic (GoPanic ''Uint overflow''))
    \<and> Uint_Sub a b = (if b \<le> a then Val (a - b) else Panic (GoPanic ''Uint overflow''))"
proof -
  have pos: "0 \<le> a" "0 \<le> b" using assms by (auto simp: Uint_range_def)
  have "Uint_Mul a b = Val (a * b) \<longleftrightarrow> a * b < 2 ^ 256"
    using Uint_Mul_iff [OF assms, of "a * b"] pos by (auto simp: Uint_range_def)
  moreover have "Uint_Mul a b = Val (a * b) \<or> Uint_Mul a b = Panic (GoPanic ''Uint overflow'')"
    by (simp add: Uint_Mul_def Let_def)
  ultimately show ?thesis
    using assms by (auto simp: Uint_Add_def Uint_Sub_def Let_def uint_out_of_range_iff Uint_range_def)
qed

theorem Uint_arith_exact_witness:
  "Uint_Sub 3 5 = Panic (GoPanic ''Uint overflow'') \<and> Uint_Mul (2 ^ 200) (2 ^ 55) = Val (2 ^ 255)"
  using Uint_arith_exact [of 3 5] Uint_arith_exact [of "2 ^ 200" "2 ^ 55"]
  by (simp add: Uint_range_def)

text \<open>
  The text encoding of an \<open>Int\<close> decodes to the same integer, and \<open>NewIntFromString\<close> of the
  printed value returns it exactly when it is in range.  The decoder itself has no range check.
\<close>

theorem Int_text_roundtrip:
  "Int_UnmarshalAmino (Int_MarshalAmino (Some i)) = Some i
   \<and> NewIntFromString (Int_String i) = (if Int_range i then Some i else None)"
  using BitLen_255 [of i]
  by (auto simp: Int_UnmarshalAmino_def unmarshalAmino_def Int_MarshalAmino_def marshalAmino_def
      SetString0_show_int NewIntFromString_def newIntegerFromString_def Int_String_def)

end
