(* ===== verification/SdkCoins.thy ===== *)
theory SdkCoins
  imports SdkInt
begin

text \<open>
  \<open>types/coin.go\<close>: single coins, sorted sets of coins, and their text form.  A set of coins is
  a list in the order of the source; \<open>Plus\<close> merges two sorted lists and may panic when an
  amount overflows.  The facts relate every operation to the amounts per denomination.
\<close>

section \<open>Coin\<close>

record Coin =
  Denom :: string
  Amount :: sdk_int

definition NewCoin :: "string \<Rightarrow> int \<Rightarrow> Coin" where
  "NewCoin denom amount = \<lparr>Denom = denom, Amount = NewInt amount\<rparr>"

definition Coin_String :: "Coin \<Rightarrow> string" where
  "Coin_String coin = Int_String (Amount coin) @ Denom coin"

definition SameDenomAs :: "Coin \<Rightarrow> Coin \<Rightarrow> bool" where
  "SameDenomAs coin other \<longleftrightarrow> Denom coin = Denom other"

definition Coin_IsZero :: "Coin \<Rightarrow> bool" where
  "Coin_IsZero coin = Int_IsZero (Amount coin)"

definition Coin_IsGTE :: "Coin \<Rightarrow> Coin \<Rightarrow> bool" where
  "Coin_IsGTE coin other \<longleftrightarrow> SameDenomAs coin other \<and> \<not> Int_LT (Amount coin) (Amount other)"

definition Coin_IsEqual :: "Coin \<Rightarrow> Coin \<Rightarrow> bool" where
  "Coin_IsEqual coin other \<longleftrightarrow> SameDenomAs coin other \<and> Int_Equal (Amount coin) (Amount other)"

definition Coin_IsPositive :: "Coin \<Rightarrow> bool" where
  "Coin_IsPositive coin \<longleftrightarrow> Int_Sign (Amount coin) = 1"

definition Coin_IsNotNegative :: "Coin \<Rightarrow> bool" where
  "Coin_IsNotNegative coin \<longleftrightarrow> Int_Sign (Amount coin) \<noteq> -1"

definition Coin_Plus :: "Coin \<Rightarrow> Coin \<Rightarrow> Coin outcome" where
  "Coin_Plus coin coinB =
     (if \<not> SameDenomAs coin coinB then Val coin
      else obind (Int_Add (Amount coin) (Amount coinB)) (\<lambda>a. Val \<lparr>Denom = Denom coin, Amount = a\<rparr>))"

definition Coin_Minus :: "Coin \<Rightarrow> Coin \<Rightarrow> Coin outcome" where
  "Coin_Minus coin coinB =
     (if \<not> SameDenomAs coin coinB then Val coin
      else obind (Int_Sub (Amount coin) (Amount coinB)) (\<lambda>a. Val \<lparr>Denom = Denom coin, Amount = a\<rparr>))"

section \<open>Coins\<close>

type_synonym Coins = "Coin list"

definition Coins_String :: "Coins \<Rightarrow> string" where
  "Coins_String coins =
     (if length coins = 0 then []
      else butlast (concat (map (\<lambda>coin. Coin_String coin @ '','') coins)))"

fun isvalid_loop :: "string \<Rightarrow> Coins \<Rightarrow> bool" where
  "isvalid_loop lowDenom [] = True"
| "isvalid_loop lowDenom (coin # coins) =
     (if Denom coin \<le> lowDenom then False
      else if Coin_IsZero coin then False
      else isvalid_loop (Denom coin) coins)"

definition Coins_IsValid :: "Coins \<Rightarrow> bool" where
  "Coins_IsValid coins = (case coins of
     [] \<Rightarrow> True
   | [coin] \<Rightarrow> \<not> Coin_IsZero coin
   | coin # rest \<Rightarrow> isvalid_loop (Denom coin) rest)"

text \<open>
  The loop of \<open>Plus\<close>: the two lists are what is left of the operands from \<open>indexA\<close> and
  \<open>indexB\<close> on.
\<close>

fun plus_loop :: "Coins \<Rightarrow> Coins \<Rightarrow> Coins \<Rightarrow> Coins outcome" where
  "plus_loop acc [] bs = Val (acc @ bs)"
| "plus_loop acc (a # as) [] = Val (acc @ a # as)"
| "plus_loop acc (coinA # as) (coinB # bs) =
     (if Denom coinA < Denom coinB then plus_loop (acc @ [coinA]) as (coinB # bs)
      else if Denom coinA = Denom coinB then
        obind (Int_Add (Amount coinA) (Amount coinB)) (\<lambda>total.
          if Int_IsZero total then plus_loop acc as bs
          else obind (Coin_Plus coinA coinB) (\<lambda>coin. plus_loop (acc @ [coin]) as bs))
      else plus_loop (acc @ [coinB]) (coinA # as) bs)"

definition Coins_Plus :: "Coins \<Rightarrow> Coins \<Rightarrow> Coins outcome" where
  "Coins_Plus coins coinsB = plus_loop [] coins coinsB"

definition Coins_Negative :: "Coins \<Rightarrow> Coins" where
  "Coins_Negative coins = map (\<lambda>coin. \<lparr>Denom = Denom coin, Amount = Int_Neg (Amount coin)\<rparr>) coins"

definition Coins_Minus :: "Coins \<Rightarrow> Coins \<Rightarrow> Coins outcome" where
  "Coins_Minus coins coinsB = Coins_Plus coins (Coins_Negative coinsB)"

definition Coins_IsNotNegative :: "Coins \<Rightarrow> bool" where
  "Coins_IsNotNegative coins =
     (if length coins = 0 then True else list_all Coin_IsNotNegative coins)"

definition Coins_IsGTE :: "Coins \<Rightarrow> Coins \<Rightarrow> bool outcome" where
  "Coins_IsGTE coins coinsB = obind (Coins_Minus coins coinsB) (\<lambda>diff.
     Val (if length diff = 0 then True else Coins_IsNotNegative diff))"

definition Coins_IsZero :: "Coins \<Rightarrow> bool" where
  "Coins_IsZero coins = list_all Coin_IsZero coins"

definition Coins_IsEqual :: "Coins \<Rightarrow> Coins \<Rightarrow> bool" where
  "Coins_IsEqual coins coinsB =
     (if length coins \<noteq> length coinsB then False
      else list_all (\<lambda>(c, d). \<not> (Denom c \<noteq> Denom d \<or> \<not> Int_Equal (Amount c) (Amount d)))
             (zip coins coinsB))"

definition Coins_IsPositive :: "Coins \<Rightarrow> bool" where
  "Coins_IsPositive coins = (if length coins = 0 then False else list_all Coin_IsPositive coins)"

function AmountOf :: "Coins \<Rightarrow> string \<Rightarrow> sdk_int" where
  "AmountOf coins denom =
     (if length coins = 0 then ZeroInt
      else if length coins = 1 then
        (let coin = coins ! 0 in if Denom coin = denom then Amount coin else ZeroInt)
      else
        (let midIdx = length coins div 2;
             coin = coins ! midIdx
         in if denom < Denom coin then AmountOf (take midIdx coins) denom
            else if denom = Denom coin then Amount coin
            else AmountOf (drop (midIdx + 1) coins) denom))"
  by pat_completeness auto

termination AmountOf
  by (relation "measure (\<lambda>(coins, _). length coins)") auto

declare AmountOf.simps [simp del]

text \<open>
  \<open>sort.Sort\<close> is not stable; on distinct denominations, the only case in which the caller
  goes on to use the list, there is one sorted order.
\<close>

definition Coins_Sort :: "Coins \<Rightarrow> Coins" where
  "Coins_Sort coins = sort_key Denom coins"

section \<open>Parsing\<close>

definition is_alpha :: "char \<Rightarrow> bool" where
  "is_alpha c \<longleftrightarrow> (let n = of_char c :: nat in 65 \<le> n \<and> n \<le> 90 \<or> 97 \<le> n \<and> n \<le> 122)"

definition is_digit :: "char \<Rightarrow> bool" where
  "is_digit c \<longleftrightarrow> (let n = of_char c :: nat in 48 \<le> n \<and> n \<le> 57)"

definition is_alnum :: "char \<Rightarrow> bool" where
  "is_alnum c \<longleftrightarrow> is_alpha c \<or> is_digit c"

definition reDnm :: "string \<Rightarrow> bool" where
  "reDnm s = (case s of
     [] \<Rightarrow> False
   | c # cs \<Rightarrow> is_alpha c \<and> list_all is_alnum cs \<and> 2 \<le> length cs \<and> length cs \<le> 15)"

text \<open>
  The match of \<open>reCoin\<close>: a denomination starts with a letter, so the digits and the spaces
  before it are as long as they can be.
\<close>

definition reCoin :: "string \<Rightarrow> (string \<times> string) option" where
  "reCoin s =
     (let amt = takeWhile is_digit s;
          dnm = dropWhile is_space_char (dropWhile is_digit s)
      in if amt \<noteq> [] \<and> reDnm dnm then Some (amt, dnm) else None)"

definition ParseCoin :: "string \<Rightarrow> Coin option" where
  "ParseCoin coinStr =
     (let coinStr = TrimSpace coinStr
      in case reCoin coinStr of
           None \<Rightarrow> None
         | Some (amountStr, denomStr) \<Rightarrow>
             (case Atoi amountStr of
                ConvOk amount \<Rightarrow> Some \<lparr>Denom = denomStr, Amount = NewInt amount\<rparr>
              | _ \<Rightarrow> None))"

fun parse_coins_loop :: "string list \<Rightarrow> Coins option" where
  "parse_coins_loop [] = Some []"
| "parse_coins_loop (coinStr # rest) =
     (case ParseCoin coinStr of
        None \<Rightarrow> None
      | Some coin \<Rightarrow> map_option (\<lambda>coins. coin # coins) (parse_coins_loop rest))"

definition ParseCoins :: "string \<Rightarrow> Coins option" where
  "ParseCoins coinsStr =
     (let coinsStr = TrimSpace coinsStr
      in if length coinsStr = 0 then Some []
         else case parse_coins_loop (split_on (CHR '','') coinsStr) of
           None \<Rightarrow> None
         | Some coins \<Rightarrow>
             let coins = Coins_Sort coins
             in if \<not> Coins_IsValid coins then None else Some coins)"

section \<open>Amounts per denomination\<close>

primrec amt :: "Coins \<Rightarrow> string \<Rightarrow> int" where
  "amt [] d = 0"
| "amt (c # cs) d = (if Denom c = d then Amount c else amt cs d)"

definition sorted_denoms :: "Coins \<Rightarrow> bool" where
  "sorted_denoms cs \<longleftrightarrow> sorted_wrt (<) (map Denom cs)"

text \<open>Sorted without duplicates, no zero amount, every amount in the range of \<open>Int\<close>.\<close>

definition canonical :: "Coins \<Rightarrow> bool" where
  "canonical cs \<longleftrightarrow> sorted_denoms cs \<and> (\<forall>c \<in> set cs. Amount c \<noteq> 0 \<and> Int_range (Amount c))"

lemma sorted_denoms_simps [simp]:
  "sorted_denoms []"
  "sorted_denoms (c # cs) \<longleftrightarrow> (\<forall>x \<in> set cs. Denom c < Denom x) \<and> sorted_denoms cs"
  by (auto simp: sorted_denoms_def)

lemma canonical_simps [simp]:
  "canonical []"
  "canonical (c # cs) \<longleftrightarrow> Amount c \<noteq> 0 \<and> Int_range (Amount c)
     \<and> (\<forall>x \<in> set cs. Denom c < Denom x) \<and> canonical cs"
  by (auto simp: canonical_def)

lemma amt_notin [simp]: "d \<notin> Denom ` set cs \<Longrightarrow> amt cs d = 0"
  by (induction cs) auto

lemma amt_below [simp]: "\<forall>x \<in> set cs. d < Denom x \<Longrightarrow> amt cs d = 0"
  by (rule amt_notin) fastforce

lemma amt_in: "\<lbrakk>sorted_denoms cs; c \<in> set cs\<rbrakk> \<Longrightarrow> amt cs (Denom c) = Amount c"
  by (induction cs) auto

lemma amt_append:
  "sorted_denoms (xs @ ys) \<Longrightarrow> amt (xs @ ys) d = (if d \<in> Denom ` set xs then amt xs d else amt ys d)"
  by (induction xs) auto

lemma sorted_denoms_append:
  "sorted_denoms (xs @ ys) \<longleftrightarrow>
     sorted_denoms xs \<and> sorted_denoms ys \<and> (\<forall>x \<in> set xs. \<forall>y \<in> set ys. Denom x < Denom y)"
  by (auto simp: sorted_denoms_def sorted_wrt_append)

lemma Int_IsZero_iff [simp]: "Int_IsZero a \<longleftrightarrow> a = 0"
  by (auto simp: Int_IsZero_def sgn_if)

lemma Coin_IsZero_iff [simp]: "Coin_IsZero c \<longleftrightarrow> Amount c = 0"
  by (simp add: Coin_IsZero_def)

lemma Coin_IsNotNegative_iff [simp]: "Coin_IsNotNegative c \<longleftrightarrow> 0 \<le> Amount c"
  by (simp add: Coin_IsNotNegative_def Int_Sign_def sgn_if)

lemma Coin_IsPositive_iff [simp]: "Coin_IsPositive c \<longleftrightarrow> 0 < Amount c"
  by (simp add: Coin_IsPositive_def Int_Sign_def sgn_if)

lemma Coins_IsNotNegative_iff [simp]: "Coins_IsNotNegative cs \<longleftrightarrow> (\<forall>c \<in> set cs. 0 \<le> Amount c)"
  by (auto simp: Coins_IsNotNegative_def list_all_iff)

section \<open>The merge\<close>

lemma Coin_Plus_same:
  "Denom a = Denom b \<Longrightarrow>
     Coin_Plus a b = obind (Int_Add (Amount a) (Amount b)) (\<lambda>t. Val \<lparr>Denom = Denom a, Amount = t\<rparr>)"
  by (simp add: Coin_Plus_def SameDenomAs_def)

lemma plus_loop_same:
  "Denom a = Denom b \<Longrightarrow> plus_loop acc (a # as) (b # bs) =
     (if \<not> Int_range (Amount a + Amount b) then Panic (GoPanic ''Int overflow'')
      else if Amount a + Amount b = 0 then plus_loop acc as bs
      else plus_loop (acc @ [\<lparr>Denom = Denom a, Amount = Amount a + Amount b\<rparr>]) as bs)"
  by (simp add: Coin_Plus_same Int_Add_def Let_def BitLen_255)

definition merge_of :: "Coins \<Rightarrow> Coins \<Rightarrow> Coins \<Rightarrow> bool" where
  "merge_of as bs t \<longleftrightarrow>
     sorted_denoms t \<and> Denom ` set t \<subseteq> Denom ` (set as \<union> set bs)
     \<and> (\<forall>d. amt t d = amt as d + amt bs d)
     \<and> (canonical as \<and> canonical bs \<longrightarrow> canonical t)"

lemma merge_of_left:
  assumes "merge_of as bs t" and "sorted_denoms (c # as)" and "\<forall>b \<in> set bs. Denom c < Denom b"
  shows "merge_of (c # as) bs (c # t)"
proof -
  have lt: "Denom c < Denom x" if "x \<in> set t" for x
  proof -
    from that assms(1) have "Denom x \<in> Denom ` (set as \<union> set bs)"
      by (auto simp: merge_of_def)
    then show ?thesis using assms(2,3) by auto
  qed
  have "Denom c \<notin> Denom ` set bs" using assms(3) by auto
  then show ?thesis using assms(1) lt by (auto simp: merge_of_def)
qed

lemma merge_of_commute: "merge_of as bs t \<Longrightarrow> merge_of bs as t"
  by (auto simp: merge_of_def)

lemma merge_of_same:
  assumes "merge_of as bs t" and "sorted_denoms (a # as)" and "sorted_denoms (b # bs)"
    and "Denom a = Denom b" and "Int_range (Amount a + Amount b)"
  shows "merge_of (a # as) (b # bs)
    (if Amount a + Amount b = 0 then t else \<lparr>Denom = Denom a, Amount = Amount a + Amount b\<rparr> # t)"
proof -
  have lt: "Denom a < Denom x" if "x \<in> set t" for x
  proof -
    from that assms(1) have "Denom x \<in> Denom ` (set as \<union> set bs)"
      by (auto simp: merge_of_def)
    then show ?thesis using assms(2-4) by auto
  qed
  then have "Denom a \<notin> Denom ` set t" by fastforce
  then show ?thesis using assms lt by (auto simp: merge_of_def)
qed

lemma plus_loop_spec:
  assumes "sorted_denoms as" and "sorted_denoms bs" and "plus_loop acc as bs = Val r"
  shows "\<exists>t. r = acc @ t \<and> merge_of as bs t"
  using assms
proof (induction acc as bs rule: plus_loop.induct)
  case (1 acc bs)
  then show ?case by (auto simp: merge_of_def)
next
  case (2 acc a as)
  then show ?case by (auto simp: merge_of_def)
next
  case (3 acc a as b bs)
  consider "Denom a < Denom b" | "Denom a = Denom b" | "Denom b < Denom a" by force
  then show ?case
  proof cases
    case 1
    then obtain t where "r = (acc @ [a]) @ t" "merge_of as (b # bs) t"
      using 3 by auto
    moreover have "\<forall>x \<in> set (b # bs). Denom a < Denom x" using 1 3(6) by auto
    ultimately show ?thesis using merge_of_left 3(5) by fastforce
  next
    case 2
    have rng: "Int_range (Amount a + Amount b)" using 3(7) 2 
      by (simp only: plus_loop_same split: if_splits) simp
    have sorted: "sorted_denoms as" "sorted_denoms bs" using 3(5,6) by auto
    have "\<exists>t. r = acc @ (if Amount a + Amount b = 0 then t
        else \<lparr>Denom = Denom a, Amount = Amount a + Amount b\<rparr> # t) \<and> merge_of as bs t"
      using 3(2) [of "Amount a + Amount b"] 3(3) [of "Amount a + Amount b"] 3(7) 2 rng sorted
      by (auto simp: Coin_Plus_same Int_Add_def Let_def BitLen_255 split: if_splits)
    then show ?thesis using merge_of_same [OF _ 3(5,6) 2 rng] by blast
  next
    case 3
    then have "\<not> Denom a < Denom b" "Denom a \<noteq> Denom b" by auto
    then obtain t where "r = (acc @ [b]) @ t" "merge_of (a # as) bs t"
      using "3.IH"(4) "3.prems" by auto
    moreover have "\<forall>x \<in> set (a # as). Denom b < Denom x" using 3 "3.prems"(1) by auto
    ultimately show ?thesis
      using merge_of_left [OF merge_of_commute] merge_of_commute "3.prems"(2) by fastforce
  qed
qed

lemma Coins_Plus_spec:
  "\<lbrakk>sorted_denoms as; sorted_denoms bs; Coins_Plus as bs = Val r\<rbrakk> \<Longrightarrow> merge_of as bs r"
  using plus_loop_spec [of as bs "[]" r] by (simp add: Coins_Plus_def)

lemmas Coins_Plus_facts = Coins_Plus_spec [unfolded merge_of_def]

lemma plus_loop_returns:
  "\<lbrakk>sorted_denoms as; sorted_denoms bs\<rbrakk> \<Longrightarrow>
     is_val (plus_loop acc as bs) \<longleftrightarrow>
       (\<forall>a \<in> set as. \<forall>b \<in> set bs. Denom a = Denom b \<longrightarrow> Int_range (Amount a + Amount b))"
proof (induction acc as bs rule: plus_loop.induct)
  case (3 acc a as b bs)
  have notin: "\<forall>x \<in> set bs. Denom b < Denom x" "\<forall>x \<in> set as. Denom a < Denom x"
    using "3.prems" by auto
  consider "Denom a < Denom b" | "Denom a = Denom b" | "Denom b < Denom a" by force
  then show ?case
  proof cases
    case 1
    then have "\<forall>x \<in> set (b # bs). Denom a \<noteq> Denom x" using notin by fastforce
    then show ?thesis using 1 "3.IH"(1) "3.prems" by auto
  next
    case 2
    have "\<forall>x \<in> set bs. Denom a \<noteq> Denom x" "\<forall>x \<in> set as. Denom x \<noteq> Denom b"
      using notin 2 by fastforce+
    then show ?thesis
      using 2 "3.IH"(2) [of "Amount a + Amount b"] "3.IH"(3) [of "Amount a + Amount b"] "3.prems"
      by (auto simp: Coin_Plus_same Int_Add_def Let_def BitLen_255)
  next
    case 3
    then have "\<not> Denom a < Denom b" "Denom a \<noteq> Denom b" by auto
    moreover have "\<forall>x \<in> set (a # as). Denom x \<noteq> Denom b" using 3 notin by fastforce
    ultimately show ?thesis using "3.IH"(4) "3.prems" by auto
  qed
qed auto

text \<open>With canonical operands, \<open>Plus\<close> returns exactly when every sum fits.\<close>

lemma Coins_Plus_returns:
  assumes "canonical as" and "canonical bs"
  shows "is_val (Coins_Plus as bs) \<longleftrightarrow> (\<forall>d. Int_range (amt as d + amt bs d))"
proof -
  have sorted: "sorted_denoms as" "sorted_denoms bs" using assms by (simp_all add: canonical_def)
  have rng: "Int_range (amt cs d)" if "canonical cs" for cs d
    using that by (induction cs) (auto simp: Int_range_def)
  have "Int_range (amt as d + amt bs d)"
    if all: "\<forall>a \<in> set as. \<forall>b \<in> set bs. Denom a = Denom b \<longrightarrow> Int_range (Amount a + Amount b)" for d
  proof (cases "d \<in> Denom ` set as \<and> d \<in> Denom ` set bs")
    case True
    then show ?thesis using all amt_in sorted by fastforce
  next
    case False
    then have "amt as d = 0 \<or> amt bs d = 0" by (meson amt_notin)
    then show ?thesis using rng [OF assms(1), of d] rng [OF assms(2), of d] by auto
  qed
  moreover have "Int_range (Amount a + Amount b)"
    if "\<forall>d. Int_range (amt as d + amt bs d)" "a \<in> set as" "b \<in> set bs" "Denom a = Denom b" for a b
    using that amt_in [OF sorted(1), of a] amt_in [OF sorted(2), of b] by metis
  ultimately show ?thesis
    unfolding Coins_Plus_def plus_loop_returns [OF sorted] by blast
qed

section \<open>Negation, subtraction, comparison\<close>

lemma Denom_Negative [simp]: "map Denom (Coins_Negative cs) = map Denom cs"
  by (simp add: Coins_Negative_def)

lemma sorted_denoms_Negative [simp]: "sorted_denoms (Coins_Negative cs) = sorted_denoms cs"
  by (simp add: sorted_denoms_def)

lemma amt_Negative [simp]: "amt (Coins_Negative cs) d = - amt cs d"
  by (induction cs) (auto simp: Coins_Negative_def Int_Neg_def)

lemma canonical_Negative [simp]: "canonical (Coins_Negative cs) = canonical cs"
proof -
  have "Int_range (- a) = Int_range a" for a by (auto simp: Int_range_def)
  then show ?thesis
    by (simp add: canonical_def) (simp add: Coins_Negative_def Int_Neg_def)
qed

lemma Coins_Minus_facts:
  assumes "sorted_denoms as" and "sorted_denoms bs" and "Coins_Minus as bs = Val r"
  shows "sorted_denoms r" and "amt r d = amt as d - amt bs d"
    and "canonical as \<Longrightarrow> canonical bs \<Longrightarrow> canonical r"
  using Coins_Plus_facts [of as "Coins_Negative bs" r] assms by (simp_all add: Coins_Minus_def)

lemma sorted_nonneg_iff:
  "sorted_denoms cs \<Longrightarrow> (\<forall>c \<in> set cs. 0 \<le> Amount c) \<longleftrightarrow> (\<forall>d. 0 \<le> amt cs d)"
proof
  assume "\<forall>c \<in> set cs. 0 \<le> Amount c"
  then show "\<forall>d. 0 \<le> amt cs d" by (induction cs) auto
next
  assume "sorted_denoms cs" "\<forall>d. 0 \<le> amt cs d"
  then show "\<forall>c \<in> set cs. 0 \<le> Amount c" using amt_in by metis
qed

lemma Coins_IsGTE_iff:
  assumes "sorted_denoms as" and "sorted_denoms bs" and "Coins_IsGTE as bs = Val v"
  shows "v \<longleftrightarrow> (\<forall>d. amt bs d \<le> amt as d)"
proof -
  obtain r where r: "Coins_Minus as bs = Val r" and v: "v \<longleftrightarrow> Coins_IsNotNegative r"
    using assms(3) by (auto simp: Coins_IsGTE_def obind_Val_iff split: if_splits)
  have "v \<longleftrightarrow> (\<forall>d. 0 \<le> amt r d)"
    using v sorted_nonneg_iff Coins_Minus_facts(1) [OF assms(1,2) r] by simp
  then show ?thesis using Coins_Minus_facts(2) [OF assms(1,2) r] by simp
qed

text \<open>A canonical list is determined by its amounts.\<close>

lemma sorted_nonzero_ext:
  assumes "sorted_denoms as" and "\<forall>c \<in> set as. Amount c \<noteq> 0"
    and "sorted_denoms bs" and "\<forall>c \<in> set bs. Amount c \<noteq> 0" and "\<And>d. amt as d = amt bs d"
  shows "as = bs"
proof -
  have dom: "Denom ` set cs = {d. amt cs d \<noteq> 0}"
    if "sorted_denoms cs" "\<forall>c \<in> set cs. Amount c \<noteq> 0" for cs
    using that amt_in [of cs] by auto (metis amt_notin)
  have "set (map Denom as) = set (map Denom bs)"
    unfolding set_map dom [OF assms(1,2)] dom [OF assms(3,4)] assms(5) ..
  then have denoms: "map Denom as = map Denom bs"
    using assms(1,3) unfolding sorted_denoms_def
    by (intro strict_sorted_equal) auto
  show ?thesis
  proof (rule nth_equalityI)
    show len: "length as = length bs" using denoms by (metis length_map)
    fix i assume i: "i < length as"
    then have d: "Denom (as ! i) = Denom (bs ! i)" using denoms len by (metis nth_map)
    moreover have "Amount (as ! i) = Amount (bs ! i)"
      using amt_in [of as "as ! i"] amt_in [of bs "bs ! i"] assms d i len
      by simp
    ultimately show "as ! i = bs ! i" by simp
  qed
qed

lemma canonical_ext:
  assumes "canonical as" and "canonical bs" and "\<And>d. amt as d = amt bs d"
  shows "as = bs"
  using assms sorted_nonzero_ext [of as bs] by (auto simp: canonical_def)

lemma Coins_Plus_positive:
  assumes "sorted_denoms as" and "sorted_denoms bs" and "Coins_Plus as bs = Val r"
    and "\<forall>c \<in> set as \<union> set bs. 0 < Amount c"
  shows "\<forall>c \<in> set r. 0 < Amount c"
proof
  fix c assume c: "c \<in> set r"
  have dom: "Denom ` set r \<subseteq> Denom ` (set as \<union> set bs)" and r: "sorted_denoms r"
    and amts: "amt r (Denom c) = amt as (Denom c) + amt bs (Denom c)"
    using Coins_Plus_facts [OF assms(1-3)] by blast+
  obtain x where x: "x \<in> set as \<union> set bs" "Denom x = Denom c" using dom c by (metis imageE image_eqI subsetD)
  have nn: "0 \<le> amt as (Denom c)" "0 \<le> amt bs (Denom c)"
    using sorted_nonneg_iff [OF assms(1)] sorted_nonneg_iff [OF assms(2)] assms(4) by (auto simp: less_imp_le)
  have "0 < amt as (Denom c) \<or> 0 < amt bs (Denom c)"
    using x amt_in [OF assms(1), of x] amt_in [OF assms(2), of x] assms(4) by auto
  then have "0 < amt r (Denom c)" using amts nn by linarith
  then show "0 < Amount c" using amt_in [OF r c] by simp
qed

lemma Coins_IsEqual_iff: "Coins_IsEqual as bs \<longleftrightarrow> as = bs"
proof (cases "length as = length bs")
  case True
  then show ?thesis
    by (induction as bs rule: list_induct2) (auto simp: Coins_IsEqual_def Int_Equal_def)
next
  case False
  then show ?thesis by (auto simp: Coins_IsEqual_def)
qed

section \<open>Validity and lookup\<close>

lemma isvalid_loop_iff:
  "isvalid_loop low cs \<longleftrightarrow>
     sorted_denoms cs \<and> (\<forall>c \<in> set cs. low < Denom c \<and> Amount c \<noteq> 0)"
proof (induction low cs rule: isvalid_loop.induct)
  case (2 low c cs)
  have trans: "low < Denom x" if "low < Denom c" "Denom c < Denom x" for x :: Coin
    using that by (rule less_trans)
  show ?case
    using 2 trans by (cases "Denom c \<le> low"; cases "Amount c = 0") (auto simp: not_le)
qed simp

lemma Coins_IsValid_iff:
  "Coins_IsValid cs \<longleftrightarrow>
     sorted_denoms cs \<and> (\<forall>c \<in> set (tl cs). Amount c \<noteq> 0) \<and> (length cs = 1 \<longrightarrow> Amount (hd cs) \<noteq> 0)"
  by (cases cs; cases "tl cs") (auto simp: Coins_IsValid_def isvalid_loop_iff split: list.splits)

lemma canonical_valid: "canonical cs \<Longrightarrow> Coins_IsValid cs"
  by (cases cs) (auto simp: Coins_IsValid_iff canonical_def)

lemma AmountOf_sorted: "sorted_denoms cs \<Longrightarrow> AmountOf cs d = amt cs d"
proof (induction cs d rule: AmountOf.induct)
  case (1 cs d)
  consider "cs = []" | c where "cs = [c]" | "length cs \<ge> 2"
    by (cases cs; cases "tl cs") auto
  then show ?case
  proof cases
    case 1
    then show ?thesis by (simp add: AmountOf.simps ZeroInt_def)
  next
    case 2
    then show ?thesis by (simp add: AmountOf.simps ZeroInt_def)
  next
    case 3
    let ?m = "length cs div 2"
    have m: "?m < length cs" using 3 by simp
    have cs: "cs = take ?m cs @ cs ! ?m # drop (?m + 1) cs"
      using id_take_nth_drop [OF m] by simp
    have parts: "sorted_denoms (take ?m cs)" "sorted_denoms (drop (?m + 1) cs)"
      "\<forall>x \<in> set (take ?m cs). Denom x < Denom (cs ! ?m)"
      "\<forall>x \<in> set (drop (?m + 1) cs). Denom (cs ! ?m) < Denom x"
      using "1.prems" sorted_denoms_append [of "take ?m cs" "cs ! ?m # drop (?m + 1) cs"] cs by simp_all
    have lookup: "amt cs d = (if d \<in> Denom ` set (take ?m cs) then amt (take ?m cs) d
        else if Denom (cs ! ?m) = d then Amount (cs ! ?m) else amt (drop (?m + 1) cs) d)"
      using amt_append [of "take ?m cs" "cs ! ?m # drop (?m + 1) cs" d] "1.prems" cs by simp
    have unfold: "AmountOf cs d = (if d < Denom (cs ! ?m) then AmountOf (take ?m cs) d
        else if d = Denom (cs ! ?m) then Amount (cs ! ?m) else AmountOf (drop (?m + 1) cs) d)"
    proof -
      have "length cs \<noteq> 0" "length cs \<noteq> 1" using 3 by auto
      then show ?thesis by (simp only: AmountOf.simps [of cs d] Let_def if_False)
    qed
    consider "d < Denom (cs ! ?m)" | "d = Denom (cs ! ?m)" | "Denom (cs ! ?m) < d" by force
    then show ?thesis
    proof cases
      case 1
      then have "\<forall>x \<in> set (drop (?m + 1) cs). d < Denom x" using parts(4) less_trans by blast
      then show ?thesis using 1 "1.IH"(1) [OF _ _ refl refl] 3 parts lookup unfold by fastforce
    next
      case 2
      then have "d \<notin> Denom ` set (take ?m cs)" using parts(3) by fastforce
      then show ?thesis using 2 lookup unfold by simp
    next
      case 3
      then have "d \<notin> Denom ` set (take ?m cs)" using parts(3) by fastforce
      moreover have "\<not> d < Denom (cs ! ?m)" "d \<noteq> Denom (cs ! ?m)" using 3 by auto
      ultimately show ?thesis
        using "1.IH"(2) [OF _ _ refl refl] \<open>2 \<le> length cs\<close> parts lookup unfold by fastforce
    qed
  qed
qed

section \<open>Text round trip\<close>

lemma is_digit_digit_char [simp]: "d < 10 \<Longrightarrow> is_digit (digit_char d)"
  by (simp add: is_digit_def digit_char_def)

lemma show_nat_digits: "c \<in> set (show_nat n) \<Longrightarrow> is_digit c"
proof (induction n rule: show_nat.induct)
  case (1 n)
  then show ?case by (auto simp: show_nat.simps [of n] split: if_splits)
qed

lemma show_nat_nonempty [simp]: "show_nat n \<noteq> []"
  by (subst show_nat.simps) simp

lemma is_alpha_facts:
  assumes "is_alpha c"
  shows "\<not> is_digit c" and "\<not> is_space_char c" and "plain_char c" and "c \<noteq> CHR '',''"
  using assms by (auto simp: is_alpha_def is_digit_def is_space_char_def plain_char_def Let_def)

lemma is_digit_facts:
  assumes "is_digit c"
  shows "\<not> is_space_char c" and "plain_char c" and "c \<noteq> CHR '',''"
  using assms by (auto simp: is_digit_def is_space_char_def plain_char_def Let_def)

definition printable_coin :: "Coin \<Rightarrow> bool" where
  "printable_coin c \<longleftrightarrow> reDnm (Denom c) \<and> 0 \<le> Amount c \<and> Amount c < 2 ^ 63"

lemma reDnm_chars:
  assumes "reDnm dnm"
  shows "dnm \<noteq> []" and "is_alpha (hd dnm)" and "\<forall>c \<in> set dnm. is_alnum c"
  using assms by (auto simp: reDnm_def is_alnum_def list_all_iff split: list.splits)

lemma Coin_String_ends:
  assumes "printable_coin c"
  shows "Coin_String c \<noteq> []" and "plain_char (hd (Coin_String c))"
    and "plain_char (last (Coin_String c))" and "CHR '','' \<notin> set (Coin_String c)"
proof -
  have str: "Coin_String c = show_nat (nat (Amount c)) @ Denom c" and dnm: "reDnm (Denom c)"
    using assms by (simp_all add: printable_coin_def Coin_String_def Int_String_def show_int_def)
  show "Coin_String c \<noteq> []" by (simp add: str)
  have "is_digit (hd (show_nat (nat (Amount c))))"
    by (rule show_nat_digits [of _ "nat (Amount c)"]) simp
  then show "plain_char (hd (Coin_String c))" by (simp add: str is_digit_facts)
  have "is_alnum (last (Denom c))" using reDnm_chars(1,3) [OF dnm] by simp
  then show "plain_char (last (Coin_String c))"
    using reDnm_chars(1) [OF dnm] is_alpha_facts(3) is_digit_facts(2) by (auto simp: str is_alnum_def)
  have "is_alnum x" if "x \<in> set (Coin_String c)" for x
    using that show_nat_digits reDnm_chars(3) [OF dnm] by (auto simp: str is_alnum_def)
  then show "CHR '','' \<notin> set (Coin_String c)"
    using is_alpha_facts(4) is_digit_facts(3) by (auto simp: is_alnum_def)
qed

lemma reCoin_print:
  assumes "reDnm dnm"
  shows "reCoin (show_nat n @ dnm) = Some (show_nat n, dnm)"
proof -
  obtain x xs where dnm: "dnm = x # xs" and x: "is_alpha x"
    using reDnm_chars(1,2) [OF assms] by (cases dnm) auto
  have "takeWhile is_digit (show_nat n @ dnm) = show_nat n"
    and "dropWhile is_digit (show_nat n @ dnm) = dnm"
    using dnm x show_nat_digits is_alpha_facts(1) by (simp_all add: takeWhile_append dropWhile_append)
  moreover have "dropWhile is_space_char dnm = dnm" using dnm x is_alpha_facts(2) by simp
  ultimately show ?thesis using assms by (simp add: reCoin_def)
qed

lemma ParseCoin_print: "printable_coin c \<Longrightarrow> ParseCoin (Coin_String c) = Some c"
proof -
  assume c: "printable_coin c"
  have str: "Coin_String c = show_nat (nat (Amount c)) @ Denom c"
    using c by (simp add: printable_coin_def Coin_String_def Int_String_def show_int_def)
  have "Atoi (show_nat (nat (Amount c))) = ConvOk (Amount c)"
    using Atoi_show_nat [of "nat (Amount c)"] c by (simp add: printable_coin_def)
  then show ?thesis
    using TrimSpace_plain [OF Coin_String_ends(1-3) [OF c]] reCoin_print [of "Denom c"] c
    by (simp add: ParseCoin_def str NewInt_def printable_coin_def)
qed

lemma Coins_String_join: "cs \<noteq> [] \<Longrightarrow> Coins_String cs = join_on (CHR '','') (map Coin_String cs)"
proof (induction cs)
  case (Cons c cs)
  show ?case
  proof (cases cs)
    case Nil
    then show ?thesis by (simp add: Coins_String_def)
  next
    case (Cons d ds)
    then show ?thesis using Cons.IH by (simp add: Coins_String_def butlast_append)
  qed
qed simp

lemma parse_coins_loop_print:
  "\<forall>c \<in> set cs. printable_coin c \<Longrightarrow> parse_coins_loop (map Coin_String cs) = Some cs"
  by (induction cs) (auto simp: ParseCoin_print)

lemma join_on_ends:
  assumes "ws \<noteq> []" and "\<forall>w \<in> set ws. w \<noteq> []"
  shows "join_on c ws \<noteq> []" and "hd (join_on c ws) = hd (hd ws)" and "last (join_on c ws) = last (last ws)"
  using assms by (induction c ws rule: join_on.induct) auto

lemma Coins_String_ends:
  assumes "cs \<noteq> []" and "\<forall>c \<in> set cs. printable_coin c"
  shows "TrimSpace (Coins_String cs) = Coins_String cs" and "Coins_String cs \<noteq> []"
proof -
  let ?s = "Coins_String cs"
  have "?s \<noteq> []" "hd ?s = hd (Coin_String (hd cs))" "last ?s = last (Coin_String (last cs))"
    using join_on_ends [of "map Coin_String cs"] assms Coin_String_ends(1)
    by (auto simp: Coins_String_join hd_map last_map)
  moreover have "printable_coin (hd cs)" "printable_coin (last cs)" using assms by auto
  ultimately show "TrimSpace ?s = ?s" and "?s \<noteq> []"
    using Coin_String_ends(2,3) by (auto intro!: TrimSpace_plain)
qed

section \<open>Coins as a purse\<close>

text \<open>
  What a client that moves coins relies on: a balance per denomination, addition and
  subtraction that act on every balance, and that the balances determine the value.
\<close>

locale purse =
  fixes bal :: "'c \<Rightarrow> string \<Rightarrow> int"
    and ok :: "'c \<Rightarrow> bool"
    and plus minus :: "'c \<Rightarrow> 'c \<Rightarrow> 'c outcome"
  assumes plus_ok: "\<lbrakk>ok a; ok b; plus a b = Val c\<rbrakk> \<Longrightarrow> ok c"
    and plus_bal: "\<lbrakk>ok a; ok b; plus a b = Val c\<rbrakk> \<Longrightarrow> bal c d = bal a d + bal b d"
    and minus_ok: "\<lbrakk>ok a; ok b; minus a b = Val c\<rbrakk> \<Longrightarrow> ok c"
    and minus_bal: "\<lbrakk>ok a; ok b; minus a b = Val c\<rbrakk> \<Longrightarrow> bal c d = bal a d - bal b d"
    and ext: "\<lbrakk>ok a; ok b; \<And>d. bal a d = bal b d\<rbrakk> \<Longrightarrow> a = b"
begin

lemma transfer_conserves:
  "\<lbrakk>ok a; ok b; ok c; minus a c = Val a'; plus b c = Val b'\<rbrakk>
   \<Longrightarrow> bal a' d + bal b' d = bal a d + bal b d"
  by (simp add: plus_bal minus_bal)

lemma plus_minus_cancel: "\<lbrakk>ok a; ok b; plus a b = Val c; minus c b = Val r\<rbrakk> \<Longrightarrow> r = a"
proof -
  assume a: "ok a" and b: "ok b" and p: "plus a b = Val c" and m: "minus c b = Val r"
  have c: "ok c" using plus_ok [OF a b p] .
  show "r = a"
    by (rule ext [OF minus_ok [OF c b m] a]) (simp add: minus_bal [OF c b m] plus_bal [OF a b p])
qed

lemma plus_commute: "\<lbrakk>ok a; ok b; plus a b = Val c; plus b a = Val c'\<rbrakk> \<Longrightarrow> c = c'"
  by (rule ext [OF plus_ok plus_ok]) (auto simp: plus_bal)

lemma plus_assoc:
  assumes "ok a" and "ok b" and "ok c" and "plus a b = Val x" and "plus x c = Val l"
    and "plus b c = Val y" and "plus a y = Val r"
  shows "l = r"
proof -
  have x: "ok x" and y: "ok y"
    using plus_ok [OF assms(1,2,4)] plus_ok [OF assms(2,3,6)] .
  show ?thesis
    by (rule ext [OF plus_ok [OF x assms(3,5)] plus_ok [OF assms(1) y assms(7)]])
      (simp add: plus_bal [OF x assms(3,5)] plus_bal [OF assms(1) y assms(7)]
        plus_bal [OF assms(1,2,4)] plus_bal [OF assms(2,3,6)])
qed

end

interpretation coins: purse amt canonical Coins_Plus Coins_Minus
proof
  fix a b c d
  assume a: "canonical a" and b: "canonical b"
  then have s: "sorted_denoms a" "sorted_denoms b" by (simp_all add: canonical_def)
  show "canonical c" and "amt c d = amt a d + amt b d" if "Coins_Plus a b = Val c"
    using Coins_Plus_facts [OF s that] a b by simp_all
  show "canonical c" and "amt c d = amt a d - amt b d" if "Coins_Minus a b = Val c"
    using Coins_Minus_facts [OF s that] a b by simp_all
qed (fact canonical_ext)

section \<open>Properties\<close>

text \<open>
  C23: on canonical operands (sorted, no duplicates, no zeros, amounts in range) \<open>Coins.Plus\<close>
  returns exactly when the sum of the two amounts of every denomination is in range, and its
  result is the one canonical list with these sums; so the contract that \<open>Plus\<close> never returns
  a zero amount holds.
\<close>

theorem Coins_Plus_correct:
  assumes "canonical as" and "canonical bs"
  shows "((\<exists>r. Coins_Plus as bs = Val r) \<longleftrightarrow> (\<forall>d. Int_range (amt as d + amt bs d)))
    \<and> (\<forall>r. Coins_Plus as bs = Val r \<longrightarrow> canonical r \<and> (\<forall>d. amt r d = amt as d + amt bs d))"
proof (intro conjI allI impI)
  show "(\<exists>r. Coins_Plus as bs = Val r) \<longleftrightarrow> (\<forall>d. Int_range (amt as d + amt bs d))"
    using Coins_Plus_returns [OF assms] by (simp only: is_val_def)
  fix r d
  assume r: "Coins_Plus as bs = Val r"
  show "canonical r" using assms r by (rule coins.plus_ok)
  show "amt r d = amt as d + amt bs d" using assms r by (rule coins.plus_bal)
qed

theorem Coins_Plus_correct_witness:
  "(let as = [NewCoin ''atom'' 3, NewCoin ''photon'' 5]; bs = [NewCoin ''atom'' (- 3), NewCoin ''eth'' 1]
    in Coins_Plus as bs = Val [NewCoin ''eth'' 1, NewCoin ''photon'' 5]
       \<and> canonical [NewCoin ''eth'' 1, NewCoin ''photon'' 5]
       \<and> amt [NewCoin ''eth'' 1, NewCoin ''photon'' 5] ''atom'' = amt as ''atom'' + amt bs ''atom'')"
proof -
  have run: "Coins_Plus [NewCoin ''atom'' 3, NewCoin ''photon'' 5] [NewCoin ''atom'' (- 3), NewCoin ''eth'' 1]
      = Val [NewCoin ''eth'' 1, NewCoin ''photon'' 5]"
    by code_simp
  have "canonical [NewCoin ''atom'' 3, NewCoin ''photon'' 5]"
    and "canonical [NewCoin ''atom'' (- 3), NewCoin ''eth'' 1]"
    by (simp_all add: NewCoin_def NewInt_def Int_range_def)
  from Coins_Plus_correct [OF this] run show ?thesis by (auto simp: Let_def)
qed

text \<open>
  Subtracting what was added gives the same list back, and moving coins from one balance
  to another changes no total: what \<open>Minus\<close> takes, \<open>Plus\<close> adds, in every denomination.
\<close>

theorem Coins_transfer:
  assumes "canonical a" and "canonical b" and "canonical c"
    and "Coins_Minus a c = Val a'" and "Coins_Plus b c = Val b'"
  shows "amt a' d + amt b' d = amt a d + amt b d \<and> Coins_Minus b' c = Val b"
proof
  show "amt a' d + amt b' d = amt a d + amt b d"
    using assms by (rule coins.transfer_conserves)
  have b': "canonical b'" using assms(2,3,5) by (rule coins.plus_ok)
  have rng: "Int_range (amt b x)" for x
    using assms(2) by (induction b) (auto simp: Int_range_def)
  have "is_val (Coins_Minus b' c)"
    unfolding Coins_Minus_def using Coins_Plus_returns [OF b', of "Coins_Negative c"] assms(3) rng
    by (simp add: coins.plus_bal [OF assms(2,3,5)])
  then obtain r where r: "Coins_Minus b' c = Val r" by (auto simp: is_val_def)
  then show "Coins_Minus b' c = Val b"
    using coins.plus_minus_cancel [OF assms(2,3,5) r] by simp
qed

theorem Coins_transfer_witness:
  "Coins_Minus [NewCoin ''atom'' 7] [NewCoin ''atom'' 2] = Val [NewCoin ''atom'' 5]
   \<and> amt [NewCoin ''atom'' 5] ''atom'' + amt [NewCoin ''atom'' 3] ''atom'' = 7 + 1
   \<and> Coins_Minus [NewCoin ''atom'' 3] [NewCoin ''atom'' 2] = Val [NewCoin ''atom'' 1]"
proof -
  have c: "canonical [NewCoin ''atom'' 7]" "canonical [NewCoin ''atom'' 1]" "canonical [NewCoin ''atom'' 2]"
    by (simp_all add: NewCoin_def NewInt_def Int_range_def)
  have r: "Coins_Minus [NewCoin ''atom'' 7] [NewCoin ''atom'' 2] = Val [NewCoin ''atom'' 5]"
    "Coins_Plus [NewCoin ''atom'' 1] [NewCoin ''atom'' 2] = Val [NewCoin ''atom'' 3]"
    by code_simp+
  show ?thesis
    using Coins_transfer [OF c r, of "''atom''"] r
    by (simp add: NewCoin_def NewInt_def)
qed

text \<open>
  When \<open>IsGTE\<close> returns, its answer is that every denomination is present at an equal or
  greater amount.
\<close>

theorem Coins_IsGTE_correct:
  assumes "canonical as" and "canonical bs" and "Coins_IsGTE as bs = Val v"
  shows "v \<longleftrightarrow> (\<forall>d. amt bs d \<le> amt as d)"
  using Coins_IsGTE_iff assms by (simp add: canonical_def)

theorem Coins_IsGTE_correct_witness:
  "Coins_IsGTE [NewCoin ''atom'' 7] [NewCoin ''atom'' 8] = Val False
   \<and> \<not> (\<forall>d. amt [NewCoin ''atom'' 8] d \<le> amt [NewCoin ''atom'' 7] d)"
proof -
  have c: "canonical [NewCoin ''atom'' 7]" "canonical [NewCoin ''atom'' 8]"
    by (simp_all add: NewCoin_def NewInt_def Int_range_def)
  have r: "Coins_IsGTE [NewCoin ''atom'' 7] [NewCoin ''atom'' 8] = Val False" by code_simp
  show ?thesis using Coins_IsGTE_correct [OF c r] r by blast
qed

text \<open>
  C24: on coins that \<open>IsValid\<close> accepts, the binary search of \<open>AmountOf\<close> finds the amount of
  every denomination, and zero for the others.
\<close>

theorem AmountOf_correct:
  assumes "Coins_IsValid cs"
  shows "AmountOf cs d = amt cs d \<and> (c \<in> set cs \<longrightarrow> AmountOf cs (Denom c) = Amount c)"
  using assms AmountOf_sorted [of cs] amt_in [of cs] by (simp_all add: Coins_IsValid_iff)

theorem AmountOf_correct_witness:
  "AmountOf [NewCoin ''atom'' 7, NewCoin ''eth'' 2, NewCoin ''photon'' 9] ''photon'' = 9"
  using AmountOf_correct [of "[NewCoin ''atom'' 7, NewCoin ''eth'' 2, NewCoin ''photon'' 9]" "''photon''"]
  by (simp add: Coins_IsValid_iff NewCoin_def NewInt_def)

text \<open>
  \<open>IsValid\<close> accepts exactly the lists whose denominations are strictly increasing and
  whose amounts other than the first are not zero; the first amount is only looked at when it
  is the only one, so a list of two or more coins may start with a zero amount.
\<close>

theorem Coins_IsValid_exact:
  "Coins_IsValid cs \<longleftrightarrow> sorted_wrt (<) (map Denom cs)
     \<and> (\<forall>i. 0 < i \<and> i < length cs \<longrightarrow> Amount (cs ! i) \<noteq> 0)
     \<and> (length cs = 1 \<longrightarrow> Amount (cs ! 0) \<noteq> 0)"
proof -
  have "(\<forall>c \<in> set (tl cs). Amount c \<noteq> 0) \<longleftrightarrow> (\<forall>i. 0 < i \<and> i < length cs \<longrightarrow> Amount (cs ! i) \<noteq> 0)"
    by (cases cs) (auto simp: all_set_conv_all_nth gr0_conv_Suc)
  then show ?thesis
    by (cases cs) (auto simp: Coins_IsValid_iff sorted_denoms_def)
qed

theorem Coins_IsValid_exact_witness:
  "Coins_IsValid [NewCoin ''atom'' 0, NewCoin ''eth'' 2] \<and> \<not> Coins_IsValid [NewCoin ''atom'' 0]"
  using Coins_IsValid_exact [of "[NewCoin ''atom'' 0, NewCoin ''eth'' 2]"]
    Coins_IsValid_exact [of "[NewCoin ''atom'' 0]"]
  by (auto simp: NewCoin_def NewInt_def less_Suc_eq)

text \<open>
  C25: printing valid coins and parsing the text gives the same coins, when the denominations
  have the form the parser accepts and the amounts are not negative and fit an \<open>int64\<close>.
\<close>

theorem ParseCoins_String:
  assumes "Coins_IsValid cs" and "\<forall>c \<in> set cs. reDnm (Denom c) \<and> 0 \<le> Amount c \<and> Amount c < 2 ^ 63"
  shows "ParseCoins (Coins_String cs) = Some cs"
proof (cases "cs = []")
  case True
  then show ?thesis by (simp add: ParseCoins_def Coins_String_def TrimSpace_def)
next
  case False
  have p: "\<forall>c \<in> set cs. printable_coin c" using assms(2) by (simp add: printable_coin_def)
  have "split_on (CHR '','') (Coins_String cs) = map Coin_String cs"
    using Coins_String_join [OF False] split_on_join [of "map Coin_String cs" "CHR '',''"] False p
    by (simp add: Coin_String_ends(4))
  moreover have "Coins_Sort cs = cs"
    unfolding Coins_Sort_def using assms(1)
    by (intro sort_key_id_if_sorted strict_sorted_imp_sorted) (simp add: Coins_IsValid_iff sorted_denoms_def)
  ultimately show ?thesis
    using Coins_String_ends [OF False p] parse_coins_loop_print [OF p] assms(1)
    by (simp add: ParseCoins_def Let_def)
qed

theorem ParseCoins_String_witness:
  "Coins_String [NewCoin ''atom'' 7, NewCoin ''eth'' 12] = ''7atom,12eth''
   \<and> ParseCoins ''7atom,12eth'' = Some [NewCoin ''atom'' 7, NewCoin ''eth'' 12]"
proof -
  have s: "Coins_String [NewCoin ''atom'' 7, NewCoin ''eth'' 12] = ''7atom,12eth''" by code_simp
  have "Coins_IsValid [NewCoin ''atom'' 7, NewCoin ''eth'' 12]"
    and "\<forall>c \<in> set [NewCoin ''atom'' 7, NewCoin ''eth'' 12].
      reDnm (Denom c) \<and> 0 \<le> Amount c \<and> Amount c < 2 ^ 63"
    by code_simp+
  from ParseCoins_String [OF this] s show ?thesis by simp
qed

end
