(* ===== verification/SdkErrors.thy ===== *)
theory SdkErrors
  imports Prelude "HOL-Library.Word"
begin

unbundle bit_operations_syntax

text \<open>
  Errors, results, tags and codespaces: \<open>types/errors.go\<close>, \<open>types/result.go\<close>,
  \<open>types/tags.go\<close> and \<open>types/codespacer.go\<close>.  Codes keep the widths of the source (16 bits
  for a code and a codespace, 32 bits for the combined code).  An error is its codespace and
  its code: the message and the stack trace only feed \<open>Result.Log\<close>, which the source declares
  to be nondeterministic debug information, and the log is left out of \<open>Result\<close> too.
\<close>

section \<open>Error codes\<close>

type_synonym CodeType = "16 word"
type_synonym CodespaceType = "16 word"
type_synonym WRSPCodeType = "32 word"

definition WRSPCodeOK :: WRSPCodeType where "WRSPCodeOK = 0"

definition CodeOK :: CodeType where "CodeOK = 0"
definition CodeInternal :: CodeType where "CodeInternal = 1"
definition CodeTxDecode :: CodeType where "CodeTxDecode = 2"
definition CodeInvalidSequence :: CodeType where "CodeInvalidSequence = 3"
definition CodeUnauthorized :: CodeType where "CodeUnauthorized = 4"
definition CodeInsufficientFunds :: CodeType where "CodeInsufficientFunds = 5"
definition CodeUnknownRequest :: CodeType where "CodeUnknownRequest = 6"
definition CodeInvalidAddress :: CodeType where "CodeInvalidAddress = 7"
definition CodeInvalidPubKey :: CodeType where "CodeInvalidPubKey = 8"
definition CodeUnknownAddress :: CodeType where "CodeUnknownAddress = 9"
definition CodeInsufficientCoins :: CodeType where "CodeInsufficientCoins = 10"
definition CodeInvalidCoins :: CodeType where "CodeInvalidCoins = 11"
definition CodeOutOfGas :: CodeType where "CodeOutOfGas = 12"
definition CodeMemoTooLarge :: CodeType where "CodeMemoTooLarge = 13"

definition CodespaceUndefined :: CodespaceType where "CodespaceUndefined = 0"
definition CodespaceRoot :: CodespaceType where "CodespaceRoot = 1"
definition MaximumCodespace :: CodespaceType where "MaximumCodespace = 65535"

lemmas root_code_defs =
  WRSPCodeOK_def CodeOK_def CodeInternal_def CodeTxDecode_def CodeInvalidSequence_def
  CodeUnauthorized_def CodeInsufficientFunds_def CodeUnknownRequest_def CodeInvalidAddress_def
  CodeInvalidPubKey_def CodeUnknownAddress_def CodeInsufficientCoins_def CodeInvalidCoins_def
  CodeOutOfGas_def CodeMemoTooLarge_def CodespaceUndefined_def CodespaceRoot_def

definition WRSPCodeType_IsOK :: "WRSPCodeType \<Rightarrow> bool" where
  "WRSPCodeType_IsOK code = (if code = WRSPCodeOK then True else False)"

definition ToWRSPCode :: "CodespaceType \<Rightarrow> CodeType \<Rightarrow> WRSPCodeType" where
  "ToWRSPCode space code =
     (if space = CodespaceRoot \<and> code = CodeOK then WRSPCodeOK
      else push_bit 16 (ucast space) OR ucast code)"

definition CodeToDefaultMsg :: "CodeType \<Rightarrow> string" where
  "CodeToDefaultMsg code =
     (if code = CodeInternal then ''internal error''
      else if code = CodeTxDecode then ''tx parse error''
      else if code = CodeInvalidSequence then ''invalid sequence''
      else if code = CodeUnauthorized then ''unauthorized''
      else if code = CodeInsufficientFunds then ''insufficient funds''
      else if code = CodeUnknownRequest then ''unknown request''
      else if code = CodeInvalidAddress then ''invalid address''
      else if code = CodeInvalidPubKey then ''invalid pubkey''
      else if code = CodeUnknownAddress then ''unknown address''
      else if code = CodeInsufficientCoins then ''insufficient coins''
      else if code = CodeInvalidCoins then ''invalid coins''
      else if code = CodeOutOfGas then ''out of gas''
      else if code = CodeMemoTooLarge then ''memo too large''
      else ''unknown code '' @ show_nat (unat code))"

section \<open>Tags\<close>

type_synonym Tag = "bytes \<times> bytes"
type_synonym Tags = "Tag list"

datatype tag_arg = TagString string | TagBytes bytes

definition EmptyTags :: Tags where "EmptyTags = []"

definition MakeTag :: "string \<Rightarrow> bytes \<Rightarrow> Tag" where
  "MakeTag k v = (k, v)"

definition AppendTag :: "Tags \<Rightarrow> string \<Rightarrow> bytes \<Rightarrow> Tags" where
  "AppendTag t k v = t @ [MakeTag k v]"

definition AppendTags :: "Tags \<Rightarrow> Tags \<Rightarrow> Tags" where
  "AppendTags t tags = t @ tags"

fun new_tags_loop :: "tag_arg list \<Rightarrow> Tags outcome" where
  "new_tags_loop (TagString k # TagBytes v # rest) =
     obind (new_tags_loop rest) (\<lambda>ts. Val ((k, v) # ts))"
| "new_tags_loop [] = Val []"
| "new_tags_loop _ = Panic (GoPanic ''interface conversion'')"

definition NewTags :: "tag_arg list \<Rightarrow> Tags outcome" where
  "NewTags tags =
     (if length tags mod 2 \<noteq> 0 then Panic (GoPanic ''must specify key-value pairs as varargs'')
      else new_tags_loop tags)"

section \<open>Results and errors\<close>

record Result =
  res_Code :: WRSPCodeType
  res_Data :: bytes
  res_GasWanted :: int
  res_GasUsed :: int
  res_FeeAmount :: int
  res_FeeDenom :: string
  res_Tags :: Tags

definition emptyResult :: Result where
  "emptyResult = \<lparr>res_Code = 0, res_Data = [], res_GasWanted = 0, res_GasUsed = 0,
     res_FeeAmount = 0, res_FeeDenom = [], res_Tags = []\<rparr>"

definition Result_IsOK :: "Result \<Rightarrow> bool" where
  "Result_IsOK res = WRSPCodeType_IsOK (res_Code res)"

record sdkError =
  err_codespace :: CodespaceType
  err_code :: CodeType

definition newError :: "CodespaceType \<Rightarrow> CodeType \<Rightarrow> sdkError" where
  "newError codespace cd = \<lparr>err_codespace = codespace, err_code = cd\<rparr>"

definition newErrorWithRootCodespace :: "CodeType \<Rightarrow> sdkError" where
  "newErrorWithRootCodespace cd = newError CodespaceRoot cd"

definition NewError :: "CodespaceType \<Rightarrow> CodeType \<Rightarrow> sdkError" where
  "NewError codespace cd = newError codespace cd"

definition ErrInternal where "ErrInternal = newErrorWithRootCodespace CodeInternal"
definition ErrTxDecode where "ErrTxDecode = newErrorWithRootCodespace CodeTxDecode"
definition ErrInvalidSequence where "ErrInvalidSequence = newErrorWithRootCodespace CodeInvalidSequence"
definition ErrUnauthorized where "ErrUnauthorized = newErrorWithRootCodespace CodeUnauthorized"
definition ErrInsufficientFunds where "ErrInsufficientFunds = newErrorWithRootCodespace CodeInsufficientFunds"
definition ErrUnknownRequest where "ErrUnknownRequest = newErrorWithRootCodespace CodeUnknownRequest"
definition ErrInvalidAddress where "ErrInvalidAddress = newErrorWithRootCodespace CodeInvalidAddress"
definition ErrUnknownAddress where "ErrUnknownAddress = newErrorWithRootCodespace CodeUnknownAddress"
definition ErrInvalidPubKey where "ErrInvalidPubKey = newErrorWithRootCodespace CodeInvalidPubKey"
definition ErrInsufficientCoins where "ErrInsufficientCoins = newErrorWithRootCodespace CodeInsufficientCoins"
definition ErrInvalidCoins where "ErrInvalidCoins = newErrorWithRootCodespace CodeInvalidCoins"
definition ErrOutOfGas where "ErrOutOfGas = newErrorWithRootCodespace CodeOutOfGas"
definition ErrMemoTooLarge where "ErrMemoTooLarge = newErrorWithRootCodespace CodeMemoTooLarge"

lemmas root_error_defs =
  ErrInternal_def ErrTxDecode_def ErrInvalidSequence_def ErrUnauthorized_def
  ErrInsufficientFunds_def ErrUnknownRequest_def ErrInvalidAddress_def ErrUnknownAddress_def
  ErrInvalidPubKey_def ErrInsufficientCoins_def ErrInvalidCoins_def ErrOutOfGas_def
  ErrMemoTooLarge_def newErrorWithRootCodespace_def newError_def NewError_def

definition WithDefaultCodespace :: "sdkError \<Rightarrow> CodespaceType \<Rightarrow> sdkError" where
  "WithDefaultCodespace err cs =
     (let codespace = err_codespace err;
          codespace = (if codespace = CodespaceUndefined then cs else codespace)
      in \<lparr>err_codespace = cs, err_code = err_code err\<rparr>)"

definition WRSPCode :: "sdkError \<Rightarrow> WRSPCodeType" where
  "WRSPCode err = ToWRSPCode (err_codespace err) (err_code err)"

definition Error_Result :: "sdkError \<Rightarrow> Result" where
  "Error_Result err = emptyResult\<lparr>res_Code := WRSPCode err\<rparr>"

section \<open>Codespacer\<close>

type_synonym Codespacer = "CodespaceType \<Rightarrow> bool"

definition NewCodespacer :: Codespacer where
  "NewCodespacer = (\<lambda>_. False)"

function RegisterNext :: "CodespaceType \<Rightarrow> (Codespacer, CodespaceType) M" where
  "RegisterNext codespace reserved =
     (if \<not> reserved codespace then (Val codespace, reserved(codespace := True))
      else if codespace + 1 = MaximumCodespace then
        (Panic (GoPanic ''Maximum codespace reached!''), reserved)
      else RegisterNext (codespace + 1) reserved)"
  by pat_completeness auto

definition RegisterOrPanic :: "CodespaceType \<Rightarrow> (Codespacer, unit) M" where
  "RegisterOrPanic codespace reserved =
     (if reserved codespace then
        (Panic (GoPanic ''Cannot register codespace, already reserved''), reserved)
      else (Val (), reserved(codespace := True)))"

lemma codespace_decreases:
  assumes "(c :: 16 word) + 1 \<noteq> MaximumCodespace"
  shows "unat (MaximumCodespace - 1 - (c + 1)) < unat (MaximumCodespace - 1 - c)"
proof -
  have "MaximumCodespace - 1 - c \<noteq> 0"
  proof
    assume "MaximumCodespace - 1 - c = 0"
    then have "c + 1 = MaximumCodespace" by (metis diff_add_cancel eq_iff_diff_eq_0)
    then show False using assms by simp
  qed
  moreover have "MaximumCodespace - 1 - (c + 1) = MaximumCodespace - 1 - c - 1"
    by (simp add: algebra_simps)
  ultimately show ?thesis
    by (metis measure_unat)
qed

termination RegisterNext
  by (relation "measure (\<lambda>(c, _). unat (MaximumCodespace - 1 - c))") (use codespace_decreases in simp_all)

declare RegisterNext.simps [simp del]

section \<open>Facts about codes\<close>

lemma drop_bit_code: "drop_bit 16 (push_bit 16 (ucast (s :: 16 word)) OR ucast (c :: 16 word) :: 32 word) = ucast s"
  by (rule bit_eqI) (auto simp: bit_simps dest: bit_imp_le_length)

lemma take_bit_code: "take_bit 16 (push_bit 16 (ucast (s :: 16 word)) OR ucast (c :: 16 word) :: 32 word) = ucast c"
  by (rule bit_eqI) (auto simp: bit_simps dest: bit_imp_le_length)

lemma ucast_16_32_inj: "(ucast (a :: 16 word) :: 32 word) = ucast b \<Longrightarrow> a = b"
proof (rule bit_eqI)
  fix n
  assume eq: "(ucast a :: 32 word) = ucast b" and "possible_bit TYPE(16 word) n"
  then have "n < 16" by simp
  then show "bit a n = bit b n"
    using arg_cong [OF eq, of "\<lambda>w. bit w n"] by (simp add: bit_simps)
qed

lemma code_pair_inj:
  assumes "(push_bit 16 (ucast (s :: 16 word)) OR ucast (c :: 16 word) :: 32 word)
           = push_bit 16 (ucast s') OR ucast c'"
  shows "s = s' \<and> c = c'"
  using arg_cong [OF assms, of "drop_bit 16"] arg_cong [OF assms, of "take_bit 16"]
  by (simp only: drop_bit_code take_bit_code) (simp add: ucast_16_32_inj)

lemma push_bit_code_zero_iff:
  "(push_bit 16 (ucast (s :: 16 word)) OR ucast (c :: 16 word) :: 32 word) = 0 \<longleftrightarrow> s = 0 \<and> c = 0"
  using code_pair_inj [of s c 0 0] by auto

lemma ToWRSPCode_zero_iff:
  "ToWRSPCode s c = 0 \<longleftrightarrow> c = 0 \<and> (s = CodespaceUndefined \<or> s = CodespaceRoot)"
  by (auto simp: ToWRSPCode_def root_code_defs push_bit_code_zero_iff)

lemma Error_Result_not_OK: "err_code e \<noteq> 0 \<Longrightarrow> \<not> Result_IsOK (Error_Result e)"
  by (auto simp: Result_IsOK_def WRSPCodeType_IsOK_def Error_Result_def WRSPCode_def
      ToWRSPCode_zero_iff WRSPCodeOK_def emptyResult_def)

lemma emptyResult_OK [simp]: "Result_IsOK emptyResult"
  by (simp add: Result_IsOK_def WRSPCodeType_IsOK_def emptyResult_def WRSPCodeOK_def)

lemma RegisterNext_unat:
  assumes "unat c < unat MaximumCodespace" and "RegisterNext c r = (Val d, r')"
  shows "unat c \<le> unat d \<and> unat d < unat MaximumCodespace \<and> \<not> r d \<and> r' = r(d := True)
    \<and> (\<forall>e. unat c \<le> unat e \<and> unat e < unat d \<longrightarrow> r e)"
  using assms
proof (induction c r rule: RegisterNext.induct)
  case (1 c r)
  show ?case
  proof (cases "r c")
    case False
    then show ?thesis using 1(2,3) by (auto simp: RegisterNext.simps [of c])
  next
    case True
    then have ne: "c + 1 \<noteq> MaximumCodespace" and rec: "RegisterNext (c + 1) r = (Val d, r')"
      using 1(3) by (auto simp: RegisterNext.simps [of c] split: if_splits)
    have suc: "unat (c + 1) = Suc (unat c)"
      using 1(2) by (simp add: MaximumCodespace_def unat_word_ariths)
    moreover have "unat (c + 1) \<noteq> unat MaximumCodespace" using ne word_unat_eq_iff by blast
    ultimately have "unat (c + 1) < unat MaximumCodespace" using 1(2) by simp
    then have IH: "unat (c + 1) \<le> unat d \<and> unat d < unat MaximumCodespace \<and> \<not> r d
        \<and> r' = r(d := True) \<and> (\<forall>e. unat (c + 1) \<le> unat e \<and> unat e < unat d \<longrightarrow> r e)"
      using 1(1) True ne rec by blast
    moreover have "r e" if "unat c \<le> unat e" "unat e < unat d" for e
    proof (cases "unat e = unat c")
      case True
      then have "e = c" using word_unat_eq_iff by blast
      then show ?thesis using \<open>r c\<close> by simp
    next
      case False
      then show ?thesis using IH suc that by auto
    qed
    ultimately show ?thesis using suc by auto
  qed
qed

lemma RegisterNext_panic:
  "RegisterNext c r = (Panic p, r') \<Longrightarrow> p = GoPanic ''Maximum codespace reached!'' \<and> r' = r"
proof (induction c r rule: RegisterNext.induct)
  case (1 c r)
  then show ?case by (subst (asm) (2) RegisterNext.simps) (auto split: if_splits)
qed

text \<open>
  \<open>WithDefaultCodespace\<close> as the source has it replaces the codespace of every error, also
  of an error that has one: it is not a default but an override.
\<close>

lemma WithDefaultCodespace_overrides [simp]:
  "err_codespace (WithDefaultCodespace e cs) = cs
   \<and> err_code (WithDefaultCodespace e cs) = err_code e"
  by (simp add: WithDefaultCodespace_def)

section \<open>Properties\<close>

text \<open>
  Distinct errors have distinct response codes.  The combined code determines the codespace
  and the code, except that both the root and the undefined codespace with code 0 give the code
  of success; no other pair does.
\<close>

theorem ToWRSPCode_injective:
  assumes "ToWRSPCode s c = ToWRSPCode s' c'"
  shows "(s = s' \<and> c = c')
    \<or> (c = CodeOK \<and> c' = CodeOK \<and> {s, s'} = {CodespaceRoot, CodespaceUndefined})"
proof (cases "ToWRSPCode s c = 0")
  case True
  then have "ToWRSPCode s' c' = 0" using assms by simp
  with True show ?thesis by (auto simp: ToWRSPCode_zero_iff CodeOK_def)
next
  case False
  then have "ToWRSPCode s' c' \<noteq> 0" using assms by simp
  then show ?thesis
    using False assms code_pair_inj [of s c s' c']
    by (simp add: ToWRSPCode_def WRSPCodeOK_def split: if_splits)
qed

theorem ToWRSPCode_injective_witness:
  "ToWRSPCode CodespaceRoot CodeOK = ToWRSPCode CodespaceUndefined CodeOK
   \<and> {CodespaceRoot, CodespaceUndefined} = {CodespaceUndefined, CodespaceRoot}
   \<and> ToWRSPCode CodespaceRoot CodeUnauthorized \<noteq> ToWRSPCode CodespaceRoot CodeInvalidCoins"
  using ToWRSPCode_injective [of CodespaceRoot CodeOK CodespaceUndefined CodeOK]
    ToWRSPCode_injective [of CodespaceRoot CodeUnauthorized CodespaceRoot CodeInvalidCoins]
  by (auto simp: ToWRSPCode_zero_iff [THEN iffD2] root_code_defs)

text \<open>
  A codespace handed out by \<open>RegisterNext\<close> is the first free one from the requested value
  on; it lies below the maximum, was not reserved before, and is the only one newly reserved.
  The search always ends: it returns such a codespace or panics with the registry unchanged.
\<close>

theorem RegisterNext_fresh:
  assumes "unat c < unat MaximumCodespace"
  shows "case RegisterNext c r of
     (Val d, r') \<Rightarrow> unat c \<le> unat d \<and> unat d < unat MaximumCodespace \<and> \<not> r d \<and> r' = r(d := True)
       \<and> (\<forall>e. unat c \<le> unat e \<and> unat e < unat d \<longrightarrow> r e)
   | (Panic p, r') \<Rightarrow> p = GoPanic ''Maximum codespace reached!'' \<and> r' = r"
proof (cases "RegisterNext c r")
  case (Pair o' r')
  have panic: "p = GoPanic ''Maximum codespace reached!'' \<and> r' = r"
    if "RegisterNext c r = (Panic p, r')" for p
    using that RegisterNext_panic by blast
  show ?thesis
    using RegisterNext_unat [OF assms, of r] panic Pair by (cases o') auto
qed

theorem RegisterNext_fresh_witness:
  "RegisterNext 4 ((\<lambda>_. False)(4 := True)) = (Val 5, ((\<lambda>_. False)(4 := True))(5 := True))
   \<and> (case RegisterNext 4 ((\<lambda>_. False)(4 := True)) of (Val d, r') \<Rightarrow> 4 \<le> unat d | _ \<Rightarrow> False)"
  using RegisterNext_fresh [of 4 "(\<lambda>_. False)(4 := True)"]
  by (simp add: RegisterNext.simps MaximumCodespace_def)

end
