(* ===== verification/SdkRat.thy ===== *)
theory SdkRat
  imports SdkInt SdkErrors
begin

text \<open>
  The rationals of \<open>types/rational.go\<close>.  A \<open>big.Rat\<close> is an exact rational, so the arithmetic
  and the comparisons of \<open>Rat\<close> are those of the type \<open>rat\<close>; division by zero panics.  The
  rounding of the source is translated on the normalised numerator and denominator, with
  truncated division.  The main fact is that it is rounding to nearest, ties to even.
\<close>

section \<open>Construction\<close>

definition div_by_zero :: panic where
  "div_by_zero = GoPanic ''division by zero''"

definition Rat_Num :: "rat \<Rightarrow> int" where
  "Rat_Num r = fst (quotient_of r)"

definition Rat_Denom :: "rat \<Rightarrow> int" where
  "Rat_Denom r = snd (quotient_of r)"

definition Rat_Quo :: "rat \<Rightarrow> rat \<Rightarrow> rat outcome" where
  "Rat_Quo r r2 = (if r2 = 0 then Panic div_by_zero else Val (r / r2))"

definition frac :: "int \<Rightarrow> int \<Rightarrow> rat outcome" where
  "frac a b = (if b = 0 then Panic div_by_zero else Val (rat_of_int a / rat_of_int b))"

definition NewRat :: "int \<Rightarrow> int list \<Rightarrow> rat outcome" where
  "NewRat Numerator Denominator = (case Denominator of
     [] \<Rightarrow> Val (rat_of_int Numerator)
   | [d] \<Rightarrow> frac Numerator d
   | _ \<Rightarrow> Panic (GoPanic ''improper use of New, can only have one denominator''))"

definition NewRatFromBigInt :: "int \<Rightarrow> int list \<Rightarrow> rat outcome" where
  "NewRatFromBigInt num denom = (case denom of
     [] \<Rightarrow> Val (rat_of_int num)
   | [d] \<Rightarrow> frac num d
   | _ \<Rightarrow> Panic (GoPanic ''improper use of NewRatFromBigInt, can only have one denominator''))"

definition NewRatFromInt :: "sdk_int \<Rightarrow> sdk_int list \<Rightarrow> rat outcome" where
  "NewRatFromInt num denom = (case denom of
     [] \<Rightarrow> Val (rat_of_int num)
   | [d] \<Rightarrow> frac num d
   | _ \<Rightarrow> Panic (GoPanic ''improper use of NewRatFromBigInt, can only have one denominator''))"

section \<open>Decimal strings\<close>

definition NewRatFromDecimal :: "string \<Rightarrow> int \<Rightarrow> (sdkError + rat) outcome" where
  "NewRatFromDecimal decimalStr prec =
     (case decimalStr of
        [] \<Rightarrow> Panic (GoPanic ''index out of range'')
      | c # cs \<Rightarrow>
          let neg = (c = CHR ''-'');
              decimalStr = (if neg then cs else decimalStr);
              str = split_on (CHR ''.'') decimalStr;
              rest = (\<lambda>numStr denom.
               (case Atoi numStr of
                  ConvRange \<Rightarrow>
                    (case SetString10 numStr of
                       None \<Rightarrow> Val (Inl ErrUnknownRequest)
                     | Some numBig \<Rightarrow>
                         obind (NewRatFromBigInt (if neg then - numBig else numBig) [denom])
                           (\<lambda>r. Val (Inr r)))
                | ConvSyntax \<Rightarrow> Val (Inl ErrUnknownRequest)
                | ConvOk num \<Rightarrow>
                    obind (NewRat (if neg then wrap64 (num * -1) else num) [denom])
                      (\<lambda>r. Val (Inr r))))
          in (case str of
               [s0] \<Rightarrow> if s0 = [] then Val (Inl ErrUnknownRequest) else rest s0 1
             | [s0, s1] \<Rightarrow>
                 if s0 = [] \<or> s1 = [] then Val (Inl ErrUnknownRequest)
                 else if int (length s1) > prec then Val (Inl ErrUnknownRequest)
                 else rest (s0 @ s1) (wrap64 (10 ^ length s1))
             | _ \<Rightarrow> Val (Inl ErrUnknownRequest)))"

section \<open>Rounding\<close>

definition evaluate_frac :: "int \<Rightarrow> int \<Rightarrow> int" where
  "evaluate_frac num denom =
     (let d = quo num denom
      in if rem num denom = 0 then d
         else let tenNum = num * 10;
                  tenD = d * 10;
                  remainderDigit = quo tenNum denom - tenD;
                  isFinalDigit = (rem tenNum denom = 0)
              in if isFinalDigit \<and> (remainderDigit = 5 \<or> remainderDigit = -5) then d + rem d 2
                 else if remainderDigit \<ge> 5 then d + 1
                 else if remainderDigit \<le> -5 then d - 1
                 else d)"

definition EvaluateBig :: "rat \<Rightarrow> int" where
  "EvaluateBig r = (case quotient_of r of (num, denom) \<Rightarrow> evaluate_frac num denom)"

definition RoundInt64 :: "rat \<Rightarrow> int" where
  "RoundInt64 r = wrap64 (EvaluateBig r)"

definition RoundInt :: "rat \<Rightarrow> sdk_int outcome" where
  "RoundInt r = NewIntFromBigInt (EvaluateBig r)"

definition Rat_Round :: "rat \<Rightarrow> int \<Rightarrow> rat outcome" where
  "Rat_Round r precisionFactor = frac (RoundInt64 (r * rat_of_int precisionFactor)) precisionFactor"

definition ToLeftPadded :: "rat \<Rightarrow> int \<Rightarrow> string" where
  "ToLeftPadded r totalDigits =
     (let intStr = show_int (EvaluateBig r)
      in if totalDigits < 0 then intStr @ replicate (nat (- totalDigits) - length intStr) (CHR '' '')
         else replicate (nat totalDigits - length intStr) (CHR ''0'') @ intStr)"

fun RatsEqual :: "rat list \<Rightarrow> rat list \<Rightarrow> bool" where
  "RatsEqual [] [] = True"
| "RatsEqual (r1 # r1s) (r2 # r2s) = (r1 = r2 \<and> RatsEqual r1s r2s)"
| "RatsEqual _ _ = False"

section \<open>Rounding to nearest, ties to even\<close>

definition half_even :: "rat \<Rightarrow> int \<Rightarrow> bool" where
  "half_even r z \<longleftrightarrow>
     \<bar>rat_of_int z - r\<bar> < 1 / 2 \<or> \<bar>rat_of_int z - r\<bar> = 1 / 2 \<and> even z"

lemma half_even_unique:
  assumes "half_even r z" and "half_even r z'"
  shows "z = z'"
proof (rule ccontr)
  assume "z \<noteq> z'"
  moreover have "\<bar>rat_of_int z - rat_of_int z'\<bar> \<le> 1"
    using assms by (auto simp: half_even_def abs_if split: if_splits)
  then have "\<bar>z - z'\<bar> \<le> 1" by linarith
  ultimately have "z' = z + 1 \<or> z = z' + 1" by linarith
  then show False
    using assms by (auto simp: half_even_def abs_if split: if_splits)
qed

lemma quo_nonneg: "\<lbrakk>0 \<le> a; 0 < b\<rbrakk> \<Longrightarrow> quo a b = a div b"
  by (cases "a = 0") (auto simp: quo_def)

lemma rem_nonneg: "\<lbrakk>0 \<le> a; 0 < b\<rbrakk> \<Longrightarrow> rem a b = a mod b"
  by (simp add: rem_def quo_nonneg minus_mult_div_eq_mod)

lemma quo_uminus [simp]: "quo (- a) b = - quo a b"
  by (simp add: quo_def)

lemma rem_uminus [simp]: "rem (- a) b = - rem a b"
  by (simp add: rem_def)

lemma evaluate_frac_nonneg:
  assumes "0 \<le> n" and "0 < d"
  shows "evaluate_frac n d =
    (if 2 * (n mod d) = d then n div d + n div d mod 2
     else if 2 * (n mod d) > d then n div d + 1 else n div d)"
proof -
  have q: "quo n d = n div d" and r: "rem n d = n mod d"
    and tq: "quo (n * 10) d = n * 10 div d" and tr: "rem (n * 10) d = n * 10 mod d"
    and q2: "rem (n div d) 2 = n div d mod 2"
    using assms by (simp_all add: quo_nonneg rem_nonneg pos_imp_zdiv_nonneg_iff)
  have n: "n * 10 = d * (n div d * 10) + 10 * (n mod d)"
  proof -
    have "n * 10 = (d * (n div d) + n mod d) * 10" by simp
    then show ?thesis by (simp only: algebra_simps)
  qed
  have t: "n * 10 div d - n div d * 10 = 10 * (n mod d) div d"
    unfolding n using assms(2) by simp
  have tm: "n * 10 mod d = 10 * (n mod d) mod d"
    unfolding n by simp
  have five: "5 \<le> 10 * (n mod d) div d \<longleftrightarrow> d \<le> 2 * (n mod d)"
  proof
    assume "5 \<le> 10 * (n mod d) div d"
    then have "d * 5 \<le> d * (10 * (n mod d) div d)" using assms(2) by simp
    also have "\<dots> \<le> 10 * (n mod d)"
      using mult_div_mod_eq [of d "10 * (n mod d)"] pos_mod_sign [OF assms(2)] by (metis le_add_same_cancel1)
    finally show "d \<le> 2 * (n mod d)" by simp
  next
    assume "d \<le> 2 * (n mod d)"
    then have "5 * d div d \<le> 10 * (n mod d) div d" using assms(2) by (intro zdiv_mono1) auto
    then show "5 \<le> 10 * (n mod d) div d" using assms(2) by simp
  qed
  have exact: "10 * (n mod d) mod d = 0 \<and> 10 * (n mod d) div d = 5 \<longleftrightarrow> 2 * (n mod d) = d"
  proof
    assume "10 * (n mod d) mod d = 0 \<and> 10 * (n mod d) div d = 5"
    then show "2 * (n mod d) = d" using mult_div_mod_eq [of d "10 * (n mod d)"] by simp
  next
    assume "2 * (n mod d) = d"
    then have x: "10 * (n mod d) = 5 * d" by simp
    show "10 * (n mod d) mod d = 0 \<and> 10 * (n mod d) div d = 5" unfolding x using assms(2) by simp
  qed
  have pos: "0 \<le> 10 * (n mod d) div d"
    using assms by (simp add: pos_imp_zdiv_nonneg_iff)
  show ?thesis
    using assms five exact pos unfolding evaluate_frac_def Let_def q r tq tr t tm q2
    by auto
qed

lemma rem_two_even: "even (d + rem d 2)"
proof (cases "0 \<le> d")
  case True
  then show ?thesis by (simp add: rem_nonneg)
next
  case False
  then have "rem d 2 = - (- d mod 2)" using rem_nonneg [of "- d" 2] rem_uminus [of "- d" 2] by simp
  then show ?thesis by simp
qed

lemma evaluate_frac_uminus:
  "evaluate_frac (- n) d = - evaluate_frac n d"
  unfolding evaluate_frac_def Let_def by auto

lemma half_even_uminus: "half_even (- r) (- z) \<longleftrightarrow> half_even r z"
  by (auto simp: half_even_def abs_minus_commute)

lemma half_even_frac_nonneg:
  assumes "0 \<le> n" and "0 < d"
  shows "half_even (rat_of_int n / rat_of_int d) (evaluate_frac n d)"
proof -
  let ?q = "n div d" and ?m = "n mod d"
  have m: "0 \<le> ?m" "?m < d" using assms(2) by simp_all
  have d0: "0 < rat_of_int d" using assms(2) by simp
  have "rat_of_int n = rat_of_int d * rat_of_int ?q + rat_of_int ?m"
    by (metis mult_div_mod_eq of_int_add of_int_mult)
  then have r: "rat_of_int n / rat_of_int d = rat_of_int ?q + rat_of_int ?m / rat_of_int d"
    using d0 by (simp add: field_simps)
  consider "2 * ?m = d" | "2 * ?m > d" | "2 * ?m < d" by linarith
  then show ?thesis
  proof cases
    case 1
    then have "rat_of_int d = 2 * rat_of_int ?m" by (metis of_int_mult of_int_numeral)
    then have half: "rat_of_int ?m / rat_of_int d = 1 / 2" using d0 by simp
    have "even (?q + ?q mod 2)" by simp
    moreover have "?q mod 2 = 0 \<or> ?q mod 2 = 1" by auto
    ultimately show ?thesis
      using 1 assms half r by (auto simp: evaluate_frac_nonneg half_even_def)
  next
    case 2
    then have "rat_of_int d < 2 * rat_of_int ?m"
      by (metis of_int_less_iff of_int_mult of_int_numeral)
    then have "1 / 2 < rat_of_int ?m / rat_of_int d" using d0 by (simp add: field_simps)
    moreover have "rat_of_int ?m / rat_of_int d < 1" using m d0 by simp
    ultimately have "\<bar>rat_of_int (?q + 1) - rat_of_int n / rat_of_int d\<bar> < 1 / 2"
      unfolding r of_int_add of_int_1 by linarith
    moreover have "evaluate_frac n d = ?q + 1" using 2 assms by (simp add: evaluate_frac_nonneg)
    ultimately show ?thesis by (simp only: half_even_def simp_thms)
  next
    case 3
    then have "2 * rat_of_int ?m < rat_of_int d"
      by (metis of_int_less_iff of_int_mult of_int_numeral)
    then have "rat_of_int ?m / rat_of_int d < 1 / 2" using d0 by (simp add: field_simps)
    moreover have "0 \<le> rat_of_int ?m / rat_of_int d" using m d0 by simp
    ultimately have "\<bar>rat_of_int ?q - rat_of_int n / rat_of_int d\<bar> < 1 / 2"
      unfolding r by linarith
    moreover have "evaluate_frac n d = ?q" using 3 assms by (simp add: evaluate_frac_nonneg)
    ultimately show ?thesis by (simp only: half_even_def simp_thms)
  qed
qed

lemma half_even_EvaluateBig: "half_even r (EvaluateBig r)"
proof -
  obtain n d where q: "quotient_of r = (n, d)" by fastforce
  then have d: "0 < d" and r: "r = rat_of_int n / rat_of_int d"
    by (simp_all add: quotient_of_denom_pos quotient_of_div)
  show ?thesis
  proof (cases "0 \<le> n")
    case True
    then show ?thesis using half_even_frac_nonneg [OF True d] by (simp add: EvaluateBig_def q r [symmetric])
  next
    case False
    then have "half_even (- r) (evaluate_frac (- n) d)"
      using half_even_frac_nonneg [of "- n" d] d by (simp add: r)
    then show ?thesis by (simp add: EvaluateBig_def q evaluate_frac_uminus half_even_uminus)
  qed
qed

lemma EvaluateBig_iff: "EvaluateBig r = z \<longleftrightarrow> half_even r z"
  using half_even_EvaluateBig half_even_unique by blast

lemma EvaluateBig_of_int [simp]: "EvaluateBig (rat_of_int z) = z"
  by (simp add: EvaluateBig_iff half_even_def)

lemma EvaluateBig_mono: "r \<le> s \<Longrightarrow> EvaluateBig r \<le> EvaluateBig s"
proof (rule ccontr)
  assume le: "r \<le> s" and "\<not> EvaluateBig r \<le> EvaluateBig s"
  then have "rat_of_int (EvaluateBig s) + 1 \<le> rat_of_int (EvaluateBig r)" by linarith
  moreover have "\<bar>rat_of_int (EvaluateBig r) - r\<bar> \<le> 1 / 2" "\<bar>rat_of_int (EvaluateBig s) - s\<bar> \<le> 1 / 2"
    using half_even_EvaluateBig [of r] half_even_EvaluateBig [of s] by (auto simp: half_even_def)
  ultimately have "r = s" using le by (auto simp: abs_if split: if_splits)
  then show False using \<open>\<not> EvaluateBig r \<le> EvaluateBig s\<close> by simp
qed

lemma EvaluateBig_nonneg: "0 \<le> r \<Longrightarrow> 0 \<le> EvaluateBig r"
  using EvaluateBig_mono [of 0 r] EvaluateBig_of_int [of 0] by simp

section \<open>Properties\<close>

text \<open>
  C26: \<open>EvaluateBig\<close> is rounding to the nearest integer with ties to the even one: its result
  is the only integer at a distance below one half, or at one half and even.
\<close>

theorem EvaluateBig_half_even:
  "EvaluateBig r = z \<longleftrightarrow>
     \<bar>rat_of_int z - r\<bar> < 1 / 2 \<or> \<bar>rat_of_int z - r\<bar> = 1 / 2 \<and> even z"
  by (simp add: EvaluateBig_iff half_even_def)

end
