(* ===== verification/SdkStore.thy ===== *)
theory SdkStore
  imports SdkErrors "HOL-Library.Sublist"
begin

text \<open>
  Gas meters (\<open>types/gas.go\<close>), the contract of a key-value store and prefix ranges
  (\<open>types/store.go\<close>), and the gas-metered store through which every keeper reads and writes
  (\<open>types/gaskvstore.go\<close>, \<open>store/gaskvstore.go\<close>).

  The contents of a store are a sorted association list of keys and values; an iterator is the
  list of the items it still has to visit, taken when it is opened, since the contract of
  \<open>KVStore\<close> forbids writes in its domain while it exists.
\<close>

section \<open>Gas meters\<close>

datatype GasMeter =
    basicGasMeter (gas_limit: int) (gas_consumed: int)
  | infiniteGasMeter (gas_consumed: int)

definition NewGasMeter :: "int \<Rightarrow> GasMeter" where
  "NewGasMeter limit = basicGasMeter limit 0"

definition NewInfiniteGasMeter :: GasMeter where
  "NewInfiniteGasMeter = infiniteGasMeter 0"

definition GasConsumed :: "GasMeter \<Rightarrow> int" where
  "GasConsumed g = gas_consumed g"

definition ConsumeGas :: "int \<Rightarrow> string \<Rightarrow> (GasMeter, unit) M" where
  "ConsumeGas amount descriptor g = (case g of
     basicGasMeter limit consumed \<Rightarrow>
       let consumed = wrap64 (consumed + amount);
           g = basicGasMeter limit consumed
       in if consumed > limit then (Panic (OutOfGas descriptor), g) else (Val (), g)
   | infiniteGasMeter consumed \<Rightarrow> (Val (), infiniteGasMeter (wrap64 (consumed + amount))))"

section \<open>The contract of a key-value store\<close>

type_synonym kvmap = "(bytes \<times> bytes) list"

definition in_dom :: "bytes option \<Rightarrow> bytes option \<Rightarrow> bytes \<Rightarrow> bool" where
  "in_dom start end k \<longleftrightarrow>
     (case start of None \<Rightarrow> True | Some s \<Rightarrow> s \<le> k) \<and> (case end of None \<Rightarrow> True | Some e \<Rightarrow> k < e)"

definition kv_Get :: "kvmap \<Rightarrow> bytes \<Rightarrow> bytes option" where
  "kv_Get m k = map_of m k"

definition kv_Has :: "kvmap \<Rightarrow> bytes \<Rightarrow> bool" where
  "kv_Has m k \<longleftrightarrow> kv_Get m k \<noteq> None"

fun kv_Set :: "kvmap \<Rightarrow> bytes \<Rightarrow> bytes \<Rightarrow> kvmap" where
  "kv_Set [] k v = [(k, v)]"
| "kv_Set ((k', v') # m) k v =
     (if k < k' then (k, v) # (k', v') # m
      else if k = k' then (k, v) # m
      else (k', v') # kv_Set m k v)"

definition kv_Delete :: "kvmap \<Rightarrow> bytes \<Rightarrow> kvmap" where
  "kv_Delete m k = filter (\<lambda>(k', _). k' \<noteq> k) m"

definition kv_Iterator :: "kvmap \<Rightarrow> bytes option \<Rightarrow> bytes option \<Rightarrow> (bytes \<times> bytes) list" where
  "kv_Iterator m start end = filter (\<lambda>(k, _). in_dom start end k) m"

text \<open>
  The interface documents that a reverse iterator runs from its start down to its end, which is
  exclusive, and that the start is greater than the end.  The iterator over a prefix
  (\<open>KVStoreReversePrefixIterator\<close>) gives the lower bound as start and the upper bound as end; then
  the domain is that of a forward iterator.
\<close>

definition rev_dom :: "bytes option \<Rightarrow> bytes option \<Rightarrow> bytes \<Rightarrow> bool" where
  "rev_dom start end k \<longleftrightarrow> (case (start, end) of
     (Some s, Some e) \<Rightarrow> if e \<le> s then e < k \<and> k \<le> s else in_dom start end k
   | _ \<Rightarrow> in_dom start end k)"

definition kv_ReverseIterator :: "kvmap \<Rightarrow> bytes option \<Rightarrow> bytes option \<Rightarrow> (bytes \<times> bytes) list" where
  "kv_ReverseIterator m start end = rev (filter (\<lambda>(k, _). rev_dom start end k) m)"

definition kv_sorted :: "kvmap \<Rightarrow> bool" where
  "kv_sorted m \<longleftrightarrow> sorted_wrt (<) (map fst m)"

section \<open>Prefix ranges\<close>

text \<open>The loop of \<open>PrefixEndBytes\<close>, on the bytes from the last one to the first.\<close>

fun prefix_end_loop :: "bytes \<Rightarrow> bytes option outcome" where
  "prefix_end_loop [] = Panic (GoPanic ''index out of range'')"
| "prefix_end_loop (c # cs) =
     (if c \<noteq> CHR 0xFF then Val (Some (rev (char_of ((of_char c + 1) :: nat) # cs)))
      else if cs = [] then Val None
      else prefix_end_loop cs)"

definition PrefixEndBytes :: "bytes option \<Rightarrow> bytes option outcome" where
  "PrefixEndBytes pfx = (case pfx of None \<Rightarrow> Val None | Some p \<Rightarrow> prefix_end_loop (rev p))"

section \<open>Stores with gas\<close>

text \<open>
  The state in which keepers run: the contents of every mounted store, by the name of its key,
  and the gas meter of the context.
\<close>

record world =
  w_stores :: "string \<Rightarrow> kvmap"
  w_gas :: GasMeter

definition HasCost :: int where "HasCost = 10"
definition ReadCostFlat :: int where "ReadCostFlat = 10"
definition ReadCostPerByte :: int where "ReadCostPerByte = 1"
definition WriteCostFlat :: int where "WriteCostFlat = 10"
definition WriteCostPerByte :: int where "WriteCostPerByte = 10"
definition KeyCostFlat :: int where "KeyCostFlat = 5"
definition ValueCostFlat :: int where "ValueCostFlat = 10"
definition ValueCostPerByte :: int where "ValueCostPerByte = 1"

lemmas gas_costs = HasCost_def ReadCostFlat_def ReadCostPerByte_def WriteCostFlat_def
  WriteCostPerByte_def KeyCostFlat_def ValueCostFlat_def ValueCostPerByte_def

definition consume :: "int \<Rightarrow> string \<Rightarrow> (world, unit) M" where
  "consume amount descriptor w =
     (case ConsumeGas amount descriptor (w_gas w) of (r, g) \<Rightarrow> (r, w\<lparr>w_gas := g\<rparr>))"

definition get_store :: "string \<Rightarrow> (world, kvmap) M" where
  "get_store name w = (Val (w_stores w name), w)"

definition put_store :: "string \<Rightarrow> kvmap \<Rightarrow> (world, unit) M" where
  "put_store name m w = (Val (), w\<lparr>w_stores := (w_stores w)(name := m)\<rparr>)"

definition gas_Get :: "string \<Rightarrow> bytes \<Rightarrow> (world, bytes option) M" where
  "gas_Get name key =
     bnd (consume ReadCostFlat ''GetFlat'') (\<lambda>_.
     bnd (get_store name) (\<lambda>m.
     let v = kv_Get m key in
     bnd (consume (ReadCostPerByte * int (case v of None \<Rightarrow> 0 | Some bz \<Rightarrow> length bz)) ''ReadPerByte'') (\<lambda>_.
     ret v)))"

definition gas_Set :: "string \<Rightarrow> bytes \<Rightarrow> bytes \<Rightarrow> (world, unit) M" where
  "gas_Set name key v =
     bnd (consume WriteCostFlat ''SetFlat'') (\<lambda>_.
     bnd (consume (WriteCostPerByte * int (length v)) ''SetPerByte'') (\<lambda>_.
     bnd (get_store name) (\<lambda>m.
     put_store name (kv_Set m key v))))"

definition gas_Has :: "string \<Rightarrow> bytes \<Rightarrow> (world, bool) M" where
  "gas_Has name key =
     bnd (consume HasCost ''Has'') (\<lambda>_.
     bnd (get_store name) (\<lambda>m.
     ret (kv_Has m key)))"

definition gas_Delete :: "string \<Rightarrow> bytes \<Rightarrow> (world, unit) M" where
  "gas_Delete name key = bnd (get_store name) (\<lambda>m. put_store name (kv_Delete m key))"

definition gas_iterator ::
  "string \<Rightarrow> bytes option \<Rightarrow> bytes option \<Rightarrow> bool \<Rightarrow> (world, (bytes \<times> bytes) list) M" where
  "gas_iterator name start end ascending = bnd (get_store name) (\<lambda>m.
     ret (if ascending then kv_Iterator m start end else kv_ReverseIterator m start end))"

definition gas_iter_Key :: "bytes \<times> bytes \<Rightarrow> (world, bytes) M" where
  "gas_iter_Key item = bnd (consume KeyCostFlat ''KeyFlat'') (\<lambda>_. ret (fst item))"

definition gas_iter_Value :: "bytes \<times> bytes \<Rightarrow> (world, bytes) M" where
  "gas_iter_Value item =
     bnd (consume ValueCostFlat ''ValueFlat'') (\<lambda>_.
     bnd (consume (ValueCostPerByte * int (length (snd item))) ''ValuePerByte'') (\<lambda>_.
     ret (snd item)))"

definition KVStorePrefixIterator :: "string \<Rightarrow> bytes \<Rightarrow> (world, (bytes \<times> bytes) list) M" where
  "KVStorePrefixIterator name pfx =
     bnd (lift (PrefixEndBytes (Some pfx))) (\<lambda>e. gas_iterator name (Some pfx) e True)"

definition KVStoreReversePrefixIterator :: "string \<Rightarrow> bytes \<Rightarrow> (world, (bytes \<times> bytes) list) M" where
  "KVStoreReversePrefixIterator name pfx =
     bnd (lift (PrefixEndBytes (Some pfx))) (\<lambda>e. gas_iterator name (Some pfx) e False)"

section \<open>Facts about contents\<close>

lemma kv_sorted_simps [simp]:
  "kv_sorted []"
  "kv_sorted ((k, v) # m) \<longleftrightarrow> (\<forall>x \<in> set m. k < fst x) \<and> kv_sorted m"
  by (auto simp: kv_sorted_def)

lemma kv_sorted_distinct: "kv_sorted m \<Longrightarrow> distinct (map fst m)"
  by (auto simp: kv_sorted_def strict_sorted_iff)

lemma kv_Get_Set [simp]: "kv_Get (kv_Set m k v) = (kv_Get m)(k \<mapsto> v)"
  by (rule ext) (induction m k v rule: kv_Set.induct, auto simp: kv_Get_def)

lemma kv_Set_keys: "fst ` set (kv_Set m k v) = insert k (fst ` set m)"
  by (induction m k v rule: kv_Set.induct) auto

lemma kv_sorted_Set [simp]: "kv_sorted m \<Longrightarrow> kv_sorted (kv_Set m k v)"
proof (induction m k v rule: kv_Set.induct)
  case (2 k' v' m k v)
  have keys: "fst ` set (kv_Set m k v) = insert k (fst ` set m)" by (rule kv_Set_keys)
  have "k' < fst x" if "x \<in> set (kv_Set m k v)" "\<not> k < k'" "k \<noteq> k'" for x
  proof -
    have "fst x \<in> insert k (fst ` set m)" using that(1) keys by blast
    then show ?thesis using 2(2) that(2,3) by auto
  qed
  then show ?case using 2 by (auto dest: less_trans)
qed simp

lemma kv_Get_Delete [simp]: "kv_Get (kv_Delete m k) = (kv_Get m)(k := None)"
  by (rule ext) (induction m, auto simp: kv_Get_def kv_Delete_def)

lemma kv_sorted_filter [simp]: "kv_sorted m \<Longrightarrow> kv_sorted (filter P m)"
  by (induction m) auto

lemma kv_sorted_Delete [simp]: "kv_sorted m \<Longrightarrow> kv_sorted (kv_Delete m k)"
  by (simp add: kv_Delete_def)

lemma kv_mem_iff: "kv_sorted m \<Longrightarrow> (k, v) \<in> set m \<longleftrightarrow> kv_Get m k = Some v"
  by (simp add: kv_Get_def kv_sorted_distinct)

lemma kv_ext:
  assumes "kv_sorted m" and "kv_sorted m'" and "kv_Get m = kv_Get m'"
  shows "m = m'"
proof -
  have set: "set m = set m'"
    using assms kv_mem_iff by (metis subrelI subset_antisym)
  have "map fst m = map fst m'"
    by (rule strict_sorted_equal) (use assms(1,2) set in \<open>auto simp: kv_sorted_def\<close>)
  moreover have "map snd m = map snd m'"
  proof (rule nth_equalityI)
    show len: "length (map snd m) = length (map snd m')"
      using calculation by (metis length_map)
    fix i assume "i < length (map snd m)"
    then have i: "i < length m" "i < length m'" using len by simp_all
    have "fst (m ! i) = fst (m' ! i)" using calculation i by (metis nth_map)
    then have "(fst (m ! i), snd (m ! i)) \<in> set m" "(fst (m ! i), snd (m' ! i)) \<in> set m"
      using i set by (metis nth_mem prod.collapse)+
    then have "Some (snd (m ! i)) = Some (snd (m' ! i))"
      unfolding kv_mem_iff [OF assms(1)] by simp
    then show "map snd m ! i = map snd m' ! i" using i by simp
  qed
  ultimately show ?thesis by (metis zip_map_fst_snd)
qed

lemma kv_Set_Set [simp]: "kv_sorted m \<Longrightarrow> kv_Set (kv_Set m k v) k v' = kv_Set m k v'"
  by (rule kv_ext) simp_all

lemma kv_Set_same: "kv_sorted m \<Longrightarrow> kv_Get m k = Some v \<Longrightarrow> kv_Set m k v = m"
  by (rule kv_ext) auto

lemma kv_Iterator_mem:
  "kv_sorted m \<Longrightarrow> (k, v) \<in> set (kv_Iterator m s e) \<longleftrightarrow> kv_Get m k = Some v \<and> in_dom s e k"
  by (auto simp: kv_Iterator_def kv_mem_iff)

lemma kv_Iterator_sorted: "kv_sorted m \<Longrightarrow> kv_sorted (kv_Iterator m s e)"
  by (simp add: kv_Iterator_def)

lemma kv_ReverseIterator_sorted:
  "kv_sorted m \<Longrightarrow> sorted_wrt (>) (map fst (kv_ReverseIterator m s e))"
  using kv_sorted_filter [of m "\<lambda>(k, _). rev_dom s e k"]
  by (simp add: kv_ReverseIterator_def kv_sorted_def sorted_wrt_rev flip: rev_map)

lemma rev_dom_above: "in_dom (Some a) e a \<Longrightarrow> rev_dom (Some a) e k = in_dom (Some a) e k"
  by (auto simp: rev_dom_def in_dom_def split: option.splits)

section \<open>Facts about prefixes\<close>

lemma char_le_FF: "c \<le> CHR 0xFF"
proof -
  have "(of_char c :: nat) < 256" by simp
  moreover have "(of_char (CHR 0xFF) :: nat) = 255" by simp
  ultimately show ?thesis unfolding less_eq_char_def by linarith
qed

lemma char_succ:
  assumes "c \<noteq> CHR 0xFF"
  shows "(x :: char) < char_of ((of_char c + 1) :: nat) \<longleftrightarrow> x \<le> c"
proof -
  have "(of_char c :: nat) \<noteq> 255"
  proof
    assume "(of_char c :: nat) = 255"
    then have "(of_char c :: nat) = of_char (CHR 0xFF)" by simp
    then show False using assms by (simp only: of_char_eq_iff)
  qed
  moreover have "(of_char c :: nat) < 256" by simp
  ultimately have "(of_char c :: nat) + 1 < 256" by linarith
  then have "of_char (char_of ((of_char c + 1) :: nat)) = (of_char c :: nat) + 1" by simp
  then show ?thesis by (simp only: less_char_def less_eq_char_def) linarith
qed

lemma append_less_append: "(p @ a < p @ b) = ((a :: bytes) < b)"
  by (induction p) auto

lemma append_le_append: "(p @ a \<le> p @ b) = ((a :: bytes) \<le> b)"
  by (induction p) auto

lemma prefix_le: "prefix p k \<Longrightarrow> p \<le> (k :: bytes)"
  by (auto simp: prefix_def) (metis append_Nil2 append_le_append Nil_le_Cons)

lemma prefix_range_last:
  fixes c d :: char
  assumes "\<And>x. x < d \<longleftrightarrow> x \<le> c"
  shows "p @ [c] \<le> k \<and> k < p @ [d] \<longleftrightarrow> prefix (p @ [c]) k"
proof (induction p arbitrary: k)
  case Nil
  show ?case
  proof (cases k)
    case (Cons x xs)
    have "(c < x \<or> c = x) \<and> x < d \<longleftrightarrow> c = x"
      unfolding assms by auto
    then show ?thesis using Cons by auto
  qed simp
next
  case (Cons x p)
  show ?case
  proof (cases k)
    case k: (Cons y ys)
    show ?thesis using Cons [of ys] by (cases "x = y") (auto simp: k)
  qed simp
qed

lemma prefix_range_FF:
  assumes "\<And>k. p \<le> k \<and> in_dom None e k \<longleftrightarrow> prefix p k"
  shows "p @ [CHR 0xFF] \<le> k \<and> in_dom None e k \<longleftrightarrow> prefix (p @ [CHR 0xFF]) k"
proof
  assume k: "p @ [CHR 0xFF] \<le> k \<and> in_dom None e k"
  have "p \<le> p @ [CHR 0xFF]" by (rule prefix_le) simp
  with k have "prefix p k" using assms order_trans by blast
  then obtain r where r: "k = p @ r" by (auto simp: prefix_def)
  then have "[CHR 0xFF] \<le> r" using k by (simp add: append_le_append)
  then obtain x xs where "r = x # xs" "CHR 0xFF \<le> x" by (cases r) auto
  then show "prefix (p @ [CHR 0xFF]) k" using r char_le_FF [of x] by simp
next
  assume k: "prefix (p @ [CHR 0xFF]) k"
  then have "prefix p k" by (metis append_prefixD)
  then have "in_dom None e k" using assms by blast
  then show "p @ [CHR 0xFF] \<le> k \<and> in_dom None e k" using prefix_le [OF k] by simp
qed

lemma PrefixEndBytes_range:
  "\<lbrakk>p \<noteq> []; PrefixEndBytes (Some p) = Val e\<rbrakk> \<Longrightarrow> p \<le> k \<and> in_dom None e k \<longleftrightarrow> prefix p k"
proof (induction p arbitrary: e k rule: rev_induct)
  case (snoc c p)
  show ?case
  proof (cases "c = CHR 0xFF")
    case False
    then have "e = Some (p @ [char_of ((of_char c + 1) :: nat)])"
      using snoc.prems(2) by (simp add: PrefixEndBytes_def)
    then show ?thesis using prefix_range_last [OF char_succ [OF False], of p k] by (simp only: in_dom_def) simp
  next
    case FF: True
    have "p \<le> k \<and> in_dom None e k \<longleftrightarrow> prefix p k" for k
    proof (cases "p = []")
      case True
      then have "e = None" using snoc.prems(2) FF by (simp add: PrefixEndBytes_def)
      then show ?thesis using True by (simp add: in_dom_def)
    next
      case False
      then have "PrefixEndBytes (Some p) = Val e" using snoc.prems(2) FF by (simp add: PrefixEndBytes_def)
      then show ?thesis using snoc.IH [OF False] by blast
    qed
    then show ?thesis using prefix_range_FF FF by blast
  qed
qed simp

lemma PrefixEndBytes_returns: "p \<noteq> [] \<Longrightarrow> is_val (PrefixEndBytes (Some p))"
proof (induction p rule: rev_induct)
  case (snoc c p)
  then show ?case by (cases "p = []") (auto simp: PrefixEndBytes_def)
qed simp

section \<open>Facts about metered access\<close>

definition gas_within :: "GasMeter \<Rightarrow> bool" where
  "gas_within g = (case g of basicGasMeter l c \<Rightarrow> c \<le> l | infiniteGasMeter c \<Rightarrow> True)"

lemma ConsumeGas_Val:
  "ConsumeGas a d g = (Val u, g') \<Longrightarrow> gas_within g' \<and> gas_consumed g' = wrap64 (gas_consumed g + a)"
  by (auto simp: ConsumeGas_def gas_within_def Let_def split: GasMeter.splits if_splits)

lemma ConsumeGas_Panic:
  "ConsumeGas a d g = (Panic p, g') \<Longrightarrow> p = OutOfGas d \<and> \<not> gas_within g'
     \<and> gas_consumed g' = wrap64 (gas_consumed g + a)"
  by (auto simp: ConsumeGas_def gas_within_def Let_def split: GasMeter.splits if_splits)

lemma consume_stores [simp]: "w_stores (snd (consume a d w)) = w_stores w"
  by (simp add: consume_def split: prod.split)

lemma consume_run: "consume a d w = (r, t) \<Longrightarrow> w_stores t = w_stores w"
  by (metis consume_stores snd_conv)

lemma consume_Val:
  "consume a d w = (Val u, t) \<Longrightarrow> w_stores t = w_stores w \<and> gas_within (w_gas t)
     \<and> gas_consumed (w_gas t) = wrap64 (gas_consumed (w_gas w) + a)"
  by (auto simp: consume_def dest: ConsumeGas_Val split: prod.splits)

lemma get_store_iff [run_iffs]: "get_store n w = (r, t) \<longleftrightarrow> r = Val (w_stores w n) \<and> t = w"
  by (auto simp: get_store_def)

lemma put_store_iff [run_iffs]:
  "put_store n m w = (r, t) \<longleftrightarrow> r = Val () \<and> t = w\<lparr>w_stores := (w_stores w)(n := m)\<rparr>"
  by (auto simp: put_store_def)

lemma get_store_run [run_simps]: "get_store n w = (Val (w_stores w n), w)"
  by (simp add: get_store_def)

lemma put_store_run [run_simps]: "put_store n m w = (Val (), w\<lparr>w_stores := (w_stores w)(n := m)\<rparr>)"
  by (simp add: put_store_def)

lemma gas_Get_Val:
  "gas_Get n k w = (Val v, t) \<Longrightarrow> kv_Get (w_stores w n) k = v \<and> w_stores t = w_stores w"
  by (auto simp: gas_Get_def Let_def run_iffs dest!: consume_run)

lemma gas_Set_Val:
  "gas_Set n k v w = (Val u, t) \<Longrightarrow> w_stores t = (w_stores w)(n := kv_Set (w_stores w n) k v)"
  by (auto simp: gas_Set_def run_iffs dest!: consume_run)

lemma gas_Has_Val:
  "gas_Has n k w = (Val b, t) \<Longrightarrow> b = kv_Has (w_stores w n) k \<and> w_stores t = w_stores w"
  by (auto simp: gas_Has_def run_iffs dest!: consume_run)

lemma gas_Delete_run [run_simps]:
  "gas_Delete n k w = (Val (), w\<lparr>w_stores := (w_stores w)(n := kv_Delete (w_stores w n) k)\<rparr>)"
  by (simp add: gas_Delete_def bnd_def get_store_def put_store_def)

lemma gas_iterator_run [run_simps]:
  "gas_iterator n s e asc w =
     (Val (if asc then kv_Iterator (w_stores w n) s e else kv_ReverseIterator (w_stores w n) s e), w)"
  by (simp add: gas_iterator_def bnd_def get_store_def ret_def)

lemma gas_iter_Key_Val: "gas_iter_Key it w = (Val k, t) \<Longrightarrow> k = fst it \<and> w_stores t = w_stores w"
  by (auto simp: gas_iter_Key_def run_iffs dest!: consume_run)

lemma gas_iter_Value_Val: "gas_iter_Value it w = (Val v, t) \<Longrightarrow> v = snd it \<and> w_stores t = w_stores w"
  by (auto simp: gas_iter_Value_def run_iffs dest!: consume_run)

lemmas gas_dests = gas_Get_Val gas_Set_Val gas_Has_Val gas_iter_Key_Val gas_iter_Value_Val

section \<open>Properties\<close>

text \<open>
  For a nonempty prefix, \<open>PrefixEndBytes\<close> returns a bound such that a range query from the
  prefix to that bound (no bound when all bytes are 255) yields exactly the keys that start
  with the prefix.
\<close>

theorem PrefixEndBytes_exact:
  assumes "p \<noteq> []"
  shows "\<exists>e. PrefixEndBytes (Some p) = Val e \<and> (\<forall>k. in_dom (Some p) e k \<longleftrightarrow> prefix p k)"
proof -
  obtain e where e: "PrefixEndBytes (Some p) = Val e"
    using PrefixEndBytes_returns [OF assms] by (auto simp: is_val_def)
  have "in_dom (Some p) e k \<longleftrightarrow> prefix p k" for k
    using PrefixEndBytes_range [OF assms e, of k] by (simp add: in_dom_def)
  then show ?thesis using e by blast
qed

theorem PrefixEndBytes_exact_witness:
  "PrefixEndBytes (Some [CHR 0x05, CHR 0xFF]) = Val (Some [CHR 0x06])
   \<and> in_dom (Some [CHR 0x05, CHR 0xFF]) (Some [CHR 0x06]) [CHR 0x05, CHR 0xFF, CHR 0x00]
   \<and> \<not> in_dom (Some [CHR 0x05, CHR 0xFF]) (Some [CHR 0x06]) [CHR 0x05, CHR 0x01]"
proof -
  have e: "PrefixEndBytes (Some [CHR 0x05, CHR 0xFF]) = Val (Some [CHR 0x06])" by code_simp
  show ?thesis using PrefixEndBytes_exact [of "[CHR 0x05, CHR 0xFF]"] e by simp
qed

text \<open>
  A metered write that returns has stored the value and consumed 10 units of gas and 10
  more per byte, within the limit of the meter; one that runs out of gas leaves every store as
  it was and the meter above its limit.
\<close>

theorem gas_Set_metered:
  "case gas_Set n k v w of
     (Val u, t) \<Rightarrow>
       w_stores t = (w_stores w)(n := kv_Set (w_stores w n) k v) \<and> gas_within (w_gas t)
       \<and> gas_consumed (w_gas t) = wrap64 (gas_consumed (w_gas w) + 10 + 10 * int (length v))
   | (Panic p, t) \<Rightarrow> w_stores t = w_stores w \<and> \<not> gas_within (w_gas t) \<and> (\<exists>d. p = OutOfGas d)"
proof -
  have panic: "w_stores t = w_stores x \<and> \<not> gas_within (w_gas t) \<and> (\<exists>d. p = OutOfGas d)"
    if "consume a d x = (Panic p, t)" for a d x p t
    using that by (auto simp: consume_def dest: ConsumeGas_Panic split: prod.splits)
  obtain r t where rt: "gas_Set n k v w = (r, t)" by fastforce
  show ?thesis
  proof (cases r)
    case (Val u)
    then have "w_stores t = (w_stores w)(n := kv_Set (w_stores w n) k v) \<and> gas_within (w_gas t)
       \<and> gas_consumed (w_gas t) = wrap64 (gas_consumed (w_gas w) + 10 + 10 * int (length v))"
      using rt by (auto simp: gas_Set_def run_iffs gas_costs add.assoc dest!: consume_Val)
    then show ?thesis using rt Val by simp
  next
    case (Panic p)
    then have "w_stores t = w_stores w \<and> \<not> gas_within (w_gas t) \<and> (\<exists>d. p = OutOfGas d)"
      using rt by (auto simp: gas_Set_def bnd_Panic_iff run_iffs dest!: panic consume_Val)
    then show ?thesis using rt Panic by simp
  qed
qed

end
