(* ===== verification/CacheStore.thy ===== *)
theory CacheStore
  imports SdkStore "HOL-Library.AList"
begin

text \<open>
  The write-back cache of a key-value store and its iterators: \<open>store/cachekvstore.go\<close>,
  \<open>store/memiterator.go\<close>, \<open>store/cachemergeiterator.go\<close>, and \<open>store/prefixstore.go\<close>.

  The Go interface \<open>KVStore\<close> is a record of operations on a state; the cache takes the
  operations of its parent and has operations of the same kind, so caches nest.  An iterator is
  the list of its remaining items; an item with no value marks a deletion.  The function
  \<open>IsKeyInDomain\<close> of the database library, which is not part of the repository, is a parameter.
\<close>

section \<open>The interface\<close>

type_synonym items = "(bytes \<times> bytes option) list"

record 's KVStore =
  op_Get :: "'s \<Rightarrow> bytes \<Rightarrow> bytes option \<times> 's"
  op_Has :: "'s \<Rightarrow> bytes \<Rightarrow> bool \<times> 's"
  op_Set :: "'s \<Rightarrow> bytes \<Rightarrow> bytes \<Rightarrow> 's"
  op_Delete :: "'s \<Rightarrow> bytes \<Rightarrow> 's"
  op_Iterator :: "'s \<Rightarrow> bytes option \<Rightarrow> bytes option \<Rightarrow> items outcome"
  op_ReverseIterator :: "'s \<Rightarrow> bytes option \<Rightarrow> bytes option \<Rightarrow> items outcome"

definition some_values :: "(bytes \<times> bytes) list \<Rightarrow> items" where
  "some_values = map (\<lambda>(k, v). (k, Some v))"

text \<open>The contract of \<open>KVStore\<close> in \<open>types/store.go\<close> as an instance of the interface.\<close>

definition kv_ops :: "kvmap KVStore" where
  "kv_ops = \<lparr>op_Get = (\<lambda>m k. (kv_Get m k, m)),
     op_Has = (\<lambda>m k. (kv_Has m k, m)),
     op_Set = kv_Set,
     op_Delete = kv_Delete,
     op_Iterator = (\<lambda>m s e. Val (some_values (kv_Iterator m s e))),
     op_ReverseIterator = (\<lambda>m s e. Val (some_values (kv_ReverseIterator m s e)))\<rparr>"

section \<open>memIterator\<close>

definition bytesCompare :: "bytes \<Rightarrow> bytes \<Rightarrow> int" where
  "bytesCompare a b = (if a < b then -1 else if a = b then 0 else 1)"

definition keyCompare :: "bytes option \<Rightarrow> bytes option \<Rightarrow> int" where
  "keyCompare k1 k2 = (case (k1, k2) of
     (None, None) \<Rightarrow> 0
   | (Some a, Some b) \<Rightarrow> bytesCompare a b
   | _ \<Rightarrow> -1)"

type_synonym key_domain_fun = "bytes \<Rightarrow> bytes option \<Rightarrow> bytes option \<Rightarrow> bool \<Rightarrow> bool"

definition newMemIterator ::
  "key_domain_fun \<Rightarrow> bytes option \<Rightarrow> bytes option \<Rightarrow> items \<Rightarrow> items" where
  "newMemIterator IsKeyInDomain start end items =
     filter (\<lambda>item. let ascending = keyCompare start end < 0
                    in IsKeyInDomain (fst item) start end (\<not> ascending)) items"

definition memIterator_Valid :: "items \<Rightarrow> bool" where
  "memIterator_Valid mi \<longleftrightarrow> length mi > 0"

definition memIterator_Next :: "(items, unit) M" where
  "memIterator_Next mi =
     (if \<not> memIterator_Valid mi then (Panic (GoPanic ''memIterator is invalid''), mi) else (Val (), tl mi))"

definition memIterator_Key :: "items \<Rightarrow> bytes outcome" where
  "memIterator_Key mi =
     (if \<not> memIterator_Valid mi then Panic (GoPanic ''memIterator is invalid'') else Val (fst (hd mi)))"

definition memIterator_Value :: "items \<Rightarrow> bytes option outcome" where
  "memIterator_Value mi =
     (if \<not> memIterator_Valid mi then Panic (GoPanic ''memIterator is invalid'') else Val (snd (hd mi)))"

section \<open>cacheMergeIterator\<close>

record cacheMergeIterator =
  mi_parent :: items
  mi_cache :: items
  mi_ascending :: bool

definition newCacheMergeIterator :: "items \<Rightarrow> items \<Rightarrow> bool \<Rightarrow> cacheMergeIterator" where
  "newCacheMergeIterator parent cache ascending =
     \<lparr>mi_parent = parent, mi_cache = cache, mi_ascending = ascending\<rparr>"

definition mi_compare :: "bool \<Rightarrow> bytes \<Rightarrow> bytes \<Rightarrow> int" where
  "mi_compare ascending a b = (if ascending then bytesCompare a b else bytesCompare a b * -1)"

fun skipCacheDeletes :: "bool \<Rightarrow> bytes option \<Rightarrow> items \<Rightarrow> items" where
  "skipCacheDeletes asc until [] = []"
| "skipCacheDeletes asc until ((k, v) # cache) =
     (if v = None \<and> (case until of None \<Rightarrow> True | Some u \<Rightarrow> mi_compare asc k u < 0)
      then skipCacheDeletes asc until cache
      else (k, v) # cache)"

lemma skipCacheDeletes_length: "length (skipCacheDeletes asc until cs) \<le> length cs"
  by (induction asc until cs rule: skipCacheDeletes.induct) auto

function skip_loop :: "bool \<Rightarrow> items \<Rightarrow> items \<Rightarrow> bool \<times> items \<times> items" where
  "skip_loop asc [] cache =
     (let cache = skipCacheDeletes asc None cache in (memIterator_Valid cache, [], cache))"
| "skip_loop asc (p # ps) [] = (True, p # ps, [])"
| "skip_loop asc (p # ps) (c # cs) =
     (let cmp = mi_compare asc (fst p) (fst c) in
      if cmp = -1 then (True, p # ps, c # cs)
      else if cmp = 0 then
        (if snd c = None then skip_loop asc ps cs else (True, p # ps, c # cs))
      else
        (if snd c = None then skip_loop asc (p # ps) (skipCacheDeletes asc (Some (fst p)) (c # cs))
         else (True, p # ps, c # cs)))"
  by pat_completeness auto

lemma mi_compare_flip: "mi_compare asc a b \<noteq> -1 \<Longrightarrow> mi_compare asc a b \<noteq> 0 \<Longrightarrow> mi_compare asc b a < 0"
  by (auto simp: mi_compare_def bytesCompare_def split: if_splits)

lemma skip_drops:
  assumes "mi_compare asc (fst p) (fst c) \<noteq> -1" and "mi_compare asc (fst p) (fst c) \<noteq> 0" and "snd c = None"
  shows "skipCacheDeletes asc (Some (fst p)) (c # cs) = skipCacheDeletes asc (Some (fst p)) cs"
  using assms mi_compare_flip [of asc "fst p" "fst c"] by (cases c) simp

termination skip_loop
proof (relation "measure (\<lambda>(_, ps, cs). length ps + length cs)", goal_cases)
  case (3 asc p ps c cs x)
  then show ?case using skip_drops [of asc p c cs] skipCacheDeletes_length [of asc "Some (fst p)" cs] by simp
qed auto

definition skipUntilExistsOrInvalid :: "(cacheMergeIterator, bool) M" where
  "skipUntilExistsOrInvalid iter =
     (case skip_loop (mi_ascending iter) (mi_parent iter) (mi_cache iter) of
        (valid, ps, cs) \<Rightarrow> (Val valid, iter\<lparr>mi_parent := ps, mi_cache := cs\<rparr>))"

definition mi_Valid :: "(cacheMergeIterator, bool) M" where
  "mi_Valid = skipUntilExistsOrInvalid"

definition mi_assertValid :: "(cacheMergeIterator, unit) M" where
  "mi_assertValid = bnd mi_Valid (\<lambda>v. if \<not> v then panicM (GoPanic ''iterator is invalid'') else ret ())"

definition parent_Next :: "(cacheMergeIterator, unit) M" where
  "parent_Next iter = (case memIterator_Next (mi_parent iter) of (r, ps) \<Rightarrow> (r, iter\<lparr>mi_parent := ps\<rparr>))"

definition cache_Next :: "(cacheMergeIterator, unit) M" where
  "cache_Next iter = (case memIterator_Next (mi_cache iter) of (r, cs) \<Rightarrow> (r, iter\<lparr>mi_cache := cs\<rparr>))"

definition mi_get :: "(cacheMergeIterator, cacheMergeIterator) M" where
  "mi_get iter = (Val iter, iter)"

definition mi_Next :: "(cacheMergeIterator, unit) M" where
  "mi_Next =
     bnd skipUntilExistsOrInvalid (\<lambda>_.
     bnd mi_assertValid (\<lambda>_.
     bnd mi_get (\<lambda>iter.
     if \<not> memIterator_Valid (mi_parent iter) then cache_Next
     else if \<not> memIterator_Valid (mi_cache iter) then parent_Next
     else
       bnd (lift (memIterator_Key (mi_parent iter))) (\<lambda>keyP.
       bnd (lift (memIterator_Key (mi_cache iter))) (\<lambda>keyC.
       let cmp = mi_compare (mi_ascending iter) keyP keyC in
       if cmp = -1 then parent_Next
       else if cmp = 0 then bnd parent_Next (\<lambda>_. cache_Next)
       else cache_Next)))))"

definition mi_Key :: "(cacheMergeIterator, bytes) M" where
  "mi_Key =
     bnd skipUntilExistsOrInvalid (\<lambda>_.
     bnd mi_assertValid (\<lambda>_.
     bnd mi_get (\<lambda>iter.
     if \<not> memIterator_Valid (mi_parent iter) then lift (memIterator_Key (mi_cache iter))
     else if \<not> memIterator_Valid (mi_cache iter) then lift (memIterator_Key (mi_parent iter))
     else
       bnd (lift (memIterator_Key (mi_parent iter))) (\<lambda>keyP.
       bnd (lift (memIterator_Key (mi_cache iter))) (\<lambda>keyC.
       let cmp = mi_compare (mi_ascending iter) keyP keyC in
       if cmp = -1 then ret keyP
       else if cmp = 0 then ret keyP
       else ret keyC)))))"

definition mi_Value :: "(cacheMergeIterator, bytes option) M" where
  "mi_Value =
     bnd skipUntilExistsOrInvalid (\<lambda>_.
     bnd mi_assertValid (\<lambda>_.
     bnd mi_get (\<lambda>iter.
     if \<not> memIterator_Valid (mi_parent iter) then lift (memIterator_Value (mi_cache iter))
     else if \<not> memIterator_Valid (mi_cache iter) then lift (memIterator_Value (mi_parent iter))
     else
       bnd (lift (memIterator_Key (mi_parent iter))) (\<lambda>keyP.
       bnd (lift (memIterator_Key (mi_cache iter))) (\<lambda>keyC.
       let cmp = mi_compare (mi_ascending iter) keyP keyC in
       if cmp = -1 then lift (memIterator_Value (mi_parent iter))
       else if cmp = 0 then lift (memIterator_Value (mi_cache iter))
       else lift (memIterator_Value (mi_cache iter)))))))"

text \<open>
  The loop of a client, \<open>for ; iter.Valid(); iter.Next()\<close>, which collects keys and values.  The
  bound on the number of rounds is the number of items the two lists hold.
\<close>

fun drain :: "nat \<Rightarrow> (cacheMergeIterator, items) M" where
  "drain 0 = ret []"
| "drain (Suc n) =
     bnd mi_Valid (\<lambda>v.
     if \<not> v then ret []
     else
       bnd mi_Key (\<lambda>k.
       bnd mi_Value (\<lambda>x.
       bnd mi_Next (\<lambda>_.
       bnd (drain n) (\<lambda>rest.
       ret ((k, x) # rest))))))"

definition iter_items :: "cacheMergeIterator \<Rightarrow> items outcome" where
  "iter_items iter = fst (drain (length (mi_parent iter) + length (mi_cache iter)) iter)"

section \<open>cacheKVStore\<close>

record cValue =
  cv_value :: "bytes option"
  cv_deleted :: bool
  cv_dirty :: bool

record 's cacheKVStore =
  ci_cache :: "(bytes \<times> cValue) list"
  ci_parent :: 's

definition NewCacheKVStore :: "'s \<Rightarrow> 's cacheKVStore" where
  "NewCacheKVStore parent = \<lparr>ci_cache = [], ci_parent = parent\<rparr>"

definition setCacheValue ::
  "'s cacheKVStore \<Rightarrow> bytes \<Rightarrow> bytes option \<Rightarrow> bool \<Rightarrow> bool \<Rightarrow> 's cacheKVStore" where
  "setCacheValue ci key v deleted dirty =
     ci\<lparr>ci_cache := AList.update key \<lparr>cv_value = v, cv_deleted = deleted, cv_dirty = dirty\<rparr> (ci_cache ci)\<rparr>"

definition cache_Get :: "'s KVStore \<Rightarrow> 's cacheKVStore \<Rightarrow> bytes \<Rightarrow> bytes option \<times> 's cacheKVStore" where
  "cache_Get P ci key = (case map_of (ci_cache ci) key of
     None \<Rightarrow>
       (case op_Get P (ci_parent ci) key of
          (v, parent) \<Rightarrow> (v, setCacheValue (ci\<lparr>ci_parent := parent\<rparr>) key v False False))
   | Some cacheValue \<Rightarrow> (cv_value cacheValue, ci))"

definition cache_Set :: "'s cacheKVStore \<Rightarrow> bytes \<Rightarrow> bytes option \<Rightarrow> 's cacheKVStore" where
  "cache_Set ci key v = setCacheValue ci key v False True"

definition cache_Has :: "'s KVStore \<Rightarrow> 's cacheKVStore \<Rightarrow> bytes \<Rightarrow> bool \<times> 's cacheKVStore" where
  "cache_Has P ci key = (case cache_Get P ci key of (v, ci') \<Rightarrow> (v \<noteq> None, ci'))"

definition cache_Delete :: "'s cacheKVStore \<Rightarrow> bytes \<Rightarrow> 's cacheKVStore" where
  "cache_Delete ci key = setCacheValue ci key None True True"

definition write_key :: "'s KVStore \<Rightarrow> (bytes \<times> cValue) list \<Rightarrow> bytes \<Rightarrow> 's \<Rightarrow> 's" where
  "write_key P cache key parent = (case map_of cache key of
     None \<Rightarrow> parent
   | Some cacheValue \<Rightarrow>
       if cv_deleted cacheValue then op_Delete P parent key
       else (case cv_value cacheValue of None \<Rightarrow> parent | Some v \<Rightarrow> op_Set P parent key v))"

definition cache_Write :: "'s KVStore \<Rightarrow> 's cacheKVStore \<Rightarrow> 's cacheKVStore" where
  "cache_Write P ci =
     (let keys = sort (map fst (filter (\<lambda>(_, dbValue). cv_dirty dbValue) (ci_cache ci)))
      in \<lparr>ci_cache = [], ci_parent = fold (write_key P (ci_cache ci)) keys (ci_parent ci)\<rparr>)"

definition dirtyItems :: "'s cacheKVStore \<Rightarrow> bool \<Rightarrow> items" where
  "dirtyItems ci ascending =
     (let items = map (\<lambda>(k, cacheValue). (k, cv_value cacheValue))
                    (filter (\<lambda>(_, cacheValue). cv_dirty cacheValue) (ci_cache ci))
      in if ascending then sort_key fst items else rev (sort_key fst items))"

definition cache_iterator ::
  "key_domain_fun \<Rightarrow> 's KVStore \<Rightarrow> 's cacheKVStore \<Rightarrow> bytes option \<Rightarrow> bytes option \<Rightarrow> bool
   \<Rightarrow> cacheMergeIterator outcome" where
  "cache_iterator IsKeyInDomain P ci start end ascending =
     obind (if ascending then op_Iterator P (ci_parent ci) start end
            else op_ReverseIterator P (ci_parent ci) start end) (\<lambda>parent.
     let items = dirtyItems ci ascending;
         cache = newMemIterator IsKeyInDomain start end items
     in Val (newCacheMergeIterator parent cache ascending))"

definition cache_ops :: "key_domain_fun \<Rightarrow> 's KVStore \<Rightarrow> 's cacheKVStore KVStore" where
  "cache_ops IsKeyInDomain P =
     \<lparr>op_Get = cache_Get P,
      op_Has = cache_Has P,
      op_Set = (\<lambda>ci k v. cache_Set ci k (Some v)),
      op_Delete = cache_Delete,
      op_Iterator = (\<lambda>ci s e. obind (cache_iterator IsKeyInDomain P ci s e True) iter_items),
      op_ReverseIterator = (\<lambda>ci s e. obind (cache_iterator IsKeyInDomain P ci s e False) iter_items)\<rparr>"

section \<open>prefixStore\<close>

fun strip_prefix :: "bytes \<Rightarrow> items \<Rightarrow> items outcome" where
  "strip_prefix pfx [] = Val []"
| "strip_prefix pfx ((k, v) # rest) =
     (if length k < length pfx then Panic (GoPanic ''slice bounds out of range'')
      else obind (strip_prefix pfx rest) (\<lambda>r. Val ((drop (length pfx) k, v) # r)))"

definition prefix_end :: "bytes \<Rightarrow> bytes option \<Rightarrow> bytes option outcome" where
  "prefix_end pfx end = (case end of None \<Rightarrow> PrefixEndBytes (Some pfx) | Some e \<Rightarrow> Val (Some (pfx @ e)))"

definition prefix_Iterator ::
  "'s KVStore \<Rightarrow> bytes \<Rightarrow> 's \<Rightarrow> bytes option \<Rightarrow> bytes option \<Rightarrow> items outcome" where
  "prefix_Iterator P pfx s start end =
     obind (prefix_end pfx end) (\<lambda>e.
     obind (op_Iterator P s (Some (pfx @ (case start of None \<Rightarrow> [] | Some b \<Rightarrow> b))) e) (\<lambda>items.
     strip_prefix pfx items))"

definition prefix_ReverseIterator ::
  "'s KVStore \<Rightarrow> bytes \<Rightarrow> 's \<Rightarrow> bytes option \<Rightarrow> bytes option \<Rightarrow> items outcome" where
  "prefix_ReverseIterator P pfx s start end =
     obind (prefix_end pfx end) (\<lambda>e.
     obind (op_ReverseIterator P s start e) (\<lambda>items.
     strip_prefix pfx items))"

definition prefix_ops :: "'s KVStore \<Rightarrow> bytes \<Rightarrow> 's KVStore" where
  "prefix_ops P pfx =
     \<lparr>op_Get = (\<lambda>s key. op_Get P s (pfx @ key)),
      op_Has = (\<lambda>s key. op_Has P s (pfx @ key)),
      op_Set = (\<lambda>s key v. op_Set P s (pfx @ key) v),
      op_Delete = (\<lambda>s key. op_Delete P s (pfx @ key)),
      op_Iterator = prefix_Iterator P pfx,
      op_ReverseIterator = prefix_ReverseIterator P pfx\<rparr>"

section \<open>Sequences of operations\<close>

text \<open>The domains the interface allows: the start, where nil counts as empty, is below the end.\<close>

definition dom_ok :: "bytes option \<Rightarrow> bytes option \<Rightarrow> bool" where
  "dom_ok s e \<longleftrightarrow>
     (case e of None \<Rightarrow> True | Some b \<Rightarrow> (case s of None \<Rightarrow> [] | Some a \<Rightarrow> a) < b)"

datatype kv_op =
    OpGet bytes | OpHas bytes | OpSet bytes bytes | OpDelete bytes
  | OpIter "bytes option" "bytes option" | OpRevIter "bytes option" "bytes option"

datatype kv_obs = ObsValue "bytes option" | ObsBool bool | ObsDone | ObsItems "items outcome"

fun run_op :: "'s KVStore \<Rightarrow> kv_op \<Rightarrow> 's \<Rightarrow> kv_obs \<times> 's" where
  "run_op S (OpGet k) s = (case op_Get S s k of (v, s') \<Rightarrow> (ObsValue v, s'))"
| "run_op S (OpHas k) s = (case op_Has S s k of (b, s') \<Rightarrow> (ObsBool b, s'))"
| "run_op S (OpSet k v) s = (ObsDone, op_Set S s k v)"
| "run_op S (OpDelete k) s = (ObsDone, op_Delete S s k)"
| "run_op S (OpIter a b) s = (ObsItems (op_Iterator S s a b), s)"
| "run_op S (OpRevIter a b) s = (ObsItems (op_ReverseIterator S s a b), s)"

fun run_ops :: "'s KVStore \<Rightarrow> kv_op list \<Rightarrow> 's \<Rightarrow> kv_obs list \<times> 's" where
  "run_ops S [] s = ([], s)"
| "run_ops S (x # xs) s =
     (case run_op S x s of (r, s') \<Rightarrow> (case run_ops S xs s' of (rs, s'') \<Rightarrow> (r # rs, s'')))"

fun op_dom_ok :: "kv_op \<Rightarrow> bool" where
  "op_dom_ok (OpIter a b) = dom_ok a b"
| "op_dom_ok (OpRevIter a b) = dom_ok a b"
| "op_dom_ok _ = True"

text \<open>
  With the reverse iterators that the interface documents: from a start down to an end that is
  not above it.
\<close>

fun op_contract :: "kv_op \<Rightarrow> bool" where
  "op_contract (OpRevIter (Some a) (Some b)) = True"
| "op_contract x = op_dom_ok x"

section \<open>The merge iterator visits the merged items\<close>

definition klt :: "bool \<Rightarrow> bytes \<Rightarrow> bytes \<Rightarrow> bool" where
  "klt asc a b \<longleftrightarrow> (if asc then a < b else b < a)"

lemma mi_compare_cases:
  "mi_compare asc a b = -1 \<longleftrightarrow> klt asc a b"
  "mi_compare asc a b = 0 \<longleftrightarrow> a = b"
  "mi_compare asc a b < 0 \<longleftrightarrow> klt asc a b"
  by (auto simp: mi_compare_def bytesCompare_def klt_def)

lemma klt_irrefl [simp]: "\<not> klt asc a a"
  by (simp add: klt_def)

lemma klt_trans: "klt asc a b \<Longrightarrow> klt asc b c \<Longrightarrow> klt asc a c"
  by (auto simp: klt_def dest: less_trans split: if_splits)

lemma klt_linear: "klt asc a b \<or> a = b \<or> klt asc b a"
  by (auto simp: klt_def)

lemma klt_asym: "klt asc a b \<Longrightarrow> \<not> klt asc b a"
  by (auto simp: klt_def split: if_splits)

text \<open>The reference: the items of the parent overridden by those of the cache.\<close>

fun merge_items :: "bool \<Rightarrow> items \<Rightarrow> items \<Rightarrow> items" where
  "merge_items asc [] cs = filter (\<lambda>c. snd c \<noteq> None) cs"
| "merge_items asc (p # ps) [] = p # ps"
| "merge_items asc (p # ps) (c # cs) =
     (if klt asc (fst p) (fst c) then p # merge_items asc ps (c # cs)
      else if fst p = fst c then
        (if snd c = None then merge_items asc ps cs else c # merge_items asc ps cs)
      else
        (if snd c = None then merge_items asc (p # ps) cs else c # merge_items asc (p # ps) cs))"

lemma merge_items_nil [simp]: "merge_items asc ps [] = ps"
  by (cases ps) simp_all

lemma skip_none_filter:
  "filter (\<lambda>c. snd c \<noteq> None) (skipCacheDeletes asc None cs) = filter (\<lambda>c. snd c \<noteq> None) cs"
  "skipCacheDeletes asc None cs \<noteq> [] \<Longrightarrow> snd (hd (skipCacheDeletes asc None cs)) \<noteq> None"
  by (induction asc "None :: bytes option" cs rule: skipCacheDeletes.induct) auto

lemma skip_none_idem: "skipCacheDeletes asc None (skipCacheDeletes asc None cs) = skipCacheDeletes asc None cs"
  by (induction asc "None :: bytes option" cs rule: skipCacheDeletes.induct) auto

lemma skip_until_merge:
  "merge_items asc (p # ps) (skipCacheDeletes asc (Some (fst p)) cs) = merge_items asc (p # ps) cs"
proof (induction asc "Some (fst p)" cs rule: skipCacheDeletes.induct)
  case (2 asc k v cs)
  show ?case
  proof (cases "v = None \<and> klt asc k (fst p)")
    case True
    then have "\<not> klt asc (fst p) k" "fst p \<noteq> k" by (auto dest: klt_asym)
    then show ?thesis using True 2 by (simp add: mi_compare_cases)
  next
    case False
    then show ?thesis by (auto simp: mi_compare_cases)
  qed
qed simp

definition settled :: "bool \<Rightarrow> items \<Rightarrow> items \<Rightarrow> bool" where
  "settled asc ps cs \<longleftrightarrow> skip_loop asc ps cs = (True, ps, cs)"

lemma skip_loop_spec:
  "skip_loop asc ps cs = (b, ps', cs') \<Longrightarrow>
     merge_items asc ps' cs' = merge_items asc ps cs \<and> b = (merge_items asc ps cs \<noteq> [])
     \<and> length ps' + length cs' \<le> length ps + length cs \<and> (b \<longrightarrow> settled asc ps' cs')"
proof (induction asc ps cs rule: skip_loop.induct)
  case (1 asc cs)
  let ?cs = "skipCacheDeletes asc None cs"
  have eqs: "ps' = []" "cs' = ?cs" "b = (?cs \<noteq> [])" using 1 by (auto simp: memIterator_Valid_def Let_def)
  have "filter (\<lambda>c. snd c \<noteq> None) ?cs \<noteq> [] \<longleftrightarrow> ?cs \<noteq> []"
    using skip_none_filter(2) [of asc cs] by (cases ?cs) auto
  then show ?case
    using eqs skip_none_filter(1) [of asc cs] skip_none_idem [of asc cs]
      skipCacheDeletes_length [of asc None cs]
    by (simp add: settled_def memIterator_Valid_def Let_def)
next
  case (2 asc p ps)
  then show ?case by (auto simp: settled_def)
next
  case (3 asc p ps c cs)
  consider "klt asc (fst p) (fst c)" | "fst p = fst c" | "\<not> klt asc (fst p) (fst c)" "fst p \<noteq> fst c"
    by blast
  then show ?case
  proof cases
    case 1
    then show ?thesis using 3(3) by (auto simp: settled_def Let_def mi_compare_cases)
  next
    case 2
    then show ?thesis using 3(1) [OF refl] 3(3)
      by (cases "snd c = None") (auto simp: settled_def Let_def mi_compare_cases)
  next
    case ne: 3
    show ?thesis
    proof (cases "snd c = None")
      case True
      have drop: "skipCacheDeletes asc (Some (fst p)) (c # cs) = skipCacheDeletes asc (Some (fst p)) cs"
        using skip_drops [of asc p c cs] ne True by (simp add: mi_compare_cases)
      have rec: "skip_loop asc (p # ps) (skipCacheDeletes asc (Some (fst p)) (c # cs)) = (b, ps', cs')"
        using 3(3) ne True by (simp add: mi_compare_cases Let_def)
      have m: "merge_items asc (p # ps) (skipCacheDeletes asc (Some (fst p)) (c # cs))
          = merge_items asc (p # ps) (c # cs)"
        by (rule skip_until_merge)
      have "length (skipCacheDeletes asc (Some (fst p)) (c # cs)) \<le> length (c # cs)"
        by (rule skipCacheDeletes_length)
      then show ?thesis
        using 3(2) [OF refl _ _ True rec] ne unfolding m mi_compare_cases by simp
    next
      case False
      then show ?thesis using ne 3(3) by (auto simp: settled_def Let_def mi_compare_cases)
    qed
  qed
qed

lemma settled_cases:
  assumes "settled asc ps cs"
  obtains c cs' where "ps = []" "cs = c # cs'" "snd c \<noteq> None"
  | p ps' where "ps = p # ps'" "cs = []"
  | p ps' c cs' where "ps = p # ps'" "cs = c # cs'" "klt asc (fst p) (fst c)"
  | p ps' c cs' where "ps = p # ps'" "cs = c # cs'" "fst p = fst c" "snd c \<noteq> None"
  | p ps' c cs' where "ps = p # ps'" "cs = c # cs'" "\<not> klt asc (fst p) (fst c)" "fst p \<noteq> fst c" "snd c \<noteq> None"
proof (cases ps)
  case Nil
  then have "skipCacheDeletes asc None cs = cs" "cs \<noteq> []"
    using assms by (auto simp: settled_def memIterator_Valid_def Let_def)
  then show thesis using that(1) [OF Nil] skip_none_filter(2) [of asc cs] by (cases cs) auto
next
  case (Cons p ps')
  show thesis
  proof (cases cs)
    case Nil
    then show thesis using that(2) Cons by blast
  next
    case cs: (Cons c cs')
    have len: "skip_loop asc ps1 cs1 \<noteq> (b, p # ps', c # cs')"
      if "length ps1 + length cs1 < length (p # ps') + length (c # cs')" for ps1 cs1 b
      using skip_loop_spec [of asc ps1 cs1 b "p # ps'" "c # cs'"] that by auto
    have del: "snd c = None \<Longrightarrow> klt asc (fst p) (fst c)"
    proof (rule ccontr)
      assume none: "snd c = None" and "\<not> klt asc (fst p) (fst c)"
      moreover have "length (skipCacheDeletes asc (Some (fst p)) cs') \<le> length cs'"
        by (rule skipCacheDeletes_length)
      ultimately show False
        using assms Cons cs skip_drops [of asc p c cs'] len
        by (auto simp: settled_def Let_def mi_compare_cases split: if_splits)
    qed
    show thesis
    proof (cases "klt asc (fst p) (fst c)")
      case True
      then show thesis by (rule that(3) [OF Cons cs])
    next
      case False
      then have "snd c \<noteq> None" using del by blast
      then show thesis
        using that(4) [OF Cons cs] that(5) [OF Cons cs False] by (cases "fst p = fst c") simp_all
    qed
  qed
qed

lemma settled_runs:
  assumes "settled (mi_ascending it) (mi_parent it) (mi_cache it)"
  shows "skipUntilExistsOrInvalid it = (Val True, it)"
    and "mi_Valid it = (Val True, it)" and "mi_assertValid it = (Val (), it)"
  using assms by (simp_all add: settled_def skipUntilExistsOrInvalid_def mi_Valid_def mi_assertValid_def
      bnd_def ret_def)

lemmas mem_iter_defs = memIterator_Valid_def memIterator_Key_def memIterator_Value_def memIterator_Next_def

lemma settled_step:
  assumes st: "settled asc ps cs"
  shows "\<exists>k v ps' cs'.
      mi_Key \<lparr>mi_parent = ps, mi_cache = cs, mi_ascending = asc\<rparr>
        = (Val k, \<lparr>mi_parent = ps, mi_cache = cs, mi_ascending = asc\<rparr>)
    \<and> mi_Value \<lparr>mi_parent = ps, mi_cache = cs, mi_ascending = asc\<rparr>
        = (Val v, \<lparr>mi_parent = ps, mi_cache = cs, mi_ascending = asc\<rparr>)
    \<and> mi_Next \<lparr>mi_parent = ps, mi_cache = cs, mi_ascending = asc\<rparr>
        = (Val (), \<lparr>mi_parent = ps', mi_cache = cs', mi_ascending = asc\<rparr>)
    \<and> merge_items asc ps cs = (k, v) # merge_items asc ps' cs'
    \<and> length ps' + length cs' < length ps + length cs"
proof -
  let ?it = "\<lparr>mi_parent = ps, mi_cache = cs, mi_ascending = asc\<rparr>"
  have runs: "skipUntilExistsOrInvalid ?it = (Val True, ?it)" "mi_assertValid ?it = (Val (), ?it)"
    using settled_runs [of ?it] st by simp_all
  note ops = mi_Key_def mi_Value_def mi_Next_def bnd_def mi_get_def lift_def ret_def
    mem_iter_defs parent_Next_def cache_Next_def Let_def mi_compare_cases
  from st show ?thesis
  proof (cases rule: settled_cases)
    case (1 c cs')
    then show ?thesis using runs by (cases c) (simp add: ops)
  next
    case (2 p ps')
    then show ?thesis using runs by (cases p) (simp add: ops)
  next
    case (3 p ps' c cs')
    then show ?thesis using runs by (cases p) (simp add: ops)
  next
    case (4 p ps' c cs')
    then show ?thesis using runs by (cases c) (simp add: ops)
  next
    case (5 p ps' c cs')
    then show ?thesis using runs by (cases c) (simp add: ops)
  qed
qed

lemma drain_merge:
  "length ps + length cs \<le> n \<Longrightarrow>
     fst (drain n \<lparr>mi_parent = ps, mi_cache = cs, mi_ascending = asc\<rparr>) = Val (merge_items asc ps cs)"
proof (induction n arbitrary: ps cs)
  case 0
  then show ?case by (simp add: ret_def)
next
  case (Suc n)
  obtain b ps1 cs1 where skip: "skip_loop asc ps cs = (b, ps1, cs1)" by (metis prod_cases3)
  let ?it = "\<lparr>mi_parent = ps, mi_cache = cs, mi_ascending = asc\<rparr>"
  let ?it1 = "\<lparr>mi_parent = ps1, mi_cache = cs1, mi_ascending = asc\<rparr>"
  note spec = skip_loop_spec [OF skip]
  have valid: "mi_Valid ?it = (Val b, ?it1)"
    by (simp add: mi_Valid_def skipUntilExistsOrInvalid_def skip)
  show ?case
  proof (cases b)
    case False
    then show ?thesis using spec by (simp add: bnd_def valid ret_def)
  next
    case True
    then have "settled asc ps1 cs1" using spec by simp
    then obtain k v ps2 cs2 where step: "mi_Key ?it1 = (Val k, ?it1)" "mi_Value ?it1 = (Val v, ?it1)"
        "mi_Next ?it1 = (Val (), \<lparr>mi_parent = ps2, mi_cache = cs2, mi_ascending = asc\<rparr>)"
        "merge_items asc ps1 cs1 = (k, v) # merge_items asc ps2 cs2"
        "length ps2 + length cs2 < length ps1 + length cs1"
      using settled_step by blast
    have "fst (drain n \<lparr>mi_parent = ps2, mi_cache = cs2, mi_ascending = asc\<rparr>) = Val (merge_items asc ps2 cs2)"
      using Suc step(5) spec by simp
    then show ?thesis
      using step spec True by (auto simp: bnd_def valid ret_def split: prod.splits)
  qed
qed

lemma iter_items_merge:
  "iter_items (newCacheMergeIterator ps cs asc) = Val (merge_items asc ps cs)"
  by (simp add: iter_items_def newCacheMergeIterator_def drain_merge)

section \<open>What the merged items are\<close>

definition ksorted :: "bool \<Rightarrow> ('k :: type \<Rightarrow> bytes) \<Rightarrow> 'k list \<Rightarrow> bool" where
  "ksorted asc f l \<longleftrightarrow> sorted_wrt (klt asc) (map f l)"

lemma ksorted_simps [simp]:
  "ksorted asc f []"
  "ksorted asc f (x # l) \<longleftrightarrow> (\<forall>y \<in> set l. klt asc (f x) (f y)) \<and> ksorted asc f l"
  by (auto simp: ksorted_def)

lemma ksorted_filter [simp]: "ksorted asc f l \<Longrightarrow> ksorted asc f (filter P l)"
  by (induction l) auto

lemma ksorted_distinct: "ksorted asc f l \<Longrightarrow> distinct (map f l)"
  by (induction l) auto

lemma map_of_above: "\<forall>y \<in> set l. klt asc k (fst y) \<Longrightarrow> map_of l k = None"
  by (induction l) auto

lemma merge_items_subset: "set (merge_items asc ps cs) \<subseteq> set ps \<union> set cs"
  by (induction asc ps cs rule: merge_items.induct) auto

lemma merge_items_above:
  "\<lbrakk>\<forall>y \<in> set ps. klt asc k (fst y); \<forall>y \<in> set cs. klt asc k (fst y); x \<in> set (merge_items asc ps cs)\<rbrakk>
   \<Longrightarrow> klt asc k (fst x)"
  using merge_items_subset by fastforce

lemma merge_items_sorted:
  "\<lbrakk>ksorted asc fst ps; ksorted asc fst cs\<rbrakk> \<Longrightarrow> ksorted asc fst (merge_items asc ps cs)"
proof (induction asc ps cs rule: merge_items.induct)
  case (3 asc p ps c cs)
  have p: "\<forall>y \<in> set ps. klt asc (fst p) (fst y)" and c: "\<forall>y \<in> set cs. klt asc (fst c) (fst y)"
    using 3(6,7) by auto
  consider "klt asc (fst p) (fst c)" | "fst p = fst c" | "klt asc (fst c) (fst p)"
    using klt_linear by blast
  then show ?case
  proof cases
    case 1
    then have "\<forall>y \<in> set (c # cs). klt asc (fst p) (fst y)" using c klt_trans by auto
    then have "\<forall>y \<in> set (merge_items asc ps (c # cs)). klt asc (fst p) (fst y)"
      using merge_items_above [OF p] by blast
    then show ?thesis using 1 3 by simp
  next
    case 2
    then have "\<forall>y \<in> set (merge_items asc ps cs). klt asc (fst c) (fst y)"
      using merge_items_above [OF _ c] p by simp
    then show ?thesis using 2 3 by auto
  next
    case c_first: 3
    then have "\<not> klt asc (fst p) (fst c)" "fst p \<noteq> fst c" by (auto dest: klt_asym)
    moreover have "\<forall>y \<in> set (p # ps). klt asc (fst c) (fst y)" using c_first p klt_trans by auto
    then have "\<forall>y \<in> set (merge_items asc (p # ps) cs). klt asc (fst c) (fst y)"
      using merge_items_above [OF _ c] by blast
    ultimately show ?thesis using 3 by auto
  qed
qed auto

lemma merge_items_lookup:
  "\<lbrakk>ksorted asc fst ps; ksorted asc fst cs\<rbrakk> \<Longrightarrow>
     map_of (merge_items asc ps cs) k =
       (case map_of cs k of None \<Rightarrow> map_of ps k | Some None \<Rightarrow> None | Some (Some v) \<Rightarrow> Some (Some v))"
proof (induction asc ps cs rule: merge_items.induct)
  case (1 asc cs)
  then show ?case by (induction cs) (auto simp: map_of_above split: option.splits)
next
  case (3 asc p ps c cs)
  have p: "map_of ps (fst p) = None" and c: "map_of cs (fst c) = None"
    using 3(6,7) by (auto intro: map_of_above)
  consider "klt asc (fst p) (fst c)" | "fst p = fst c" | "klt asc (fst c) (fst p)"
    using klt_linear by blast
  then show ?case
  proof cases
    case 1
    then have "\<forall>y \<in> set (c # cs). klt asc (fst p) (fst y)" using 3(7) klt_trans by auto
    then have "map_of (c # cs) (fst p) = None" by (rule map_of_above)
    then show ?thesis using 1 3 by (cases p) (auto split: option.splits)
  next
    case 2
    then show ?thesis using 3 p c by (cases p; cases c) (auto split: option.splits)
  next
    case c_first: 3
    then have n: "\<not> klt asc (fst p) (fst c)" "fst p \<noteq> fst c" by (auto dest: klt_asym)
    have "\<forall>y \<in> set (p # ps). klt asc (fst c) (fst y)" using c_first 3(6) klt_trans by auto
    then have "map_of (p # ps) (fst c) = None" by (rule map_of_above)
    then show ?thesis using n 3 c by (cases c) (auto split: option.splits)
  qed
qed simp

lemma ksorted_mem_iff: "ksorted asc fst l \<Longrightarrow> (k, v) \<in> set l \<longleftrightarrow> map_of l k = Some v"
  using ksorted_distinct [of asc fst l] by simp

lemma map_of_some_values [simp]: "map_of (some_values l) k = map_option Some (map_of l k)"
  by (induction l) (auto simp: some_values_def)

lemma fst_some_values [simp]: "map fst (some_values l) = map fst l"
  by (induction l) (auto simp: some_values_def)

lemma ksorted_some_values [simp]: "ksorted asc fst (some_values l) = ksorted asc fst l"
  by (simp add: ksorted_def)

lemma some_values_the: "\<forall>x \<in> set m. snd x \<noteq> None \<Longrightarrow> some_values (map (\<lambda>(k, v). (k, the v)) m) = m"
  by (induction m) (auto simp: some_values_def)

section \<open>The laws of a key-value store\<close>

text \<open>An iterator over a domain: the items of the view in that domain, in order, each once.\<close>

definition visits_in :: "bool \<Rightarrow> (bytes \<Rightarrow> bytes option) \<Rightarrow> (bytes \<Rightarrow> bool) \<Rightarrow> items outcome \<Rightarrow> bool" where
  "visits_in asc v P r \<longleftrightarrow>
     (\<exists>l. r = Val (some_values l) \<and> ksorted asc fst l \<and> (\<forall>k. map_of l k = (if P k then v k else None)))"

definition visits :: "bool \<Rightarrow> (bytes \<Rightarrow> bytes option) \<Rightarrow> bytes option \<Rightarrow> bytes option \<Rightarrow> items outcome \<Rightarrow> bool" where
  "visits asc v s e r \<longleftrightarrow>
     (\<exists>l. r = Val (some_values l) \<and> ksorted asc fst l
        \<and> (\<forall>k. map_of l k = (if in_dom s e k then v k else None)))"

lemma visits_in_dom: "visits asc v s e = visits_in asc v (in_dom s e)"
  by (simp add: visits_def visits_in_def fun_eq_iff)

lemma rev_dom_up: "dom_ok s e \<Longrightarrow> rev_dom s e = in_dom s e"
  by (auto simp: rev_dom_def dom_ok_def fun_eq_iff split: option.splits)

lemma rev_dom_down: "b \<le> a \<Longrightarrow> rev_dom (Some a) (Some b) = (\<lambda>k. b < k \<and> k \<le> a)"
  by (simp add: rev_dom_def fun_eq_iff)

lemma visits_unique:
  assumes "visits_in asc v P r" and "visits_in asc v P r'"
  shows "r = r'"
proof -
  obtain l where l: "r = Val (some_values l)" "ksorted asc fst l"
      "\<And>k. map_of l k = (if P k then v k else None)"
    using assms(1) by (auto simp: visits_in_def)
  obtain l' where l': "r' = Val (some_values l')" "ksorted asc fst l'"
      "\<And>k. map_of l' k = (if P k then v k else None)"
    using assms(2) by (auto simp: visits_in_def)
  note r = l(1) l'(1) and s = l(2) l'(2)
  have m: "map_of l = map_of l'" by (rule ext) (simp add: l(3) l'(3))
  have "set l = set l'"
    using ksorted_mem_iff [OF s(1)] ksorted_mem_iff [OF s(2)] m by (metis subrelI subset_antisym)
  moreover have "sorted_wrt (\<lambda>x y. klt asc (fst x) (fst y)) l" "sorted_wrt (\<lambda>x y. klt asc (fst x) (fst y)) l'"
    using s by (simp_all add: ksorted_def sorted_wrt_map)
  ultimately have "l = l'"
  proof (induction l arbitrary: l')
    case (Cons x l)
    then obtain y l2 where l': "l' = y # l2" by (cases l') auto
    have "x = y"
    proof (rule ccontr)
      assume "x \<noteq> y"
      then have "x \<in> set l2" "y \<in> set l" using Cons.prems(1) l' by auto
      then show False using Cons.prems(2,3) l' klt_asym by fastforce
    qed
    moreover have "x \<notin> set l" "y \<notin> set l2" using Cons.prems(2,3) l' klt_irrefl by fastforce+
    then have "set l = set l2" using Cons.prems(1) l' \<open>x = y\<close> by auto
    ultimately show ?case using Cons l' by auto
  qed simp
  then show ?thesis using r by simp
qed

text \<open>
  What every key-value store promises; a store that also iterates backwards as its interface
  documents extends this.
\<close>

locale kv_forward =
  fixes S :: "'s KVStore" and good :: "'s \<Rightarrow> bool" and view :: "'s \<Rightarrow> bytes \<Rightarrow> bytes option"
  assumes get: "\<lbrakk>good s; op_Get S s k = (v, s')\<rbrakk> \<Longrightarrow> v = view s k \<and> good s' \<and> view s' = view s"
    and has: "\<lbrakk>good s; op_Has S s k = (found, s')\<rbrakk> \<Longrightarrow> found = (view s k \<noteq> None) \<and> good s' \<and> view s' = view s"
    and set: "good s \<Longrightarrow> good (op_Set S s k x) \<and> view (op_Set S s k x) = (view s)(k \<mapsto> x)"
    and del: "good s \<Longrightarrow> good (op_Delete S s k) \<and> view (op_Delete S s k) = (view s)(k := None)"
    and iter: "\<lbrakk>good s; dom_ok a b\<rbrakk> \<Longrightarrow> visits True (view s) a b (op_Iterator S s a b)"

locale kvstore = kv_forward +
  assumes riter: "\<lbrakk>good s; dom_ok a b\<rbrakk> \<Longrightarrow> visits False (view s) a b (op_ReverseIterator S s a b)"

locale kvstore_back = kvstore +
  assumes downward: "\<lbrakk>good s; b \<le> a\<rbrakk> \<Longrightarrow>
    visits_in False (view s) (\<lambda>k. b < k \<and> k \<le> a) (op_ReverseIterator S s (Some a) (Some b))"

lemma klt_simps [simp]: "klt True = (<)" "klt False = (>)"
  by (auto simp: klt_def fun_eq_iff)

lemma kv_visits:
  assumes "kv_sorted m"
  shows "visits True (kv_Get m) a b (Val (some_values (kv_Iterator m a b)))"
    and "visits_in False (kv_Get m) (rev_dom a b) (Val (some_values (kv_ReverseIterator m a b)))"
    and "dom_ok a b \<Longrightarrow> visits False (kv_Get m) a b (Val (some_values (kv_ReverseIterator m a b)))"
proof -
  have look: "map_of (filter (\<lambda>(k, _). P k) m) k = (if P k then kv_Get m k else None)" for P k
    unfolding kv_Get_def by (induction m) auto
  have rev: "map_of (rev (filter P m)) = map_of (filter P m)" for P
    using kv_sorted_distinct [OF kv_sorted_filter [OF assms]] by (simp add: map_of_inject_set flip: rev_map)
  show "visits True (kv_Get m) a b (Val (some_values (kv_Iterator m a b)))"
    using kv_Iterator_sorted [OF assms] look unfolding visits_def ksorted_def kv_sorted_def by (auto simp: kv_Iterator_def)
  show rev_in: "visits_in False (kv_Get m) (rev_dom a b) (Val (some_values (kv_ReverseIterator m a b)))"
    using kv_ReverseIterator_sorted [OF assms, of a b] look rev
    unfolding visits_in_def ksorted_def by (auto simp: kv_ReverseIterator_def)
  show "visits False (kv_Get m) a b (Val (some_values (kv_ReverseIterator m a b)))" if "dom_ok a b"
    using rev_in by (simp add: visits_in_dom rev_dom_up [OF that])
qed

interpretation kv: kvstore_back kv_ops kv_sorted kv_Get
proof unfold_locales
  show "visits_in False (kv_Get s) (\<lambda>k. b < k \<and> k \<le> a) (op_ReverseIterator kv_ops s (Some a) (Some b))"
    if "kv_sorted s" "b \<le> a" for s a b
    using kv_visits(2) [OF that(1), of "Some a" "Some b"] by (simp add: kv_ops_def rev_dom_down [OF that(2)])
qed (auto simp: kv_ops_def kv_Has_def kv_visits)

section \<open>The cache keeps the laws of its parent\<close>

definition cache_view :: "('s \<Rightarrow> bytes \<Rightarrow> bytes option) \<Rightarrow> 's cacheKVStore \<Rightarrow> bytes \<Rightarrow> bytes option" where
  "cache_view view ci k =
     (case map_of (ci_cache ci) k of None \<Rightarrow> view (ci_parent ci) k | Some cv \<Rightarrow> cv_value cv)"

text \<open>
  A clean entry repeats what the parent has; a dirty entry has no value exactly when it is a
  deletion.
\<close>

definition entry_ok :: "bytes option \<Rightarrow> cValue \<Rightarrow> bool" where
  "entry_ok pv cv \<longleftrightarrow>
     (if cv_dirty cv then cv_deleted cv = (cv_value cv = None)
      else \<not> cv_deleted cv \<and> cv_value cv = pv)"

definition cache_inv ::
  "('s \<Rightarrow> bool) \<Rightarrow> ('s \<Rightarrow> bytes \<Rightarrow> bytes option) \<Rightarrow> 's cacheKVStore \<Rightarrow> bool" where
  "cache_inv good view ci \<longleftrightarrow>
     good (ci_parent ci) \<and> distinct (map fst (ci_cache ci))
     \<and> (\<forall>k cv. map_of (ci_cache ci) k = Some cv \<longrightarrow> entry_ok (view (ci_parent ci) k) cv)"

text \<open>What the cache relies on of \<open>IsKeyInDomain\<close>: it decides the half-open interval.\<close>

locale key_domain =
  fixes D :: key_domain_fun
  assumes fwd: "\<lbrakk>dom_ok s e; s \<noteq> None \<or> e \<noteq> None\<rbrakk> \<Longrightarrow> D k s e False = in_dom s e k"
    and full: "D k None None True"
begin

lemma newMemIterator_filter:
  assumes "dom_ok s e"
  shows "newMemIterator D s e items = filter (\<lambda>item. in_dom s e (fst item)) items"
proof (cases "s = None \<and> e = None")
  case True
  then show ?thesis by (simp add: newMemIterator_def keyCompare_def full in_dom_def)
next
  case False
  then have "keyCompare s e < 0"
    using assms by (auto simp: keyCompare_def dom_ok_def bytesCompare_def split: option.splits)
  then show ?thesis using fwd [OF assms] False by (simp add: newMemIterator_def)
qed

end

locale key_domain_back = key_domain +
  assumes bwd: "b \<le> a \<Longrightarrow> D k (Some a) (Some b) True \<longleftrightarrow> b < k \<and> k \<le> a"
begin

lemma newMemIterator_back:
  "b \<le> a \<Longrightarrow> newMemIterator D (Some a) (Some b) items = filter (\<lambda>item. b < fst item \<and> fst item \<le> a) items"
  by (simp add: newMemIterator_def keyCompare_def bytesCompare_def bwd)

end

definition half_open_domain :: key_domain_fun where
  "half_open_domain k s e isReverse =
     (if \<not> isReverse then in_dom s e k
      else (case s of None \<Rightarrow> True | Some a \<Rightarrow> k \<le> a) \<and> (case e of None \<Rightarrow> True | Some b \<Rightarrow> b < k))"

interpretation half_open: key_domain_back half_open_domain
  by unfold_locales (auto simp: half_open_domain_def)

lemma distinct_map_filter_fst: "distinct (map fst l) \<Longrightarrow> distinct (map fst (filter P l))"
  by (induction l) auto

lemma map_of_map_snd: "map_of (map (\<lambda>(k, x). (k, f x)) l) k = map_option f (map_of l k)"
  by (induction l) auto

lemma map_of_filter_snd:
  "distinct (map fst l) \<Longrightarrow>
     map_of (filter (\<lambda>(_, x). P x) l) k =
       (case map_of l k of None \<Rightarrow> None | Some x \<Rightarrow> if P x then Some x else None)"
proof (induction l)
  case (Cons a l)
  show ?case
  proof (cases "fst a = k")
    case True
    then have "map_of l k = None" using Cons.prems by (auto simp: map_of_eq_None_iff)
    then show ?thesis using Cons True by (cases a) auto
  next
    case False
    then show ?thesis using Cons by (cases a) auto
  qed
qed simp

lemma map_of_filter_key: "map_of (filter (\<lambda>x. P (fst x)) l) k = (if P k then map_of l k else None)"
  by (induction l) auto

lemma sort_key_map_of: "distinct (map fst l) \<Longrightarrow> map_of (sort_key fst l) = map_of (l :: (bytes \<times> 'v) list)"
  by (simp add: map_of_inject_set distinct_map)

lemma distinct_fst_sort_key [simp]: "distinct (map fst (sort_key g l)) = distinct (map fst l)"
  by (simp add: distinct_map)

lemma dirtyItems_sorted:
  assumes "distinct (map fst (ci_cache ci))"
  shows "ksorted asc fst (dirtyItems ci asc)"
    and "map_of (dirtyItems ci asc) k =
      (case map_of (ci_cache ci) k of
         None \<Rightarrow> None | Some cv \<Rightarrow> if cv_dirty cv then Some (cv_value cv) else None)"
proof -
  let ?l = "map (\<lambda>(k, cv). (k, cv_value cv)) (filter (\<lambda>(_, cv). cv_dirty cv) (ci_cache ci))"
  have d: "distinct (map fst ?l)"
    using distinct_map_filter_fst [OF assms] by (simp add: comp_def case_prod_unfold)
  have ds: "distinct (map fst (sort_key fst ?l))" using d by simp
  have s: "sorted_wrt (<) (map fst (sort_key fst ?l))"
    using ds sorted_sort_key [of fst ?l] by (simp add: strict_sorted_iff)
  have look: "map_of ?l k = (case map_of (ci_cache ci) k of
      None \<Rightarrow> None | Some cv \<Rightarrow> if cv_dirty cv then Some (cv_value cv) else None)"
    unfolding map_of_map_snd map_of_filter_snd [OF assms] by (simp split: option.splits)
  have r: "map_of (rev (sort_key fst ?l)) = map_of ?l"
    using ds d by (subst map_of_inject_set) (simp_all del: map_map flip: rev_map)
  show "ksorted asc fst (dirtyItems ci asc)"
    using s by (cases asc) (simp_all add: dirtyItems_def Let_def ksorted_def sorted_wrt_rev flip: rev_map)
  show "map_of (dirtyItems ci asc) k =
      (case map_of (ci_cache ci) k of
         None \<Rightarrow> None | Some cv \<Rightarrow> if cv_dirty cv then Some (cv_value cv) else None)"
    using look r sort_key_map_of [OF d] by (simp add: dirtyItems_def Let_def)
qed

locale cache_over = kvstore S good view + key_domain D
  for S :: "'s KVStore" and good view D
begin

lemma cache_get:
  assumes "cache_inv good view ci" and "cache_Get S ci k = (v, ci')"
  shows "v = cache_view view ci k \<and> cache_inv good view ci' \<and> cache_view view ci' = cache_view view ci"
proof (cases "map_of (ci_cache ci) k")
  case None
  obtain x p where g: "op_Get S (ci_parent ci) k = (x, p)" by fastforce
  have p: "x = view (ci_parent ci) k" "good p" "view p = view (ci_parent ci)"
    using get [OF _ g] assms(1) by (simp_all add: cache_inv_def)
  have ci': "ci' = setCacheValue (ci\<lparr>ci_parent := p\<rparr>) k x False False" and v: "v = x"
    using assms(2) None g by (auto simp: cache_Get_def)
  have "cache_inv good view ci'"
    using assms(1) p by (auto simp: ci' setCacheValue_def cache_inv_def distinct_update update_conv' entry_ok_def)
  moreover have "cache_view view ci' = cache_view view ci"
    using p None by (auto simp: ci' setCacheValue_def cache_view_def update_conv' fun_eq_iff split: option.splits)
  ultimately show ?thesis using v p None by (simp add: cache_view_def)
next
  case (Some cv)
  then show ?thesis using assms by (simp add: cache_Get_def cache_view_def)
qed

lemma cache_set:
  assumes "cache_inv good view ci"
  shows "cache_inv good view (cache_Set ci k (Some x))
    \<and> cache_view view (cache_Set ci k (Some x)) = (cache_view view ci)(k \<mapsto> x)"
  using assms
  by (auto simp: cache_Set_def setCacheValue_def cache_inv_def cache_view_def distinct_update update_conv'
      entry_ok_def fun_eq_iff split: option.splits)

lemma cache_del:
  assumes "cache_inv good view ci"
  shows "cache_inv good view (cache_Delete ci k)
    \<and> cache_view view (cache_Delete ci k) = (cache_view view ci)(k := None)"
  using assms
  by (auto simp: cache_Delete_def setCacheValue_def cache_inv_def cache_view_def distinct_update update_conv'
      entry_ok_def fun_eq_iff split: option.splits)

lemma cache_visits_in:
  assumes "cache_inv good view ci"
    and "visits_in asc (view (ci_parent ci)) P
      (if asc then op_Iterator S (ci_parent ci) s e else op_ReverseIterator S (ci_parent ci) s e)"
    and "\<And>items. newMemIterator D s e items = filter (\<lambda>item. P (fst item)) items"
  shows "visits_in asc (cache_view view ci) P (obind (cache_iterator D S ci s e asc) iter_items)"
proof -
  obtain l where l:
      "(if asc then op_Iterator S (ci_parent ci) s e else op_ReverseIterator S (ci_parent ci) s e)
        = Val (some_values l)"
      "ksorted asc fst l" "\<And>k. map_of l k = (if P k then view (ci_parent ci) k else None)"
    using assms(2) by (auto simp: visits_in_def)
  let ?c = "filter (\<lambda>item. P (fst item)) (dirtyItems ci asc)"
  let ?m = "merge_items asc (some_values l) ?c"
  have d: "distinct (map fst (ci_cache ci))" using assms(1) by (simp add: cache_inv_def)
  have sc: "ksorted asc fst ?c" using dirtyItems_sorted(1) [OF d] by simp
  have run: "obind (cache_iterator D S ci s e asc) iter_items = Val ?m"
    using l(1) by (simp add: cache_iterator_def assms(3) iter_items_merge Let_def)
  have sm: "ksorted asc fst ?m" using merge_items_sorted sc l(2) by simp
  have look: "map_of ?m k = map_option Some (if P k then cache_view view ci k else None)" for k
    using assms(1) l(3) merge_items_lookup [of asc "some_values l" ?c k] sc l(2)
    by (auto simp: map_of_filter_key dirtyItems_sorted(2) [OF d] cache_view_def cache_inv_def entry_ok_def
        split: option.splits if_splits)
  have vals: "snd x \<noteq> None" if "x \<in> set ?m" for x
  proof -
    have "map_of ?m (fst x) = Some (snd x)"
      using that ksorted_mem_iff [OF sm, of "fst x" "snd x"] by simp
    then show ?thesis unfolding look by (metis map_option_eq_Some option.distinct(1))
  qed
  let ?l = "map (\<lambda>(k, v). (k, the v)) ?m"
  have eq: "some_values ?l = ?m"
    using vals by (intro some_values_the) blast
  moreover have "ksorted asc fst ?l" using sm by (simp add: ksorted_def comp_def case_prod_unfold)
  moreover have "map_of ?l k = (if P k then cache_view view ci k else None)" for k
    unfolding map_of_map_snd look by (cases "cache_view view ci k") simp_all
  ultimately show ?thesis unfolding run visits_in_def by metis
qed

lemma cache_visits:
  assumes "cache_inv good view ci" and "dom_ok s e"
  shows "visits asc (cache_view view ci) s e (obind (cache_iterator D S ci s e asc) iter_items)"
  unfolding visits_in_dom
  using iter riter assms
  by (intro cache_visits_in newMemIterator_filter) (simp_all add: cache_inv_def visits_in_dom)

lemma cache_kvstore: "kvstore (cache_ops D S) (cache_inv good view) (cache_view view)"
proof
  fix ci k v ci'
  assume good: "cache_inv good view ci"
  show "v = cache_view view ci k \<and> cache_inv good view ci' \<and> cache_view view ci' = cache_view view ci"
    if "op_Get (cache_ops D S) ci k = (v, ci')"
    using cache_get [OF good] that by (simp add: cache_ops_def)
next
  fix ci k b ci'
  assume "cache_inv good view ci" and "op_Has (cache_ops D S) ci k = (b, ci')"
  then show "b = (cache_view view ci k \<noteq> None) \<and> cache_inv good view ci' \<and> cache_view view ci' = cache_view view ci"
    using cache_get [of ci k] by (auto simp: cache_ops_def cache_Has_def split: prod.splits)
qed (simp_all add: cache_ops_def cache_set cache_del cache_visits)

lemma write_fold:
  assumes "good p" and "\<forall>k \<in> set ks. \<exists>cv. map_of c k = Some cv \<and> cv_deleted cv = (cv_value cv = None)"
  shows "good (fold (write_key S c) ks p)
    \<and> view (fold (write_key S c) ks p) k = (if k \<in> set ks then cv_value (the (map_of c k)) else view p k)"
  using assms
proof (induction ks arbitrary: p)
  case (Cons x ks)
  obtain cv where cv: "map_of c x = Some cv" "cv_deleted cv = (cv_value cv = None)"
    using Cons.prems(2) by auto
  have step: "good (write_key S c x p) \<and> view (write_key S c x p) = (view p)(x := cv_value cv)"
    using cv set [OF Cons.prems(1)] del [OF Cons.prems(1)]
    by (auto simp: write_key_def split: option.splits)
  then show ?case using Cons.IH [of "write_key S c x p"] Cons.prems(2) cv(1) by auto
qed simp

lemma cache_write:
  assumes "cache_inv good view ci"
  shows "good (ci_parent (cache_Write S ci)) \<and> view (ci_parent (cache_Write S ci)) = cache_view view ci
    \<and> ci_cache (cache_Write S ci) = []"
proof -
  let ?ks = "sort (map fst (filter (\<lambda>(_, cv). cv_dirty cv) (ci_cache ci)))"
  have d: "distinct (map fst (ci_cache ci))" using assms by (simp add: cache_inv_def)
  have mem: "k \<in> set ?ks \<longleftrightarrow> (\<exists>cv. map_of (ci_cache ci) k = Some cv \<and> cv_dirty cv)" for k
    using d by (auto simp: image_iff case_prod_unfold)
  have ok: "\<forall>k \<in> set ?ks. \<exists>cv. map_of (ci_cache ci) k = Some cv \<and> cv_deleted cv = (cv_value cv = None)"
    unfolding Ball_def mem using assms by (auto simp: cache_inv_def entry_ok_def)
  have w: "cache_Write S ci = \<lparr>ci_cache = [], ci_parent = fold (write_key S (ci_cache ci)) ?ks (ci_parent ci)\<rparr>"
    by (simp add: cache_Write_def Let_def)
  have fold: "good (fold (write_key S (ci_cache ci)) ?ks (ci_parent ci))
    \<and> view (fold (write_key S (ci_cache ci)) ?ks (ci_parent ci)) k
       = (if k \<in> set ?ks then cv_value (the (map_of (ci_cache ci) k)) else view (ci_parent ci) k)" for k
    using write_fold [OF _ ok] assms by (simp add: cache_inv_def)
  moreover have "(if k \<in> set ?ks then cv_value (the (map_of (ci_cache ci) k)) else view (ci_parent ci) k)
      = cache_view view ci k" for k
    unfolding mem using assms
    by (cases "map_of (ci_cache ci) k") (auto simp: cache_view_def cache_inv_def entry_ok_def)
  ultimately show ?thesis unfolding w by (simp add: fun_eq_iff)
qed

lemma cache_new: "good p \<Longrightarrow> cache_inv good view (NewCacheKVStore p) \<and> cache_view view (NewCacheKVStore p) = view p"
  by (simp add: NewCacheKVStore_def cache_inv_def cache_view_def fun_eq_iff)

end

locale cache_back = kvstore_back S good view + key_domain_back D
  for S :: "'s KVStore" and good view D
begin

sublocale over: cache_over ..

lemma cache_kvstore_back: "kvstore_back (cache_ops D S) (cache_inv good view) (cache_view view)"
proof (rule kvstore_back.intro [OF over.cache_kvstore], unfold_locales)
  fix ci and a b :: bytes
  assume good: "cache_inv good view ci" and ab: "b \<le> a"
  have "visits_in False (cache_view view ci) (\<lambda>k. b < k \<and> k \<le> a)
      (obind (cache_iterator D S ci (Some a) (Some b) False) iter_items)"
    using good by (intro over.cache_visits_in newMemIterator_back [OF ab]) (simp_all add: cache_inv_def downward ab)
  then show "visits_in False (cache_view view ci) (\<lambda>k. b < k \<and> k \<le> a) (op_ReverseIterator (cache_ops D S) ci (Some a) (Some b))"
    by (simp add: cache_ops_def)
qed

end

section \<open>Two stores with the same view cannot be told apart\<close>

fun spec_op :: "kv_op \<Rightarrow> (bytes \<Rightarrow> bytes option) \<Rightarrow> (bytes \<Rightarrow> bytes option)" where
  "spec_op (OpSet k v) m = m(k \<mapsto> v)"
| "spec_op (OpDelete k) m = m(k := None)"
| "spec_op _ m = m"

fun obs_ok :: "kv_op \<Rightarrow> (bytes \<Rightarrow> bytes option) \<Rightarrow> kv_obs \<Rightarrow> bool" where
  "obs_ok (OpGet k) m r \<longleftrightarrow> r = ObsValue (m k)"
| "obs_ok (OpHas k) m r \<longleftrightarrow> r = ObsBool (m k \<noteq> None)"
| "obs_ok (OpSet k v) m r \<longleftrightarrow> r = ObsDone"
| "obs_ok (OpDelete k) m r \<longleftrightarrow> r = ObsDone"
| "obs_ok (OpIter a b) m r \<longleftrightarrow> (\<exists>x. r = ObsItems x \<and> visits True m a b x)"
| "obs_ok (OpRevIter a b) m r \<longleftrightarrow> (\<exists>x. r = ObsItems x \<and> visits_in False m (rev_dom a b) x)"

lemma obs_ok_unique: "obs_ok x m r \<Longrightarrow> obs_ok x m r' \<Longrightarrow> r = r'"
  by (cases x) (auto simp: visits_in_dom dest: visits_unique)

definition answers :: "(kv_op \<Rightarrow> bool) \<Rightarrow> 's KVStore \<Rightarrow> ('s \<Rightarrow> bool) \<Rightarrow> ('s \<Rightarrow> bytes \<Rightarrow> bytes option) \<Rightarrow> bool" where
  "answers ok S good view \<longleftrightarrow> (\<forall>x s r s'. good s \<longrightarrow> ok x \<longrightarrow> run_op S x s = (r, s') \<longrightarrow>
     obs_ok x (view s) r \<and> good s' \<and> view s' = spec_op x (view s))"

lemma answersD:
  "answers ok S good view \<Longrightarrow> good s \<Longrightarrow> ok x \<Longrightarrow> run_op S x s = (r, s') \<Longrightarrow>
   obs_ok x (view s) r \<and> good s' \<and> view s' = spec_op x (view s)"
  by (simp add: answers_def)

context kvstore
begin

lemma run_op_obs:
  assumes "good s" and "op_dom_ok x" and "run_op S x s = (r, s')"
  shows "obs_ok x (view s) r \<and> good s' \<and> view s' = spec_op x (view s)"
  using assms set del iter riter
  by (cases x) (auto simp: visits_in_dom rev_dom_up split: prod.splits dest: get has)

lemma answers_dom: "answers op_dom_ok S good view"
  using run_op_obs unfolding answers_def by blast

end

context kvstore_back
begin

lemma answers_contract: "answers op_contract S good view"
  unfolding answers_def
proof (intro allI impI)
  fix x s r s' assume run: "good s" "op_contract x" "run_op S x s = (r, s')"
  show "obs_ok x (view s) r \<and> good s' \<and> view s' = spec_op x (view s)"
  proof (cases "op_dom_ok x")
    case True
    then show ?thesis using run_op_obs run by blast
  next
    case False
    then obtain a b where "x = OpRevIter (Some a) (Some b)" "b \<le> a"
      using run(2) by (cases x rule: op_contract.cases) (auto simp: dom_ok_def)
    then show ?thesis using run downward [of s b a] by (auto simp: rev_dom_down)
  qed
qed

end

lemma same_view_same_obs:
  assumes A: "answers ok A goodA viewA" and B: "answers ok B goodB viewB"
  shows "\<lbrakk>goodA a; goodB b; viewA a = viewB b; list_all ok xs;
      run_ops A xs a = (ra, a'); run_ops B xs b = (rb, b')\<rbrakk>
    \<Longrightarrow> ra = rb \<and> goodA a' \<and> goodB b' \<and> viewA a' = viewB b'"
proof (induction xs arbitrary: a b ra rb)
  case (Cons x xs)
  obtain r1 a1 where a1: "run_op A x a = (r1, a1)" by fastforce
  obtain r2 b1 where b1: "run_op B x b = (r2, b1)" by fastforce
  obtain rs1 where rs1: "run_ops A xs a1 = (rs1, a')" "ra = r1 # rs1"
    using Cons.prems(5) a1 by (auto split: prod.splits)
  obtain rs2 where rs2: "run_ops B xs b1 = (rs2, b')" "rb = r2 # rs2"
    using Cons.prems(6) b1 by (auto split: prod.splits)
  have x: "ok x" using Cons.prems(4) by simp
  note oa = answersD [OF A Cons.prems(1) x a1]
  note ob = answersD [OF B Cons.prems(2) x b1]
  have "r1 = r2" using oa ob Cons.prems(3) obs_ok_unique by metis
  moreover have "viewA a1 = viewB b1" using oa ob Cons.prems(3) by simp
  ultimately show ?case using Cons.IH [of a1 b1 rs1 rs2] oa ob Cons.prems(4) rs1 rs2 by auto
qed simp

lemma cache_back_kv: "key_domain_back D \<Longrightarrow> cache_back kv_ops kv_sorted kv_Get D"
  by (simp add: cache_back_def kv.kvstore_back_axioms)

lemma cache_back_cache:
  "key_domain_back D \<Longrightarrow>
     cache_back (cache_ops D kv_ops) (cache_inv kv_sorted kv_Get) (cache_view kv_Get) D"
  by (simp add: cache_back_def cache_back.cache_kvstore_back [OF cache_back_kv])

lemma cache_back_over: "cache_back S good view D \<Longrightarrow> cache_over S good view D"
  unfolding cache_back_def cache_over_def kvstore_back_def key_domain_back_def by blast

interpretation kv_cache: cache_back kv_ops kv_sorted kv_Get half_open_domain
  by (rule cache_back_kv) (rule half_open.key_domain_back_axioms)

interpretation kv_cache_cache:
  cache_back "cache_ops half_open_domain kv_ops" "cache_inv kv_sorted kv_Get" "cache_view kv_Get" half_open_domain
  by (rule cache_back_cache) (rule half_open.key_domain_back_axioms)


section \<open>Prefixed stores\<close>

definition add_prefix :: "bytes \<Rightarrow> (bytes \<times> 'v) list \<Rightarrow> (bytes \<times> 'v) list" where
  "add_prefix p = map (\<lambda>(k, v). (p @ k, v))"

lemma strip_add_prefix: "strip_prefix p (some_values (add_prefix p l)) = Val (some_values l)"
  by (induction l) (auto simp: add_prefix_def some_values_def)

lemma map_of_add_prefix: "map_of (add_prefix p l) (p @ k) = map_of l k"
  by (induction l) (auto simp: add_prefix_def)

lemma add_prefix_drop: "\<forall>x \<in> set l. prefix p (fst x) \<Longrightarrow> add_prefix p (map (\<lambda>(k, v). (drop (length p) k, v)) l) = l"
  by (induction l) (auto simp: add_prefix_def prefix_def)

lemma ksorted_add_prefix: "ksorted True fst (add_prefix p l) = ksorted True fst l"
  by (induction l) (auto simp: add_prefix_def append_less_append)

lemma between_prefix: "p @ a \<le> k \<Longrightarrow> k < p @ b \<Longrightarrow> prefix p (k :: bytes)"
proof (induction p arbitrary: k)
  case (Cons x p)
  then show ?case by (cases k) auto
qed simp

lemma prefix_bounds:
  assumes "p \<noteq> []" and "dom_ok a b" and "prefix_end p b = Val e"
  shows "dom_ok (Some (p @ (case a of None \<Rightarrow> [] | Some x \<Rightarrow> x))) e"
    and "in_dom (Some (p @ (case a of None \<Rightarrow> [] | Some x \<Rightarrow> x))) e k \<Longrightarrow> prefix p k"
    and "in_dom (Some (p @ (case a of None \<Rightarrow> [] | Some x \<Rightarrow> x))) e (p @ k) = in_dom a b k"
proof -
  let ?a = "case a of None \<Rightarrow> [] | Some x \<Rightarrow> x"
  have sub: "p \<le> p @ r" for r by (rule prefix_le) simp
  have "dom_ok (Some (p @ ?a)) e \<and> (in_dom (Some (p @ ?a)) e k \<longrightarrow> prefix p k)
      \<and> in_dom (Some (p @ ?a)) e (p @ k) = in_dom a b k"
  proof (cases b)
    case None
    then have "PrefixEndBytes (Some p) = Val e" using assms(3) by (simp add: prefix_end_def)
    note range = PrefixEndBytes_range [OF assms(1) this]
    have below: "in_dom None e (p @ r)" for r using range [of "p @ r"] by simp
    have "p \<le> k" if "p @ ?a \<le> k" using sub [of ?a] that by (rule order_trans)
    then have "in_dom (Some (p @ ?a)) e k \<longrightarrow> prefix p k" using range [of k] by (auto simp: in_dom_def)
    moreover have "dom_ok (Some (p @ ?a)) e"
      using below [of ?a] by (auto simp: dom_ok_def in_dom_def split: option.splits)
    moreover have "in_dom (Some (p @ ?a)) e (p @ k) = in_dom a b k"
      using below [of k] None by (auto simp: in_dom_def append_le_append split: option.splits)
    ultimately show ?thesis by simp
  next
    case (Some y)
    then have e: "e = Some (p @ y)" using assms(3) by (simp add: prefix_end_def)
    have "?a < y" using assms(2) Some by (simp add: dom_ok_def)
    then show ?thesis
      using between_prefix [of p ?a k y] Some
      by (auto simp: e dom_ok_def in_dom_def append_le_append append_less_append split: option.splits)
  qed
  then show "dom_ok (Some (p @ ?a)) e" and "in_dom (Some (p @ ?a)) e k \<Longrightarrow> prefix p k"
    and "in_dom (Some (p @ ?a)) e (p @ k) = in_dom a b k"
    by simp_all
qed

context kv_forward
begin

lemma prefix_iter:
  assumes "p \<noteq> []" and "good s" and "dom_ok a b"
  shows "visits True (\<lambda>k. view s (p @ k)) a b (prefix_Iterator S p s a b)"
proof -
  let ?a = "Some (p @ (case a of None \<Rightarrow> [] | Some x \<Rightarrow> x))"
  obtain e where e: "prefix_end p b = Val e"
    using PrefixEndBytes_returns [OF assms(1)] by (cases b) (auto simp: prefix_end_def is_val_def)
  note bounds = prefix_bounds [OF assms(1,3) e]
  obtain l where l: "op_Iterator S s ?a e = Val (some_values l)" "ksorted True fst l"
      "\<And>k. map_of l k = (if in_dom ?a e k then view s k else None)"
    using iter [OF assms(2) bounds(1)] by (auto simp: visits_def)
  have "prefix p (fst x)" if "x \<in> set l" for x
    using that l(3) [of "fst x"] ksorted_mem_iff [OF l(2), of "fst x" "snd x"] bounds(2)
    by (auto split: if_splits)
  then have l': "add_prefix p (map (\<lambda>(k, v). (drop (length p) k, v)) l) = l" (is "add_prefix p ?l = l")
    by (simp add: add_prefix_drop)
  have "prefix_Iterator S p s a b = Val (some_values ?l)"
    using e l(1) strip_add_prefix [of p ?l] by (simp add: prefix_Iterator_def l')
  moreover have "ksorted True fst ?l" using l(2) ksorted_add_prefix [of p ?l] by (simp only: l')
  moreover have "map_of ?l k = (if in_dom a b k then view s (p @ k) else None)" for k
    using l(3) [of "p @ k"] map_of_add_prefix [of p ?l k] bounds(3) by (simp only: l')
  ultimately show ?thesis unfolding visits_def by blast
qed

lemma prefix_kv_forward: "p \<noteq> [] \<Longrightarrow> kv_forward (prefix_ops S p) good (\<lambda>s k. view s (p @ k))"
proof
  fix s k v s' and found :: bool and x a b
  assume p: "p \<noteq> []" and s: "good s"
  show "v = view s (p @ k) \<and> good s' \<and> (\<lambda>k. view s' (p @ k)) = (\<lambda>k. view s (p @ k))"
    if "op_Get (prefix_ops S p) s k = (v, s')"
    using get [OF s, of "p @ k" v s'] that by (simp add: prefix_ops_def)
  show "found = (view s (p @ k) \<noteq> None) \<and> good s' \<and> (\<lambda>k. view s' (p @ k)) = (\<lambda>k. view s (p @ k))"
    if "op_Has (prefix_ops S p) s k = (found, s')"
    using has [OF s, of "p @ k" found s'] that by (simp add: prefix_ops_def)
  show "good (op_Set (prefix_ops S p) s k x)
      \<and> (\<lambda>k'. view (op_Set (prefix_ops S p) s k x) (p @ k')) = (\<lambda>k'. view s (p @ k'))(k \<mapsto> x)"
    using set [OF s, of "p @ k" x] by (auto simp: prefix_ops_def)
  show "good (op_Delete (prefix_ops S p) s k)
      \<and> (\<lambda>k'. view (op_Delete (prefix_ops S p) s k) (p @ k')) = (\<lambda>k'. view s (p @ k'))(k := None)"
    using del [OF s, of "p @ k"] by (auto simp: prefix_ops_def)
  show "visits True (\<lambda>k. view s (p @ k)) a b (op_Iterator (prefix_ops S p) s a b)" if "dom_ok a b"
    using prefix_iter [OF p s that] by (simp add: prefix_ops_def)
qed

end

interpretation kv_prefix: kv_forward "prefix_ops kv_ops (c # p)" kv_sorted "\<lambda>s k. kv_Get s (c # p @ k)"
  for c p
  using kv.prefix_kv_forward [of "c # p"] by simp

section \<open>Properties\<close>



text \<open>
  Caches nest.  A cache over a cache over a store (the arrangement of a message that runs
  on a copy of the state of the block) answers like the store; its \<open>Write\<close> changes the inner
  cache only, and writing the inner cache then gives the store the state the sequence of
  operations would have given it.
\<close>

theorem cacheKVStore_nested:
  assumes "key_domain_back D" and "kv_sorted m" and "list_all op_contract xs"
    and "run_ops (cache_ops D (cache_ops D kv_ops)) xs (NewCacheKVStore (NewCacheKVStore m)) = (rs, ci)"
    and "inner = ci_parent (cache_Write (cache_ops D kv_ops) ci)"
  shows "run_ops kv_ops xs m = (rs, ci_parent (cache_Write kv_ops inner))"
proof -
  note b1 = cache_back_kv [OF assms(1)] and b2 = cache_back_cache [OF assms(1)]
  note o1 = cache_back_over [OF b1] and o2 = cache_back_over [OF b2]
  obtain rs' m' where m': "run_ops kv_ops xs m = (rs', m')" by fastforce
  let ?good = "cache_inv (cache_inv kv_sorted kv_Get) (cache_view kv_Get)"
  let ?view = "cache_view (cache_view kv_Get)"
  have n1: "cache_inv kv_sorted kv_Get (NewCacheKVStore m)" "cache_view kv_Get (NewCacheKVStore m) = kv_Get m"
    using cache_over.cache_new [OF o1 assms(2)] by simp_all
  have n2: "?good (NewCacheKVStore (NewCacheKVStore m))" "?view (NewCacheKVStore (NewCacheKVStore m)) = kv_Get m"
    using cache_over.cache_new [OF o2 n1(1)] n1(2) by simp_all
  have same: "rs = rs' \<and> ?good ci \<and> kv_sorted m' \<and> ?view ci = kv_Get m'"
    using same_view_same_obs [OF kvstore_back.answers_contract [OF cache_back.cache_kvstore_back [OF b2]] kv.answers_contract
        n2(1) assms(2) n2(2) assms(3,4) m'] .
  have inner: "cache_inv kv_sorted kv_Get inner" "cache_view kv_Get inner = kv_Get m'"
    using cache_over.cache_write [OF o2, of ci] same assms(5) by simp_all
  then have "ci_parent (cache_Write kv_ops inner) = m'"
    using cache_over.cache_write [OF o1, of inner] same by (intro kv_ext) auto
  then show ?thesis using m' same by simp
qed

theorem cacheKVStore_nested_witness:
  "let xs = [OpSet ''b'' ''2'', OpDelete ''a'', OpIter None (Some ''c'')]; m = [(''a'', ''1''), (''c'', ''3'')]
   in run_ops kv_ops xs m =
        ([ObsDone, ObsDone, ObsItems (Val [(''b'', Some ''2'')])], [(''b'', ''2''), (''c'', ''3'')])"
proof -
  let ?xs = "[OpSet ''b'' ''2'', OpDelete ''a'', OpIter None (Some ''c'')]"
  let ?m = "[(''a'', ''1''), (''c'', ''3'')]"
  let ?D = half_open_domain
  let ?run = "run_ops (cache_ops ?D (cache_ops ?D kv_ops)) ?xs (NewCacheKVStore (NewCacheKVStore ?m))"
  have sorted: "kv_sorted ?m" and dom: "list_all op_contract ?xs" by code_simp+
  have obs: "fst ?run = [ObsDone, ObsDone, ObsItems (Val [(''b'', Some ''2'')])]"
    and fin: "ci_parent (cache_Write kv_ops (ci_parent (cache_Write (cache_ops ?D kv_ops) (snd ?run))))
      = [(''b'', ''2''), (''c'', ''3'')]"
    by code_simp+
  show ?thesis
    using cacheKVStore_nested [OF half_open.key_domain_back_axioms sorted dom prod.collapse [symmetric] refl]
    by (simp only: Let_def obs fin)
qed

text \<open>
  C22: draining the merge iterator ends and visits, in the order of the iterator, every key of
  the cache that is not deleted with the value of the cache, and every key of the parent that
  the cache does not mention, once each.
\<close>

theorem cacheMergeIterator_drain:
  assumes "sorted_wrt (if asc then (<) else (>)) (map fst ps)"
    and "sorted_wrt (if asc then (<) else (>)) (map fst cs)"
  shows "\<exists>l. iter_items (newCacheMergeIterator ps cs asc) = Val l
    \<and> sorted_wrt (if asc then (<) else (>)) (map fst l)
    \<and> (\<forall>k. map_of l k =
         (case map_of cs k of None \<Rightarrow> map_of ps k | Some None \<Rightarrow> None | Some (Some v) \<Rightarrow> Some (Some v)))"
proof -
  have k: "klt asc = (if asc then (<) else (>))" by simp
  have "ksorted asc fst ps" "ksorted asc fst cs"
    using assms unfolding ksorted_def k by simp_all
  then show ?thesis
    using merge_items_sorted [of asc ps cs] merge_items_lookup [of asc ps cs]
    unfolding iter_items_merge ksorted_def k by blast
qed

theorem cacheMergeIterator_drain_witness:
  "iter_items (newCacheMergeIterator [(''a'', Some ''1''), (''c'', Some ''3'')] [(''a'', None), (''b'', Some ''2'')] True)
     = Val [(''b'', Some ''2''), (''c'', Some ''3'')]
   \<and> (\<exists>l. iter_items (newCacheMergeIterator [(''a'', Some ''1''), (''c'', Some ''3'')]
         [(''a'', None), (''b'', Some ''2'')] True) = Val l \<and> map_of l ''a'' = None)"
proof -
  let ?ps = "[(''a'', Some ''1''), (''c'', Some ''3'')]" and ?cs = "[(''a'', None), (''b'', Some ''2'')]"
  have s: "sorted_wrt (if True then (<) else (>)) (map fst ?ps)" "sorted_wrt (if True then (<) else (>)) (map fst ?cs)"
    by code_simp+
  have "iter_items (newCacheMergeIterator ?ps ?cs True) = Val [(''b'', Some ''2''), (''c'', Some ''3'')]"
    by code_simp
  then show ?thesis using cacheMergeIterator_drain [OF s] by auto
qed

text \<open>
  \<open>Set\<close> with a nil value makes the key absent for readers of the cache, but \<open>Write\<close> skips
  such an entry, so the parent keeps its old value: the cache and its parent disagree after the
  write.
\<close>

theorem cache_Set_nil_not_written:
  assumes "kv_Get m k = Some v"
  shows "fst (cache_Get kv_ops (cache_Set (NewCacheKVStore m) k None) k) = None
    \<and> kv_Get (ci_parent (cache_Write kv_ops (cache_Set (NewCacheKVStore m) k None))) k = Some v"
  using assms
  by (simp add: cache_Get_def cache_Set_def setCacheValue_def NewCacheKVStore_def cache_Write_def write_key_def)

theorem cache_Set_nil_not_written_witness:
  "kv_Get (ci_parent (cache_Write kv_ops (cache_Set (NewCacheKVStore [(''a'', ''1'')]) ''a'' None))) ''a'' = Some ''1''"
  using cache_Set_nil_not_written [of "[(''a'', ''1'')]" "''a''" "''1''"] by (simp add: kv_Get_def)

text \<open>
  A store under a nonempty prefix behaves as a store of its own: reads, writes, deletions
  and forward iteration over it are those of the part of the parent whose keys start with the
  prefix, with the prefix removed.
\<close>

theorem prefixStore_laws:
  assumes "p \<noteq> []" and "kv_sorted m" and "dom_ok a b"
  shows "fst (op_Get (prefix_ops kv_ops p) m k) = kv_Get m (p @ k)
    \<and> kv_Get (op_Set (prefix_ops kv_ops p) m k v) = (kv_Get m)(p @ k \<mapsto> v)
    \<and> kv_Get (op_Delete (prefix_ops kv_ops p) m k) = (kv_Get m)(p @ k := None)
    \<and> (\<exists>l. op_Iterator (prefix_ops kv_ops p) m a b = Val (map (\<lambda>(k, v). (k, Some v)) l)
          \<and> sorted_wrt (<) (map fst l)
          \<and> (\<forall>k. map_of l k = (if in_dom a b k then kv_Get m (p @ k) else None)))"
  using kv.prefix_iter [OF assms]
  by (simp add: prefix_ops_def kv_ops_def visits_def ksorted_def some_values_def)

theorem prefixStore_laws_witness:
  "op_Iterator (prefix_ops kv_ops ''p/'') [(''a'', ''0''), (''p/x'', ''1''), (''p/y'', ''2'')] None None
     = Val [(''x'', Some ''1''), (''y'', Some ''2'')]
   \<and> fst (op_Get (prefix_ops kv_ops ''p/'') [(''a'', ''0''), (''p/x'', ''1''), (''p/y'', ''2'')] ''y'') = Some ''2''"
proof -
  have "kv_sorted [(''a'', ''0''), (''p/x'', ''1''), (''p/y'', ''2'')]" and "dom_ok None None" by code_simp+
  from prefixStore_laws [of "''p/''", OF _ this, of "''y''"]
  have "fst (op_Get (prefix_ops kv_ops ''p/'') [(''a'', ''0''), (''p/x'', ''1''), (''p/y'', ''2'')] ''y'') = Some ''2''"
    by (simp add: kv_Get_def)
  moreover have "op_Iterator (prefix_ops kv_ops ''p/'') [(''a'', ''0''), (''p/x'', ''1''), (''p/y'', ''2'')] None None
     = Val [(''x'', Some ''1''), (''y'', Some ''2'')]"
    by code_simp
  ultimately show ?thesis by simp
qed

text \<open>
  The reverse iterator of a prefixed store does not put the prefix before the start of its
  domain.  Over the whole prefixed store it also visits keys of the parent outside the prefix,
  and reports them with their first bytes cut off.
\<close>

theorem prefixStore_reverse_leaks:
  "prefix_ReverseIterator kv_ops ''p/'' [(''axe'', ''0''), (''p/x'', ''1'')] None None
     = Val [(''x'', Some ''1''), (''e'', Some ''0'')]"
  by code_simp

end
