(* ===== verification/SdkContext.thy ===== *)
theory SdkContext
  imports SdkStore SdkCoins
begin

text \<open>
  The context that handlers receive (\<open>types/context.go\<close>) and the interface of messages
  (\<open>types/tx_msg.go\<close>).  The multistore and the gas meter of a context are the state
  \<open>world\<close> that keepers read and write; the other values are a record.  A Go interface is a
  record of its methods.
\<close>

record Header =
  hdr_ChainID :: string
  hdr_Height :: int
  hdr_Time :: int

record SigningValidator =
  sv_PubKey :: bytes
  sv_Power :: int
  sv_SignedLastBlock :: bool

record Context =
  ctx_BlockHeader :: Header
  ctx_BlockHeight :: int
  ctx_ChainID :: string
  ctx_IsCheckTx :: bool
  ctx_TxBytes :: bytes
  ctx_SigningValidators :: "SigningValidator list"

definition NewContext :: "Header \<Rightarrow> bool \<Rightarrow> Context" where
  "NewContext header isCheckTx =
     \<lparr>ctx_BlockHeader = header, ctx_BlockHeight = hdr_Height header, ctx_ChainID = hdr_ChainID header,
      ctx_IsCheckTx = isCheckTx, ctx_TxBytes = [], ctx_SigningValidators = []\<rparr>"

definition WithBlockHeader :: "Context \<Rightarrow> Header \<Rightarrow> Context" where
  "WithBlockHeader c header = c\<lparr>ctx_BlockHeader := header\<rparr>"

definition WithBlockHeight :: "Context \<Rightarrow> int \<Rightarrow> Context" where
  "WithBlockHeight c height = c\<lparr>ctx_BlockHeight := height\<rparr>"

definition WithChainID :: "Context \<Rightarrow> string \<Rightarrow> Context" where
  "WithChainID c chainID = c\<lparr>ctx_ChainID := chainID\<rparr>"

definition WithIsCheckTx :: "Context \<Rightarrow> bool \<Rightarrow> Context" where
  "WithIsCheckTx c isCheckTx = c\<lparr>ctx_IsCheckTx := isCheckTx\<rparr>"

definition WithTxBytes :: "Context \<Rightarrow> bytes \<Rightarrow> Context" where
  "WithTxBytes c txBytes = c\<lparr>ctx_TxBytes := txBytes\<rparr>"

definition WithSigningValidators :: "Context \<Rightarrow> SigningValidator list \<Rightarrow> Context" where
  "WithSigningValidators c vals = c\<lparr>ctx_SigningValidators := vals\<rparr>"

definition WithGasMeter :: "GasMeter \<Rightarrow> (world, unit) M" where
  "WithGasMeter meter w = (Val (), w\<lparr>w_gas := meter\<rparr>)"

record 'm Msg =
  msg_Type :: "'m \<Rightarrow> string"
  msg_ValidateBasic :: "'m \<Rightarrow> sdkError option outcome"
  msg_GetSignBytes :: "'m \<Rightarrow> bytes"
  msg_GetSigners :: "'m \<Rightarrow> bytes list"

text \<open>\<open>MustUnmarshal\<close> and its kin panic when the bytes do not decode.\<close>

definition must :: "'a option \<Rightarrow> (world, 'a) M" where
  "must x = (case x of None \<Rightarrow> panicM (GoPanic ''unmarshal error'') | Some y \<Rightarrow> ret y)"

lemma must_Val [run_iffs]: "must x w = (Val y, t) \<longleftrightarrow> x = Some y \<and> t = w"
  by (auto simp: must_def run_iffs split: option.splits)

lemma must_run [run_simps]: "must (Some y) w = (Val y, w)"
  by (simp add: must_def ret_def)

lemma WithGasMeter_iff [run_iffs]: "WithGasMeter g w = (r, t) \<longleftrightarrow> r = Val () \<and> t = w\<lparr>w_gas := g\<rparr>"
  by (auto simp: WithGasMeter_def)

text \<open>Gas consumption by a handler itself, outside the stores.\<close>

definition ctx_ConsumeGas :: "int \<Rightarrow> string \<Rightarrow> (world, unit) M" where
  "ctx_ConsumeGas amount descriptor = consume amount descriptor"

end
