(* ===== verification/Netstring.thy ===== *)
theory Netstring
  imports SdkCoins SdkRat
begin

text \<open>
  A concrete binary codec.  The repository encodes records with an external library; the
  theorems take encoders and decoders as parameters and assume that decoding undoes encoding.
  This theory has such a codec: every field is written with its length in front, fields are
  concatenated, and records nest.  It instantiates these parameters.
\<close>

section \<open>Fields\<close>

definition enc_field :: "bytes \<Rightarrow> bytes" where
  "enc_field s = show_nat (length s) @ CHR '':'' # s"

definition enc_fields :: "bytes list \<Rightarrow> bytes" where
  "enc_fields fs = concat (map enc_field fs)"

fun dec_fields_fuel :: "nat \<Rightarrow> bytes \<Rightarrow> bytes list option" where
  "dec_fields_fuel n [] = Some []"
| "dec_fields_fuel 0 (c # cs) = None"
| "dec_fields_fuel (Suc n) (c # cs) =
     (case dropWhile is_digit (c # cs) of
        [] \<Rightarrow> None
      | d # rest \<Rightarrow>
          (case scan_digits 10 0 (takeWhile is_digit (c # cs)) of
             None \<Rightarrow> None
           | Some len \<Rightarrow>
               if d \<noteq> CHR '':'' \<or> length rest < len then None
               else map_option (\<lambda>fs. take len rest # fs) (dec_fields_fuel n (drop len rest))))"

definition dec_fields :: "bytes \<Rightarrow> bytes list option" where
  "dec_fields bz = dec_fields_fuel (length bz) bz"

lemma takeWhile_digits_colon:
  "takeWhile is_digit (show_nat n @ CHR '':'' # s) = show_nat n"
  "dropWhile is_digit (show_nat n @ CHR '':'' # s) = CHR '':'' # s"
proof -
  have "\<not> is_digit (CHR '':'')" by code_simp
  then show "takeWhile is_digit (show_nat n @ CHR '':'' # s) = show_nat n"
    and "dropWhile is_digit (show_nat n @ CHR '':'' # s) = CHR '':'' # s"
    using show_nat_digits by (simp_all add: takeWhile_append dropWhile_append)
qed

lemma dec_enc_fuel: "length (enc_fields fs) \<le> n \<Longrightarrow> dec_fields_fuel n (enc_fields fs) = Some fs"
proof (induction fs arbitrary: n)
  case Nil
  then show ?case by (simp add: enc_fields_def)
next
  case (Cons f fs)
  have e: "enc_fields (f # fs) = show_nat (length f) @ CHR '':'' # f @ enc_fields fs"
    by (simp add: enc_fields_def enc_field_def)
  obtain c cs where cs: "enc_fields (f # fs) = c # cs" using e by (cases "show_nat (length f)") auto
  then obtain m where n: "n = Suc m" using Cons.prems by (cases n) auto
  have "length (enc_fields fs) \<le> m" using Cons.prems n by (simp add: e)
  then have "dec_fields_fuel m (enc_fields fs) = Some fs" by (rule Cons.IH)
  moreover have "takeWhile is_digit (c # cs) = show_nat (length f)"
    and "dropWhile is_digit (c # cs) = CHR '':'' # f @ enc_fields fs"
    using takeWhile_digits_colon [of "length f" "f @ enc_fields fs"] cs e by simp_all
  ultimately show ?case by (simp add: cs n scan_digits_show_nat)
qed

lemma dec_enc_fields [simp]: "dec_fields (enc_fields fs) = Some fs"
  by (simp add: dec_fields_def dec_enc_fuel)

section \<open>Values\<close>

definition enc_list :: "('a \<Rightarrow> bytes) \<Rightarrow> 'a list \<Rightarrow> bytes" where
  "enc_list e xs = enc_fields (map e xs)"

fun opt_all :: "'a option list \<Rightarrow> 'a list option" where
  "opt_all [] = Some []"
| "opt_all (None # xs) = None"
| "opt_all (Some x # xs) = map_option (\<lambda>ys. x # ys) (opt_all xs)"

definition dec_list :: "(bytes \<Rightarrow> 'a option) \<Rightarrow> bytes \<Rightarrow> 'a list option" where
  "dec_list d bz = Option.bind (dec_fields bz) (\<lambda>fs. opt_all (map d fs))"

definition enc_option :: "('a \<Rightarrow> bytes) \<Rightarrow> 'a option \<Rightarrow> bytes" where
  "enc_option e x = enc_list e (case x of None \<Rightarrow> [] | Some y \<Rightarrow> [y])"

definition dec_option :: "(bytes \<Rightarrow> 'a option) \<Rightarrow> bytes \<Rightarrow> 'a option option" where
  "dec_option d bz = map_option (\<lambda>xs. case xs of [] \<Rightarrow> None | y # _ \<Rightarrow> Some y) (dec_list d bz)"

definition enc_int :: "int \<Rightarrow> bytes" where
  "enc_int i = show_int i"

definition dec_int :: "bytes \<Rightarrow> int option" where
  "dec_int bz = SetString0 bz"

definition enc_bool :: "bool \<Rightarrow> bytes" where
  "enc_bool b = (if b then ''1'' else ''0'')"

definition dec_bool :: "bytes \<Rightarrow> bool option" where
  "dec_bool bz = (if bz = ''1'' then Some True else if bz = ''0'' then Some False else None)"

definition enc_rat :: "rat \<Rightarrow> bytes" where
  "enc_rat r = enc_list enc_int [Rat_Num r, Rat_Denom r]"

definition dec_rat :: "bytes \<Rightarrow> rat option" where
  "dec_rat bz = (case dec_list dec_int bz of
     Some [n, d] \<Rightarrow> Some (rat_of_int n / rat_of_int d)
   | _ \<Rightarrow> None)"

definition enc_coin :: "Coin \<Rightarrow> bytes" where
  "enc_coin c = enc_fields [Denom c, enc_int (Amount c)]"

definition dec_coin :: "bytes \<Rightarrow> Coin option" where
  "dec_coin bz = (case dec_fields bz of
     Some [d, a] \<Rightarrow> map_option (\<lambda>n. \<lparr>Denom = d, Amount = n\<rparr>) (dec_int a)
   | _ \<Rightarrow> None)"

lemma opt_all_map [simp]: "opt_all (map Some xs) = Some xs"
  by (induction xs) auto

lemma dec_enc_list [simp]: "(\<And>x. d (e x) = Some x) \<Longrightarrow> dec_list d (enc_list e xs) = Some xs"
  by (simp add: dec_list_def enc_list_def comp_def)

lemma dec_enc_option [simp]: "(\<And>x. d (e x) = Some x) \<Longrightarrow> dec_option d (enc_option e x) = Some x"
  by (cases x) (simp_all add: dec_option_def enc_option_def)

lemma dec_enc_int [simp]: "dec_int (enc_int i) = Some i"
  by (simp add: dec_int_def enc_int_def SetString0_show_int)

lemma dec_enc_bool [simp]: "dec_bool (enc_bool b) = Some b"
  by (simp add: dec_bool_def enc_bool_def)

lemma dec_enc_rat [simp]: "dec_rat (enc_rat r) = Some r"
proof -
  have "rat_of_int (Rat_Num r) / rat_of_int (Rat_Denom r) = r"
    unfolding Rat_Num_def Rat_Denom_def by (metis prod.collapse quotient_of_div)
  then show ?thesis by (simp add: dec_rat_def enc_rat_def)
qed

lemma dec_enc_coin [simp]: "dec_coin (enc_coin c) = Some c"
  by (simp add: dec_coin_def enc_coin_def)

definition enc_coins :: "Coins \<Rightarrow> bytes" where
  "enc_coins = enc_list enc_coin"

definition dec_coins :: "bytes \<Rightarrow> Coins option" where
  "dec_coins = dec_list dec_coin"

lemma dec_enc_coins [simp]: "dec_coins (enc_coins cs) = Some cs"
  by (simp add: dec_coins_def enc_coins_def)

end
