(* ===== verification/Auth.thy ===== *)
theory Auth
  imports SdkContext Netstring
begin

text \<open>
  The module \<open>x/auth\<close>: accounts, the account mapper, collected fees, standard transactions,
  and the ante handler that authenticates a transaction, increments sequence numbers and takes
  the fee.  Binary and JSON encodings, the addresses of public keys, their signature check and
  the text form of an address come from external libraries and are fields of \<open>auth_env\<close>.
\<close>

section \<open>Accounts\<close>

record BaseAccount =
  ba_Address :: bytes
  ba_Coins :: Coins
  ba_PubKey :: "bytes option"
  ba_AccountNumber :: int
  ba_Sequence :: int

definition zeroAccount :: BaseAccount where
  "zeroAccount = \<lparr>ba_Address = [], ba_Coins = [], ba_PubKey = None, ba_AccountNumber = 0, ba_Sequence = 0\<rparr>"

definition NewBaseAccountWithAddress :: "bytes \<Rightarrow> BaseAccount" where
  "NewBaseAccountWithAddress addr = zeroAccount\<lparr>ba_Address := addr\<rparr>"

definition SetAddress :: "BaseAccount \<Rightarrow> bytes \<Rightarrow> BaseAccount option" where
  "SetAddress acc addr = (if length (ba_Address acc) \<noteq> 0 then None else Some (acc\<lparr>ba_Address := addr\<rparr>))"

definition SetPubKey :: "BaseAccount \<Rightarrow> bytes option \<Rightarrow> BaseAccount" where
  "SetPubKey acc pubKey = acc\<lparr>ba_PubKey := pubKey\<rparr>"

definition SetCoins :: "BaseAccount \<Rightarrow> Coins \<Rightarrow> BaseAccount" where
  "SetCoins acc coins = acc\<lparr>ba_Coins := coins\<rparr>"

definition SetAccountNumber :: "BaseAccount \<Rightarrow> int \<Rightarrow> BaseAccount" where
  "SetAccountNumber acc accNumber = acc\<lparr>ba_AccountNumber := accNumber\<rparr>"

definition SetSequence :: "BaseAccount \<Rightarrow> int \<Rightarrow> BaseAccount" where
  "SetSequence acc seq = acc\<lparr>ba_Sequence := seq\<rparr>"

section \<open>Transactions\<close>

record StdFee =
  fee_Amount :: Coins
  fee_Gas :: int

record StdSignature =
  sig_PubKey :: "bytes option"
  sig_Signature :: bytes
  sig_AccountNumber :: int
  sig_Sequence :: int

record 'm StdTx =
  tx_Msgs :: "'m list"
  tx_Fee :: StdFee
  tx_Signatures :: "StdSignature list"
  tx_Memo :: string

record StdSignDoc =
  doc_ChainID :: string
  doc_AccountNumber :: int
  doc_Sequence :: int
  doc_FeeBytes :: bytes
  doc_MsgsBytes :: bytes
  doc_Memo :: string

datatype 'm Tx = TxStd "'m StdTx" | TxOther "'m list"

fun Tx_GetMsgs :: "'m Tx \<Rightarrow> 'm list" where
  "Tx_GetMsgs (TxStd tx) = tx_Msgs tx"
| "Tx_GetMsgs (TxOther msgs) = msgs"

record auth_env =
  ae_accKey :: string
  ae_feeKey :: string
  ae_encAcc :: "BaseAccount \<Rightarrow> bytes"
  ae_decAcc :: "bytes \<Rightarrow> BaseAccount option"
  ae_encInt :: "int \<Rightarrow> bytes"
  ae_decInt :: "bytes \<Rightarrow> int option"
  ae_encCoins :: "Coins \<Rightarrow> bytes"
  ae_decCoins :: "bytes \<Rightarrow> Coins option"
  ae_pkAddress :: "bytes \<Rightarrow> bytes"
  ae_Verify :: "bytes \<Rightarrow> bytes \<Rightarrow> bytes \<Rightarrow> bool"
  ae_addrString :: "bytes \<Rightarrow> string"
  ae_jsonFee :: "StdFee \<Rightarrow> bytes"
  ae_jsonMsgs :: "bytes list \<Rightarrow> bytes"
  ae_jsonDoc :: "StdSignDoc \<Rightarrow> bytes"

definition NewStdTx :: "'m list \<Rightarrow> StdFee \<Rightarrow> StdSignature list \<Rightarrow> string \<Rightarrow> 'm StdTx" where
  "NewStdTx msgs fee sigs memo =
     \<lparr>tx_Msgs = msgs, tx_Fee = fee, tx_Signatures = sigs, tx_Memo = memo\<rparr>"

definition NewStdFee :: "int \<Rightarrow> Coins \<Rightarrow> StdFee" where
  "NewStdFee gas amount = \<lparr>fee_Amount = amount, fee_Gas = gas\<rparr>"

fun get_signers_loop :: "(bytes \<Rightarrow> string) \<Rightarrow> string list \<Rightarrow> bytes list \<Rightarrow> bytes list" where
  "get_signers_loop str seen [] = []"
| "get_signers_loop str seen (addr # addrs) =
     (if str addr \<notin> set seen then addr # get_signers_loop str (str addr # seen) addrs
      else get_signers_loop str seen addrs)"

definition StdTx_GetSigners :: "auth_env \<Rightarrow> 'm Msg \<Rightarrow> 'm StdTx \<Rightarrow> bytes list" where
  "StdTx_GetSigners E mi tx =
     get_signers_loop (ae_addrString E) [] (concat (map (msg_GetSigners mi) (tx_Msgs tx)))"

definition FeePayer :: "'m Msg \<Rightarrow> 'm Tx \<Rightarrow> bytes outcome" where
  "FeePayer mi tx = (case Tx_GetMsgs tx of
     [] \<Rightarrow> Panic (GoPanic ''index out of range'')
   | m # _ \<Rightarrow> (case msg_GetSigners mi m of
       [] \<Rightarrow> Panic (GoPanic ''index out of range'')
     | a # _ \<Rightarrow> Val a))"

definition StdFee_Bytes :: "auth_env \<Rightarrow> StdFee \<Rightarrow> bytes" where
  "StdFee_Bytes E fee =
     ae_jsonFee E (if length (fee_Amount fee) = 0 then fee\<lparr>fee_Amount := []\<rparr> else fee)"

definition StdSignBytes ::
  "auth_env \<Rightarrow> 'm Msg \<Rightarrow> string \<Rightarrow> int \<Rightarrow> int \<Rightarrow> StdFee \<Rightarrow> 'm list \<Rightarrow> string \<Rightarrow> bytes" where
  "StdSignBytes E mi chainID accnum sequence fee msgs memo =
     (let msgsBytes = map (msg_GetSignBytes mi) msgs;
          msgBytes = ae_jsonMsgs E msgsBytes
      in ae_jsonDoc E \<lparr>doc_ChainID = chainID, doc_AccountNumber = accnum, doc_Sequence = sequence,
           doc_FeeBytes = StdFee_Bytes E fee, doc_MsgsBytes = msgBytes, doc_Memo = memo\<rparr>)"

section \<open>The account mapper\<close>

definition globalAccountNumberKey :: bytes where
  "globalAccountNumberKey = ''globalAccountNumber''"

definition AddressStoreKey :: "bytes \<Rightarrow> bytes" where
  "AddressStoreKey addr = ''account:'' @ addr"

definition decodeAccount :: "auth_env \<Rightarrow> bytes \<Rightarrow> (world, BaseAccount) M" where
  "decodeAccount E bz = must (ae_decAcc E bz)"

definition GetAccount :: "auth_env \<Rightarrow> bytes \<Rightarrow> (world, BaseAccount option) M" where
  "GetAccount E addr =
     bnd (gas_Get (ae_accKey E) (AddressStoreKey addr)) (\<lambda>bz. case bz of
       None \<Rightarrow> ret None
     | Some b \<Rightarrow> bnd (decodeAccount E b) (\<lambda>acc. ret (Some acc)))"

definition SetAccount :: "auth_env \<Rightarrow> BaseAccount \<Rightarrow> (world, unit) M" where
  "SetAccount E acc =
     gas_Set (ae_accKey E) (AddressStoreKey (ba_Address acc)) (ae_encAcc E acc)"

definition GetNextAccountNumber :: "auth_env \<Rightarrow> (world, int) M" where
  "GetNextAccountNumber E =
     bnd (gas_Get (ae_accKey E) globalAccountNumberKey) (\<lambda>bz.
     bnd (case bz of None \<Rightarrow> ret 0 | Some b \<Rightarrow> must (ae_decInt E b)) (\<lambda>accNumber.
     bnd (gas_Set (ae_accKey E) globalAccountNumberKey (ae_encInt E (wrap64 (accNumber + 1)))) (\<lambda>_.
     ret accNumber)))"

definition NewAccountWithAddress :: "auth_env \<Rightarrow> bytes \<Rightarrow> (world, BaseAccount) M" where
  "NewAccountWithAddress E addr =
     (case SetAddress zeroAccount addr of
        None \<Rightarrow> panicM (GoPanic ''cannot override BaseAccount address'')
      | Some acc \<Rightarrow>
          bnd (GetNextAccountNumber E) (\<lambda>n. ret (SetAccountNumber acc n)))"

definition NewAccount :: "auth_env \<Rightarrow> BaseAccount \<Rightarrow> (world, BaseAccount) M" where
  "NewAccount E acc = bnd (GetNextAccountNumber E) (\<lambda>n. ret (SetAccountNumber acc n))"

fun iterate_accounts_loop ::
  "auth_env \<Rightarrow> ('b \<Rightarrow> BaseAccount \<Rightarrow> bool \<times> 'b) \<Rightarrow> 'b \<Rightarrow> (bytes \<times> bytes) list \<Rightarrow> (world, 'b) M" where
  "iterate_accounts_loop E process b [] = ret b"
| "iterate_accounts_loop E process b (it # its) =
     bnd (gas_iter_Value it) (\<lambda>val.
     bnd (decodeAccount E val) (\<lambda>acc.
     case process b acc of (stop, b') \<Rightarrow>
       if stop then ret b' else iterate_accounts_loop E process b' its))"

definition IterateAccounts :: "auth_env \<Rightarrow> ('b \<Rightarrow> BaseAccount \<Rightarrow> bool \<times> 'b) \<Rightarrow> 'b \<Rightarrow> (world, 'b) M" where
  "IterateAccounts E process b =
     bnd (KVStorePrefixIterator (ae_accKey E) ''account:'') (\<lambda>its.
     iterate_accounts_loop E process b its)"

definition GetPubKey :: "auth_env \<Rightarrow> bytes \<Rightarrow> (world, sdkError + bytes option) M" where
  "GetPubKey E addr = bnd (GetAccount E addr) (\<lambda>acc. case acc of
     None \<Rightarrow> ret (Inl ErrUnknownAddress)
   | Some a \<Rightarrow> ret (Inr (ba_PubKey a)))"

definition GetSequence :: "auth_env \<Rightarrow> bytes \<Rightarrow> (world, sdkError + int) M" where
  "GetSequence E addr = bnd (GetAccount E addr) (\<lambda>acc. case acc of
     None \<Rightarrow> ret (Inl ErrUnknownAddress)
   | Some a \<Rightarrow> ret (Inr (ba_Sequence a)))"

definition setSequence :: "auth_env \<Rightarrow> bytes \<Rightarrow> int \<Rightarrow> (world, sdkError option) M" where
  "setSequence E addr newSequence = bnd (GetAccount E addr) (\<lambda>acc. case acc of
     None \<Rightarrow> ret (Some ErrUnknownAddress)
   | Some a \<Rightarrow> bnd (SetAccount E (SetSequence a newSequence)) (\<lambda>_. ret None))"

section \<open>Collected fees\<close>

definition collectedFeesKey :: bytes where
  "collectedFeesKey = ''collectedFees''"

definition GetCollectedFees :: "auth_env \<Rightarrow> (world, Coins) M" where
  "GetCollectedFees E = bnd (gas_Get (ae_feeKey E) collectedFeesKey) (\<lambda>bz. case bz of
     None \<Rightarrow> ret []
   | Some b \<Rightarrow> must (ae_decCoins E b))"

definition setCollectedFees :: "auth_env \<Rightarrow> Coins \<Rightarrow> (world, unit) M" where
  "setCollectedFees E coins = gas_Set (ae_feeKey E) collectedFeesKey (ae_encCoins E coins)"

definition addCollectedFees :: "auth_env \<Rightarrow> Coins \<Rightarrow> (world, Coins) M" where
  "addCollectedFees E coins =
     bnd (GetCollectedFees E) (\<lambda>old.
     bnd (lift (Coins_Plus old coins)) (\<lambda>newCoins.
     bnd (setCollectedFees E newCoins) (\<lambda>_.
     ret newCoins)))"

definition ClearCollectedFees :: "auth_env \<Rightarrow> (world, unit) M" where
  "ClearCollectedFees E = setCollectedFees E []"

section \<open>The ante handler\<close>

definition deductFeesCost :: int where "deductFeesCost = 10"
definition memoCostPerByte :: int where "memoCostPerByte = 1"
definition verifyCost :: int where "verifyCost = 100"
definition maxMemoCharacters :: nat where "maxMemoCharacters = 100"

text \<open>The result of a failed check is a value on the left, the account on the right.\<close>

definition processSig ::
  "auth_env \<Rightarrow> bytes \<Rightarrow> StdSignature \<Rightarrow> bytes \<Rightarrow> (world, Result + BaseAccount) M" where
  "processSig E addr sig signBytes =
     bnd (GetAccount E addr) (\<lambda>acc. case acc of
       None \<Rightarrow> ret (Inl (Error_Result ErrUnknownAddress))
     | Some acc \<Rightarrow>
         if ba_AccountNumber acc \<noteq> sig_AccountNumber sig then ret (Inl (Error_Result ErrInvalidSequence))
         else if ba_Sequence acc \<noteq> sig_Sequence sig then ret (Inl (Error_Result ErrInvalidSequence))
         else
           let acc = SetSequence acc (wrap64 (ba_Sequence acc + 1));
               verify = (\<lambda>pubKey acc.
                 bnd (ctx_ConsumeGas verifyCost ''ante verify'') (\<lambda>_.
                 if \<not> ae_Verify E pubKey signBytes (sig_Signature sig)
                 then ret (Inl (Error_Result ErrUnauthorized))
                 else ret (Inr acc)))
           in (case ba_PubKey acc of
                Some pubKey \<Rightarrow> verify pubKey acc
              | None \<Rightarrow>
                  (case sig_PubKey sig of
                     None \<Rightarrow> ret (Inl (Error_Result ErrInvalidPubKey))
                   | Some pubKey \<Rightarrow>
                       if ae_pkAddress E pubKey \<noteq> addr then ret (Inl (Error_Result ErrInvalidPubKey))
                       else verify pubKey (SetPubKey acc (Some pubKey)))))"

definition deductFees :: "BaseAccount \<Rightarrow> StdFee \<Rightarrow> (Result + BaseAccount) outcome" where
  "deductFees acc fee =
     obind (Coins_Minus (ba_Coins acc) (fee_Amount fee)) (\<lambda>newCoins.
     if \<not> Coins_IsNotNegative newCoins then Val (Inl (Error_Result ErrInsufficientFunds))
     else Val (Inr (SetCoins acc newCoins)))"

text \<open>What the first signer does besides: pay the fee into the pool of collected fees.\<close>

definition pay_fee :: "auth_env \<Rightarrow> StdFee \<Rightarrow> BaseAccount \<Rightarrow> (world, Result + BaseAccount) M" where
  "pay_fee E fee signerAcc =
     (if \<not> Coins_IsZero (fee_Amount fee) then
        bnd (ctx_ConsumeGas deductFeesCost ''deductFees'') (\<lambda>_.
        bnd (lift (deductFees signerAcc fee)) (\<lambda>r. case r of
          Inl res \<Rightarrow> ret (Inl res)
        | Inr signerAcc \<Rightarrow> bnd (addCollectedFees E (fee_Amount fee)) (\<lambda>_. ret (Inr signerAcc))))
      else ret (Inr signerAcc))"

fun ante_sigs ::
  "auth_env \<Rightarrow> (StdSignature \<Rightarrow> bytes) \<Rightarrow> StdFee \<Rightarrow> nat \<Rightarrow> (bytes \<times> StdSignature) list \<Rightarrow> BaseAccount list
   \<Rightarrow> (world, Result + BaseAccount list) M" where
  "ante_sigs E signBytes fee i [] signerAccs = ret (Inr signerAccs)"
| "ante_sigs E signBytes fee i ((signerAddr, sig) # rest) signerAccs =
     bnd (processSig E signerAddr sig (signBytes sig)) (\<lambda>r. case r of
       Inl res \<Rightarrow> ret (Inl res)
     | Inr signerAcc \<Rightarrow>
         bnd (if i = 0 then pay_fee E fee signerAcc else ret (Inr signerAcc)) (\<lambda>r. case r of
           Inl res \<Rightarrow> ret (Inl res)
         | Inr signerAcc \<Rightarrow>
             bnd (SetAccount E signerAcc) (\<lambda>_.
             ante_sigs E signBytes fee (i + 1) rest (signerAccs @ [signerAcc]))))"

text \<open>The ante handler returns the signers it puts in the context, the result, and whether to abort.\<close>

definition AnteHandler ::
  "auth_env \<Rightarrow> 'm Msg \<Rightarrow> 'c Context_scheme \<Rightarrow> 'm Tx \<Rightarrow> (world, BaseAccount list \<times> Result \<times> bool) M" where
  "AnteHandler E mi ctx tx = (case tx of
     TxOther _ \<Rightarrow> ret ([], Error_Result ErrInternal, True)
   | TxStd stdTx \<Rightarrow>
       let sigs = tx_Signatures stdTx; memo = tx_Memo stdTx; fee = tx_Fee stdTx in
       if length sigs = 0 then ret ([], Error_Result ErrUnauthorized, True)
       else if length memo > maxMemoCharacters then ret ([], Error_Result ErrMemoTooLarge, True)
       else
         bnd (WithGasMeter (NewGasMeter (fee_Gas fee))) (\<lambda>_.
         bnd (ctx_ConsumeGas (memoCostPerByte * int (length memo)) ''memo'') (\<lambda>_.
         let msgs = tx_Msgs stdTx; signerAddrs = StdTx_GetSigners E mi stdTx in
         if length sigs \<noteq> length signerAddrs then ret ([], Error_Result ErrUnauthorized, True)
         else
           let signBytes = (\<lambda>sig. StdSignBytes E mi (ctx_ChainID ctx) (sig_AccountNumber sig)
                              (sig_Sequence sig) fee msgs memo)
           in bnd (ante_sigs E signBytes fee 0 (zip signerAddrs sigs) []) (\<lambda>r. case r of
                Inl res \<Rightarrow> ret ([], res, True)
              | Inr signerAccs \<Rightarrow> ret (signerAccs, emptyResult, False)))))"

section \<open>What the stores hold\<close>

definition acct :: "auth_env \<Rightarrow> world \<Rightarrow> bytes \<Rightarrow> BaseAccount option" where
  "acct E w addr =
     Option.bind (kv_Get (w_stores w (ae_accKey E)) (AddressStoreKey addr)) (ae_decAcc E)"

definition feepool :: "auth_env \<Rightarrow> world \<Rightarrow> Coins option" where
  "feepool E w = (case kv_Get (w_stores w (ae_feeKey E)) collectedFeesKey of
     None \<Rightarrow> Some [] | Some b \<Rightarrow> ae_decCoins E b)"

text \<open>Every account is stored under its own address.\<close>

definition accts_ok :: "auth_env \<Rightarrow> world \<Rightarrow> bool" where
  "accts_ok E w \<longleftrightarrow> (\<forall>a acc. acct E w a = Some acc \<longrightarrow> ba_Address acc = a)"

lemma AddressStoreKey_inj [simp]: "AddressStoreKey a = AddressStoreKey b \<longleftrightarrow> a = b"
  by (simp add: AddressStoreKey_def)

lemma AddressStoreKey_not_global [simp]: "AddressStoreKey a \<noteq> globalAccountNumberKey"
  by (simp add: AddressStoreKey_def globalAccountNumberKey_def)

lemma acct_cong: "w_stores t (ae_accKey E) = w_stores w (ae_accKey E) \<Longrightarrow> acct E t = acct E w"
  by (rule ext) (simp add: acct_def)

lemma feepool_cong: "w_stores t (ae_feeKey E) = w_stores w (ae_feeKey E) \<Longrightarrow> feepool E t = feepool E w"
  by (simp add: feepool_def)

lemma accts_ok_cong: "acct E t = acct E w \<Longrightarrow> accts_ok E t = accts_ok E w"
  by (simp add: accts_ok_def)

text \<open>What the module relies on of the codec, and that it keeps accounts and fees apart.\<close>

locale auth_codec =
  fixes E :: auth_env
  assumes dec_acc: "ae_decAcc E (ae_encAcc E a) = Some a"
    and dec_num: "ae_decInt E (ae_encInt E i) = Some i"
    and dec_coins: "ae_decCoins E (ae_encCoins E cs) = Some cs"
    and keys: "ae_accKey E \<noteq> ae_feeKey E"
begin

lemma GetAccount_Val:
  "GetAccount E a w = (Val r, t) \<Longrightarrow> r = acct E w a \<and> w_stores t = w_stores w"
  by (auto simp: GetAccount_def decodeAccount_def acct_def run_iffs dest!: gas_Get_Val split: option.splits)

lemma SetAccount_Val:
  assumes "SetAccount E acc w = (Val u, t)"
  shows "acct E t = (acct E w)(ba_Address acc \<mapsto> acc)" and "feepool E t = feepool E w"
    and "n \<noteq> ae_accKey E \<Longrightarrow> w_stores t n = w_stores w n"
  using gas_Set_Val [OF assms [unfolded SetAccount_def]] keys dec_acc
  by (auto simp: acct_def feepool_def fun_eq_iff)

lemma addCollectedFees_Val:
  assumes "addCollectedFees E coins w = (Val c, t)"
  shows "\<exists>old. feepool E w = Some old \<and> Coins_Plus old coins = Val c \<and> feepool E t = Some c
    \<and> acct E t = acct E w"
  using assms keys dec_coins
  by (auto simp: addCollectedFees_def GetCollectedFees_def setCollectedFees_def feepool_def acct_def
      run_iffs fun_eq_iff dest!: gas_Get_Val gas_Set_Val split: option.splits)

end

definition seq_step :: "auth_env \<Rightarrow> bytes \<Rightarrow> bytes \<Rightarrow> StdSignature \<Rightarrow> BaseAccount \<Rightarrow> BaseAccount \<Rightarrow> bool" where
  "seq_step E bz addr sig acc acc' \<longleftrightarrow>
     ba_AccountNumber acc = sig_AccountNumber sig \<and> ba_Sequence acc = sig_Sequence sig
     \<and> ba_Sequence acc' = wrap64 (sig_Sequence sig + 1)
     \<and> ba_AccountNumber acc' = ba_AccountNumber acc \<and> ba_Address acc' = ba_Address acc
     \<and> (\<exists>pk. ba_PubKey acc' = Some pk \<and> ae_Verify E pk bz (sig_Signature sig)
          \<and> (ba_PubKey acc = Some pk \<or> ba_PubKey acc = None \<and> sig_PubKey sig = Some pk \<and> ae_pkAddress E pk = addr))"

lemma seq_step_SetCoins [simp]: "seq_step E bz addr sig acc (SetCoins acc' cs) = seq_step E bz addr sig acc acc'"
  by (simp add: seq_step_def SetCoins_def)

context auth_codec
begin

lemma processSig_Inr:
  assumes "processSig E addr sig bz w = (Val (Inr acc'), t)"
  shows "w_stores t = w_stores w \<and> (\<exists>acc. acct E w addr = Some acc \<and> seq_step E bz addr sig acc acc'
    \<and> ba_Coins acc' = ba_Coins acc)"
proof -
  obtain oa u where get: "GetAccount E addr w = (Val oa, u)"
    using assms by (auto simp: processSig_def run_iffs)
  note g = GetAccount_Val [OF get]
  show ?thesis
    using assms get g
    by (auto simp: processSig_def Let_def run_iffs ctx_ConsumeGas_def SetSequence_def SetPubKey_def seq_step_def
        dest!: consume_run split: option.splits if_splits)
qed

lemma pay_fee_Inr:
  assumes "pay_fee E fee acc w = (Val (Inr acc'), t)"
  shows "acct E t = acct E w \<and> (\<exists>cs. acc' = SetCoins acc cs
    \<and> (if Coins_IsZero (fee_Amount fee) then cs = ba_Coins acc \<and> feepool E t = feepool E w
       else Coins_Minus (ba_Coins acc) (fee_Amount fee) = Val cs \<and> Coins_IsNotNegative cs
         \<and> (\<exists>old new. feepool E w = Some old \<and> Coins_Plus old (fee_Amount fee) = Val new
              \<and> feepool E t = Some new)))"
proof (cases "Coins_IsZero (fee_Amount fee)")
  case True
  then show ?thesis using assms by (auto simp: pay_fee_def run_iffs SetCoins_def intro: exI [of _ "ba_Coins acc"])
next
  case False
  obtain u cs c where u: "w_stores u = w_stores w" and add: "addCollectedFees E (fee_Amount fee) u = (Val c, t)"
    and cs: "Coins_Minus (ba_Coins acc) (fee_Amount fee) = Val cs" "Coins_IsNotNegative cs" "acc' = SetCoins acc cs"
    using assms False
    by (auto simp: pay_fee_def run_iffs ctx_ConsumeGas_def deductFees_def dest!: consume_run
        split: if_split_asm)
  have "acct E u = acct E w" "feepool E u = feepool E w" 
    using u by (auto intro: acct_cong feepool_cong)
  then show ?thesis using addCollectedFees_Val [OF add] cs False by auto
qed

end

text \<open>
  A run of the signature loop that succeeds: every signer's account passed the checks and is
  stored with the next sequence number; the first one also pays the fee when the loop starts
  at index 0; no other account changes.
\<close>

definition coins_step :: "StdFee \<Rightarrow> bool \<Rightarrow> BaseAccount \<Rightarrow> BaseAccount \<Rightarrow> bool" where
  "coins_step fee pays acc acc' \<longleftrightarrow>
     (if pays \<and> \<not> Coins_IsZero (fee_Amount fee)
      then Coins_Minus (ba_Coins acc) (fee_Amount fee) = Val (ba_Coins acc') \<and> Coins_IsNotNegative (ba_Coins acc')
      else ba_Coins acc' = ba_Coins acc)"

definition pool_step :: "auth_env \<Rightarrow> StdFee \<Rightarrow> bool \<Rightarrow> world \<Rightarrow> world \<Rightarrow> bool" where
  "pool_step E fee pays w t \<longleftrightarrow>
     (if pays \<and> \<not> Coins_IsZero (fee_Amount fee)
      then (\<exists>old new. feepool E w = Some old \<and> Coins_Plus old (fee_Amount fee) = Val new \<and> feepool E t = Some new)
      else feepool E t = feepool E w)"

context auth_codec
begin

lemma ante_first:
  assumes "processSig E addr sig bz w = (Val (Inr acc1), u)"
    and "(if i = 0 then pay_fee E fee acc1 else ret (Inr acc1)) u = (Val (Inr acc2), v)"
    and "SetAccount E acc2 v = (Val (), t)" and "accts_ok E w"
  shows "\<exists>acc. acct E w addr = Some acc \<and> seq_step E bz addr sig acc acc2 \<and> coins_step fee (i = 0) acc acc2
    \<and> pool_step E fee (i = 0) w t \<and> acct E t = (acct E w)(addr \<mapsto> acc2)"
proof -
  obtain acc where u: "w_stores u = w_stores w" and acc: "acct E w addr = Some acc"
      "seq_step E bz addr sig acc acc1" "ba_Coins acc1 = ba_Coins acc"
    using processSig_Inr [OF assms(1)] by blast
  have wu: "acct E u = acct E w" "feepool E u = feepool E w"
    using u by (auto intro: acct_cong feepool_cong)
  have v: "acct E v = acct E u \<and> acc2 = SetCoins acc1 (ba_Coins acc2) \<and> coins_step fee (i = 0) acc1 acc2
      \<and> pool_step E fee (i = 0) u v"
  proof (cases "i = 0")
    case True
    then show ?thesis
      using pay_fee_Inr [of fee acc1 u acc2 v] assms(2)
      by (auto simp: coins_step_def pool_step_def SetCoins_def split: if_splits)
  next
    case False
    then show ?thesis
      using assms(2) by (simp add: coins_step_def pool_step_def SetCoins_def run_iffs)
  qed
  then have "acc2 = SetCoins acc1 (ba_Coins acc2)" by blast
  then have seq: "seq_step E bz addr sig acc acc2" using acc(2) by (metis seq_step_SetCoins)
  have coins: "coins_step fee (i = 0) acc acc2" using v acc(3) by (auto simp: coins_step_def split: if_splits)
  have "ba_Address acc2 = addr"
    using seq acc(1) assms(4) by (auto simp: seq_step_def accts_ok_def)
  moreover note SetAccount_Val(1,2) [OF assms(3)]
  moreover have "pool_step E fee (i = 0) w t"
    using v wu SetAccount_Val(2) [OF assms(3)] by (auto simp: pool_step_def split: if_splits)
  ultimately show ?thesis using acc(1) seq coins v wu by (intro exI [of _ acc]) simp
qed

lemma ante_sigs_Inr:
  assumes "ante_sigs E bz fee i xs accs w = (Val (Inr accs'), t)" and "accts_ok E w" and "distinct (map fst xs)"
  shows "accts_ok E t
    \<and> (\<forall>j < length xs. \<exists>acc acc'. acct E w (fst (xs ! j)) = Some acc \<and> acct E t (fst (xs ! j)) = Some acc'
        \<and> seq_step E (bz (snd (xs ! j))) (fst (xs ! j)) (snd (xs ! j)) acc acc'
        \<and> coins_step fee (i = 0 \<and> j = 0) acc acc')
    \<and> (\<forall>a. a \<notin> fst ` set xs \<longrightarrow> acct E t a = acct E w a)
    \<and> pool_step E fee (i = 0 \<and> xs \<noteq> []) w t"
  using assms
proof (induction xs arbitrary: i accs w)
  case Nil
  then show ?case by (simp add: run_iffs pool_step_def)
next
  case (Cons x rest)
  obtain addr sig where x: "x = (addr, sig)" by fastforce
  obtain acc1 u acc2 v t1 where
    sig: "processSig E addr sig (bz sig) w = (Val (Inr acc1), u)"
    and pay: "(if i = 0 then pay_fee E fee acc1 else ret (Inr acc1)) u = (Val (Inr acc2), v)"
    and set: "SetAccount E acc2 v = (Val (), t1)"
    and rec: "ante_sigs E bz fee (i + 1) rest (accs @ [acc2]) t1 = (Val (Inr accs'), t)"
    using Cons.prems(1) unfolding x ante_sigs.simps bnd_Val_iff branch_run_iffs(2) ret_iff by auto
  obtain acc where first: "acct E w addr = Some acc" "seq_step E (bz sig) addr sig acc acc2"
      "coins_step fee (i = 0) acc acc2" "pool_step E fee (i = 0) w t1" "acct E t1 = (acct E w)(addr \<mapsto> acc2)"
    using ante_first [OF sig pay set Cons.prems(2)] by blast
  have "ba_Address acc2 = addr" using first(1,2) Cons.prems(2) by (simp add: seq_step_def accts_ok_def)
  then have "accts_ok E t1" using Cons.prems(2) first(5) by (auto simp: accts_ok_def)
  then have IH: "accts_ok E t"
      "\<forall>j < length rest. \<exists>acc acc'. acct E t1 (fst (rest ! j)) = Some acc \<and> acct E t (fst (rest ! j)) = Some acc'
        \<and> seq_step E (bz (snd (rest ! j))) (fst (rest ! j)) (snd (rest ! j)) acc acc' \<and> coins_step fee False acc acc'"
      "\<forall>a. a \<notin> fst ` set rest \<longrightarrow> acct E t a = acct E t1 a" "feepool E t = feepool E t1"
    using Cons.IH [OF rec] Cons.prems(3) by (simp_all add: pool_step_def)
  have new: "addr \<notin> fst ` set rest" using Cons.prems(3) x by simp
  then have head: "acct E t addr = Some acc2" using IH(3) first(5) by simp
  have tail: "acct E t1 (fst (rest ! j)) = acct E w (fst (rest ! j))" if "j < length rest" for j
    using new that first(5) by (metis fun_upd_other image_eqI nth_mem)
  have all: "\<exists>acc acc'. acct E w (fst ((x # rest) ! j)) = Some acc \<and> acct E t (fst ((x # rest) ! j)) = Some acc'
        \<and> seq_step E (bz (snd ((x # rest) ! j))) (fst ((x # rest) ! j)) (snd ((x # rest) ! j)) acc acc'
        \<and> coins_step fee (i = 0 \<and> j = 0) acc acc'" if "j < length (x # rest)" for j
  proof (cases j)
    case 0
    then show ?thesis using first head x by auto
  next
    case (Suc k)
    then show ?thesis using IH(2) tail that by auto
  qed
  have "acct E t a = acct E w a" if "a \<notin> fst ` set (x # rest)" for a
    using IH(3) first(5) that x by auto
  moreover have "pool_step E fee (i = 0 \<and> x # rest \<noteq> []) w t"
    using first(4) IH(4) by (auto simp: pool_step_def split: if_splits)
  ultimately show ?case using IH(1) all by blast
qed

end

lemma get_signers_loop_distinct:
  "distinct (map str (get_signers_loop str seen xs)) \<and> set (map str (get_signers_loop str seen xs)) \<inter> set seen = {}"
proof (induction str seen xs rule: get_signers_loop.induct)
  case (2 str seen addr addrs)
  then show ?case by auto
qed simp

lemma StdTx_GetSigners_distinct: "distinct (StdTx_GetSigners E mi tx)"
  using get_signers_loop_distinct [of "ae_addrString E" "[]"] unfolding StdTx_GetSigners_def
  by (simp add: distinct_map)

lemma AnteHandler_continue:
  assumes "AnteHandler E mi ctx tx w = (Val (accs, res, False), t)"
  obtains stdTx u where "tx = TxStd stdTx" and "tx_Signatures stdTx \<noteq> []"
    and "length (StdTx_GetSigners E mi stdTx) = length (tx_Signatures stdTx)" and "w_stores u = w_stores w"
    and "ante_sigs E (\<lambda>sig. StdSignBytes E mi (ctx_ChainID ctx) (sig_AccountNumber sig) (sig_Sequence sig)
           (tx_Fee stdTx) (tx_Msgs stdTx) (tx_Memo stdTx)) (tx_Fee stdTx) 0
           (zip (StdTx_GetSigners E mi stdTx) (tx_Signatures stdTx)) [] u = (Val (Inr accs), t)"
proof (cases tx)
  case (TxStd stdTx)
  then show thesis
    using assms that [of stdTx]
    by (auto simp: AnteHandler_def Let_def run_iffs ctx_ConsumeGas_def dest!: consume_run)
next
  case (TxOther msgs)
  then show thesis using assms by (simp add: AnteHandler_def run_iffs)
qed

text \<open>The checks that a transaction with these signers and signatures passed, as one relation.\<close>

definition authenticated ::
  "auth_env \<Rightarrow> 'm Msg \<Rightarrow> 'c Context_scheme \<Rightarrow> 'm StdTx \<Rightarrow> world \<Rightarrow> world \<Rightarrow> bool" where
  "authenticated E mi ctx stdTx w t \<longleftrightarrow>
     (let signers = StdTx_GetSigners E mi stdTx; sigs = tx_Signatures stdTx; fee = tx_Fee stdTx in
       length sigs = length signers \<and> signers \<noteq> []
       \<and> (\<forall>j < length signers. \<exists>acc acc'.
            acct E w (signers ! j) = Some acc \<and> acct E t (signers ! j) = Some acc'
            \<and> seq_step E (StdSignBytes E mi (ctx_ChainID ctx) (sig_AccountNumber (sigs ! j))
                  (sig_Sequence (sigs ! j)) fee (tx_Msgs stdTx) (tx_Memo stdTx)) (signers ! j) (sigs ! j) acc acc'
            \<and> coins_step fee (j = 0) acc acc')
       \<and> (\<forall>a. a \<notin> set signers \<longrightarrow> acct E t a = acct E w a)
       \<and> pool_step E fee True w t)"

context auth_codec
begin

lemma AnteHandler_authenticated:
  assumes "AnteHandler E mi ctx tx w = (Val (accs, res, False), t)" and "accts_ok E w"
  shows "\<exists>stdTx. tx = TxStd stdTx \<and> authenticated E mi ctx stdTx w t \<and> accts_ok E t"
proof -
  obtain stdTx u where tx: "tx = TxStd stdTx" and ne: "tx_Signatures stdTx \<noteq> []"
    and len: "length (StdTx_GetSigners E mi stdTx) = length (tx_Signatures stdTx)"
    and u: "w_stores u = w_stores w"
    and run: "ante_sigs E (\<lambda>sig. StdSignBytes E mi (ctx_ChainID ctx) (sig_AccountNumber sig) (sig_Sequence sig)
           (tx_Fee stdTx) (tx_Msgs stdTx) (tx_Memo stdTx)) (tx_Fee stdTx) 0
           (zip (StdTx_GetSigners E mi stdTx) (tx_Signatures stdTx)) [] u = (Val (Inr accs), t)"
    using AnteHandler_continue [OF assms(1)] by blast
  have wu: "acct E u = acct E w" "feepool E u = feepool E w"
    using u by (auto intro: acct_cong feepool_cong)
  have ok: "accts_ok E u" using assms(2) wu(1) by (simp add: accts_ok_def)
  let ?xs = "zip (StdTx_GetSigners E mi stdTx) (tx_Signatures stdTx)"
  have fst: "map fst ?xs = StdTx_GetSigners E mi stdTx" using len by simp
  then have set: "fst ` set ?xs = set (StdTx_GetSigners E mi stdTx)" by (metis set_map)
  have d: "distinct (map fst ?xs)" unfolding fst by (rule StdTx_GetSigners_distinct)
  have "?xs \<noteq> []" using ne len by (cases "tx_Signatures stdTx"; cases "StdTx_GetSigners E mi stdTx") auto
  then show ?thesis
    using ante_sigs_Inr [OF run ok d] len ne unfolding wu set
    by (auto simp: tx authenticated_def Let_def pool_step_def wu)
qed

lemma AnteHandler_replay:
  assumes "AnteHandler E mi ctx tx w = (Val (accs, res, False), t)" and "accts_ok E w"
    and "acct E t2 = acct E t"
  shows "AnteHandler E mi ctx2 tx t2 \<noteq> (Val (accs2, res2, False), t3)"
proof
  assume again: "AnteHandler E mi ctx2 tx t2 = (Val (accs2, res2, False), t3)"
  obtain stdTx where tx: "tx = TxStd stdTx" and a1: "authenticated E mi ctx stdTx w t" and ok: "accts_ok E t"
    using AnteHandler_authenticated [OF assms(1,2)] by blast
  have "accts_ok E t2" using ok assms(3) by (simp add: accts_ok_def)
  then have a2: "authenticated E mi ctx2 stdTx t2 t3" using AnteHandler_authenticated [OF again] tx by auto
  let ?a = "StdTx_GetSigners E mi stdTx ! 0" and ?s = "tx_Signatures stdTx ! 0"
  have ne: "0 < length (StdTx_GetSigners E mi stdTx)" using a1 by (auto simp: authenticated_def Let_def)
  obtain acc' where "acct E t ?a = Some acc'" "ba_Sequence acc' = wrap64 (sig_Sequence ?s + 1)"
    using a1 ne unfolding authenticated_def Let_def seq_step_def by blast
  moreover obtain acc2 where "acct E t2 ?a = Some acc2" "ba_Sequence acc2 = sig_Sequence ?s"
    using a2 ne unfolding authenticated_def Let_def seq_step_def by blast
  ultimately have "wrap64 (sig_Sequence ?s + 1) = sig_Sequence ?s" using assms(3) by simp
  then show False using wrap64_succ_neq by blast
qed

end

section \<open>An instance of the parameters\<close>

definition net_encAcc :: "BaseAccount \<Rightarrow> bytes" where
  "net_encAcc a = enc_fields [ba_Address a, enc_coins (ba_Coins a), enc_option (\<lambda>x. x) (ba_PubKey a),
     enc_int (ba_AccountNumber a), enc_int (ba_Sequence a)]"

definition net_decAcc :: "bytes \<Rightarrow> BaseAccount option" where
  "net_decAcc bz = (case dec_fields bz of
     Some [a, c, p, n, s] \<Rightarrow>
       Option.bind (dec_coins c) (\<lambda>c. Option.bind (dec_option Some p) (\<lambda>p.
       Option.bind (dec_int n) (\<lambda>n. Option.bind (dec_int s) (\<lambda>s.
       Some \<lparr>ba_Address = a, ba_Coins = c, ba_PubKey = p, ba_AccountNumber = n, ba_Sequence = s\<rparr>))))
   | _ \<Rightarrow> None)"

lemma net_decAcc_encAcc [simp]: "net_decAcc (net_encAcc a) = Some a"
  by (simp add: net_decAcc_def net_encAcc_def)

text \<open>
  Length-prefixed encodings for what is stored; a key is its own address, and a signature is
  valid when it is the key followed by the signed bytes.
\<close>

definition net_auth_env :: auth_env where
  "net_auth_env = \<lparr>ae_accKey = ''acc'', ae_feeKey = ''fee'', ae_encAcc = net_encAcc, ae_decAcc = net_decAcc,
     ae_encInt = enc_int, ae_decInt = dec_int, ae_encCoins = enc_coins, ae_decCoins = dec_coins,
     ae_pkAddress = (\<lambda>pk. pk), ae_Verify = (\<lambda>pk msg sig. sig = pk @ msg), ae_addrString = (\<lambda>a. a),
     ae_jsonFee = (\<lambda>f. Coins_String (fee_Amount f)), ae_jsonMsgs = concat,
     ae_jsonDoc = (\<lambda>d. doc_ChainID d @ doc_FeeBytes d @ doc_MsgsBytes d @ doc_Memo d)\<rparr>"

interpretation net_auth: auth_codec net_auth_env
  by unfold_locales (simp_all add: net_auth_env_def)

text \<open>A message that only names its signer, and a transaction with one signature.\<close>

definition addr_msg :: "bytes Msg" where
  "addr_msg = \<lparr>msg_Type = (\<lambda>_. ''test''), msg_ValidateBasic = (\<lambda>_. Val None),
     msg_GetSignBytes = (\<lambda>m. m), msg_GetSigners = (\<lambda>m. [m])\<rparr>"

definition ex_ctx :: Context where
  "ex_ctx = NewContext \<lparr>hdr_ChainID = ''chain'', hdr_Height = 1, hdr_Time = 0\<rparr> False"

definition ex_fee :: StdFee where
  "ex_fee = NewStdFee 5000 [NewCoin ''atom'' 5]"

definition ex_tx :: "bytes Tx" where
  "ex_tx = TxStd (NewStdTx [''bob''] ex_fee
     [\<lparr>sig_PubKey = Some ''bob'',
       sig_Signature = ''bob'' @ StdSignBytes net_auth_env addr_msg ''chain'' 0 7 ex_fee [''bob''] ''memo'',
       sig_AccountNumber = 0, sig_Sequence = 7\<rparr>] ''memo'')"

definition ex_account :: BaseAccount where
  "ex_account = \<lparr>ba_Address = ''bob'', ba_Coins = [NewCoin ''atom'' 100], ba_PubKey = None,
     ba_AccountNumber = 0, ba_Sequence = 7\<rparr>"

definition ex_world :: world where
  "ex_world = \<lparr>w_stores = (\<lambda>_. [])(''acc'' := [(AddressStoreKey ''bob'', net_encAcc ex_account)]),
     w_gas = NewInfiniteGasMeter\<rparr>"

definition ex_run :: "(BaseAccount list \<times> Result \<times> bool) outcome \<times> world" where
  "ex_run = AnteHandler net_auth_env addr_msg ex_ctx ex_tx ex_world"

lemma ex_world_ok: "accts_ok net_auth_env ex_world"
  by (auto simp: accts_ok_def acct_def ex_world_def net_auth_env_def kv_Get_def ex_account_def)

lemma ex_run_continues:
  "fst ex_run = Val ([ex_account\<lparr>ba_Coins := [NewCoin ''atom'' 95], ba_PubKey := Some ''bob'', ba_Sequence := 8\<rparr>],
     emptyResult, False)"
  by code_simp

lemma ex_run_eq:
  "AnteHandler net_auth_env addr_msg ex_ctx ex_tx ex_world =
     (Val ([ex_account\<lparr>ba_Coins := [NewCoin ''atom'' 95], ba_PubKey := Some ''bob'', ba_Sequence := 8\<rparr>],
        emptyResult, False), snd ex_run)"
  using ex_run_continues unfolding ex_run_def by (metis prod.collapse)

section \<open>Properties\<close>

text \<open>
  C5: when the ante handler lets a transaction through, it is a standard transaction with one
  signature per signer; every signer has an account whose number and sequence are those of the
  signature and whose key (stored, or given with the signature and matching the address)
  verifies the signature over the sign bytes of this chain; each of these accounts is stored
  with the sequence one higher, the first one has paid the fee into the pool, and no other
  account has changed.
\<close>

theorem AnteHandler_authenticates:
  assumes "auth_codec E" and "accts_ok E w"
    and "AnteHandler E mi ctx tx w = (Val (accs, res, False), t)"
  shows "\<exists>stdTx. tx = TxStd stdTx \<and> authenticated E mi ctx stdTx w t \<and> accts_ok E t"
  by (rule auth_codec.AnteHandler_authenticated [OF assms(1,3,2)])

theorem AnteHandler_authenticates_witness:
  "\<exists>stdTx. ex_tx = TxStd stdTx \<and> authenticated net_auth_env addr_msg ex_ctx stdTx ex_world (snd ex_run)"
  using AnteHandler_authenticates [OF net_auth.auth_codec_axioms ex_world_ok ex_run_eq] by blast

text \<open>
  C21: a transaction that the ante handler let through is not let through again, in any
  context, as long as the accounts are as it left them: replay is rejected.
\<close>

theorem AnteHandler_rejects_replay:
  assumes "auth_codec E" and "accts_ok E w"
    and "AnteHandler E mi ctx tx w = (Val (accs, res, False), t)"
    and "acct E t2 = acct E t"
  shows "AnteHandler E mi ctx2 tx t2 \<noteq> (Val (accs2, res2, False), t3)"
  by (rule auth_codec.AnteHandler_replay [OF assms(1,3,2,4)])

theorem AnteHandler_rejects_replay_witness:
  "\<forall>accs res t. AnteHandler net_auth_env addr_msg ex_ctx ex_tx (snd ex_run) \<noteq> (Val (accs, res, False), t)"
  using AnteHandler_rejects_replay [OF net_auth.auth_codec_axioms ex_world_ok ex_run_eq refl] by blast

text \<open>
  C36: the fee moves from the first signer to the pool of collected fees and nothing is created
  or lost: in every denomination the balance of the signer and the pool add up to the same as
  before, and a signer who pays a fee is left with no negative balance.
\<close>

theorem AnteHandler_fee_conserved:
  assumes "auth_codec E" and "accts_ok E w"
    and "AnteHandler E mi ctx (TxStd stdTx) w = (Val (accs, res, False), t)"
    and "payer = StdTx_GetSigners E mi stdTx ! 0"
    and "acct E w payer = Some acc" and "feepool E w = Some pool"
    and "canonical (ba_Coins acc)" and "canonical pool" and "canonical (fee_Amount (tx_Fee stdTx))"
  shows "\<exists>acc' pool'. acct E t payer = Some acc' \<and> feepool E t = Some pool'
    \<and> amt (ba_Coins acc') d + amt pool' d = amt (ba_Coins acc) d + amt pool d
    \<and> amt (ba_Coins acc') d = amt (ba_Coins acc) d - amt (fee_Amount (tx_Fee stdTx)) d
    \<and> (\<not> Coins_IsZero (fee_Amount (tx_Fee stdTx)) \<longrightarrow> 0 \<le> amt (ba_Coins acc') d)"
proof -
  let ?fee = "fee_Amount (tx_Fee stdTx)"
  have a: "authenticated E mi ctx stdTx w t"
    using auth_codec.AnteHandler_authenticated [OF assms(1,3,2)] by auto
  then have "0 < length (StdTx_GetSigners E mi stdTx)" by (auto simp: authenticated_def Let_def)
  then obtain acc' where acc': "acct E t payer = Some acc'" "coins_step (tx_Fee stdTx) True acc acc'"
    using a assms(4,5) unfolding authenticated_def Let_def by fastforce
  have pool: "pool_step E (tx_Fee stdTx) True w t" using a by (simp add: authenticated_def Let_def)
  show ?thesis
  proof (cases "Coins_IsZero ?fee")
    case True
    then have "?fee = []" using assms(9) by (cases ?fee) (auto simp: Coins_IsZero_def)
    then show ?thesis using True acc' pool assms(6) by (simp add: coins_step_def pool_step_def)
  next
    case False
    have m: "Coins_Minus (ba_Coins acc) ?fee = Val (ba_Coins acc')" "Coins_IsNotNegative (ba_Coins acc')"
      using acc'(2) False by (simp_all add: coins_step_def)
    obtain pool' where p: "Coins_Plus pool ?fee = Val pool'" "feepool E t = Some pool'"
      using pool False assms(6) by (auto simp: pool_step_def)
    have "sorted_denoms (ba_Coins acc')"
      using coins.minus_ok [OF assms(7,9) m(1)] by (simp add: canonical_def)
    then have "0 \<le> amt (ba_Coins acc') d" using m(2) sorted_nonneg_iff by auto
    then show ?thesis
      using acc'(1) p coins.transfer_conserves [OF assms(7,8,9) m(1) p(1)] coins.minus_bal [OF assms(7,9) m(1)]
      by simp
  qed
qed

theorem AnteHandler_fee_conserved_witness:
  "\<exists>acc' pool'. acct net_auth_env (snd ex_run) ''bob'' = Some acc' \<and> feepool net_auth_env (snd ex_run) = Some pool'
     \<and> amt (ba_Coins acc') ''atom'' + amt pool' ''atom'' = 100"
proof -
  obtain stdTx where tx: "ex_tx = TxStd stdTx" and fee: "fee_Amount (tx_Fee stdTx) = [NewCoin ''atom'' 5]"
    and payer: "StdTx_GetSigners net_auth_env addr_msg stdTx ! 0 = ''bob''"
    by (simp add: ex_tx_def NewStdTx_def ex_fee_def NewStdFee_def StdTx_GetSigners_def addr_msg_def)
  have acc: "acct net_auth_env ex_world ''bob'' = Some ex_account"
    by (simp add: acct_def ex_world_def net_auth_env_def kv_Get_def)
  have pool: "feepool net_auth_env ex_world = Some []"
    by (simp add: feepool_def ex_world_def net_auth_env_def kv_Get_def)
  have can: "canonical (ba_Coins ex_account)" "canonical []" "canonical (fee_Amount (tx_Fee stdTx))"
    by (simp_all add: fee ex_account_def NewCoin_def NewInt_def Int_range_def)
  have amt: "amt (ba_Coins ex_account) ''atom'' + amt [] ''atom'' = 100"
    by (simp add: ex_account_def NewCoin_def NewInt_def)
  show ?thesis
    using AnteHandler_fee_conserved [OF net_auth.auth_codec_axioms ex_world_ok ex_run_eq [unfolded tx]
        payer [symmetric] acc pool can, of "''atom''"] amt
    by auto
qed

end
