(* ===== verification/BaseApp.thy ===== *)
theory BaseApp
  imports Auth
begin

text \<open>
  The application of \<open>baseapp/\<close>: the router, the states on which transactions are checked and
  delivered, the execution of a transaction in its three modes, and the life of a block from
  \<open>InitChain\<close> and \<open>BeginBlock\<close> over \<open>CheckTx\<close> and \<open>DeliverTx\<close> to \<open>EndBlock\<close> and \<open>Commit\<close>.

  A multistore is the contents of its stores by name.  A cached multistore is the contents that
  are seen through it: to drop it is to drop this value, and to write it is to put the value in
  the place of the contents below (\<open>store/cachekvstore.go\<close> is modelled on its own, with the proof
  that a cache behaves so).  Nobody writes below the cache of the two states while they exist.
\<close>

section \<open>The router\<close>

type_synonym 'm Handler = "Context \<Rightarrow> 'm \<Rightarrow> (world, Result) M"

record 'm route =
  route_r :: string
  route_h :: "'m Handler"

type_synonym 'm router = "'m route list"

definition NewRouter :: "'m router" where
  "NewRouter = []"

definition isAlpha :: "string \<Rightarrow> bool" where
  "isAlpha s \<longleftrightarrow> s \<noteq> [] \<and> list_all (\<lambda>c. (CHR ''a'' \<le> c \<and> c \<le> CHR ''z'') \<or> (CHR ''A'' \<le> c \<and> c \<le> CHR ''Z'')) s"

definition AddRoute :: "'m router \<Rightarrow> string \<Rightarrow> 'm Handler \<Rightarrow> 'm router outcome" where
  "AddRoute rtr r h =
     (if \<not> isAlpha r then Panic (GoPanic ''route expressions can only contain alphanumeric characters'')
      else Val (rtr @ [\<lparr>route_r = r, route_h = h\<rparr>]))"

fun Route :: "'m router \<Rightarrow> string \<Rightarrow> 'm Handler option" where
  "Route [] path = None"
| "Route (route # routes) path = (if route_r route = path then Some (route_h route) else Route routes path)"

section \<open>The application\<close>

datatype runTxMode = runTxModeCheck | runTxModeSimulate | runTxModeDeliver

type_synonym stores = "string \<Rightarrow> kvmap"

text \<open>
  The two volatile states: the cached multistore and the context, with the gas meter that the
  context points to.
\<close>

record state =
  st_ms :: stores
  st_gas :: GasMeter
  st_ctx :: Context

record 'e RequestBeginBlock =
  rbb_Header :: Header
  rbb_Validators :: "SigningValidator list"
  rbb_ByzantineValidators :: "'e list"

record RequestInitChain =
  ric_ChainId :: string
  ric_AppStateBytes :: bytes

record ResponseQuery =
  rsq_Code :: WRSPCodeType
  rsq_Value :: bytes

text \<open>An ante handler returns a new context, unless it is the zero value, a result, and whether to abort.\<close>

type_synonym 'm AnteHandler_fn = "Context \<Rightarrow> 'm Tx \<Rightarrow> (world, Context option \<times> Result \<times> bool) M"

text \<open>The committed multistore is its contents and the version of its last commit.\<close>

record ('m, 'e, 'u) BaseApp =
  app_name :: string
  app_cms :: stores
  app_version :: int
  app_router :: "'m router"
  app_codespacer :: Codespacer
  app_txDecoder :: "bytes \<Rightarrow> sdkError + 'm Tx"
  app_anteHandler :: "'m AnteHandler_fn option"
  app_initChainer :: "(Context \<Rightarrow> RequestInitChain \<Rightarrow> (world, unit) M) option"
  app_beginBlocker :: "(Context \<Rightarrow> 'e RequestBeginBlock \<Rightarrow> (world, Tags) M) option"
  app_endBlocker :: "(Context \<Rightarrow> int \<Rightarrow> (world, 'u list \<times> Tags) M) option"
  app_addrPeerFilter :: "(string \<Rightarrow> ResponseQuery) option"
  app_pubkeyPeerFilter :: "(string \<Rightarrow> ResponseQuery) option"
  app_checkState :: "state option"
  app_deliverState :: "state option"
  app_signedValidators :: "SigningValidator list"

text \<open>The decoder of transactions, over the codec.\<close>

definition defaultTxDecoder :: "(bytes \<Rightarrow> 'm StdTx option) \<Rightarrow> bytes \<Rightarrow> sdkError + 'm Tx" where
  "defaultTxDecoder unmarshal txBytes =
     (if length txBytes = 0 then Inl ErrTxDecode
      else (case unmarshal txBytes of
              None \<Rightarrow> Inl ErrTxDecode
            | Some tx \<Rightarrow> Inr (TxStd tx)))"

definition NewBaseApp :: "string \<Rightarrow> (bytes \<Rightarrow> 'm StdTx option) \<Rightarrow> ('m, 'e, 'u) BaseApp outcome" where
  "NewBaseApp name unmarshal = (case RegisterOrPanic CodespaceRoot NewCodespacer of
     (Panic p, _) \<Rightarrow> Panic p
   | (Val _, codespacer) \<Rightarrow> Val
       \<lparr>app_name = name, app_cms = (\<lambda>_. []), app_version = 0, app_router = NewRouter, app_codespacer = codespacer,
        app_txDecoder = defaultTxDecoder unmarshal, app_anteHandler = None, app_initChainer = None, app_beginBlocker = None,
        app_endBlocker = None, app_addrPeerFilter = None, app_pubkeyPeerFilter = None, app_checkState = None,
        app_deliverState = None, app_signedValidators = []\<rparr>)"

definition RegisterCodespace :: "CodespaceType \<Rightarrow> ('m, 'e, 'u) BaseApp \<Rightarrow> CodespaceType outcome \<times> ('m, 'e, 'u) BaseApp" where
  "RegisterCodespace codespace app =
     (case RegisterNext codespace (app_codespacer app) of (r, c) \<Rightarrow> (r, app\<lparr>app_codespacer := c\<rparr>))"

definition setCheckState :: "Header \<Rightarrow> ('m, 'e, 'u) BaseApp \<Rightarrow> ('m, 'e, 'u) BaseApp" where
  "setCheckState header app = app\<lparr>app_checkState :=
     Some \<lparr>st_ms = app_cms app, st_gas = NewInfiniteGasMeter, st_ctx = NewContext header True\<rparr>\<rparr>"

definition setDeliverState :: "Header \<Rightarrow> ('m, 'e, 'u) BaseApp \<Rightarrow> ('m, 'e, 'u) BaseApp" where
  "setDeliverState header app = app\<lparr>app_deliverState :=
     Some \<lparr>st_ms = app_cms app, st_gas = NewInfiniteGasMeter, st_ctx = NewContext header False\<rparr>\<rparr>"

definition chain_header :: "string \<Rightarrow> Header" where
  "chain_header chainId = \<lparr>hdr_ChainID = chainId, hdr_Height = 0, hdr_Time = 0\<rparr>"

section \<open>Running code on a state\<close>

text \<open>
  What runs with the context of a state writes its multistore, and consumes from the meter of the
  context.  Where a context with a new limited meter has been made, the meter of the state stays.
\<close>

definition world_of :: "state \<Rightarrow> world" where
  "world_of st = \<lparr>w_stores = st_ms st, w_gas = st_gas st\<rparr>"

definition after :: "state \<Rightarrow> world \<Rightarrow> state" where
  "after st w = st\<lparr>st_ms := w_stores w,
     st_gas := (case w_gas w of infiniteGasMeter n \<Rightarrow> infiniteGasMeter n | basicGasMeter _ _ \<Rightarrow> st_gas st)\<rparr>"

definition Recover :: "panic \<Rightarrow> Result" where
  "Recover p = (case p of OutOfGas _ \<Rightarrow> Error_Result ErrOutOfGas | GoPanic _ \<Rightarrow> Error_Result ErrInternal)"

section \<open>Transactions\<close>

fun validate_msgs :: "'m Msg \<Rightarrow> 'm list \<Rightarrow> Result option outcome" where
  "validate_msgs mi [] = Val None"
| "validate_msgs mi (msg # msgs) = obind (msg_ValidateBasic mi msg) (\<lambda>err. case err of
     Some err \<Rightarrow> Val (Some (Error_Result (WithDefaultCodespace err CodespaceRoot)))
   | None \<Rightarrow> validate_msgs mi msgs)"

text \<open>
  The loop over the messages.  An early return is a value on the left; when all messages have
  passed, the result that has been put together is on the right.
\<close>

fun run_msgs :: "'m Msg \<Rightarrow> 'm router \<Rightarrow> Context \<Rightarrow> nat \<Rightarrow> 'm list \<Rightarrow> Result \<Rightarrow> (world, Result + Result) M" where
  "run_msgs mi rtr ctx n [] finalResult = ret (Inr finalResult)"
| "run_msgs mi rtr ctx n (msg # msgs) finalResult = (case Route rtr (msg_Type mi msg) of
     None \<Rightarrow> ret (Inl (Error_Result ErrUnknownRequest))
   | Some handler \<Rightarrow>
       bnd (handler ctx msg) (\<lambda>result w.
       let finalResult = finalResult
             \<lparr>res_GasUsed := wrap64 (res_GasUsed finalResult + GasConsumed (w_gas w)),
              res_GasWanted := wrap64 (res_GasWanted finalResult + res_GasWanted result),
              res_Data := res_Data finalResult @ res_Data result,
              res_Tags := res_Tags finalResult @ res_Tags result\<rparr>
       in (if \<not> Result_IsOK result then
             (if n = 1 then ret (Inl result)
              else ret (Inl (result\<lparr>res_GasUsed := res_GasUsed finalResult\<rparr>)))
           else run_msgs mi rtr ctx n msgs finalResult) w))"

text \<open>The state that a mode runs on, and the context it starts with.\<close>

definition mode_state :: "runTxMode \<Rightarrow> ('m, 'e, 'u) BaseApp \<Rightarrow> state option" where
  "mode_state mode app = (if mode = runTxModeCheck \<or> mode = runTxModeSimulate then app_checkState app else app_deliverState app)"

definition set_mode_state :: "runTxMode \<Rightarrow> state \<Rightarrow> ('m, 'e, 'u) BaseApp \<Rightarrow> ('m, 'e, 'u) BaseApp" where
  "set_mode_state mode st app = (if mode = runTxModeCheck \<or> mode = runTxModeSimulate
     then app\<lparr>app_checkState := Some st\<rparr> else app\<lparr>app_deliverState := Some st\<rparr>)"

definition tx_context :: "runTxMode \<Rightarrow> bytes \<Rightarrow> ('m, 'e, 'u) BaseApp \<Rightarrow> state \<Rightarrow> Context" where
  "tx_context mode txBytes app st =
     (let ctx = WithTxBytes (st_ctx st) txBytes;
          ctx = (if mode = runTxModeCheck \<or> mode = runTxModeSimulate then ctx
                 else WithSigningValidators ctx (app_signedValidators app))
      in if mode = runTxModeSimulate then WithIsCheckTx ctx False else ctx)"

text \<open>
  The ante handler runs on the multistore of the state itself, so what it writes stays, also when
  it aborts or panics.  The messages run on a cache of it.
\<close>

definition run_ante :: "('m, 'e, 'u) BaseApp \<Rightarrow> Context \<Rightarrow> 'm Tx \<Rightarrow> (world, Result + Context) M" where
  "run_ante app ctx tx = (case app_anteHandler app of
     None \<Rightarrow> ret (Inr ctx)
   | Some anteHandler \<Rightarrow> bnd (anteHandler ctx tx) (\<lambda>(newCtx, result, abort).
       if abort then ret (Inl result)
       else ret (Inr (case newCtx of None \<Rightarrow> ctx | Some c \<Rightarrow> c))))"

definition NewAnteHandler :: "auth_env \<Rightarrow> 'm Msg \<Rightarrow> 'm AnteHandler_fn" where
  "NewAnteHandler E mi ctx tx = bnd (AnteHandler E mi ctx tx) (\<lambda>(signerAccs, res, abort). ret (Some ctx, res, abort))"

definition runTx :: "'m Msg \<Rightarrow> runTxMode \<Rightarrow> bytes \<Rightarrow> 'm Tx \<Rightarrow> ('m, 'e, 'u) BaseApp \<Rightarrow> Result \<times> ('m, 'e, 'u) BaseApp" where
  "runTx mi mode txBytes tx app =
     (let msgs = Tx_GetMsgs tx in
      if msgs = [] then (Error_Result ErrInternal, app)
      else (case validate_msgs mi msgs of
        Panic p \<Rightarrow> (Recover p, app)
      | Val (Some res) \<Rightarrow> (res, app)
      | Val None \<Rightarrow> (case mode_state mode app of
          None \<Rightarrow> (Recover (GoPanic ''nil pointer dereference''), app)
        | Some st \<Rightarrow> (case run_ante app (tx_context mode txBytes app st) tx (world_of st) of
            (Panic p, w) \<Rightarrow> (Recover p, set_mode_state mode (after st w) app)
          | (Val (Inl res), w) \<Rightarrow> (res, set_mode_state mode (after st w) app)
          | (Val (Inr ctx), w) \<Rightarrow>
              let st = after st w in
              (case run_msgs mi (app_router app) ctx (length msgs) msgs emptyResult w of
                (Panic p, t) \<Rightarrow> (Recover p, set_mode_state mode (st\<lparr>st_gas := st_gas (after st t)\<rparr>) app)
              | (Val (Inl res), t) \<Rightarrow> (res, set_mode_state mode (st\<lparr>st_gas := st_gas (after st t)\<rparr>) app)
              | (Val (Inr finalResult), t) \<Rightarrow>
                  (finalResult, set_mode_state mode
                     (if mode \<noteq> runTxModeSimulate then after st t else st\<lparr>st_gas := st_gas (after st t)\<rparr>) app))))))"

definition CheckTx :: "'m Msg \<Rightarrow> bytes \<Rightarrow> ('m, 'e, 'u) BaseApp \<Rightarrow> Result \<times> ('m, 'e, 'u) BaseApp" where
  "CheckTx mi txBytes app = (case app_txDecoder app txBytes of
     Inl err \<Rightarrow> (Error_Result err, app)
   | Inr tx \<Rightarrow> runTx mi runTxModeCheck txBytes tx app)"

definition DeliverTx :: "'m Msg \<Rightarrow> bytes \<Rightarrow> ('m, 'e, 'u) BaseApp \<Rightarrow> Result \<times> ('m, 'e, 'u) BaseApp" where
  "DeliverTx mi txBytes app = (case app_txDecoder app txBytes of
     Inl err \<Rightarrow> (Error_Result err, app)
   | Inr tx \<Rightarrow> runTx mi runTxModeDeliver txBytes tx app)"

definition Check :: "'m Msg \<Rightarrow> 'm Tx \<Rightarrow> ('m, 'e, 'u) BaseApp \<Rightarrow> Result \<times> ('m, 'e, 'u) BaseApp" where
  "Check mi tx = runTx mi runTxModeCheck [] tx"

definition Simulate :: "'m Msg \<Rightarrow> 'm Tx \<Rightarrow> ('m, 'e, 'u) BaseApp \<Rightarrow> Result \<times> ('m, 'e, 'u) BaseApp" where
  "Simulate mi tx = runTx mi runTxModeSimulate [] tx"

definition Deliver :: "'m Msg \<Rightarrow> 'm Tx \<Rightarrow> ('m, 'e, 'u) BaseApp \<Rightarrow> Result \<times> ('m, 'e, 'u) BaseApp" where
  "Deliver mi tx = runTx mi runTxModeDeliver [] tx"

section \<open>Blocks\<close>

text \<open>Outside of transactions nothing recovers from a panic: it ends the process.\<close>

type_synonym ('m, 'e, 'u, 'a) A = "('m, 'e, 'u) BaseApp \<Rightarrow> ('a \<times> ('m, 'e, 'u) BaseApp) outcome"

definition nil_state :: "'a outcome" where
  "nil_state = Panic (GoPanic ''nil pointer dereference'')"

definition on_deliver :: "(Context \<Rightarrow> (world, 'a) M) \<Rightarrow> ('m, 'e, 'u, 'a) A" where
  "on_deliver f app = (case app_deliverState app of
     None \<Rightarrow> nil_state
   | Some st \<Rightarrow> (case f (st_ctx st) (world_of st) of
       (Panic p, _) \<Rightarrow> Panic p
     | (Val x, w) \<Rightarrow> Val (x, app\<lparr>app_deliverState := Some (after st w)\<rparr>)))"

definition InitChain :: "RequestInitChain \<Rightarrow> ('m, 'e, 'u, unit) A" where
  "InitChain req app =
     (let app = setDeliverState (chain_header (ric_ChainId req)) app;
          app = setCheckState (chain_header (ric_ChainId req)) app
      in (case app_initChainer app of
           None \<Rightarrow> Val ((), app)
         | Some initChainer \<Rightarrow> on_deliver (\<lambda>ctx. initChainer ctx req) app))"

definition BeginBlock :: "'e RequestBeginBlock \<Rightarrow> ('m, 'e, 'u, Tags) A" where
  "BeginBlock req app =
     (let app = (case app_deliverState app of
            None \<Rightarrow> setDeliverState (rbb_Header req) app
          | Some st \<Rightarrow> app\<lparr>app_deliverState := Some (st\<lparr>st_ctx := WithBlockHeader (st_ctx st) (rbb_Header req)\<rparr>)\<rparr>)
      in obind (case app_beginBlocker app of
            None \<Rightarrow> Val ([], app)
          | Some beginBlocker \<Rightarrow> on_deliver (\<lambda>ctx. beginBlocker ctx req) app) (\<lambda>(res, app).
         Val (res, app\<lparr>app_signedValidators := rbb_Validators req\<rparr>)))"

definition EndBlock :: "int \<Rightarrow> ('m, 'e, 'u, 'u list \<times> Tags) A" where
  "EndBlock height app = (case app_endBlocker app of
     None \<Rightarrow> Val (([], []), app)
   | Some endBlocker \<Rightarrow> on_deliver (\<lambda>ctx. endBlocker ctx height) app)"

text \<open>The answer of \<open>Commit\<close> carries the hash of the multistore, which is no part of this model; the value here is the new version.\<close>

definition Commit :: "('m, 'e, 'u, int) A" where
  "Commit app = (case app_deliverState app of
     None \<Rightarrow> nil_state
   | Some st \<Rightarrow>
       let header = ctx_BlockHeader (st_ctx st);
           app = app\<lparr>app_cms := st_ms st, app_version := wrap64 (app_version app + 1)\<rparr>;
           app = setCheckState header app;
           app = app\<lparr>app_deliverState := None\<rparr>
       in Val (app_version app, app))"

definition app_NewContext :: "bool \<Rightarrow> Header \<Rightarrow> ('m, 'e, 'u) BaseApp \<Rightarrow> (Context \<times> stores) outcome" where
  "app_NewContext isCheckTx header app = (case (if isCheckTx then app_checkState app else app_deliverState app) of
     None \<Rightarrow> nil_state
   | Some st \<Rightarrow> Val (NewContext header isCheckTx, st_ms st))"

section \<open>All or nothing\<close>

text \<open>The messages are routed and handled one after the other, and all succeed.\<close>

inductive msgs_pass :: "'m Msg \<Rightarrow> 'm router \<Rightarrow> Context \<Rightarrow> 'm list \<Rightarrow> world \<Rightarrow> world \<Rightarrow> bool" for mi rtr ctx where
  pass_done: "msgs_pass mi rtr ctx [] w w"
| pass_msg: "Route rtr (msg_Type mi msg) = Some handler \<Longrightarrow> handler ctx msg w = (Val result, u) \<Longrightarrow> Result_IsOK result \<Longrightarrow>
    msgs_pass mi rtr ctx msgs u t \<Longrightarrow> msgs_pass mi rtr ctx (msg # msgs) w t"

inductive_cases msgs_pass_ConsE: "msgs_pass mi rtr ctx (msg # msgs) w t"
inductive_simps msgs_pass_simps: "msgs_pass mi rtr ctx [] w t" "msgs_pass mi rtr ctx (msg # msgs) w t"

lemma run_msgs_Inr:
  "run_msgs mi rtr ctx n msgs fr w = (Val (Inr res), t) \<Longrightarrow> msgs_pass mi rtr ctx msgs w t \<and> res_Code res = res_Code fr"
proof (induction msgs arbitrary: fr w)
  case Nil
  then show ?case by (simp add: ret_iff msgs_pass_simps)
next
  case (Cons msg msgs)
  then show ?case
    by (auto simp: bnd_Val_iff Let_def ret_iff msgs_pass_simps split: option.splits if_splits)
qed

lemma msgs_pass_run: "msgs_pass mi rtr ctx msgs w t \<Longrightarrow> \<exists>res. run_msgs mi rtr ctx n msgs fr w = (Val (Inr res), t)"
  by (induction arbitrary: fr rule: msgs_pass.induct) (auto simp: ret_iff bnd_run Let_def)

text \<open>A transaction passes: it is valid, the ante handler lets it continue, and all its messages succeed.\<close>

definition tx_valid :: "'m Msg \<Rightarrow> 'm Tx \<Rightarrow> bool" where
  "tx_valid mi tx \<longleftrightarrow> Tx_GetMsgs tx \<noteq> [] \<and> validate_msgs mi (Tx_GetMsgs tx) = Val None"

definition tx_passes :: "'m Msg \<Rightarrow> runTxMode \<Rightarrow> bytes \<Rightarrow> 'm Tx \<Rightarrow> ('m, 'e, 'u) BaseApp \<Rightarrow> state \<Rightarrow> world \<Rightarrow> world \<Rightarrow> bool" where
  "tx_passes mi mode txBytes tx app st w t \<longleftrightarrow> tx_valid mi tx \<and>
     (\<exists>ctx. run_ante app (tx_context mode txBytes app st) tx (world_of st) = (Val (Inr ctx), w)
        \<and> msgs_pass mi (app_router app) ctx (Tx_GetMsgs tx) w t)"

lemma mode_state_set [simp]: "mode_state mode (set_mode_state mode st app) = Some st"
  by (simp add: mode_state_def set_mode_state_def)

lemma after_sel [simp]: "st_ms (after st w) = w_stores w" "st_ctx (after st w) = st_ctx st"
  by (simp_all add: after_def)

lemma emptyResult_IsOK: "res_Code res = res_Code emptyResult \<Longrightarrow> Result_IsOK res"
  by (simp add: Result_IsOK_def WRSPCodeType_IsOK_def emptyResult_def WRSPCodeOK_def)

lemma runTx_exact:
  assumes "runTx mi mode txBytes tx app = (res, app')" and "mode_state mode app = Some st"
  shows "\<exists>st'. mode_state mode app' = Some st' \<and>
    (if \<exists>w t. tx_passes mi mode txBytes tx app st w t
     then Result_IsOK res \<and> (\<exists>w t. tx_passes mi mode txBytes tx app st w t \<and> st_ms st' = (if mode = runTxModeSimulate then w_stores w else w_stores t))
     else st_ms st' = (if tx_valid mi tx then w_stores (snd (run_ante app (tx_context mode txBytes app st) tx (world_of st))) else st_ms st))"
proof (cases "tx_valid mi tx")
  case False
  then have "app' = app" using assms(1) by (auto simp: runTx_def tx_valid_def Let_def split: if_splits outcome.splits option.splits)
  then show ?thesis using assms(2) False by (auto simp: tx_passes_def)
next
  case True
  then have ok: "Tx_GetMsgs tx \<noteq> []" "validate_msgs mi (Tx_GetMsgs tx) = Val None" by (simp_all add: tx_valid_def)
  obtain r w where ante: "run_ante app (tx_context mode txBytes app st) tx (world_of st) = (r, w)" by fastforce
  show ?thesis
  proof (cases "\<exists>ctx. r = Val (Inr ctx)")
    case False
    then have "mode_state mode app' = Some (after st w)"
      using assms ok ante by (auto simp: runTx_def Let_def split: outcome.splits sum.splits)
    then show ?thesis using True ante False by (auto simp: tx_passes_def)
  next
    case True
    then obtain ctx where r: "r = Val (Inr ctx)" by blast
    obtain q t where msgs: "run_msgs mi (app_router app) ctx (length (Tx_GetMsgs tx)) (Tx_GetMsgs tx) emptyResult w = (q, t)" by fastforce
    show ?thesis
    proof (cases "\<exists>fin. q = Val (Inr fin)")
      case True
      then obtain fin where q: "q = Val (Inr fin)" by blast
      have pass: "msgs_pass mi (app_router app) ctx (Tx_GetMsgs tx) w t" "Result_IsOK fin"
        using run_msgs_Inr [OF msgs [unfolded q]] emptyResult_IsOK by blast+
      then have "tx_passes mi mode txBytes tx app st w t" using \<open>tx_valid mi tx\<close> ante r by (auto simp: tx_passes_def)
      moreover have "res = fin \<and> mode_state mode app' = Some (if mode \<noteq> runTxModeSimulate then after (after st w) t
          else (after st w)\<lparr>st_gas := st_gas (after (after st w) t)\<rparr>)"
        using assms ok ante r msgs q by (auto simp: runTx_def Let_def)
      ultimately show ?thesis using pass(2) by auto
    next
      case False
      then have "\<not> msgs_pass mi (app_router app) ctx (Tx_GetMsgs tx) w u" for u
        using msgs_pass_run [of mi "app_router app" ctx "Tx_GetMsgs tx" w u "length (Tx_GetMsgs tx)" emptyResult] msgs by auto
      moreover have "mode_state mode app' = Some ((after st w)\<lparr>st_gas := st_gas (after (after st w) t)\<rparr>)"
        using assms ok ante r msgs False by (auto simp: runTx_def Let_def split: outcome.splits sum.splits)
      ultimately show ?thesis using ante r \<open>tx_valid mi tx\<close> by (auto simp: tx_passes_def)
    qed
  qed
qed

lemma runTx_frame:
  "runTx mi mode txBytes tx app = (res, app') \<Longrightarrow>
     app' = (if mode = runTxModeDeliver then app\<lparr>app_deliverState := app_deliverState app'\<rparr> else app\<lparr>app_checkState := app_checkState app'\<rparr>)"
  by (cases mode) (auto simp: runTx_def set_mode_state_def Let_def split: if_splits outcome.splits option.splits prod.splits sum.splits)

section \<open>The life of the application\<close>

datatype ('m, 'e) request =
    ReqInitChain RequestInitChain
  | ReqBeginBlock "'e RequestBeginBlock"
  | ReqCheckTx bytes
  | ReqSimulate "'m Tx"
  | ReqDeliverTx bytes
  | ReqEndBlock int
  | ReqCommit

fun handle :: "'m Msg \<Rightarrow> ('m, 'e) request \<Rightarrow> ('m, 'e, 'u) BaseApp \<Rightarrow> ('m, 'e, 'u) BaseApp outcome" where
  "handle mi (ReqInitChain req) app = map_outcome snd (InitChain req app)"
| "handle mi (ReqBeginBlock req) app = map_outcome snd (BeginBlock req app)"
| "handle mi (ReqCheckTx txBytes) app = Val (snd (CheckTx mi txBytes app))"
| "handle mi (ReqSimulate tx) app = Val (snd (Simulate mi tx app))"
| "handle mi (ReqDeliverTx txBytes) app = Val (snd (DeliverTx mi txBytes app))"
| "handle mi (ReqEndBlock height) app = map_outcome snd (EndBlock height app)"
| "handle mi ReqCommit app = map_outcome snd (Commit app)"

fun serve :: "'m Msg \<Rightarrow> ('m, 'e) request list \<Rightarrow> ('m, 'e, 'u) BaseApp \<Rightarrow> ('m, 'e, 'u) BaseApp outcome" where
  "serve mi [] app = Val app"
| "serve mi (req # reqs) app = obind (handle mi req app) (serve mi reqs)"

text \<open>The requests that come with the blocks, as opposed to those of the mempool and of clients.\<close>

fun consensus :: "('m, 'e) request \<Rightarrow> bool" where
  "consensus (ReqCheckTx _) = False"
| "consensus (ReqSimulate _) = False"
| "consensus _ = True"

definition forget_check :: "('m, 'e, 'u) BaseApp \<Rightarrow> ('m, 'e, 'u) BaseApp" where
  "forget_check app = app\<lparr>app_checkState := None\<rparr>"

lemma runTx_any_check:
  "runTx mi runTxModeDeliver txBytes tx (app\<lparr>app_checkState := c\<rparr>) =
     (fst (runTx mi runTxModeDeliver txBytes tx app), (snd (runTx mi runTxModeDeliver txBytes tx app))\<lparr>app_checkState := c\<rparr>)"
  by (simp add: runTx_def run_ante_def tx_context_def mode_state_def set_mode_state_def Let_def split: outcome.split option.split prod.split sum.split)

lemma on_deliver_any_check:
  "on_deliver f (app\<lparr>app_checkState := c\<rparr>) = map_outcome (\<lambda>(x, app). (x, app\<lparr>app_checkState := c\<rparr>)) (on_deliver f app)"
  by (simp add: on_deliver_def nil_state_def split: outcome.split option.split prod.split)

lemma handle_any_check:
  "consensus req \<Longrightarrow> map_outcome forget_check (handle mi req (app\<lparr>app_checkState := c\<rparr>)) = map_outcome forget_check (handle mi req app)"
proof (cases req)
  case (ReqInitChain r)
  then show ?thesis
    by (simp add: InitChain_def setDeliverState_def setCheckState_def Let_def on_deliver_def forget_check_def split: option.split)
next
  case (ReqBeginBlock r)
  then show ?thesis
    by (simp add: BeginBlock_def setDeliverState_def Let_def on_deliver_def nil_state_def forget_check_def split: option.split prod.split outcome.split)
next
  case (ReqDeliverTx b)
  then show ?thesis
    by (simp add: DeliverTx_def runTx_any_check forget_check_def split: sum.split)
next
  case (ReqEndBlock h)
  then show ?thesis
    by (simp add: EndBlock_def on_deliver_def nil_state_def forget_check_def split: option.split prod.split outcome.split)
next
  case ReqCommit
  then show ?thesis by (simp add: Commit_def setCheckState_def Let_def nil_state_def forget_check_def split: option.split)
qed auto

lemma forget_eqE:
  assumes "forget_check a = forget_check b"
  obtains c where "a = b\<lparr>app_checkState := c\<rparr>"
  using assms that [of "app_checkState a"] by (cases a; cases b) (simp add: forget_check_def)

lemma handle_other:
  "\<not> consensus req \<Longrightarrow> \<exists>c. handle mi req app = Val (app\<lparr>app_checkState := c\<rparr>)"
proof (cases req)
  case (ReqCheckTx b)
  show ?thesis
  proof (cases "app_txDecoder app b")
    case (Inl e)
    then show ?thesis using ReqCheckTx by (auto simp: CheckTx_def intro: exI [of _ "app_checkState app"])
  next
    case (Inr tx)
    then show ?thesis using ReqCheckTx runTx_frame [of mi runTxModeCheck b tx app] by (auto simp: CheckTx_def) (metis prod.collapse)
  qed
next
  case (ReqSimulate tx)
  then show ?thesis using runTx_frame [of mi runTxModeSimulate "[]" tx app] by (auto simp: Simulate_def) (metis prod.collapse)
qed auto

lemma serve_forget:
  "forget_check a = forget_check b \<Longrightarrow>
     map_outcome forget_check (serve mi reqs a) = map_outcome forget_check (serve mi (filter consensus reqs) b)"
proof (induction reqs arbitrary: a b)
  case (Cons req reqs)
  show ?case
  proof (cases "consensus req")
    case True
    have same: "map_outcome forget_check (handle mi req a) = map_outcome forget_check (handle mi req b)"
      using forget_eqE [OF Cons.prems] handle_any_check [OF True] by metis
    show ?thesis
    proof (cases "handle mi req a")
      case (Val a')
      then obtain b' where "handle mi req b = Val b'" "forget_check a' = forget_check b'" using same by (cases "handle mi req b") auto
      then show ?thesis using Cons.IH [of a' b'] Val True by simp
    next
      case (Panic p)
      then show ?thesis using same True by (cases "handle mi req b") auto
    qed
  next
    case False
    then obtain c where "handle mi req a = Val (a\<lparr>app_checkState := c\<rparr>)" using handle_other by blast
    then show ?thesis using Cons.IH [of "a\<lparr>app_checkState := c\<rparr>" b] Cons.prems False by (simp add: forget_check_def)
  qed
qed simp

lemma map_outcome_Val: "map_outcome f m = Val y \<longleftrightarrow> (\<exists>x. m = Val x \<and> y = f x)"
  by (cases m) auto

lemma runTx_cms:
  "app_cms (snd (runTx mi mode txBytes tx app)) = app_cms app" "app_version (snd (runTx mi mode txBytes tx app)) = app_version app"
  using runTx_frame [of mi mode txBytes tx app "fst (runTx mi mode txBytes tx app)" "snd (runTx mi mode txBytes tx app)"]
  by (auto dest: arg_cong [where f = app_cms] arg_cong [where f = app_version] split: if_splits)

lemma on_deliver_cms:
  "on_deliver f app = Val (x, app') \<Longrightarrow> app_cms app' = app_cms app \<and> app_version app' = app_version app"
  by (auto simp: on_deliver_def nil_state_def split: option.splits prod.splits outcome.splits)

lemma handle_committed:
  assumes "handle mi req app = Val app'"
  shows "if req = ReqCommit
    then \<exists>st cs. app_deliverState app = Some st \<and> app_cms app' = st_ms st \<and> app_version app' = wrap64 (app_version app + 1)
      \<and> app_deliverState app' = None \<and> app_checkState app' = Some cs \<and> st_ms cs = st_ms st
    else app_cms app' = app_cms app \<and> app_version app' = app_version app"
proof (cases req)
  case (ReqInitChain r)
  then show ?thesis using assms
    by (auto simp: InitChain_def setDeliverState_def setCheckState_def Let_def map_outcome_Val split: option.splits dest!: on_deliver_cms)
next
  case (ReqBeginBlock r)
  then show ?thesis using assms
    by (auto simp: BeginBlock_def setDeliverState_def Let_def obind_Val_iff map_outcome_Val split: option.splits dest!: on_deliver_cms)
next
  case (ReqEndBlock h)
  then show ?thesis using assms by (auto simp: EndBlock_def map_outcome_Val split: option.splits dest!: on_deliver_cms)
next
  case ReqCommit
  then show ?thesis using assms by (auto simp: Commit_def setCheckState_def Let_def nil_state_def map_outcome_Val split: option.splits)
qed (use assms in \<open>auto simp: CheckTx_def DeliverTx_def Simulate_def runTx_cms split: sum.splits\<close>)

section \<open>A concrete application\<close>

text \<open>One route, whose handler writes a store, and the ante handler of \<open>x/auth\<close>.\<close>

definition ex_route :: "bytes Handler" where
  "ex_route ctx m = bnd (gas_Set ''test'' m ''v'') (\<lambda>_. ret emptyResult)"

definition ex_state :: state where
  "ex_state = \<lparr>st_ms = w_stores ex_world, st_gas = NewInfiniteGasMeter, st_ctx = ex_ctx\<rparr>"

definition ex_app :: "(bytes, unit, unit) BaseApp" where
  "ex_app = \<lparr>app_name = ''ex'', app_cms = w_stores ex_world, app_version = 1, app_router = [\<lparr>route_r = ''test'', route_h = ex_route\<rparr>],
     app_codespacer = NewCodespacer, app_txDecoder = (\<lambda>_. Inr ex_tx), app_anteHandler = Some (NewAnteHandler net_auth_env addr_msg),
     app_initChainer = None, app_beginBlocker = None, app_endBlocker = None, app_addrPeerFilter = None, app_pubkeyPeerFilter = None,
     app_checkState = Some ex_state, app_deliverState = Some ex_state, app_signedValidators = []\<rparr>"

definition ex_tx_with :: "int \<Rightarrow> bytes Tx" where
  "ex_tx_with gas = (let fee = NewStdFee gas [NewCoin ''atom'' 5] in TxStd (NewStdTx [''bob''] fee
     [\<lparr>sig_PubKey = Some ''bob'',
       sig_Signature = ''bob'' @ StdSignBytes net_auth_env addr_msg ''chain'' 0 7 fee [''bob''] ''memo'',
       sig_AccountNumber = 0, sig_Sequence = 7\<rparr>] ''memo''))"

section \<open>Properties\<close>

text \<open>
  C2: a transaction is executed all or not at all.  When it is valid, passes the ante handler and
  all its messages succeed one after the other, the result is OK and the state is the one after
  the last message, unless the transaction is only simulated.  In every other case - a message
  fails or panics, has no route, or runs out of gas - the messages leave no trace, and the state is
  what the ante handler left behind.
\<close>

theorem runTx_atomic:
  assumes "runTx mi mode txBytes tx app = (res, app')" and "mode_state mode app = Some st"
  shows "\<exists>st'. mode_state mode app' = Some st' \<and>
    (if \<exists>w t. tx_passes mi mode txBytes tx app st w t
     then Result_IsOK res \<and> (\<exists>w t. tx_passes mi mode txBytes tx app st w t \<and> st_ms st' = (if mode = runTxModeSimulate then w_stores w else w_stores t))
     else st_ms st' = (if tx_valid mi tx then w_stores (snd (run_ante app (tx_context mode txBytes app st) tx (world_of st))) else st_ms st))"
  using runTx_exact [OF assms] .

theorem runTx_atomic_witness:
  "fst (runTx addr_msg runTxModeDeliver [] (ex_tx_with 640) ex_app) = Error_Result ErrOutOfGas
   \<and> (\<exists>st'. mode_state runTxModeDeliver (snd (runTx addr_msg runTxModeDeliver [] (ex_tx_with 640) ex_app)) = Some st'
        \<and> st_ms st' ''test'' = [] \<and> st_ms st' ''fee'' \<noteq> [])"
proof -
  let ?tx = "ex_tx_with 640"
  have code: "fst (runTx addr_msg runTxModeDeliver [] ?tx ex_app) = Error_Result ErrOutOfGas" by code_simp
  have bad: "\<not> Result_IsOK (Error_Result ErrOutOfGas)" by code_simp
  have valid: "tx_valid addr_msg ?tx" by (simp add: tx_valid_def ex_tx_with_def Let_def NewStdTx_def addr_msg_def)
  have ante: "w_stores (snd (run_ante ex_app (tx_context runTxModeDeliver [] ex_app ex_state) ?tx (world_of ex_state))) ''test'' = []"
    "w_stores (snd (run_ante ex_app (tx_context runTxModeDeliver [] ex_app ex_state) ?tx (world_of ex_state))) ''fee'' \<noteq> []" by code_simp+
  have st: "mode_state runTxModeDeliver ex_app = Some ex_state" by (simp add: mode_state_def ex_app_def)
  from runTx_atomic [OF prod.collapse [symmetric] st, of addr_msg "[]" ?tx] show ?thesis
    using code bad valid ante by (auto split: if_splits)
qed

text \<open>
  C11: what a node computes for the chain does not depend on what it is asked besides: however
  requests to check or simulate transactions are mixed with the requests of consensus, the
  committed state, the state of the block in progress and everything else but the check state
  are the same as without them, and the node panics in the same cases.
\<close>

theorem mempool_independence:
  "map_outcome forget_check (serve mi reqs app) = map_outcome forget_check (serve mi (filter consensus reqs) app)"
  by (rule serve_forget) (rule refl)

text \<open>
  C19: the committed state changes by \<open>Commit\<close> alone, and then to exactly what the block in progress
  has written: the version goes up by one, the check state starts again from what has been
  committed, and there is no block in progress.  No other request changes what is committed.
\<close>

theorem commit_exact:
  assumes "handle mi req app = Val app'"
  shows "if req = ReqCommit
    then \<exists>st cs. app_deliverState app = Some st \<and> app_cms app' = st_ms st \<and> app_version app' = wrap64 (app_version app + 1)
      \<and> app_deliverState app' = None \<and> app_checkState app' = Some cs \<and> st_ms cs = st_ms st
    else app_cms app' = app_cms app \<and> app_version app' = app_version app"
  using handle_committed [OF assms] .

theorem commit_exact_witness:
  "\<exists>app'. handle addr_msg ReqCommit ex_app = Val app' \<and> app_cms app' ''acc'' = [(AddressStoreKey ''bob'', net_encAcc ex_account)]
     \<and> app_version app' = 2"
proof -
  obtain app' where "handle addr_msg ReqCommit ex_app = Val app'"
    by (simp add: Commit_def ex_app_def Let_def)
  from commit_exact [OF this] this show ?thesis by (auto simp: ex_app_def ex_state_def ex_world_def wrap64_def)
qed

text \<open>
  C35: in the first block the context that begin blockers, messages and end blockers get has the
  header of the block and still the height zero, whatever height the header has: \<open>BeginBlock\<close>
  replaces the header in the context of \<open>InitChain\<close> and not the height that is kept beside it.
\<close>

theorem first_block_height:
  assumes "InitChain req app = Val ((), app1)" and "BeginBlock req' app1 = Val (tags, app2)"
  shows "\<exists>st. app_deliverState app2 = Some st \<and> ctx_BlockHeader (st_ctx st) = rbb_Header req' \<and> ctx_BlockHeight (st_ctx st) = 0"
  using assms
  by (auto simp: InitChain_def BeginBlock_def setDeliverState_def setCheckState_def Let_def obind_Val_iff on_deliver_def nil_state_def
      chain_header_def NewContext_def WithBlockHeader_def split: option.splits prod.splits outcome.splits)

theorem first_block_height_witness:
  "\<exists>app1 tags app2 st. InitChain \<lparr>ric_ChainId = ''c'', ric_AppStateBytes = []\<rparr> ex_app = Val ((), app1)
     \<and> BeginBlock \<lparr>rbb_Header = \<lparr>hdr_ChainID = ''c'', hdr_Height = 1, hdr_Time = 0\<rparr>, rbb_Validators = [], rbb_ByzantineValidators = []\<rparr> app1 = Val (tags, app2)
     \<and> app_deliverState app2 = Some st \<and> hdr_Height (ctx_BlockHeader (st_ctx st)) = 1 \<and> ctx_BlockHeight (st_ctx st) = 0"
proof -
  let ?r = "\<lparr>ric_ChainId = ''c'', ric_AppStateBytes = []\<rparr>"
  let ?b = "\<lparr>rbb_Header = \<lparr>hdr_ChainID = ''c'', hdr_Height = 1, hdr_Time = 0\<rparr>, rbb_Validators = [], rbb_ByzantineValidators = []\<rparr>"
  obtain app1 where init: "InitChain ?r ex_app = Val ((), app1)" and "app_beginBlocker app1 = None"
    by (simp add: InitChain_def ex_app_def setDeliverState_def setCheckState_def)
  then have "\<exists>x. BeginBlock ?b app1 = Val x"
    by (cases "app_deliverState app1") (simp_all add: BeginBlock_def Let_def setDeliverState_def)
  then obtain x where x: "BeginBlock ?b app1 = Val x" by (rule exE)
  then have first: "BeginBlock ?b app1 = Val (fst x, snd x)" by (simp only: prod.collapse)
  from first_block_height [OF init first] show ?thesis
  proof (elim exE conjE, goal_cases)
    case (1 st)
    then have "hdr_Height (ctx_BlockHeader (st_ctx st)) = 1" by simp
    then show ?case by (intro exI conjI) (rule init first 1(1) 1(3) | assumption)+
  qed
qed

text \<open>
  An example: a transaction that runs out of gas can create coins.  The ante handler adds the fee to the
  collected fees before it stores the account that has paid it; a limit of gas that is used up
  in between leaves the fee collected and the account as it was, with its old sequence.
\<close>

theorem out_of_gas_mints:
  "let (res, app1) = runTx addr_msg runTxModeDeliver [] (ex_tx_with 500) ex_app
   in res = Error_Result ErrOutOfGas
      \<and> map_option (\<lambda>st. (acct net_auth_env (world_of st) ''bob'', feepool net_auth_env (world_of st))) (app_deliverState ex_app) = Some (Some ex_account, Some [])
      \<and> map_option (\<lambda>st. (acct net_auth_env (world_of st) ''bob'', feepool net_auth_env (world_of st))) (app_deliverState app1)
          = Some (Some ex_account, Some [NewCoin ''atom'' 5])"
  by code_simp

end
