(* ===== verification/MultiStore.thy ===== *)
theory MultiStore
  imports CacheStore Netstring SdkErrors
begin

text \<open>
  The store of many stores: \<open>store/iavlstore.go\<close>, \<open>store/rootmultistore.go\<close> and
  \<open>store/cachemultistore.go\<close>.

  The versioned tree of the package \<open>iavl\<close> is not part of the repository: a record of its
  operations is a parameter, and what the stores rely on is the locale \<open>versioned_tree\<close>.  The
  database of the root store has the records of the store itself under its own keys, and for
  every mounted store a part that belongs to its tree; the hash functions, the codec and the
  order in which Go runs over a map are parameters, too.
\<close>

section \<open>The versioned tree\<close>

record CommitID =
  cid_Version :: int
  cid_Hash :: bytes

definition zeroCommitID :: CommitID where
  "zeroCommitID = \<lparr>cid_Version = 0, cid_Hash = []\<rparr>"

definition CommitID_IsZero :: "CommitID \<Rightarrow> bool" where
  "CommitID_IsZero cid \<longleftrightarrow> cid_Version cid = 0 \<and> length (cid_Hash cid) = 0"

text \<open>
  A tree is loaded from its database at a version, works on the contents of one version, and
  saves them as the next.  \<open>vt_db\<close> is what its database then has.
\<close>

record ('t, 'd) vtree =
  vt_LoadVersion :: "'d \<Rightarrow> int \<Rightarrow> 't option"
  vt_db :: "'t \<Rightarrow> 'd"
  vt_SaveVersion :: "'t \<Rightarrow> (bytes \<times> int \<times> 't) option"
  vt_DeleteVersion :: "'t \<Rightarrow> int \<Rightarrow> 't option"
  vt_VersionExists :: "'t \<Rightarrow> int \<Rightarrow> bool"
  vt_Version64 :: "'t \<Rightarrow> int"
  vt_Hash :: "'t \<Rightarrow> bytes"
  vt_GetVersioned :: "'t \<Rightarrow> bytes \<Rightarrow> int \<Rightarrow> bytes option"
  vt_GetVersionedWithProof :: "'t \<Rightarrow> bytes \<Rightarrow> int \<Rightarrow> (bytes option \<times> bytes) option"
  vt_ops :: "'t KVStore"

section \<open>iavlStore\<close>

text \<open>Where the database of a store is: in the one of the root store under a name, or one of its own.\<close>

datatype place = InRoot string | Own nat

record 't iavlStore =
  st_tree :: 't
  st_place :: place
  st_numRecent :: int
  st_storeEvery :: int

definition defaultIAVLNumRecent :: int where "defaultIAVLNumRecent = 100"
definition defaultIAVLStoreEvery :: int where "defaultIAVLStoreEvery = 10000"

definition newIAVLStore :: "'t \<Rightarrow> place \<Rightarrow> int \<Rightarrow> int \<Rightarrow> 't iavlStore" where
  "newIAVLStore tree db numRecent storeEvery = \<lparr>st_tree = tree, st_place = db, st_numRecent = numRecent, st_storeEvery = storeEvery\<rparr>"

definition LoadIAVLStore :: "('t, 'd) vtree \<Rightarrow> (place \<Rightarrow> 'd) \<Rightarrow> place \<Rightarrow> CommitID \<Rightarrow> 't iavlStore option" where
  "LoadIAVLStore V dbs db commitID = (case vt_LoadVersion V (dbs db) (cid_Version commitID) of
     None \<Rightarrow> None
   | Some tree \<Rightarrow> Some (newIAVLStore tree db defaultIAVLNumRecent defaultIAVLStoreEvery))"

definition iavl_Commit :: "('t, 'd) vtree \<Rightarrow> 't iavlStore \<Rightarrow> (CommitID \<times> 't iavlStore) outcome" where
  "iavl_Commit V st = (case vt_SaveVersion V (st_tree st) of
     None \<Rightarrow> Panic (GoPanic ''save version'')
   | Some (hash, version, tree) \<Rightarrow>
       let previous = wrap64 (version - 1);
           toRelease = wrap64 (previous - st_numRecent st);
           cid = \<lparr>cid_Version = version, cid_Hash = hash\<rparr>
       in if st_numRecent st < previous \<and> (st_storeEvery st = 0 \<or> rem toRelease (st_storeEvery st) \<noteq> 0) then
            (case vt_DeleteVersion V tree toRelease of
               None \<Rightarrow> Panic (GoPanic ''delete version'')
             | Some tree \<Rightarrow> Val (cid, st\<lparr>st_tree := tree\<rparr>))
          else Val (cid, st\<lparr>st_tree := tree\<rparr>))"

definition iavl_LastCommitID :: "('t, 'd) vtree \<Rightarrow> 't iavlStore \<Rightarrow> CommitID" where
  "iavl_LastCommitID V st = \<lparr>cid_Version = vt_Version64 V (st_tree st), cid_Hash = vt_Hash V (st_tree st)\<rparr>"

definition iavl_VersionExists :: "('t, 'd) vtree \<Rightarrow> 't iavlStore \<Rightarrow> int \<Rightarrow> bool" where
  "iavl_VersionExists V st version = vt_VersionExists V (st_tree st) version"

text \<open>Reads and writes go to the tree.\<close>

definition iavl_ops :: "('t, 'd) vtree \<Rightarrow> 't iavlStore KVStore" where
  "iavl_ops V =
     (let P = vt_ops V in
      \<lparr>op_Get = (\<lambda>st k. case op_Get P (st_tree st) k of (v, tree) \<Rightarrow> (v, st\<lparr>st_tree := tree\<rparr>)),
       op_Has = (\<lambda>st k. case op_Has P (st_tree st) k of (b, tree) \<Rightarrow> (b, st\<lparr>st_tree := tree\<rparr>)),
       op_Set = (\<lambda>st k v. st\<lparr>st_tree := op_Set P (st_tree st) k v\<rparr>),
       op_Delete = (\<lambda>st k. st\<lparr>st_tree := op_Delete P (st_tree st) k\<rparr>),
       op_Iterator = (\<lambda>st s e. op_Iterator P (st_tree st) s e),
       op_ReverseIterator = (\<lambda>st s e. op_ReverseIterator P (st_tree st) s e)\<rparr>)"

record RequestQuery =
  rq_Data :: bytes
  rq_Path :: string
  rq_Height :: int
  rq_Prove :: bool

record query_response =
  qr_Code :: WRSPCodeType
  qr_Key :: bytes
  qr_Value :: "bytes option"
  qr_Proof :: bytes
  qr_Height :: int

definition empty_response :: query_response where
  "empty_response = \<lparr>qr_Code = WRSPCodeOK, qr_Key = [], qr_Value = None, qr_Proof = [], qr_Height = 0\<rparr>"

definition QueryResult :: "sdkError \<Rightarrow> query_response" where
  "QueryResult err = empty_response\<lparr>qr_Code := WRSPCode err\<rparr>"

definition iavl_Query :: "('t, 'd) vtree \<Rightarrow> (items \<Rightarrow> bytes) \<Rightarrow> 't iavlStore \<Rightarrow> RequestQuery \<Rightarrow> query_response outcome" where
  "iavl_Query V marshalKVs st req =
     (if length (rq_Data req) = 0 then Val (QueryResult ErrTxDecode)
      else
        let tree = st_tree st;
            latest = vt_Version64 V tree;
            height = (if rq_Height req = 0
              then (if vt_VersionExists V tree (wrap64 (latest - 1)) then wrap64 (latest - 1) else latest)
              else rq_Height req);
            res = empty_response\<lparr>qr_Height := height, qr_Key := rq_Data req\<rparr>
        in if rq_Path req = ''/store'' \<or> rq_Path req = ''/key'' then
             Val (if rq_Prove req then
                    (case vt_GetVersionedWithProof V tree (rq_Data req) height of
                       None \<Rightarrow> res
                     | Some (v, proof) \<Rightarrow> res\<lparr>qr_Value := v, qr_Proof := proof\<rparr>)
                  else res\<lparr>qr_Value := vt_GetVersioned V tree (rq_Data req) height\<rparr>)
           else if rq_Path req = ''/subspace'' then
             obind (PrefixEndBytes (Some (rq_Data req))) (\<lambda>stop.
             obind (op_Iterator (iavl_ops V) st (Some (rq_Data req)) stop) (\<lambda>kvs.
             Val (res\<lparr>qr_Value := Some (marshalKVs kvs)\<rparr>)))
           else Val (QueryResult ErrUnknownRequest))"

section \<open>rootMultiStore\<close>

text \<open>A key is a pointer, and has a name; two keys with the same name are still two keys.\<close>

record StoreKey =
  key_id :: nat
  key_Name :: string

datatype StoreType = StoreTypeMulti | StoreTypeDB | StoreTypeIAVL | StoreTypePrefix

record storeParams =
  sp_key :: StoreKey
  sp_db :: "nat option"
  sp_typ :: StoreType

record storeInfo =
  si_Name :: string
  si_CommitID :: CommitID

record commitInfo =
  ci_Version :: int
  ci_StoreInfos :: "storeInfo list"

record ms_env =
  ms_encInfo :: "commitInfo \<Rightarrow> bytes"
  ms_decInfo :: "bytes \<Rightarrow> commitInfo option"
  ms_encInt :: "int \<Rightarrow> bytes"
  ms_decInt :: "bytes \<Rightarrow> int option"
  ms_hashCore :: "CommitID \<Rightarrow> bytes"
  ms_SimpleHashFromMap :: "kvmap \<Rightarrow> bytes"
  ms_mapOrder :: "StoreKey list \<Rightarrow> StoreKey list"

text \<open>The database: the records of the root store, and the parts of the trees.\<close>

record ('t, 'd) rootMultiStore =
  rs_db :: kvmap
  rs_dbs :: "place \<Rightarrow> 'd"
  rs_lastCommitID :: CommitID
  rs_storesParams :: "(StoreKey \<times> storeParams) list"
  rs_stores :: "(StoreKey \<times> 't iavlStore) list"
  rs_keysByName :: "(string \<times> StoreKey) list"

definition NewCommitMultiStore :: "kvmap \<Rightarrow> (place \<Rightarrow> 'd) \<Rightarrow> ('t, 'd) rootMultiStore" where
  "NewCommitMultiStore db dbs = \<lparr>rs_db = db, rs_dbs = dbs, rs_lastCommitID = zeroCommitID, rs_storesParams = [], rs_stores = [],
     rs_keysByName = []\<rparr>"

definition MountStoreWithDB :: "StoreKey option \<Rightarrow> StoreType \<Rightarrow> nat option \<Rightarrow> (('t, 'd) rootMultiStore, unit) M" where
  "MountStoreWithDB key typ db rs = (case key of
     None \<Rightarrow> (Panic (GoPanic ''key cannot be nil''), rs)
   | Some key \<Rightarrow>
       if map_of (rs_storesParams rs) key \<noteq> None then (Panic (GoPanic ''duplicate store key''), rs)
       else (Val (), rs\<lparr>rs_storesParams := rs_storesParams rs @ [(key, \<lparr>sp_key = key, sp_db = db, sp_typ = typ\<rparr>)],
                        rs_keysByName := AList.update (key_Name key) key (rs_keysByName rs)\<rparr>))"

definition GetCommitStore :: "('t, 'd) rootMultiStore \<Rightarrow> StoreKey \<Rightarrow> 't iavlStore option" where
  "GetCommitStore rs key = map_of (rs_stores rs) key"

definition getStoreByName :: "('t, 'd) rootMultiStore \<Rightarrow> string \<Rightarrow> 't iavlStore option" where
  "getStoreByName rs name = (case map_of (rs_keysByName rs) name of
     None \<Rightarrow> None
   | Some key \<Rightarrow> map_of (rs_stores rs) key)"

subsection \<open>Commit infos\<close>

definition storeInfo_Hash :: "ms_env \<Rightarrow> storeInfo \<Rightarrow> bytes" where
  "storeInfo_Hash E si = ms_hashCore E (si_CommitID si)"

definition commitInfo_Hash :: "ms_env \<Rightarrow> commitInfo \<Rightarrow> bytes" where
  "commitInfo_Hash E ci = ms_SimpleHashFromMap E (fold (\<lambda>si m. kv_Set m (si_Name si) (storeInfo_Hash E si)) (ci_StoreInfos ci) [])"

definition commitInfo_CommitID :: "ms_env \<Rightarrow> commitInfo \<Rightarrow> CommitID" where
  "commitInfo_CommitID E ci = \<lparr>cid_Version = ci_Version ci, cid_Hash = commitInfo_Hash E ci\<rparr>"

definition latestVersionKey :: bytes where "latestVersionKey = ''s/latest''"

definition commitInfoKey :: "int \<Rightarrow> bytes" where
  "commitInfoKey ver = ''s/'' @ show_int ver"

definition getLatestVersion :: "ms_env \<Rightarrow> kvmap \<Rightarrow> int outcome" where
  "getLatestVersion E db = (case kv_Get db latestVersionKey of
     None \<Rightarrow> Val 0
   | Some latestBytes \<Rightarrow> (case ms_decInt E latestBytes of None \<Rightarrow> Panic (GoPanic ''unmarshal'') | Some latest \<Rightarrow> Val latest))"

definition setLatestVersion :: "ms_env \<Rightarrow> int \<Rightarrow> kvmap \<Rightarrow> kvmap" where
  "setLatestVersion E version db = kv_Set db latestVersionKey (ms_encInt E version)"

definition getCommitInfo :: "ms_env \<Rightarrow> kvmap \<Rightarrow> int \<Rightarrow> commitInfo option" where
  "getCommitInfo E db ver = (case kv_Get db (commitInfoKey ver) of None \<Rightarrow> None | Some b \<Rightarrow> ms_decInfo E b)"

definition setCommitInfo :: "ms_env \<Rightarrow> int \<Rightarrow> commitInfo \<Rightarrow> kvmap \<Rightarrow> kvmap" where
  "setCommitInfo E version cInfo db = kv_Set db (commitInfoKey version) (ms_encInfo E cInfo)"

subsection \<open>Loading\<close>

definition params_place :: "storeParams \<Rightarrow> place" where
  "params_place params = (case sp_db params of Some db \<Rightarrow> Own db | None \<Rightarrow> InRoot (key_Name (sp_key params)))"

text \<open>No store means that the tree could not be loaded.\<close>

definition loadCommitStoreFromParams :: "('t, 'd) vtree \<Rightarrow> ('t, 'd) rootMultiStore \<Rightarrow> CommitID \<Rightarrow> storeParams \<Rightarrow> 't iavlStore option outcome" where
  "loadCommitStoreFromParams V rs commitID params = (case sp_typ params of
     StoreTypeMulti \<Rightarrow> Panic (GoPanic ''recursive MultiStores not yet supported'')
   | StoreTypeIAVL \<Rightarrow> Val (LoadIAVLStore V (rs_dbs rs) (params_place params) commitID)
   | StoreTypeDB \<Rightarrow> Panic (GoPanic ''dbm.DB is not a CommitStore'')
   | StoreTypePrefix \<Rightarrow> Panic (GoPanic ''unrecognized store type''))"

definition nameToKey :: "ms_env \<Rightarrow> ('t, 'd) rootMultiStore \<Rightarrow> string \<Rightarrow> StoreKey outcome" where
  "nameToKey E rs name = (case filter (\<lambda>key. key_Name key = name) (ms_mapOrder E (map fst (rs_storesParams rs))) of
     [] \<Rightarrow> Panic (GoPanic ''Unknown name'')
   | key # _ \<Rightarrow> Val key)"

datatype load_error = FailedToLoad | NoCommitInfo | UnusedLoader

fun load_all :: "('t, 'd) vtree \<Rightarrow> StoreKey list \<Rightarrow> (('t, 'd) rootMultiStore, load_error option) M" where
  "load_all V [] rs = (Val None, rs)"
| "load_all V (key # ks) rs = (case map_of (rs_storesParams rs) key of
     None \<Rightarrow> load_all V ks rs
   | Some params \<Rightarrow> (case loadCommitStoreFromParams V rs zeroCommitID params of
       Panic p \<Rightarrow> (Panic p, rs)
     | Val None \<Rightarrow> (Val (Some FailedToLoad), rs)
     | Val (Some store) \<Rightarrow> load_all V ks (rs\<lparr>rs_stores := AList.update key store (rs_stores rs)\<rparr>)))"

fun load_infos ::
  "ms_env \<Rightarrow> ('t, 'd) vtree \<Rightarrow> ('t, 'd) rootMultiStore \<Rightarrow> storeInfo list \<Rightarrow> (StoreKey \<times> 't iavlStore) list
   \<Rightarrow> (StoreKey \<times> 't iavlStore) list option outcome" where
  "load_infos E V rs [] newStores = Val (Some newStores)"
| "load_infos E V rs (si # sis) newStores =
     obind (nameToKey E rs (si_Name si)) (\<lambda>key. case map_of (rs_storesParams rs) key of
       None \<Rightarrow> Panic (GoPanic ''recursive MultiStores not yet supported'')
     | Some params \<Rightarrow> obind (loadCommitStoreFromParams V rs (si_CommitID si) params) (\<lambda>r. case r of
         None \<Rightarrow> Val None
       | Some store \<Rightarrow> load_infos E V rs sis (AList.update key store newStores)))"

definition LoadVersion :: "ms_env \<Rightarrow> ('t, 'd) vtree \<Rightarrow> int \<Rightarrow> (('t, 'd) rootMultiStore, load_error option) M" where
  "LoadVersion E V ver rs =
     (if ver = 0 then
        (case load_all V (ms_mapOrder E (map fst (rs_storesParams rs))) rs of
           (Val None, rs) \<Rightarrow> (Val None, rs\<lparr>rs_lastCommitID := zeroCommitID\<rparr>)
         | failed \<Rightarrow> failed)
      else (case getCommitInfo E (rs_db rs) ver of
        None \<Rightarrow> (Val (Some NoCommitInfo), rs)
      | Some cInfo \<Rightarrow> (case load_infos E V rs (ci_StoreInfos cInfo) [] of
          Panic p \<Rightarrow> (Panic p, rs)
        | Val None \<Rightarrow> (Val (Some FailedToLoad), rs)
        | Val (Some newStores) \<Rightarrow>
            if list_ex (\<lambda>key. map_of newStores key = None) (map fst (rs_storesParams rs)) then (Val (Some UnusedLoader), rs)
            else (Val None, rs\<lparr>rs_lastCommitID := commitInfo_CommitID E cInfo, rs_stores := newStores\<rparr>))))"

definition LoadLatestVersion :: "ms_env \<Rightarrow> ('t, 'd) vtree \<Rightarrow> (('t, 'd) rootMultiStore, load_error option) M" where
  "LoadLatestVersion E V rs = (case getLatestVersion E (rs_db rs) of
     Panic p \<Rightarrow> (Panic p, rs)
   | Val ver \<Rightarrow> LoadVersion E V ver rs)"

subsection \<open>Committing\<close>

fun commit_loop :: "('t, 'd) vtree \<Rightarrow> StoreKey list \<Rightarrow> storeInfo list \<Rightarrow> (('t, 'd) rootMultiStore, storeInfo list) M" where
  "commit_loop V [] storeInfos rs = (Val storeInfos, rs)"
| "commit_loop V (key # ks) storeInfos rs = (case map_of (rs_stores rs) key of
     None \<Rightarrow> commit_loop V ks storeInfos rs
   | Some store \<Rightarrow> (case iavl_Commit V store of
       Panic p \<Rightarrow> (Panic p, rs)
     | Val (commitID, store') \<Rightarrow>
         commit_loop V ks (storeInfos @ [\<lparr>si_Name = key_Name key, si_CommitID = commitID\<rparr>])
           (rs\<lparr>rs_stores := AList.update key store' (rs_stores rs),
               rs_dbs := (rs_dbs rs)(st_place store' := vt_db V (st_tree store'))\<rparr>)))"

definition commitStores :: "ms_env \<Rightarrow> ('t, 'd) vtree \<Rightarrow> int \<Rightarrow> (('t, 'd) rootMultiStore, commitInfo) M" where
  "commitStores E V version rs =
     bnd (commit_loop V (ms_mapOrder E (map fst (rs_stores rs))) []) (\<lambda>storeInfos.
     ret \<lparr>ci_Version = version, ci_StoreInfos = storeInfos\<rparr>) rs"

definition rms_Commit :: "ms_env \<Rightarrow> ('t, 'd) vtree \<Rightarrow> (('t, 'd) rootMultiStore, CommitID) M" where
  "rms_Commit E V rs =
     (let version = wrap64 (cid_Version (rs_lastCommitID rs) + 1) in
      bnd (commitStores E V version) (\<lambda>commitInfo rs.
        let commitID = \<lparr>cid_Version = version, cid_Hash = commitInfo_Hash E commitInfo\<rparr>
        in (Val commitID, rs\<lparr>rs_db := setLatestVersion E version (setCommitInfo E version commitInfo (rs_db rs)),
                             rs_lastCommitID := commitID\<rparr>)) rs)"

subsection \<open>Queries\<close>

definition parsePath :: "string \<Rightarrow> sdkError + string \<times> string" where
  "parsePath path = (case path of
     [] \<Rightarrow> Inl ErrUnknownRequest
   | c # rest \<Rightarrow>
       if c \<noteq> CHR ''/'' then Inl ErrUnknownRequest
       else Inr (takeWhile (\<lambda>x. x \<noteq> CHR ''/'') rest, dropWhile (\<lambda>x. x \<noteq> CHR ''/'') rest))"

definition rms_Query :: "('t, 'd) vtree \<Rightarrow> (items \<Rightarrow> bytes) \<Rightarrow> ('t, 'd) rootMultiStore \<Rightarrow> RequestQuery \<Rightarrow> query_response outcome" where
  "rms_Query V marshalKVs rs req = (case parsePath (rq_Path req) of
     Inl err \<Rightarrow> Val (QueryResult err)
   | Inr (storeName, subpath) \<Rightarrow> (case getStoreByName rs storeName of
       None \<Rightarrow> Val (QueryResult ErrUnknownRequest)
     | Some store \<Rightarrow> iavl_Query V marshalKVs store (req\<lparr>rq_Path := subpath\<rparr>)))"

section \<open>cacheMultiStore\<close>

text \<open>A cache of every store.  The cache has its parent in it, and \<open>Write\<close> leaves the parent as written.\<close>

record ('p, 's) cacheMultiStore =
  cms_db :: "'p cacheKVStore"
  cms_stores :: "(StoreKey \<times> 's cacheKVStore) list"
  cms_keysByName :: "(string \<times> StoreKey) list"

definition newCacheMultiStoreFromRMS :: "('t, 'd) rootMultiStore \<Rightarrow> (kvmap, 't iavlStore) cacheMultiStore" where
  "newCacheMultiStoreFromRMS rms = \<lparr>cms_db = NewCacheKVStore (rs_db rms),
     cms_stores = map (\<lambda>(key, store). (key, NewCacheKVStore store)) (rs_stores rms), cms_keysByName = rs_keysByName rms\<rparr>"

definition cms_GetKVStore :: "('p, 's) cacheMultiStore \<Rightarrow> StoreKey \<Rightarrow> 's cacheKVStore option" where
  "cms_GetKVStore cms key = map_of (cms_stores cms) key"

definition newCacheMultiStoreFromCMS :: "('p, 's) cacheMultiStore \<Rightarrow> ('p cacheKVStore, 's cacheKVStore) cacheMultiStore" where
  "newCacheMultiStoreFromCMS cms = \<lparr>cms_db = NewCacheKVStore (cms_db cms),
     cms_stores = map (\<lambda>(key, store). (key, NewCacheKVStore store)) (cms_stores cms), cms_keysByName = []\<rparr>"

definition cms_Write :: "'p KVStore \<Rightarrow> 's KVStore \<Rightarrow> ('p, 's) cacheMultiStore \<Rightarrow> ('p, 's) cacheMultiStore" where
  "cms_Write Q P cms = cms\<lparr>cms_db := cache_Write Q (cms_db cms),
     cms_stores := map (\<lambda>(key, store). (key, cache_Write P store)) (cms_stores cms)\<rparr>"

text \<open>The root store that a cache of it has been written to.\<close>

definition written_to :: "(kvmap, 't iavlStore) cacheMultiStore \<Rightarrow> ('t, 'd) rootMultiStore \<Rightarrow> ('t, 'd) rootMultiStore" where
  "written_to cms rs = rs\<lparr>rs_db := ci_parent (cms_db cms), rs_stores := map (\<lambda>(key, store). (key, ci_parent store)) (cms_stores cms)\<rparr>"

section \<open>What the stores rely on\<close>

text \<open>
  The contract of the tree: it is a key-value store; saving adds the contents as the next version,
  which fails only when there is such a version already; a version other than the current one can
  be deleted when it is there; loading gives a saved version back, or the empty tree of an empty
  database.
\<close>

locale versioned_tree =
  fixes V :: "('t, 'd) vtree" and good :: "'t \<Rightarrow> bool" and contents :: "'t \<Rightarrow> kvmap" and saved :: "'d \<Rightarrow> int \<Rightarrow> kvmap option"
  assumes ops: "kvstore (vt_ops V) good (\<lambda>t. kv_Get (contents t))"
    and save: "vt_SaveVersion V t = Some (h, n, t') \<Longrightarrow> n = vt_Version64 V t + 1 \<and> contents t' = contents t \<and> (good t \<longrightarrow> good t')
      \<and> vt_Version64 V t' = n \<and> saved (vt_db V t') = (saved (vt_db V t))(n \<mapsto> contents t)"
    and save_works: "saved (vt_db V t) (vt_Version64 V t + 1) = None \<Longrightarrow> \<exists>h n t'. vt_SaveVersion V t = Some (h, n, t')"
    and delete: "vt_DeleteVersion V t n = Some t' \<Longrightarrow> contents t' = contents t \<and> (good t \<longrightarrow> good t')
      \<and> vt_Version64 V t' = vt_Version64 V t \<and> saved (vt_db V t') = (saved (vt_db V t))(n := None)"
    and delete_works: "saved (vt_db V t) n \<noteq> None \<Longrightarrow> n \<noteq> vt_Version64 V t \<Longrightarrow> \<exists>t'. vt_DeleteVersion V t n = Some t'"
    and load: "saved d n = Some c \<Longrightarrow> n > 0 \<Longrightarrow>
      \<exists>t. vt_LoadVersion V d n = Some t \<and> contents t = c \<and> good t \<and> vt_Version64 V t = n \<and> vt_db V t = d"
    and load_empty: "saved d = (\<lambda>_. None) \<Longrightarrow>
      \<exists>t. vt_LoadVersion V d 0 = Some t \<and> contents t = [] \<and> good t \<and> vt_Version64 V t = 0 \<and> vt_db V t = d"
    and writes: "snd (run_op (vt_ops V) x t) = t' \<Longrightarrow> vt_db V t' = vt_db V t \<and> vt_Version64 V t' = vt_Version64 V t"

section \<open>Which versions a store keeps\<close>

definition kept :: "int \<Rightarrow> int \<Rightarrow> bool" where
  "kept n v \<longleftrightarrow> 0 < v \<and> v \<le> n \<and> (n - defaultIAVLNumRecent \<le> v \<or> v mod defaultIAVLStoreEvery = 0)"

definition iavl_ok :: "('t, 'd) vtree \<Rightarrow> ('t \<Rightarrow> bool) \<Rightarrow> ('d \<Rightarrow> int \<Rightarrow> kvmap option) \<Rightarrow> int \<Rightarrow> 't iavlStore \<Rightarrow> bool" where
  "iavl_ok V good saved n st \<longleftrightarrow> good (st_tree st) \<and> vt_Version64 V (st_tree st) = n
     \<and> st_numRecent st = defaultIAVLNumRecent \<and> st_storeEvery st = defaultIAVLStoreEvery
     \<and> (\<forall>v. saved (vt_db V (st_tree st)) v \<noteq> None \<longleftrightarrow> kept n v)"

lemma kept_step:
  assumes "0 \<le> n"
  shows "kept (n + 1) v \<longleftrightarrow> v = n + 1 \<or> kept n v \<and> \<not> (v = n - defaultIAVLNumRecent \<and> v mod defaultIAVLStoreEvery \<noteq> 0)"
  using assms by (cases "v = n - defaultIAVLNumRecent") (auto simp: kept_def defaultIAVLNumRecent_def)

lemma rem_pos: "0 \<le> a \<Longrightarrow> 0 < b \<Longrightarrow> rem a b = a mod b"
  by (cases "a = 0") (simp_all add: rem_def quo_def minus_mult_div_eq_mod)

context versioned_tree
begin

lemma iavl_Commit_ok:
  assumes "iavl_ok V good saved n st" and "0 \<le> n" and "in_int64 (n + 1)"
  shows "\<exists>h st'. iavl_Commit V st = Val (\<lparr>cid_Version = n + 1, cid_Hash = h\<rparr>, st') \<and> iavl_ok V good saved (n + 1) st'
    \<and> st_place st' = st_place st \<and> contents (st_tree st') = contents (st_tree st)
    \<and> saved (vt_db V (st_tree st')) (n + 1) = Some (contents (st_tree st))"
proof -
  let ?t = "st_tree st" and ?m = "n - defaultIAVLNumRecent"
  have v: "vt_Version64 V ?t = n" and kept: "\<And>v. saved (vt_db V ?t) v \<noteq> None \<longleftrightarrow> kept n v" and g: "good ?t"
    and st: "st_numRecent st = defaultIAVLNumRecent" "st_storeEvery st = defaultIAVLStoreEvery"
    using assms(1) by (simp_all add: iavl_ok_def)
  have "saved (vt_db V ?t) (vt_Version64 V ?t + 1) = None" using kept [of "n + 1"] v by (simp add: kept_def)
  then obtain h n' t1 where s: "vt_SaveVersion V ?t = Some (h, n', t1)" using save_works by blast
  note t1 = save [OF s, unfolded v]
  have kept1: "saved (vt_db V t1) v \<noteq> None \<longleftrightarrow> kept n v \<or> v = n + 1" for v using t1 kept [of v] by auto
  have num: "wrap64 (n' - 1) = n" "wrap64 (n - defaultIAVLNumRecent) = ?m"
    using t1 assms(2,3) by (simp_all add: in_int64_def defaultIAVLNumRecent_def)
  let ?del = "defaultIAVLNumRecent < n \<and> rem ?m defaultIAVLStoreEvery \<noteq> 0"
  have every: "defaultIAVLStoreEvery \<noteq> 0" by (simp add: defaultIAVLStoreEvery_def)
  show ?thesis
  proof (cases ?del)
    case True
    then have m: "0 < ?m" "?m mod defaultIAVLStoreEvery \<noteq> 0" using rem_pos [of ?m defaultIAVLStoreEvery] by (simp_all add: defaultIAVLStoreEvery_def)
    then have "saved (vt_db V t1) ?m \<noteq> None" using kept1 [of ?m] by (simp add: kept_def defaultIAVLNumRecent_def)
    moreover have "?m \<noteq> vt_Version64 V t1" using t1 by (simp add: defaultIAVLNumRecent_def)
    ultimately obtain t2 where d: "vt_DeleteVersion V t1 ?m = Some t2" using delete_works by blast
    have c: "iavl_Commit V st = Val (\<lparr>cid_Version = n + 1, cid_Hash = h\<rparr>, st\<lparr>st_tree := t2\<rparr>)"
      using s st num True d t1 by (simp add: iavl_Commit_def Let_def)
    have "kept (n + 1) v \<longleftrightarrow> saved (vt_db V t2) v \<noteq> None" for v
      using kept1 [of v] delete [OF d] kept_step [OF assms(2), of v] m by (auto simp: defaultIAVLNumRecent_def)
    then show ?thesis using c delete [OF d] t1 g st by (auto simp: iavl_ok_def defaultIAVLNumRecent_def)
  next
    case False
    have c: "iavl_Commit V st = Val (\<lparr>cid_Version = n + 1, cid_Hash = h\<rparr>, st\<lparr>st_tree := t1\<rparr>)"
      using s st num False every t1 by (auto simp: iavl_Commit_def Let_def)
    have "\<not> (v = ?m \<and> v mod defaultIAVLStoreEvery \<noteq> 0 \<and> kept n v)" for v
      using False rem_pos [of ?m defaultIAVLStoreEvery] by (auto simp: kept_def defaultIAVLStoreEvery_def)
    then have "kept (n + 1) v \<longleftrightarrow> saved (vt_db V t1) v \<noteq> None" for v
      using kept1 [of v] kept_step [OF assms(2), of v] by blast
    then show ?thesis using c t1 g st by (auto simp: iavl_ok_def)
  qed
qed

end

section \<open>Committing all stores\<close>

definition committed :: "('t, 'd) vtree \<Rightarrow> 't iavlStore \<Rightarrow> 't iavlStore" where
  "committed V st = (case iavl_Commit V st of Val (_, st') \<Rightarrow> st' | Panic _ \<Rightarrow> st)"

definition commit_id :: "('t, 'd) vtree \<Rightarrow> 't iavlStore \<Rightarrow> CommitID" where
  "commit_id V st = (case iavl_Commit V st of Val (cid, _) \<Rightarrow> cid | Panic _ \<Rightarrow> zeroCommitID)"

definition commit_info :: "('t, 'd) vtree \<Rightarrow> (StoreKey \<times> 't iavlStore) list \<Rightarrow> StoreKey \<Rightarrow> storeInfo" where
  "commit_info V stores key = \<lparr>si_Name = key_Name key, si_CommitID = commit_id V (the (map_of stores key))\<rparr>"

lemma committed_place [simp]: "st_place (committed V st) = st_place st"
  by (auto simp: committed_def iavl_Commit_def Let_def split: outcome.splits option.splits if_splits)

text \<open>The loop commits the stores it is given, each with its own part of the database.\<close>

lemma commit_loop_run:
  assumes "distinct ks" and "\<forall>k \<in> set ks. \<exists>st. map_of (rs_stores rs) k = Some st \<and> is_val (iavl_Commit V st)"
    and "inj_on (\<lambda>k. st_place (the (map_of (rs_stores rs) k))) (set ks)"
  shows "\<exists>S D. commit_loop V ks acc rs = (Val (acc @ map (commit_info V (rs_stores rs)) ks), rs\<lparr>rs_stores := S, rs_dbs := D\<rparr>)
    \<and> map fst S = map fst (rs_stores rs)
    \<and> map_of S = (\<lambda>k. if k \<in> set ks then map_option (committed V) (map_of (rs_stores rs) k) else map_of (rs_stores rs) k)
    \<and> (\<forall>k \<in> set ks. D (st_place (the (map_of (rs_stores rs) k))) = vt_db V (st_tree (committed V (the (map_of (rs_stores rs) k)))))
    \<and> (\<forall>p. p \<notin> (\<lambda>k. st_place (the (map_of (rs_stores rs) k))) ` set ks \<longrightarrow> D p = rs_dbs rs p)"
  using assms
proof (induction ks arbitrary: acc rs)
  case Nil
  show ?case by (intro exI [of _ "rs_stores rs"] exI [of _ "rs_dbs rs"]) simp
next
  case (Cons k ks)
  obtain st where st: "map_of (rs_stores rs) k = Some st" "is_val (iavl_Commit V st)" using Cons.prems(2) by auto
  then obtain cid st' where c: "iavl_Commit V st = Val (cid, st')" by (auto simp: is_val_def)
  then have st': "committed V st = st'" "commit_id V st = cid" by (simp_all add: committed_def commit_id_def)
  let ?rs = "rs\<lparr>rs_stores := AList.update k st' (rs_stores rs), rs_dbs := (rs_dbs rs)(st_place st' := vt_db V (st_tree st'))\<rparr>"
  have same: "map_of (rs_stores ?rs) j = map_of (rs_stores rs) j" if "j \<in> set ks" for j
    using that Cons.prems(1) by (auto simp: update_conv')
  have info: "map (commit_info V (rs_stores ?rs)) ks = map (commit_info V (rs_stores rs)) ks" using same by (simp add: commit_info_def)
  have "\<exists>S D. commit_loop V ks (acc @ [commit_info V (rs_stores rs) k]) ?rs =
        (Val ((acc @ [commit_info V (rs_stores rs) k]) @ map (commit_info V (rs_stores ?rs)) ks), ?rs\<lparr>rs_stores := S, rs_dbs := D\<rparr>)
    \<and> map fst S = map fst (rs_stores ?rs)
    \<and> map_of S = (\<lambda>k. if k \<in> set ks then map_option (committed V) (map_of (rs_stores ?rs) k) else map_of (rs_stores ?rs) k)
    \<and> (\<forall>k \<in> set ks. D (st_place (the (map_of (rs_stores ?rs) k))) = vt_db V (st_tree (committed V (the (map_of (rs_stores ?rs) k)))))
    \<and> (\<forall>p. p \<notin> (\<lambda>k. st_place (the (map_of (rs_stores ?rs) k))) ` set ks \<longrightarrow> D p = rs_dbs ?rs p)"
    using Cons.prems same by (intro Cons.IH) (auto simp: inj_on_def)
  then obtain S D where run: "commit_loop V ks (acc @ [commit_info V (rs_stores rs) k]) ?rs =
        (Val ((acc @ [commit_info V (rs_stores rs) k]) @ map (commit_info V (rs_stores rs)) ks), ?rs\<lparr>rs_stores := S, rs_dbs := D\<rparr>)"
      and keys: "map fst S = map fst (rs_stores ?rs)"
      and S: "map_of S = (\<lambda>j. if j \<in> set ks then map_option (committed V) (map_of (rs_stores ?rs) j) else map_of (rs_stores ?rs) j)"
      and D: "\<forall>j \<in> set ks. D (st_place (the (map_of (rs_stores ?rs) j))) = vt_db V (st_tree (committed V (the (map_of (rs_stores ?rs) j))))"
        "\<forall>p. p \<notin> (\<lambda>j. st_place (the (map_of (rs_stores ?rs) j))) ` set ks \<longrightarrow> D p = rs_dbs ?rs p"
    unfolding info by blast
  have place: "st_place st' = st_place st" using st' committed_place [of V st] by simp
  have other: "st_place st \<notin> (\<lambda>j. st_place (the (map_of (rs_stores ?rs) j))) ` set ks"
  proof
    assume "st_place st \<in> (\<lambda>j. st_place (the (map_of (rs_stores ?rs) j))) ` set ks"
    then obtain j where j: "j \<in> set ks" "st_place (the (map_of (rs_stores rs) k)) = st_place (the (map_of (rs_stores rs) j))"
      using same st(1) by auto
    then have "k = j" using inj_onD [OF Cons.prems(3) j(2)] by simp
    then show False using j(1) Cons.prems(1) by simp
  qed
  have "k \<in> fst ` set (rs_stores rs)" using st(1) by (force dest: map_of_SomeD)
  then have keys': "map fst S = map fst (rs_stores rs)" using keys by (simp add: update_keys)
  have S': "map_of S = (\<lambda>j. if j \<in> set (k # ks) then map_option (committed V) (map_of (rs_stores rs) j) else map_of (rs_stores rs) j)"
    using S st st' Cons.prems(1) by (auto simp: fun_eq_iff update_conv')
  have D': "\<forall>j \<in> set (k # ks). D (st_place (the (map_of (rs_stores rs) j))) = vt_db V (st_tree (committed V (the (map_of (rs_stores rs) j))))"
    using D other st st' same place by auto
  have frame: "\<forall>p. p \<notin> (\<lambda>j. st_place (the (map_of (rs_stores rs) j))) ` set (k # ks) \<longrightarrow> D p = rs_dbs rs p"
    using D(2) st(1) same place by (auto simp: image_def)
  have "commit_loop V (k # ks) acc rs = (Val (acc @ map (commit_info V (rs_stores rs)) (k # ks)), rs\<lparr>rs_stores := S, rs_dbs := D\<rparr>)"
    using run st c st' by (simp add: commit_info_def)
  then show ?case using keys' S' D' frame by blast
qed

section \<open>The state of the root store\<close>

text \<open>
  Every mounted key has a store over its own part of the database; no two keys share a name or a
  part; and all stores are at the version of the last commit, with the versions on disk that they
  should keep.
\<close>

definition mounts_ok :: "('t, 'd) rootMultiStore \<Rightarrow> bool" where
  "mounts_ok rs \<longleftrightarrow> distinct (map fst (rs_storesParams rs)) \<and> distinct (map (\<lambda>(k, p). key_Name k) (rs_storesParams rs))
     \<and> distinct (map (\<lambda>(k, p). params_place p) (rs_storesParams rs))
     \<and> (\<forall>(k, p) \<in> set (rs_storesParams rs). sp_key p = k \<and> sp_typ p = StoreTypeIAVL)"

definition multi_ok :: "('t, 'd) vtree \<Rightarrow> ('t \<Rightarrow> bool) \<Rightarrow> ('d \<Rightarrow> int \<Rightarrow> kvmap option) \<Rightarrow> ('t, 'd) rootMultiStore \<Rightarrow> bool" where
  "multi_ok V good saved rs \<longleftrightarrow> mounts_ok rs \<and> 0 \<le> cid_Version (rs_lastCommitID rs)
     \<and> distinct (map fst (rs_stores rs)) \<and> fst ` set (rs_stores rs) = fst ` set (rs_storesParams rs)
     \<and> (\<forall>k st. map_of (rs_stores rs) k = Some st \<longrightarrow>
          map_option params_place (map_of (rs_storesParams rs) k) = Some (st_place st)
          \<and> vt_db V (st_tree st) = rs_dbs rs (st_place st) \<and> iavl_ok V good saved (cid_Version (rs_lastCommitID rs)) st)"

lemma multi_ok_kept:
  assumes "multi_ok V good saved rs" and "GetCommitStore rs k = Some st"
  shows "saved (vt_db V (st_tree st)) v \<noteq> None \<longleftrightarrow>
    0 < v \<and> v \<le> cid_Version (rs_lastCommitID rs) \<and> (cid_Version (rs_lastCommitID rs) - 100 \<le> v \<or> v mod 10000 = 0)"
proof -
  have "iavl_ok V good saved (cid_Version (rs_lastCommitID rs)) st" using assms by (simp add: multi_ok_def GetCommitStore_def)
  then have "saved (vt_db V (st_tree st)) v \<noteq> None \<longleftrightarrow> kept (cid_Version (rs_lastCommitID rs)) v" by (simp add: iavl_ok_def)
  then show ?thesis by (simp only: kept_def defaultIAVLNumRecent_def defaultIAVLStoreEvery_def)
qed

text \<open>A process that starts again with the same database and mounts the same keys.\<close>

definition reopened :: "('t, 'd) rootMultiStore \<Rightarrow> ('t, 'd) rootMultiStore" where
  "reopened rs = snd (iterM (rs_storesParams rs) (\<lambda>(k, p). MountStoreWithDB (Some k) (sp_typ p) (sp_db p))
     (NewCommitMultiStore (rs_db rs) (rs_dbs rs)))"

lemma mount_all:
  assumes "distinct (map fst (rs_storesParams rs @ ps))" and "\<forall>(k, p) \<in> set ps. sp_key p = k"
  shows "\<exists>names. iterM ps (\<lambda>(k, p). MountStoreWithDB (Some k) (sp_typ p) (sp_db p)) rs =
    (Val (), rs\<lparr>rs_storesParams := rs_storesParams rs @ ps, rs_keysByName := names\<rparr>)"
  using assms
proof (induction ps arbitrary: rs)
  case Nil
  show ?case by (intro exI [of _ "rs_keysByName rs"]) (simp add: ret_def)
next
  case (Cons x ps)
  obtain k p where x: "x = (k, p)" by fastforce
  have p: "\<lparr>sp_key = k, sp_db = sp_db p, sp_typ = sp_typ p\<rparr> = p" using Cons.prems(2) x by (cases p) simp
  let ?rs = "rs\<lparr>rs_storesParams := rs_storesParams rs @ [(k, p)], rs_keysByName := AList.update (key_Name k) k (rs_keysByName rs)\<rparr>"
  have "map_of (rs_storesParams rs) k = None" using Cons.prems(1) x by (force simp: map_of_eq_None_iff)
  then have "MountStoreWithDB (Some k) (sp_typ p) (sp_db p) rs = (Val (), ?rs)" using p by (simp add: MountStoreWithDB_def)
  moreover obtain names where "iterM ps (\<lambda>(k, p). MountStoreWithDB (Some k) (sp_typ p) (sp_db p)) ?rs =
      (Val (), ?rs\<lparr>rs_storesParams := rs_storesParams ?rs @ ps, rs_keysByName := names\<rparr>)"
    using Cons.IH [of ?rs] Cons.prems x by auto
  ultimately show ?case by (intro exI [of _ names]) (simp add: x bnd_run)
qed

lemma reopened_eq:
  assumes "mounts_ok rs"
  shows "\<exists>names. reopened rs = \<lparr>rs_db = rs_db rs, rs_dbs = rs_dbs rs, rs_lastCommitID = zeroCommitID,
    rs_storesParams = rs_storesParams rs, rs_stores = [], rs_keysByName = names\<rparr>"
proof -
  let ?new = "NewCommitMultiStore (rs_db rs) (rs_dbs rs) :: ('a, 'b) rootMultiStore"
  have "\<exists>names. iterM (rs_storesParams rs) (\<lambda>(k, p). MountStoreWithDB (Some k) (sp_typ p) (sp_db p)) ?new =
      (Val (), ?new\<lparr>rs_storesParams := rs_storesParams ?new @ rs_storesParams rs, rs_keysByName := names\<rparr>)"
    using assms by (intro mount_all) (auto simp: mounts_ok_def NewCommitMultiStore_def)
  then show ?thesis by (auto simp: reopened_def NewCommitMultiStore_def)
qed

text \<open>The codec restores what it has encoded, and a Go map is run over in some order.\<close>

locale multi_store = versioned_tree V good contents saved
  for V :: "('t, 'd) vtree" and good contents saved +
  fixes E :: ms_env
  assumes dec_info: "ms_decInfo E (ms_encInfo E ci) = Some ci"
    and dec_int: "ms_decInt E (ms_encInt E i) = Some i"
    and order: "set (ms_mapOrder E ks) = set ks" "distinct ks \<Longrightarrow> distinct (ms_mapOrder E ks)"

lemma commitInfoKey_latest: "commitInfoKey n \<noteq> latestVersionKey"
proof
  assume "commitInfoKey n = latestVersionKey"
  then have eq: "show_int n = ''latest''" by (simp add: commitInfoKey_def latestVersionKey_def)
  show False
  proof (cases "n < 0")
    case True
    then show False using eq by (simp add: show_int_def)
  next
    case False
    then have "show_nat (nat n) = ''latest''" using eq by (simp add: show_int_def)
    then have "is_digit CHR ''l''" using show_nat_digits [of "CHR ''l''" "nat n"] by simp
    then show False by (simp add: is_digit_def)
  qed
qed

lemma nameToKey_mounted:
  assumes "distinct (map (\<lambda>(k, p). key_Name k) (rs_storesParams rs))" and "k \<in> fst ` set (rs_storesParams rs)"
    and "set (ms_mapOrder E (map fst (rs_storesParams rs))) = set (map fst (rs_storesParams rs))"
  shows "nameToKey E rs (key_Name k) = Val k"
proof -
  have inj: "j = k" if j: "j \<in> fst ` set (rs_storesParams rs)" "key_Name j = key_Name k" for j
  proof -
    obtain p q where "(j, p) \<in> set (rs_storesParams rs)" "(k, q) \<in> set (rs_storesParams rs)" using j(1) assms(2) by force
    then have "(j, p) = (k, q)"
      using assms(1) j(2) inj_onD [of "\<lambda>(k, p). key_Name k" "set (rs_storesParams rs)" "(j, p)" "(k, q)"] by (simp add: distinct_map)
    then show ?thesis by simp
  qed
  let ?hits = "filter (\<lambda>j. key_Name j = key_Name k) (ms_mapOrder E (map fst (rs_storesParams rs)))"
  have "k \<in> set ?hits" "\<forall>j \<in> set ?hits. j = k" using assms(2,3) inj by auto
  then show ?thesis by (cases ?hits) (simp_all add: nameToKey_def)
qed

text \<open>
  The latest version is loaded when the disk has it: the commit info names all mounted stores,
  and every part has that version and keeps the versions it should.
\<close>

definition on_disk :: "ms_env \<Rightarrow> ('d \<Rightarrow> int \<Rightarrow> kvmap option) \<Rightarrow> ('t, 'd) rootMultiStore \<Rightarrow> commitInfo \<Rightarrow> StoreKey list \<Rightarrow> (StoreKey \<Rightarrow> kvmap) \<Rightarrow> bool" where
  "on_disk E saved rs info ks c \<longleftrightarrow> getLatestVersion E (rs_db rs) = Val (ci_Version info) \<and> getCommitInfo E (rs_db rs) (ci_Version info) = Some info
     \<and> 0 < ci_Version info \<and> set ks = fst ` set (rs_storesParams rs)
     \<and> (\<exists>f. ci_StoreInfos info = map f ks \<and> (\<forall>k \<in> set ks. si_Name (f k) = key_Name k \<and> cid_Version (si_CommitID (f k)) = ci_Version info))
     \<and> (\<forall>k p. map_of (rs_storesParams rs) k = Some p \<longrightarrow> saved (rs_dbs rs (params_place p)) (ci_Version info) = Some (c k)
          \<and> (\<forall>v. saved (rs_dbs rs (params_place p)) v \<noteq> None \<longleftrightarrow> kept (ci_Version info) v))"

definition loaded :: "('t, 'd) vtree \<Rightarrow> ('t, 'd) rootMultiStore \<Rightarrow> int \<Rightarrow> StoreKey \<Rightarrow> 't" where
  "loaded V rs n k = the (vt_LoadVersion V (rs_dbs rs (params_place (the (map_of (rs_storesParams rs) k)))) n)"

context multi_store
begin

lemma load_infos_run:
  assumes "mounts_ok rs" and "\<forall>k \<in> set ks. \<exists>p. map_of (rs_storesParams rs) k = Some p
      \<and> vt_LoadVersion V (rs_dbs rs (params_place p)) n = Some (tree k)"
    and "\<forall>k \<in> set ks. si_Name (info k) = key_Name k \<and> cid_Version (si_CommitID (info k)) = n"
  shows "\<exists>S. load_infos E V rs (map info ks) acc = Val (Some S) \<and> (distinct (map fst acc) \<longrightarrow> distinct (map fst S))
    \<and> map_of S = (\<lambda>k. if k \<in> set ks then Some (newIAVLStore (tree k) (params_place (the (map_of (rs_storesParams rs) k)))
        defaultIAVLNumRecent defaultIAVLStoreEvery) else map_of acc k)"
  using assms(2,3)
proof (induction ks arbitrary: acc)
  case (Cons k ks)
  obtain p where p: "map_of (rs_storesParams rs) k = Some p" "vt_LoadVersion V (rs_dbs rs (params_place p)) n = Some (tree k)"
    using Cons.prems by auto
  then have "(k, p) \<in> set (rs_storesParams rs)" by (simp add: map_of_SomeD)
  then have k: "k \<in> fst ` set (rs_storesParams rs)" "sp_typ p = StoreTypeIAVL" using assms(1) by (force simp: mounts_ok_def)+
  have name: "nameToKey E rs (key_Name k) = Val k"
    using assms(1) k(1) order by (intro nameToKey_mounted) (simp_all add: mounts_ok_def)
  let ?st = "newIAVLStore (tree k) (params_place p) defaultIAVLNumRecent defaultIAVLStoreEvery"
  obtain S where S: "load_infos E V rs (map info ks) (AList.update k ?st acc) = Val (Some S)"
      "distinct (map fst (AList.update k ?st acc)) \<longrightarrow> distinct (map fst S)"
      "map_of S = (\<lambda>j. if j \<in> set ks then Some (newIAVLStore (tree j) (params_place (the (map_of (rs_storesParams rs) j)))
        defaultIAVLNumRecent defaultIAVLStoreEvery) else map_of (AList.update k ?st acc) j)"
    using Cons.IH [of "AList.update k ?st acc"] Cons.prems by auto
  have "load_infos E V rs (map info (k # ks)) acc = Val (Some S)"
    using S(1) name p k(2) Cons.prems(2) by (simp add: loadCommitStoreFromParams_def LoadIAVLStore_def)
  moreover have "distinct (map fst acc) \<longrightarrow> distinct (map fst S)" using S(2) by (simp add: distinct_update)
  ultimately show ?case using S(3) p(1) by (intro exI [of _ S]) (auto simp: fun_eq_iff update_conv')
qed simp

text \<open>A commit succeeds, and the version that it writes can be loaded.\<close>

lemma commit_ok:
  assumes ok: "multi_ok V good saved rs" and bound: "in_int64 (cid_Version (rs_lastCommitID rs) + 1)"
  shows "\<exists>cid S D. rms_Commit E V rs = (Val cid,
      rs\<lparr>rs_stores := S, rs_dbs := D, rs_lastCommitID := cid,
         rs_db := setLatestVersion E (cid_Version cid) (setCommitInfo E (cid_Version cid)
           \<lparr>ci_Version = cid_Version cid, ci_StoreInfos = map (commit_info V (rs_stores rs)) (ms_mapOrder E (map fst (rs_stores rs)))\<rparr> (rs_db rs))\<rparr>)
    \<and> cid = commitInfo_CommitID E \<lparr>ci_Version = cid_Version (rs_lastCommitID rs) + 1,
        ci_StoreInfos = map (commit_info V (rs_stores rs)) (ms_mapOrder E (map fst (rs_stores rs)))\<rparr>
    \<and> map fst S = map fst (rs_stores rs) \<and> map_of S = (\<lambda>k. map_option (committed V) (map_of (rs_stores rs) k))
    \<and> (\<forall>k st. map_of (rs_stores rs) k = Some st \<longrightarrow> D (st_place st) = vt_db V (st_tree (committed V st)))"
proof -
  let ?n = "cid_Version (rs_lastCommitID rs)" and ?ks = "ms_mapOrder E (map fst (rs_stores rs))"
  have ks: "distinct ?ks" "set ?ks = fst ` set (rs_stores rs)" using ok order by (auto simp: multi_ok_def)
  have each: "map_option params_place (map_of (rs_storesParams rs) k) = Some (st_place st)" "iavl_ok V good saved ?n st"
    if "map_of (rs_stores rs) k = Some st" for k st using ok that by (auto simp: multi_ok_def)
  have val: "\<forall>k \<in> set ?ks. \<exists>st. map_of (rs_stores rs) k = Some st \<and> is_val (iavl_Commit V st)"
  proof
    fix k assume "k \<in> set ?ks"
    then obtain st where st: "map_of (rs_stores rs) k = Some st" using ks(2) by (cases "map_of (rs_stores rs) k") (auto simp: map_of_eq_None_iff)
    then show "\<exists>st. map_of (rs_stores rs) k = Some st \<and> is_val (iavl_Commit V st)"
      using iavl_Commit_ok [OF each(2) [OF st] _ bound] ok by (auto simp: multi_ok_def is_val_def)
  qed
  have inj: "inj_on (\<lambda>k. st_place (the (map_of (rs_stores rs) k))) (set ?ks)"
  proof (rule inj_onI)
    fix j k assume "j \<in> set ?ks" "k \<in> set ?ks" and eq: "st_place (the (map_of (rs_stores rs) j)) = st_place (the (map_of (rs_stores rs) k))"
    then obtain st st' where st: "map_of (rs_stores rs) j = Some st" "map_of (rs_stores rs) k = Some st'" using val by blast
    then obtain p q where "map_of (rs_storesParams rs) j = Some p" "map_of (rs_storesParams rs) k = Some q" "params_place p = params_place q"
      using each(1) [OF st(1)] each(1) [OF st(2)] eq by auto
    then have "(j, p) \<in> set (rs_storesParams rs)" "(k, q) \<in> set (rs_storesParams rs)" "params_place p = params_place q"
      by (simp_all add: map_of_SomeD)
    moreover have "inj_on (\<lambda>(k, p). params_place p) (set (rs_storesParams rs))" using ok by (simp add: multi_ok_def mounts_ok_def distinct_map)
    ultimately have "(j, p) = (k, q)"
      using inj_onD [of "\<lambda>(k, p). params_place p" "set (rs_storesParams rs)" "(j, p)" "(k, q)"] by simp
    then show "j = k" by simp
  qed
  obtain S D where run: "commit_loop V ?ks [] rs = (Val (map (commit_info V (rs_stores rs)) ?ks), rs\<lparr>rs_stores := S, rs_dbs := D\<rparr>)"
      and keys: "map fst S = map fst (rs_stores rs)"
      and S: "map_of S = (\<lambda>k. if k \<in> set ?ks then map_option (committed V) (map_of (rs_stores rs) k) else map_of (rs_stores rs) k)"
      and D: "\<forall>k \<in> set ?ks. D (st_place (the (map_of (rs_stores rs) k))) = vt_db V (st_tree (committed V (the (map_of (rs_stores rs) k))))"
    using commit_loop_run [OF ks(1) val inj, of "[]"] by auto
  have S': "map_of S = (\<lambda>k. map_option (committed V) (map_of (rs_stores rs) k))"
  proof
    fix k
    have "map_of (rs_stores rs) k = None" if "k \<notin> set ?ks" using that ks(2) by (simp add: map_of_eq_None_iff)
    then show "map_of S k = map_option (committed V) (map_of (rs_stores rs) k)" using fun_cong [OF S, of k] by (cases "k \<in> set ?ks") simp_all
  qed
  have D': "\<forall>k st. map_of (rs_stores rs) k = Some st \<longrightarrow> D (st_place st) = vt_db V (st_tree (committed V st))"
  proof (intro allI impI)
    fix k st assume st: "map_of (rs_stores rs) k = Some st"
    have "k \<in> set ?ks" unfolding ks(2) using map_of_SomeD [OF st] by (rule rev_image_eqI) simp
    with D st show "D (st_place st) = vt_db V (st_tree (committed V st))" by auto
  qed
  let ?info = "\<lparr>ci_Version = ?n + 1, ci_StoreInfos = map (commit_info V (rs_stores rs)) ?ks\<rparr>"
  show ?thesis
    using run keys S' D' bound
    by (intro exI [of _ "commitInfo_CommitID E ?info"] exI [of _ S] exI [of _ D])
      (simp add: rms_Commit_def commitStores_def bnd_run ret_def Let_def commitInfo_CommitID_def)
qed

text \<open>What a commit leaves on disk, and what every store is afterwards.\<close>

lemma commit_keeps:
  assumes ok: "multi_ok V good saved rs" and bound: "in_int64 (cid_Version (rs_lastCommitID rs) + 1)"
    and st: "map_of (rs_stores rs) k = Some st" and D: "d = vt_db V (st_tree (committed V st))"
  shows "map_option params_place (map_of (rs_storesParams rs) k) = Some (st_place st)"
    and "iavl_ok V good saved (cid_Version (rs_lastCommitID rs) + 1) (committed V st)"
    and "contents (st_tree (committed V st)) = contents (st_tree st)"
    and "saved d (cid_Version (rs_lastCommitID rs) + 1) = Some (contents (st_tree st))"
    and "cid_Version (commit_id V st) = cid_Version (rs_lastCommitID rs) + 1"
proof -
  have "iavl_ok V good saved (cid_Version (rs_lastCommitID rs)) st" "0 \<le> cid_Version (rs_lastCommitID rs)"
    using ok st by (auto simp: multi_ok_def)
  from iavl_Commit_ok [OF this bound] D
  show "iavl_ok V good saved (cid_Version (rs_lastCommitID rs) + 1) (committed V st)"
    "contents (st_tree (committed V st)) = contents (st_tree st)"
    "saved d (cid_Version (rs_lastCommitID rs) + 1) = Some (contents (st_tree st))"
    "cid_Version (commit_id V st) = cid_Version (rs_lastCommitID rs) + 1"
    by (auto simp: committed_def commit_id_def)
  show "map_option params_place (map_of (rs_storesParams rs) k) = Some (st_place st)" using ok st by (auto simp: multi_ok_def)
qed

lemma commit_multi_ok:
  assumes ok: "multi_ok V good saved rs" and bound: "in_int64 (cid_Version (rs_lastCommitID rs) + 1)"
    and keys: "map fst S = map fst (rs_stores rs)" and S: "map_of S = (\<lambda>k. map_option (committed V) (map_of (rs_stores rs) k))"
    and D: "\<forall>k st. map_of (rs_stores rs) k = Some st \<longrightarrow> D (st_place st) = vt_db V (st_tree (committed V st))"
    and cid: "cid_Version cid = cid_Version (rs_lastCommitID rs) + 1"
  shows "multi_ok V good saved (rs\<lparr>rs_stores := S, rs_dbs := D, rs_lastCommitID := cid, rs_db := db\<rparr>)" (is "multi_ok V good saved ?rs")
  unfolding multi_ok_def
proof (intro conjI allI impI)
  show "mounts_ok ?rs" using ok by (simp add: multi_ok_def mounts_ok_def)
  have "fst ` set S = fst ` set (rs_stores rs)" using arg_cong [OF keys, of set] by simp
  then show "fst ` set (rs_stores ?rs) = fst ` set (rs_storesParams ?rs)" using ok by (simp add: multi_ok_def)
  fix k st assume "map_of (rs_stores ?rs) k = Some st"
  then obtain st0 where st: "map_of (rs_stores rs) k = Some st0" "st = committed V st0" using S by auto
  note each = commit_keeps [OF ok bound st(1) refl]
  show "map_option params_place (map_of (rs_storesParams ?rs) k) = Some (st_place st)" using each(1) st(2) by simp
  show "vt_db V (st_tree st) = rs_dbs ?rs (st_place st)" using D st by simp
  show "iavl_ok V good saved (cid_Version (rs_lastCommitID ?rs)) st" using each(2) st(2) cid by simp
qed (use ok keys cid in \<open>simp_all add: multi_ok_def\<close>)

lemma loaded_facts:
  assumes "on_disk E saved rs info ks c" and "map_of (rs_storesParams rs) k = Some p"
  shows "vt_LoadVersion V (rs_dbs rs (params_place p)) (ci_Version info) = Some (loaded V rs (ci_Version info) k)"
    and "contents (loaded V rs (ci_Version info) k) = c k" and "vt_db V (loaded V rs (ci_Version info) k) = rs_dbs rs (params_place p)"
    and "iavl_ok V good saved (ci_Version info) (newIAVLStore (loaded V rs (ci_Version info) k) pl defaultIAVLNumRecent defaultIAVLStoreEvery)"
proof -
  have "saved (rs_dbs rs (params_place p)) (ci_Version info) = Some (c k)" "0 < ci_Version info"
    and kept: "\<forall>v. saved (rs_dbs rs (params_place p)) v \<noteq> None \<longleftrightarrow> kept (ci_Version info) v"
    using assms by (auto simp: on_disk_def)
  from load [OF this(1,2)] obtain t where t: "vt_LoadVersion V (rs_dbs rs (params_place p)) (ci_Version info) = Some t" "contents t = c k" "good t"
    "vt_Version64 V t = ci_Version info" "vt_db V t = rs_dbs rs (params_place p)" by blast
  have "loaded V rs (ci_Version info) k = t" using t(1) assms(2) by (simp add: loaded_def)
  then show "vt_LoadVersion V (rs_dbs rs (params_place p)) (ci_Version info) = Some (loaded V rs (ci_Version info) k)"
    "contents (loaded V rs (ci_Version info) k) = c k" "vt_db V (loaded V rs (ci_Version info) k) = rs_dbs rs (params_place p)"
    "iavl_ok V good saved (ci_Version info) (newIAVLStore (loaded V rs (ci_Version info) k) pl defaultIAVLNumRecent defaultIAVLStoreEvery)"
    using t kept by (simp_all add: iavl_ok_def newIAVLStore_def)
qed

lemma load_latest:
  assumes mounts: "mounts_ok rs" and disk: "on_disk E saved rs info ks c"
  shows "\<exists>rs'. LoadLatestVersion E V rs = (Val None, rs') \<and> multi_ok V good saved rs' \<and> rs_lastCommitID rs' = commitInfo_CommitID E info
    \<and> (\<forall>k. map_option (contents \<circ> st_tree) (GetCommitStore rs' k) = map_option (\<lambda>_. c k) (map_of (rs_storesParams rs) k))"
proof -
  let ?n = "ci_Version info"
  have dom: "set ks = fst ` set (rs_storesParams rs)" and pos: "0 < ?n" using disk by (simp_all add: on_disk_def)
  have mounted: "\<exists>p. map_of (rs_storesParams rs) k = Some p" if "k \<in> set ks" for k
    using that dom map_of_eq_None_iff [of "rs_storesParams rs" k] by auto
  obtain f where f: "ci_StoreInfos info = map f ks" "\<forall>k \<in> set ks. si_Name (f k) = key_Name k \<and> cid_Version (si_CommitID (f k)) = ?n"
    using disk unfolding on_disk_def by blast
  have "\<forall>k \<in> set ks. \<exists>p. map_of (rs_storesParams rs) k = Some p \<and> vt_LoadVersion V (rs_dbs rs (params_place p)) ?n = Some (loaded V rs ?n k)"
    using mounted loaded_facts(1) [OF disk] by blast
  from load_infos_run [OF mounts this f(2), of "[]"] obtain S where S: "load_infos E V rs (ci_StoreInfos info) [] = Val (Some S)"
      "distinct (map fst S)" "map_of S = (\<lambda>k. if k \<in> set ks then Some (newIAVLStore (loaded V rs ?n k) (params_place (the (map_of (rs_storesParams rs) k)))
        defaultIAVLNumRecent defaultIAVLStoreEvery) else None)" unfolding f(1) map_of.simps(1) by auto
  let ?rs = "rs\<lparr>rs_lastCommitID := commitInfo_CommitID E info, rs_stores := S\<rparr>"
  have all: "\<not> list_ex (\<lambda>key. map_of S key = None) (map fst (rs_storesParams rs))" using S(3) dom by (auto simp: list_ex_iff)
  have run: "LoadLatestVersion E V rs = (Val None, ?rs)"
    using disk S(1) all pos by (simp add: LoadLatestVersion_def LoadVersion_def on_disk_def)
  have ok: "multi_ok V good saved ?rs"
    unfolding multi_ok_def
  proof (intro conjI allI impI)
    show "mounts_ok ?rs" using mounts by (simp add: mounts_ok_def)
    have "k \<in> fst ` set S \<longleftrightarrow> k \<in> set ks" for k using fun_cong [OF S(3), of k] map_of_eq_None_iff [of S k] by (metis option.distinct(1))
    then show "fst ` set (rs_stores ?rs) = fst ` set (rs_storesParams ?rs)" using dom by auto
    fix k st assume "map_of (rs_stores ?rs) k = Some st"
    then obtain p where p: "map_of (rs_storesParams rs) k = Some p" "st = newIAVLStore (loaded V rs ?n k) (params_place p) defaultIAVLNumRecent defaultIAVLStoreEvery"
      using S(3) mounted by (fastforce split: if_splits)
    show "map_option params_place (map_of (rs_storesParams ?rs) k) = Some (st_place st)" using p by (simp add: newIAVLStore_def)
    show "vt_db V (st_tree st) = rs_dbs ?rs (st_place st)" using p loaded_facts(3) [OF disk p(1)] by (simp add: newIAVLStore_def)
    show "iavl_ok V good saved (cid_Version (rs_lastCommitID ?rs)) st" using p loaded_facts(4) [OF disk p(1)] by (simp add: commitInfo_CommitID_def)
  qed (use pos S(2) in \<open>simp_all add: commitInfo_CommitID_def\<close>)
  have "map_option (contents \<circ> st_tree) (GetCommitStore ?rs k) = map_option (\<lambda>_. c k) (map_of (rs_storesParams rs) k)" for k
  proof (cases "map_of (rs_storesParams rs) k")
    case None
    then show ?thesis using S(3) mounted [of k] by (auto simp: GetCommitStore_def)
  next
    case (Some p)
    have "k \<in> set ks" unfolding dom using map_of_SomeD [OF Some] by (rule rev_image_eqI) simp
    then show ?thesis using S(3) Some loaded_facts(2) [OF disk Some] by (simp add: GetCommitStore_def newIAVLStore_def)
  qed
  then show ?thesis using run ok by auto
qed

lemma commit_load:
  assumes ok: "multi_ok V good saved rs" and bound: "in_int64 (cid_Version (rs_lastCommitID rs) + 1)"
  shows "\<exists>cid rs' rs2. rms_Commit E V rs = (Val cid, rs') \<and> cid_Version cid = cid_Version (rs_lastCommitID rs) + 1
    \<and> multi_ok V good saved rs'
    \<and> LoadLatestVersion E V (reopened rs') = (Val None, rs2) \<and> multi_ok V good saved rs2 \<and> rs_lastCommitID rs2 = cid
    \<and> (\<forall>k. map_option (contents \<circ> st_tree) (GetCommitStore rs2 k) = map_option (contents \<circ> st_tree) (GetCommitStore rs k))"
proof -
  let ?n = "cid_Version (rs_lastCommitID rs)" and ?ks = "ms_mapOrder E (map fst (rs_stores rs))"
  let ?f = "commit_info V (rs_stores rs)" and ?c = "\<lambda>k. contents (st_tree (the (map_of (rs_stores rs) k)))"
  let ?info = "\<lparr>ci_Version = ?n + 1, ci_StoreInfos = map ?f ?ks\<rparr>"
  let ?cid = "commitInfo_CommitID E ?info" and ?db = "setLatestVersion E (?n + 1) (setCommitInfo E (?n + 1) ?info (rs_db rs))"
  have cid: "cid_Version ?cid = ?n + 1" by (simp add: commitInfo_CommitID_def)
  obtain S D where run: "rms_Commit E V rs = (Val ?cid, rs\<lparr>rs_stores := S, rs_dbs := D, rs_lastCommitID := ?cid, rs_db := ?db\<rparr>)"
      and keys: "map fst S = map fst (rs_stores rs)" and S: "map_of S = (\<lambda>k. map_option (committed V) (map_of (rs_stores rs) k))"
      and D: "\<forall>k st. map_of (rs_stores rs) k = Some st \<longrightarrow> D (st_place st) = vt_db V (st_tree (committed V st))"
    using commit_ok [OF ok bound] cid by auto
  let ?rs = "rs\<lparr>rs_stores := S, rs_dbs := D, rs_lastCommitID := ?cid, rs_db := ?db\<rparr>"
  have ok': "multi_ok V good saved ?rs" by (rule commit_multi_ok [OF ok bound keys S D cid])
  have n: "0 \<le> ?n" and mounts: "mounts_ok rs" and dom: "fst ` set (rs_stores rs) = fst ` set (rs_storesParams rs)"
    using ok by (simp_all add: multi_ok_def)
  define re where "re = reopened ?rs"
  have re: "rs_db re = ?db" "rs_dbs re = D" "rs_storesParams re = rs_storesParams rs"
    using reopened_eq [of ?rs] mounts by (auto simp: mounts_ok_def re_def)
  have st: "\<exists>st. map_of (rs_stores rs) k = Some st" if "k \<in> fst ` set (rs_stores rs)" for k
    using that map_of_eq_None_iff [of "rs_stores rs" k] by auto
  have infos: "\<forall>k \<in> set ?ks. si_Name (?f k) = key_Name k \<and> cid_Version (si_CommitID (?f k)) = ?n + 1"
    using st commit_keeps(5) [OF ok bound _ refl] order(1) [of "map fst (rs_stores rs)"] by (fastforce simp: commit_info_def)
  have parts: "saved (D (params_place p)) (?n + 1) = Some (?c k) \<and> (\<forall>v. saved (D (params_place p)) v \<noteq> None \<longleftrightarrow> kept (?n + 1) v)"
    if p: "map_of (rs_storesParams rs) k = Some p" for k p
  proof -
    have "k \<in> fst ` set (rs_stores rs)" unfolding dom using map_of_SomeD [OF p] by (rule rev_image_eqI) simp
    then obtain st where st: "map_of (rs_stores rs) k = Some st" using st by blast
    note each = commit_keeps [OF ok bound st refl]
    have "D (params_place p) = vt_db V (st_tree (committed V st))" using D st each(1) p by auto
    then show ?thesis using each(2,4) st by (simp add: iavl_ok_def)
  qed
  have "on_disk E saved re ?info ?ks ?c"
    unfolding on_disk_def re using commitInfoKey_latest [of "?n + 1"] dec_int dec_info n order(1) [of "map fst (rs_stores rs)"] dom infos parts
    by (auto simp: getLatestVersion_def setLatestVersion_def setCommitInfo_def getCommitInfo_def)
  then obtain rs2 where "LoadLatestVersion E V re = (Val None, rs2)" "multi_ok V good saved rs2" "rs_lastCommitID rs2 = ?cid"
      and c: "\<And>k. map_option (contents \<circ> st_tree) (GetCommitStore rs2 k) = map_option (\<lambda>_. ?c k) (map_of (rs_storesParams rs) k)"
    using load_latest [of re ?info ?ks ?c] mounts re by (auto simp: mounts_ok_def)
  moreover have "map_option (\<lambda>_. ?c k) (map_of (rs_storesParams rs) k) = map_option (contents \<circ> st_tree) (GetCommitStore rs k)" for k
    using dom map_of_eq_None_iff [of "rs_storesParams rs" k] map_of_eq_None_iff [of "rs_stores rs" k]
    by (cases "map_of (rs_stores rs) k"; cases "map_of (rs_storesParams rs) k") (auto simp: GetCommitStore_def)
  ultimately show ?thesis using run ok' cid unfolding re_def by (intro exI conjI) auto
qed

end

section \<open>Between two commits\<close>

text \<open>An operation on one of the stores, on the root store itself and through a cache of it.\<close>

definition rms_op :: "('t, 'd) vtree \<Rightarrow> StoreKey \<Rightarrow> kv_op \<Rightarrow> ('t, 'd) rootMultiStore \<Rightarrow> kv_obs option \<times> ('t, 'd) rootMultiStore" where
  "rms_op V key x rs = (case map_of (rs_stores rs) key of
     None \<Rightarrow> (None, rs)
   | Some st \<Rightarrow> (case run_op (iavl_ops V) x st of (r, st') \<Rightarrow> (Some r, rs\<lparr>rs_stores := AList.update key st' (rs_stores rs)\<rparr>)))"

definition cms_op :: "key_domain_fun \<Rightarrow> 's KVStore \<Rightarrow> StoreKey \<Rightarrow> kv_op \<Rightarrow> ('p, 's) cacheMultiStore \<Rightarrow> kv_obs option \<times> ('p, 's) cacheMultiStore" where
  "cms_op D P key x cms = (case cms_GetKVStore cms key of
     None \<Rightarrow> (None, cms)
   | Some ci \<Rightarrow> (case run_op (cache_ops D P) x ci of (r, ci') \<Rightarrow> (Some r, cms\<lparr>cms_stores := AList.update key ci' (cms_stores cms)\<rparr>)))"

fun run_all :: "(StoreKey \<Rightarrow> kv_op \<Rightarrow> 's \<Rightarrow> 'r \<times> 's) \<Rightarrow> (StoreKey \<times> kv_op) list \<Rightarrow> 's \<Rightarrow> 'r list \<times> 's" where
  "run_all f [] s = ([], s)"
| "run_all f ((key, x) # xs) s = (case f key x s of (r, s1) \<Rightarrow> (case run_all f xs s1 of (rs, s2) \<Rightarrow> (r # rs, s2)))"

lemma run_op_iavl:
  "run_op (iavl_ops V) x st = (r, st') \<longleftrightarrow>
     (\<exists>t. run_op (vt_ops V) x (st_tree st) = (r, t) \<and> st' = st\<lparr>st_tree := t\<rparr>)"
  by (cases x) (auto simp: iavl_ops_def Let_def split: prod.splits)

context versioned_tree
begin

lemma iavl_kvstore: "kvstore (iavl_ops V) (\<lambda>st. good (st_tree st)) (\<lambda>st. kv_Get (contents (st_tree st)))"
proof -
  note fwd = kvstore.axioms(1) [OF ops]
  show ?thesis
    using kv_forward.set [OF fwd] kv_forward.del [OF fwd] kv_forward.iter [OF fwd] kvstore.riter [OF ops]
    by unfold_locales (auto simp: iavl_ops_def Let_def split: prod.splits dest: kv_forward.get [OF fwd] kv_forward.has [OF fwd])
qed

lemma rms_op_ok:
  assumes "multi_ok V good saved rs" and "op_dom_ok x" and "rms_op V key x rs = (r, rs')"
  shows "multi_ok V good saved rs' \<and> rs_lastCommitID rs' = rs_lastCommitID rs"
proof (cases "map_of (rs_stores rs) key")
  case None
  then show ?thesis using assms by (simp add: rms_op_def)
next
  case (Some st)
  obtain r' t where x: "run_op (vt_ops V) x (st_tree st) = (r', t)" by fastforce
  then have rs': "rs' = rs\<lparr>rs_stores := AList.update key (st\<lparr>st_tree := t\<rparr>) (rs_stores rs)\<rparr>"
    using assms(3) Some run_op_iavl [of V x st r' "st\<lparr>st_tree := t\<rparr>"] by (simp add: rms_op_def)
  have st: "iavl_ok V good saved (cid_Version (rs_lastCommitID rs)) st" using assms(1) Some by (auto simp: multi_ok_def)
  have t: "good t" "vt_db V t = vt_db V (st_tree st)" "vt_Version64 V t = vt_Version64 V (st_tree st)"
    using kvstore.run_op_obs [OF ops _ assms(2) x] writes [of x "st_tree st" t] st x by (auto simp: iavl_ok_def)
  have key: "key \<in> fst ` set (rs_stores rs)" using map_of_SomeD [OF Some] by (rule rev_image_eqI) simp
  then have keys: "map fst (rs_stores rs') = map fst (rs_stores rs)" using rs' by (simp add: update_keys)
  have new: "iavl_ok V good saved (cid_Version (rs_lastCommitID rs)) (st\<lparr>st_tree := t\<rparr>)" using st t by (simp add: iavl_ok_def)
  have "multi_ok V good saved rs'"
    unfolding multi_ok_def
  proof (intro conjI allI impI)
    show "fst ` set (rs_stores rs') = fst ` set (rs_storesParams rs')"
      using arg_cong [OF keys, of set] assms(1) rs' by (simp add: multi_ok_def)
    fix k st' assume k: "map_of (rs_stores rs') k = Some st'"
    show "map_option params_place (map_of (rs_storesParams rs') k) = Some (st_place st')"
      "vt_db V (st_tree st') = rs_dbs rs' (st_place st')" "iavl_ok V good saved (cid_Version (rs_lastCommitID rs')) st'"
      using k assms(1) Some new t rs' by (auto simp: multi_ok_def update_conv' split: if_splits)
  qed (use assms(1) rs' keys in \<open>simp_all add: multi_ok_def mounts_ok_def\<close>)
  then show ?thesis using rs' by simp
qed

end

text \<open>A cache of all stores, and the root store that operations went to directly: no view tells them apart.\<close>

definition same_views :: "('t \<Rightarrow> bool) \<Rightarrow> ('t \<Rightarrow> kvmap) \<Rightarrow> (kvmap, 't iavlStore) cacheMultiStore \<Rightarrow> ('t, 'd) rootMultiStore \<Rightarrow> bool" where
  "same_views good contents cms rs \<longleftrightarrow> map fst (cms_stores cms) = map fst (rs_stores rs)
     \<and> (\<forall>k ci st. map_of (cms_stores cms) k = Some ci \<longrightarrow> map_of (rs_stores rs) k = Some st \<longrightarrow>
          cache_inv (\<lambda>st. good (st_tree st)) (\<lambda>st. kv_Get (contents (st_tree st))) ci \<and> good (st_tree st)
          \<and> cache_view (\<lambda>st. kv_Get (contents (st_tree st))) ci = kv_Get (contents (st_tree st)))"

lemma map_of_map_values: "map_of (map (\<lambda>x. (fst x, f (snd x))) xs) k = map_option f (map_of xs k)"
  by (induction xs) auto

lemma same_keys: "map fst xs = map fst ys \<Longrightarrow> map_of xs k = None \<longleftrightarrow> map_of ys k = None"
  by (metis list.set_map map_of_eq_None_iff)

context versioned_tree
begin

lemma iavl_cache: "key_domain D \<Longrightarrow> cache_over (iavl_ops V) (\<lambda>st. good (st_tree st)) (\<lambda>st. kv_Get (contents (st_tree st))) D"
  by (simp add: cache_over_def iavl_kvstore)

lemma cache_step:
  assumes D: "key_domain D" and same: "same_views good contents cms rs" and x: "op_dom_ok x"
    and runs: "cms_op D (iavl_ops V) key x cms = (r, cms')" "rms_op V key x rs = (r', rs')"
  shows "r = r' \<and> same_views good contents cms' rs'"
proof (cases "map_of (cms_stores cms) key")
  case None
  then show ?thesis using same runs same_keys [of "cms_stores cms" "rs_stores rs" key]
    by (simp add: same_views_def cms_op_def rms_op_def cms_GetKVStore_def)
next
  case (Some ci)
  then obtain st where st: "map_of (rs_stores rs) key = Some st"
    using same same_keys [of "cms_stores cms" "rs_stores rs" key] by (auto simp: same_views_def)
  obtain o1 ci' where ci': "run_op (cache_ops D (iavl_ops V)) x ci = (o1, ci')" by fastforce
  obtain o2 st' where st': "run_op (iavl_ops V) x st = (o2, st')" by fastforce
  have inv: "cache_inv (\<lambda>st. good (st_tree st)) (\<lambda>st. kv_Get (contents (st_tree st))) ci" "good (st_tree st)"
      "cache_view (\<lambda>st. kv_Get (contents (st_tree st))) ci = kv_Get (contents (st_tree st))"
    using same Some st by (auto simp: same_views_def)
  note c = kvstore.run_op_obs [OF cache_over.cache_kvstore [OF iavl_cache [OF D]] inv(1) x ci']
  note d = kvstore.run_op_obs [OF iavl_kvstore inv(2) x st']
  have "o1 = o2" using c d inv(3) obs_ok_unique by metis
  moreover have "map fst (AList.update key ci' (cms_stores cms)) = map fst (AList.update key st' (rs_stores rs))"
    using same Some st by (simp add: update_keys same_views_def)
  ultimately show ?thesis
    using runs Some st ci' st' same c d inv(3)
    by (auto simp: cms_op_def rms_op_def cms_GetKVStore_def same_views_def update_conv' split: if_splits)
qed

lemma cache_runs:
  assumes D: "key_domain D"
  shows "\<lbrakk>same_views good contents cms rs; \<forall>(k, x) \<in> set xs. op_dom_ok x; run_all (cms_op D (iavl_ops V)) xs cms = (r, cms');
    run_all (rms_op V) xs rs = (r', rs')\<rbrakk> \<Longrightarrow> r = r' \<and> same_views good contents cms' rs'"
proof (induction xs arbitrary: cms rs r r')
  case (Cons a xs)
  obtain key x where a: "a = (key, x)" by fastforce
  obtain o1 c1 where c1: "cms_op D (iavl_ops V) key x cms = (o1, c1)" by fastforce
  obtain o2 r1 where r1: "rms_op V key x rs = (o2, r1)" by fastforce
  have step: "o1 = o2 \<and> same_views good contents c1 r1" using cache_step [OF D Cons.prems(1) _ c1 r1] Cons.prems(2) a by simp
  obtain os1 where os1: "run_all (cms_op D (iavl_ops V)) xs c1 = (os1, cms')" "r = o1 # os1" using Cons.prems(3) a c1 by (auto split: prod.splits)
  obtain os2 where os2: "run_all (rms_op V) xs r1 = (os2, rs')" "r' = o2 # os2" using Cons.prems(4) a r1 by (auto split: prod.splits)
  show ?case using Cons.IH [of c1 r1 os1 os2] step os1 os2 Cons.prems(2) by simp
qed simp

lemma cache_written:
  assumes D: "key_domain D" and same: "same_views good contents cms rs"
  shows "map_option (\<lambda>st. kv_Get (contents (st_tree st))) (GetCommitStore (written_to (cms_Write kv_ops (iavl_ops V) cms) rs0) k) =
    map_option (\<lambda>st. kv_Get (contents (st_tree st))) (GetCommitStore rs k)"
proof -
  have w: "map_of (rs_stores (written_to (cms_Write kv_ops (iavl_ops V) cms) rs0)) k = map_option (\<lambda>ci. ci_parent (cache_Write (iavl_ops V) ci)) (map_of (cms_stores cms) k)"
    using map_of_map_values [of "\<lambda>ci. ci_parent (cache_Write (iavl_ops V) ci)"] by (simp add: written_to_def cms_Write_def o_def case_prod_unfold)
  show ?thesis
  proof (cases "map_of (cms_stores cms) k")
    case None
    then show ?thesis using w same same_keys [of "cms_stores cms" "rs_stores rs" k] by (simp add: GetCommitStore_def same_views_def)
  next
    case (Some ci)
    then obtain st where st: "map_of (rs_stores rs) k = Some st"
      using same same_keys [of "cms_stores cms" "rs_stores rs" k] by (auto simp: same_views_def)
    then show ?thesis using w Some same cache_over.cache_write [OF iavl_cache [OF D], of ci] by (simp add: GetCommitStore_def same_views_def)
  qed
qed

lemma cache_multi_transparent:
  assumes D: "key_domain D" and ok: "multi_ok V good saved rs" and xs: "\<forall>(k, x) \<in> set xs. op_dom_ok x"
    and runs: "run_all (cms_op D (iavl_ops V)) xs (newCacheMultiStoreFromRMS rs) = (r, cms)" "run_all (rms_op V) xs rs = (r', rs')"
  shows "r = r' \<and> (\<forall>k. map_option (\<lambda>st. kv_Get (contents (st_tree st))) (GetCommitStore (written_to (cms_Write kv_ops (iavl_ops V) cms) rs) k) =
    map_option (\<lambda>st. kv_Get (contents (st_tree st))) (GetCommitStore rs' k))"
proof -
  have "good (st_tree st)" if "map_of (rs_stores rs) k = Some st" for k st using ok that by (auto simp: multi_ok_def iavl_ok_def)
  then have "same_views good contents (newCacheMultiStoreFromRMS rs) rs"
    using cache_over.cache_new [OF iavl_cache [OF D]]
    by (auto simp: same_views_def newCacheMultiStoreFromRMS_def map_of_map_values [of NewCacheKVStore] o_def case_prod_unfold)
  from cache_runs [OF D this xs runs] show ?thesis using cache_written [OF D] by blast
qed

end

section \<open>The order of the map\<close>

text \<open>The hash of a commit is that of a map from names, so the order in which the stores are committed does not show in it.\<close>

lemma fold_kv_Set:
  "kv_sorted m \<Longrightarrow> kv_sorted (fold (\<lambda>k m. kv_Set m (name k) (h k)) ks m)"
  "distinct (map name ks) \<Longrightarrow> kv_Get (fold (\<lambda>k m. kv_Set m (name k) (h k)) ks m) = kv_Get m ++ map_of (map (\<lambda>k. (name k, h k)) ks)"
proof (induction ks arbitrary: m)
  case (Cons k ks)
  {
    case 1
    then show ?case using Cons.IH(1) by simp
  next
    case 2
    then have "map_of (map (\<lambda>k. (name k, h k)) ks) (name k) = None" by (auto simp: map_of_eq_None_iff image_def)
    then show ?case using Cons.IH(2) [of "kv_Set m (name k) (h k)"] 2 by (auto simp: fun_eq_iff map_add_def split: option.splits)
  }
qed simp_all

lemma commitInfo_Hash_order:
  assumes "set ks = set ks'" and "distinct (map key_Name ks)" and "distinct (map key_Name ks')"
  shows "commitInfo_Hash E \<lparr>ci_Version = n, ci_StoreInfos = map (commit_info V S) ks\<rparr> =
    commitInfo_Hash E \<lparr>ci_Version = n, ci_StoreInfos = map (commit_info V S) ks'\<rparr>"
proof -
  let ?m = "\<lambda>ks. fold (\<lambda>k m. kv_Set m (key_Name k) (storeInfo_Hash E (commit_info V S k))) ks []"
  let ?l = "\<lambda>ks. map (\<lambda>k. (key_Name k, storeInfo_Hash E (commit_info V S k))) ks"
  have empty: "kv_Get [] = Map.empty" by (simp add: kv_Get_def fun_eq_iff)
  have "kv_Get (?m ks) = map_of (?l ks)" "kv_Get (?m ks') = map_of (?l ks')"
    using fold_kv_Set(2) [OF assms(2), of "\<lambda>k. storeInfo_Hash E (commit_info V S k)" "[]"]
      fold_kv_Set(2) [OF assms(3), of "\<lambda>k. storeInfo_Hash E (commit_info V S k)" "[]"] by (simp_all add: empty)
  moreover have "map_of (?l ks) = map_of (?l ks')" using assms by (simp add: map_of_inject_set o_def)
  ultimately have "?m ks = ?m ks'" by (intro kv_ext fold_kv_Set(1)) (simp_all add: kv_sorted_def)
  then show ?thesis by (simp add: commitInfo_Hash_def fold_map o_def commit_info_def)
qed

section \<open>The life of a root store\<close>

text \<open>A database without any commit, and the keys that are mounted over it.\<close>

definition fresh :: "('d \<Rightarrow> int \<Rightarrow> kvmap option) \<Rightarrow> ('t, 'd) rootMultiStore \<Rightarrow> bool" where
  "fresh saved rs \<longleftrightarrow> mounts_ok rs \<and> kv_Get (rs_db rs) latestVersionKey = None \<and> rs_stores rs = [] \<and> (\<forall>p. saved (rs_dbs rs p) = (\<lambda>_. None))"

text \<open>From a loaded store: operations on its stores, commits, and starts of a new process after a commit.\<close>

inductive lives :: "ms_env \<Rightarrow> ('t, 'd) vtree \<Rightarrow> ('t, 'd) rootMultiStore \<Rightarrow> ('t, 'd) rootMultiStore \<Rightarrow> bool" for E V rs0 where
  loaded: "LoadLatestVersion E V rs0 = (Val None, rs) \<Longrightarrow> lives E V rs0 rs"
| operation: "lives E V rs0 rs \<Longrightarrow> op_dom_ok x \<Longrightarrow> rms_op V key x rs = (r, rs') \<Longrightarrow> lives E V rs0 rs'"
| commit: "lives E V rs0 rs \<Longrightarrow> cid_Version (rs_lastCommitID rs) < 2 ^ 63 - 1 \<Longrightarrow> rms_Commit E V rs = (Val cid, rs') \<Longrightarrow> lives E V rs0 rs'"
| restart: "lives E V rs0 rs \<Longrightarrow> cid_Version (rs_lastCommitID rs) < 2 ^ 63 - 1 \<Longrightarrow> rms_Commit E V rs = (Val cid, rs') \<Longrightarrow>
    LoadLatestVersion E V (reopened rs') = (Val None, rs2) \<Longrightarrow> lives E V rs0 rs2"

context multi_store
begin

lemma load_all_fresh:
  assumes "mounts_ok rs" and "\<forall>p. saved (rs_dbs rs p) = (\<lambda>_. None)" and "set ks \<subseteq> fst ` set (rs_storesParams rs)"
  shows "\<exists>S. load_all V ks rs = (Val None, rs\<lparr>rs_stores := S\<rparr>) \<and> fst ` set S = fst ` set (rs_stores rs) \<union> set ks
    \<and> (distinct (map fst (rs_stores rs)) \<longrightarrow> distinct (map fst S))
    \<and> (\<forall>k st. map_of S k = Some st \<longrightarrow> map_of (rs_stores rs) k = Some st
        \<or> map_option params_place (map_of (rs_storesParams rs) k) = Some (st_place st)
          \<and> vt_db V (st_tree st) = rs_dbs rs (st_place st) \<and> iavl_ok V good saved 0 st)"
  using assms
proof (induction ks arbitrary: rs)
  case Nil
  show ?case by (intro exI [of _ "rs_stores rs"]) simp
next
  case (Cons k ks)
  obtain p where p: "map_of (rs_storesParams rs) k = Some p"
    using Cons.prems(3) map_of_eq_None_iff [of "rs_storesParams rs" k] by fastforce
  have iavl: "sp_typ p = StoreTypeIAVL" using Cons.prems(1) map_of_SomeD [OF p] by (auto simp: mounts_ok_def)
  obtain t where t: "vt_LoadVersion V (rs_dbs rs (params_place p)) 0 = Some t" "good t" "vt_Version64 V t = 0" "vt_db V t = rs_dbs rs (params_place p)"
    using load_empty Cons.prems(2) by blast
  let ?st = "newIAVLStore t (params_place p) defaultIAVLNumRecent defaultIAVLStoreEvery"
  let ?rs = "rs\<lparr>rs_stores := AList.update k ?st (rs_stores rs)\<rparr>"
  have st: "iavl_ok V good saved 0 ?st" using t Cons.prems(2) by (simp add: iavl_ok_def newIAVLStore_def kept_def)
  have step: "load_all V (k # ks) rs = load_all V ks ?rs"
    using p iavl t(1) by (simp add: loadCommitStoreFromParams_def LoadIAVLStore_def zeroCommitID_def)
  obtain S where S: "load_all V ks ?rs = (Val None, ?rs\<lparr>rs_stores := S\<rparr>)" "fst ` set S = fst ` set (rs_stores ?rs) \<union> set ks"
      "distinct (map fst (rs_stores ?rs)) \<longrightarrow> distinct (map fst S)"
      "\<And>j st. map_of S j = Some st \<Longrightarrow> map_of (rs_stores ?rs) j = Some st
        \<or> map_option params_place (map_of (rs_storesParams ?rs) j) = Some (st_place st)
          \<and> vt_db V (st_tree st) = rs_dbs ?rs (st_place st) \<and> iavl_ok V good saved 0 st"
    using Cons.IH [of ?rs] Cons.prems by (auto simp: mounts_ok_def)
  have dom: "fst ` set S = fst ` set (rs_stores rs) \<union> set (k # ks)" using S(2) by (auto simp: dom_update)
  have dist: "distinct (map fst (rs_stores rs)) \<longrightarrow> distinct (map fst S)" using S(3) by (simp add: distinct_update)
  have each: "\<forall>j st. map_of S j = Some st \<longrightarrow> map_of (rs_stores rs) j = Some st
        \<or> map_option params_place (map_of (rs_storesParams rs) j) = Some (st_place st)
          \<and> vt_db V (st_tree st) = rs_dbs rs (st_place st) \<and> iavl_ok V good saved 0 st"
  proof (intro allI impI)
    fix j st assume "map_of S j = Some st"
    from S(4) [OF this] st p t(4) show "map_of (rs_stores rs) j = Some st
        \<or> map_option params_place (map_of (rs_storesParams rs) j) = Some (st_place st)
          \<and> vt_db V (st_tree st) = rs_dbs rs (st_place st) \<and> iavl_ok V good saved 0 st"
      by (cases "j = k") (auto simp: update_conv' newIAVLStore_def)
  qed
  show ?case using step S(1) dom dist each by (intro exI [of _ S] conjI) simp_all
qed

lemma fresh_load:
  assumes "fresh saved rs"
  shows "\<exists>rs'. LoadLatestVersion E V rs = (Val None, rs') \<and> multi_ok V good saved rs' \<and> rs_lastCommitID rs' = zeroCommitID"
proof -
  let ?ks = "ms_mapOrder E (map fst (rs_storesParams rs))"
  have f: "mounts_ok rs" "\<forall>p. saved (rs_dbs rs p) = (\<lambda>_. None)" "rs_stores rs = []" "kv_Get (rs_db rs) latestVersionKey = None"
    using assms by (simp_all add: fresh_def)
  obtain S where S: "load_all V ?ks rs = (Val None, rs\<lparr>rs_stores := S\<rparr>)" "fst ` set S = set ?ks" "distinct (map fst S)"
      "\<And>k st. map_of S k = Some st \<Longrightarrow> map_option params_place (map_of (rs_storesParams rs) k) = Some (st_place st)
          \<and> vt_db V (st_tree st) = rs_dbs rs (st_place st) \<and> iavl_ok V good saved 0 st"
    using load_all_fresh [OF f(1,2), of ?ks] f(3) order by auto
  let ?rs = "rs\<lparr>rs_stores := S, rs_lastCommitID := zeroCommitID\<rparr>"
  have "LoadLatestVersion E V rs = (Val None, ?rs)"
    using S(1) f(4) by (simp add: LoadLatestVersion_def LoadVersion_def getLatestVersion_def)
  moreover have "multi_ok V good saved ?rs"
    using S(2,3,4) f(1) order by (auto simp: multi_ok_def mounts_ok_def zeroCommitID_def)
  ultimately show ?thesis by (intro exI [of _ ?rs]) simp
qed

lemma lives_ok:
  assumes "lives E V rs0 rs" and "fresh saved rs0"
  shows "multi_ok V good saved rs"
  using assms
proof (induction rule: lives.induct)
  case (loaded rs)
  then show ?case using fresh_load by fastforce
next
  case (operation rs x key r rs')
  then show ?case using rms_op_ok by blast
next
  case (commit rs cid rs')
  then have "in_int64 (cid_Version (rs_lastCommitID rs) + 1)" by (simp add: multi_ok_def in_int64_def)
  with commit_load [OF commit.IH [OF commit.prems]] commit.hyps show ?case by auto
next
  case (restart rs cid rs' rs2)
  then have "in_int64 (cid_Version (rs_lastCommitID rs) + 1)" by (simp add: multi_ok_def in_int64_def)
  with commit_load [OF restart.IH [OF restart.prems]] restart.hyps show ?case by auto
qed

end

section \<open>A tree of saved contents\<close>

text \<open>The simplest tree that does what the stores rely on: it keeps the contents of every saved version.\<close>

record ref_tree =
  rt_work :: kvmap
  rt_version :: int
  rt_saved :: "(int \<times> kvmap) list"

definition ref_hash :: "kvmap \<Rightarrow> bytes" where
  "ref_hash m = enc_fields (map (\<lambda>(k, v). enc_fields [k, v]) m)"

definition ref_load :: "(int \<times> kvmap) list \<Rightarrow> int \<Rightarrow> ref_tree option" where
  "ref_load d n =
     (let n = (if n = 0 then fold max (map fst d) 0 else n)
      in if n = 0 then Some \<lparr>rt_work = [], rt_version = 0, rt_saved = d\<rparr>
         else map_option (\<lambda>m. \<lparr>rt_work = m, rt_version = n, rt_saved = d\<rparr>) (map_of d n))"

definition ref_save :: "ref_tree \<Rightarrow> (bytes \<times> int \<times> ref_tree) option" where
  "ref_save t = (let n = rt_version t + 1 in
     if map_of (rt_saved t) n \<noteq> None then None
     else Some (ref_hash (rt_work t), n, t\<lparr>rt_version := n, rt_saved := (n, rt_work t) # rt_saved t\<rparr>))"

definition ref_delete :: "ref_tree \<Rightarrow> int \<Rightarrow> ref_tree option" where
  "ref_delete t n = (if n = rt_version t \<or> map_of (rt_saved t) n = None then None
     else Some (t\<lparr>rt_saved := filter (\<lambda>(v, _). v \<noteq> n) (rt_saved t)\<rparr>))"

definition canon :: "kvmap \<Rightarrow> kvmap" where
  "canon m = fold (\<lambda>x m. kv_Set m (fst x) (snd x)) m []"

definition ref_contents :: "ref_tree \<Rightarrow> kvmap" where
  "ref_contents t = canon (rt_work t)"

definition ref_ops :: "ref_tree KVStore" where
  "ref_ops = \<lparr>op_Get = (\<lambda>t k. (kv_Get (ref_contents t) k, t)), op_Has = (\<lambda>t k. (kv_Has (ref_contents t) k, t)),
     op_Set = (\<lambda>t k v. t\<lparr>rt_work := kv_Set (ref_contents t) k v\<rparr>), op_Delete = (\<lambda>t k. t\<lparr>rt_work := kv_Delete (ref_contents t) k\<rparr>),
     op_Iterator = (\<lambda>t s e. Val (some_values (kv_Iterator (ref_contents t) s e))),
     op_ReverseIterator = (\<lambda>t s e. Val (some_values (kv_ReverseIterator (ref_contents t) s e)))\<rparr>"

definition ref_vtree :: "(ref_tree, (int \<times> kvmap) list) vtree" where
  "ref_vtree = \<lparr>vt_LoadVersion = ref_load, vt_db = rt_saved, vt_SaveVersion = ref_save, vt_DeleteVersion = ref_delete,
     vt_VersionExists = (\<lambda>t n. map_of (rt_saved t) n \<noteq> None), vt_Version64 = rt_version, vt_Hash = (\<lambda>t. ref_hash (rt_work t)),
     vt_GetVersioned = (\<lambda>t k n. Option.bind (map_of (rt_saved t) n) (\<lambda>m. kv_Get m k)),
     vt_GetVersionedWithProof = (\<lambda>t k n. map_option (\<lambda>m. (kv_Get m k, ref_hash m)) (map_of (rt_saved t) n)), vt_ops = ref_ops\<rparr>"

definition ref_saved :: "(int \<times> kvmap) list \<Rightarrow> int \<Rightarrow> kvmap option" where
  "ref_saved d n = map_option canon (map_of d n)"

lemma canon_sorted [simp]: "kv_sorted (canon m)"
  unfolding canon_def by (rule fold_kv_Set(1)) simp

lemma canon_id: "kv_sorted m \<Longrightarrow> canon m = m"
proof (rule kv_ext)
  assume m: "kv_sorted m"
  have "kv_Get (canon m) = kv_Get [] ++ map_of (map (\<lambda>x. (fst x, snd x)) m)"
    unfolding canon_def using kv_sorted_distinct [OF m] by (rule fold_kv_Set(2))
  then show "kv_Get (canon m) = kv_Get m" by (simp add: kv_Get_def fun_eq_iff map_add_def split: option.splits)
qed simp_all

lemma canon_writes [simp]: "canon (kv_Set (canon m) k v) = kv_Set (canon m) k v" "canon (kv_Delete (canon m) k) = kv_Delete (canon m) k"
  by (simp_all add: canon_id)

lemma ref_kvstore: "kvstore ref_ops (\<lambda>_. True) (\<lambda>t. kv_Get (ref_contents t))"
  by unfold_locales (auto simp: ref_ops_def ref_contents_def kv_Has_def kv_visits)

lemma map_of_without_key: "map_of (filter (\<lambda>(v, _). v \<noteq> n) d) x = (if x = n then None else map_of d x)"
  by (induction d) auto

interpretation ref: versioned_tree ref_vtree "\<lambda>_. True" ref_contents ref_saved
proof (rule versioned_tree.intro)
  show "kvstore (vt_ops ref_vtree) (\<lambda>_. True) (\<lambda>t. kv_Get (ref_contents t))" using ref_kvstore by (simp add: ref_vtree_def)
  show "n = vt_Version64 ref_vtree t + 1 \<and> ref_contents t' = ref_contents t \<and> (True \<longrightarrow> True) \<and> vt_Version64 ref_vtree t' = n
      \<and> ref_saved (vt_db ref_vtree t') = (ref_saved (vt_db ref_vtree t))(n \<mapsto> ref_contents t)"
    if "vt_SaveVersion ref_vtree t = Some (h, n, t')" for t h n t'
    using that by (auto simp: ref_vtree_def ref_save_def Let_def ref_contents_def ref_saved_def fun_eq_iff split: if_splits)
  show "\<exists>h n t'. vt_SaveVersion ref_vtree t = Some (h, n, t')"
    if "ref_saved (vt_db ref_vtree t) (vt_Version64 ref_vtree t + 1) = None" for t
    using that by (simp add: ref_vtree_def ref_save_def ref_saved_def Let_def)
  show "ref_contents t' = ref_contents t \<and> (True \<longrightarrow> True) \<and> vt_Version64 ref_vtree t' = vt_Version64 ref_vtree t
      \<and> ref_saved (vt_db ref_vtree t') = (ref_saved (vt_db ref_vtree t))(n := None)"
    if "vt_DeleteVersion ref_vtree t n = Some t'" for t n t'
    using that by (auto simp: ref_vtree_def ref_delete_def ref_contents_def ref_saved_def fun_eq_iff map_of_without_key split: if_splits)
  show "\<exists>t'. vt_DeleteVersion ref_vtree t n = Some t'"
    if "ref_saved (vt_db ref_vtree t) n \<noteq> None" "n \<noteq> vt_Version64 ref_vtree t" for t n
    using that by (auto simp: ref_vtree_def ref_delete_def ref_saved_def)
  show "\<exists>t. vt_LoadVersion ref_vtree d n = Some t \<and> ref_contents t = c \<and> True \<and> vt_Version64 ref_vtree t = n \<and> vt_db ref_vtree t = d"
    if "ref_saved d n = Some c" "0 < n" for d n c
    using that by (auto simp: ref_vtree_def ref_load_def ref_saved_def ref_contents_def)
  show "\<exists>t. vt_LoadVersion ref_vtree d 0 = Some t \<and> ref_contents t = [] \<and> True \<and> vt_Version64 ref_vtree t = 0 \<and> vt_db ref_vtree t = d"
    if "ref_saved d = (\<lambda>_. None)" for d
  proof -
    have "d = []" using that by (cases d) (auto simp: ref_saved_def fun_eq_iff split: if_splits)
    then show ?thesis by (simp add: ref_vtree_def ref_load_def ref_contents_def canon_def)
  qed
  show "vt_db ref_vtree t' = vt_db ref_vtree t \<and> vt_Version64 ref_vtree t' = vt_Version64 ref_vtree t"
    if "snd (run_op (vt_ops ref_vtree) x t) = t'" for x t t'
    using that by (cases x) (auto simp: ref_vtree_def ref_ops_def)
qed

text \<open>A codec, and a hash that shows everything it is made of.\<close>

definition net_encCid :: "CommitID \<Rightarrow> bytes" where
  "net_encCid cid = enc_fields [enc_int (cid_Version cid), cid_Hash cid]"

definition net_decCid :: "bytes \<Rightarrow> CommitID option" where
  "net_decCid b = (case dec_fields b of
     Some [v, h] \<Rightarrow> map_option (\<lambda>v. \<lparr>cid_Version = v, cid_Hash = h\<rparr>) (dec_int v) | _ \<Rightarrow> None)"

definition net_encSi :: "storeInfo \<Rightarrow> bytes" where
  "net_encSi si = enc_fields [si_Name si, net_encCid (si_CommitID si)]"

definition net_decSi :: "bytes \<Rightarrow> storeInfo option" where
  "net_decSi b = (case dec_fields b of
     Some [n, c] \<Rightarrow> map_option (\<lambda>c. \<lparr>si_Name = n, si_CommitID = c\<rparr>) (net_decCid c) | _ \<Rightarrow> None)"

definition net_ms_env :: ms_env where
  "net_ms_env = \<lparr>ms_encInfo = (\<lambda>ci. enc_fields [enc_int (ci_Version ci), enc_list net_encSi (ci_StoreInfos ci)]),
     ms_decInfo = (\<lambda>b. case dec_fields b of
        Some [v, sis] \<Rightarrow> (case (dec_int v, dec_list net_decSi sis) of
          (Some v, Some sis) \<Rightarrow> Some \<lparr>ci_Version = v, ci_StoreInfos = sis\<rparr> | _ \<Rightarrow> None)
      | _ \<Rightarrow> None),
     ms_encInt = enc_int, ms_decInt = dec_int, ms_hashCore = net_encCid, ms_SimpleHashFromMap = ref_hash, ms_mapOrder = (\<lambda>ks. ks)\<rparr>"

lemma net_decSi_encSi: "net_decSi (net_encSi si) = Some si"
  by (simp add: net_decSi_def net_encSi_def net_decCid_def net_encCid_def)

interpretation ref_multi: multi_store ref_vtree "\<lambda>_. True" ref_contents ref_saved net_ms_env
  by unfold_locales (simp_all add: net_ms_env_def net_decSi_encSi)

definition ex_key :: "nat \<Rightarrow> string \<Rightarrow> StoreKey" where
  "ex_key i name = \<lparr>key_id = i, key_Name = name\<rparr>"

definition ex_mounted :: "(ref_tree, (int \<times> kvmap) list) rootMultiStore" where
  "ex_mounted = snd (bnd (MountStoreWithDB (Some (ex_key 1 ''acc'')) StoreTypeIAVL None) (\<lambda>_.
     MountStoreWithDB (Some (ex_key 2 ''stake'')) StoreTypeIAVL None) (NewCommitMultiStore [] (\<lambda>_. [])))"

definition ex_opened :: "(ref_tree, (int \<times> kvmap) list) rootMultiStore" where
  "ex_opened = snd (LoadLatestVersion net_ms_env ref_vtree ex_mounted)"

definition ex_store_written :: "(ref_tree, (int \<times> kvmap) list) rootMultiStore" where
  "ex_store_written = snd (rms_op ref_vtree (ex_key 1 ''acc'') (OpSet ''a'' ''1'') ex_opened)"

lemma ex_fresh: "fresh ref_saved ex_mounted"
  by (auto simp: fresh_def mounts_ok_def ex_mounted_def MountStoreWithDB_def NewCommitMultiStore_def bnd_def ex_key_def params_place_def
      kv_Get_def latestVersionKey_def ref_saved_def)

lemma ex_lives: "lives net_ms_env ref_vtree ex_mounted ex_store_written"
proof -
  have "fst (LoadLatestVersion net_ms_env ref_vtree ex_mounted) = Val None" by code_simp
  then have "LoadLatestVersion net_ms_env ref_vtree ex_mounted = (Val None, ex_opened)" unfolding ex_opened_def by (metis prod.collapse)
  then have "lives net_ms_env ref_vtree ex_mounted ex_opened" by (rule lives.loaded)
  moreover have "op_dom_ok (OpSet ''a'' ''1'')" by simp
  moreover have "rms_op ref_vtree (ex_key 1 ''acc'') (OpSet ''a'' ''1'') ex_opened =
      (fst (rms_op ref_vtree (ex_key 1 ''acc'') (OpSet ''a'' ''1'') ex_opened), ex_store_written)"
    by (simp only: ex_store_written_def prod.collapse)
  ultimately show ?thesis by (rule lives.operation)
qed

section \<open>Properties\<close>

text \<open>
  C4: what has been committed can be loaded again.  From a fresh database on, after any sequence
  of operations on the stores, commits and restarts, a commit succeeds, and a new process that
  mounts the same keys over the database loads the latest version without an error: it has the
  commit id that the commit returned, and every store has the contents it had when it was
  committed.  Every store then has on disk the last hundred versions before the current one and
  the versions that are multiples of ten thousand, and no other.
\<close>

theorem multistore_durable:
  assumes "multi_store V good contents saved E" and "fresh saved rs0" and "lives E V rs0 rs"
    and "cid_Version (rs_lastCommitID rs) < 2 ^ 63 - 1"
  shows "\<exists>cid rs' rs2. rms_Commit E V rs = (Val cid, rs') \<and> cid_Version cid = cid_Version (rs_lastCommitID rs) + 1
    \<and> LoadLatestVersion E V (reopened rs') = (Val None, rs2) \<and> rs_lastCommitID rs2 = cid
    \<and> (\<forall>k. map_option (contents \<circ> st_tree) (GetCommitStore rs2 k) = map_option (contents \<circ> st_tree) (GetCommitStore rs k))
    \<and> (\<forall>k st v. GetCommitStore rs2 k = Some st \<longrightarrow>
         (saved (vt_db V (st_tree st)) v \<noteq> None \<longleftrightarrow> 0 < v \<and> v \<le> cid_Version cid \<and> (cid_Version cid - 100 \<le> v \<or> v mod 10000 = 0)))"
proof -
  have ok: "multi_ok V good saved rs" using multi_store.lives_ok [OF assms(1,3,2)] .
  then have "in_int64 (cid_Version (rs_lastCommitID rs) + 1)" using assms(4) by (simp add: multi_ok_def in_int64_def)
  from multi_store.commit_load [OF assms(1) ok this] show ?thesis
  proof (elim exE conjE, goal_cases)
    case (1 cid rs' rs2)
    show ?case
      using 1 multi_ok_kept [OF 1(5)] by (intro exI [of _ cid] exI [of _ rs'] exI [of _ rs2] conjI allI impI) (simp_all only: 1(6))
  qed
qed

theorem multistore_durable_witness:
  "\<exists>cid rs' rs2. rms_Commit net_ms_env ref_vtree ex_store_written = (Val cid, rs') \<and> cid_Version cid = 1
     \<and> LoadLatestVersion net_ms_env ref_vtree (reopened rs') = (Val None, rs2) \<and> rs_lastCommitID rs2 = cid
     \<and> map_option (ref_contents \<circ> st_tree) (GetCommitStore rs2 (ex_key 1 ''acc'')) = Some [(''a'', ''1'')]
     \<and> map_option (ref_contents \<circ> st_tree) (GetCommitStore rs2 (ex_key 2 ''stake'')) = Some []"
proof -
  have zero: "cid_Version (rs_lastCommitID ex_store_written) = 0"
    and acc: "map_option (ref_contents \<circ> st_tree) (GetCommitStore ex_store_written (ex_key 1 ''acc'')) = Some [(''a'', ''1'')]"
    and stake: "map_option (ref_contents \<circ> st_tree) (GetCommitStore ex_store_written (ex_key 2 ''stake'')) = Some []" by code_simp+
  then have "cid_Version (rs_lastCommitID ex_store_written) < 2 ^ 63 - 1" by simp
  from multistore_durable [OF ref_multi.multi_store_axioms ex_fresh ex_lives this] show ?thesis
  proof (elim exE conjE, goal_cases)
    case (1 cid rs' rs2)
    then show ?case using zero acc stake by (intro exI [of _ cid] exI [of _ rs'] exI [of _ rs2]) (simp add: ref_vtree_def)
  qed
qed

text \<open>
  C20: the commit id, and with it the hash of the application that all nodes must agree on, does not
  depend on the order in which Go runs over the map of the stores.
\<close>

theorem commit_order_independent:
  assumes "multi_store V good contents saved E" and "multi_store V good contents saved (E\<lparr>ms_mapOrder := f\<rparr>)"
    and "fresh saved rs0" and "lives E V rs0 rs" and "cid_Version (rs_lastCommitID rs) < 2 ^ 63 - 1"
  shows "fst (rms_Commit (E\<lparr>ms_mapOrder := f\<rparr>) V rs) = fst (rms_Commit E V rs)"
proof -
  let ?F = "E\<lparr>ms_mapOrder := f\<rparr>" and ?ks = "map fst (rs_stores rs)"
  have ok: "multi_ok V good saved rs" using multi_store.lives_ok [OF assms(1,4,3)] .
  then have bound: "in_int64 (cid_Version (rs_lastCommitID rs) + 1)" using assms(5) by (simp add: multi_ok_def in_int64_def)
  have names: "distinct (map key_Name ks)" if "set ks = set ?ks" "distinct ks" for ks
  proof -
    have "distinct (map key_Name (map fst (rs_storesParams rs)))" using ok by (simp add: multi_ok_def mounts_ok_def o_def case_prod_unfold)
    then have "inj_on key_Name (set (map fst (rs_storesParams rs)))" by (simp only: distinct_map)
    then show ?thesis using that ok by (simp add: multi_ok_def distinct_map)
  qed
  have dist: "distinct ?ks" using ok by (simp add: multi_ok_def)
  have order: "set (ms_mapOrder E ?ks) = set ?ks" "distinct (ms_mapOrder E ?ks)" "set (f ?ks) = set ?ks" "distinct (f ?ks)"
    using multi_store.order [OF assms(1)] multi_store.order [OF assms(2)] dist by simp_all
  have "commitInfo_Hash E \<lparr>ci_Version = n, ci_StoreInfos = map (commit_info V (rs_stores rs)) (f ?ks)\<rparr> =
      commitInfo_Hash E \<lparr>ci_Version = n, ci_StoreInfos = map (commit_info V (rs_stores rs)) (ms_mapOrder E ?ks)\<rparr>" for n
    by (rule commitInfo_Hash_order) (use order names in simp_all)
  moreover have "commitInfo_Hash ?F ci = commitInfo_Hash E ci" for ci by (simp add: commitInfo_Hash_def storeInfo_Hash_def)
  ultimately show ?thesis
    using multi_store.commit_ok [OF assms(1) ok bound] multi_store.commit_ok [OF assms(2) ok bound] by (auto simp: commitInfo_CommitID_def)
qed

theorem commit_order_independent_witness:
  "\<exists>cid. fst (rms_Commit (net_ms_env\<lparr>ms_mapOrder := rev\<rparr>) ref_vtree ex_store_written) = Val cid
     \<and> fst (rms_Commit net_ms_env ref_vtree ex_store_written) = Val cid"
proof -
  have rev: "multi_store ref_vtree (\<lambda>_. True) ref_contents ref_saved (net_ms_env\<lparr>ms_mapOrder := rev\<rparr>)"
    by (intro multi_store.intro ref.versioned_tree_axioms multi_store_axioms.intro) (simp_all add: net_ms_env_def net_decSi_encSi)
  have zero: "cid_Version (rs_lastCommitID ex_store_written) < 2 ^ 63 - 1" by code_simp
  have "is_val (fst (rms_Commit net_ms_env ref_vtree ex_store_written))" by code_simp
  then show ?thesis
    using commit_order_independent [OF ref_multi.multi_store_axioms rev ex_fresh ex_lives zero] by (auto simp: is_val_def)
qed

text \<open>
  A cache of the whole root store is transparent: operations on any of its stores, in any order,
  answer as they would on the stores themselves, and after \<open>Write\<close> every store has the contents it
  would have had.
\<close>

theorem cacheMultiStore_transparent:
  assumes "multi_store V good contents saved E" and "key_domain D" and "fresh saved rs0" and "lives E V rs0 rs"
    and "\<forall>(k, x) \<in> set xs. op_dom_ok x"
    and "run_all (cms_op D (iavl_ops V)) xs (newCacheMultiStoreFromRMS rs) = (r, cms)" and "run_all (rms_op V) xs rs = (r', rs')"
  shows "r = r' \<and> (\<forall>k. map_option (\<lambda>st. kv_Get (contents (st_tree st))) (GetCommitStore (written_to (cms_Write kv_ops (iavl_ops V) cms) rs) k) =
    map_option (\<lambda>st. kv_Get (contents (st_tree st))) (GetCommitStore rs' k))"
  using versioned_tree.cache_multi_transparent [OF multi_store.axioms(1) [OF assms(1)] assms(2) multi_store.lives_ok [OF assms(1,4,3)] assms(5-7)] .

end
