(* ===== verification/AppQuery.thy ===== *)
theory AppQuery
  imports BaseApp MultiStore
begin

text \<open>
  The queries of an application, \<open>baseapp/baseapp.go\<close>: what the client asks of the application
  itself, of the stores and of the peer filters.  The version string of the binary and the
  codec of a result are parameters.
\<close>

section \<open>Queries\<close>

definition filter_response :: "ResponseQuery \<Rightarrow> query_response" where
  "filter_response r = empty_response\<lparr>qr_Code := rsq_Code r, qr_Value := Some (rsq_Value r)\<rparr>"

definition FilterPeerByAddrPort :: "('m, 'e, 'u) BaseApp \<Rightarrow> string \<Rightarrow> query_response" where
  "FilterPeerByAddrPort app info = (case app_addrPeerFilter app of Some f \<Rightarrow> filter_response (f info) | None \<Rightarrow> empty_response)"

definition FilterPeerByPubKey :: "('m, 'e, 'u) BaseApp \<Rightarrow> string \<Rightarrow> query_response" where
  "FilterPeerByPubKey app info = (case app_pubkeyPeerFilter app of Some f \<Rightarrow> filter_response (f info) | None \<Rightarrow> empty_response)"

definition query_path :: "string \<Rightarrow> string list" where
  "query_path p = (let path = split_on CHR ''/'' p in if length path > 0 \<and> path ! 0 = [] then drop 1 path else path)"

definition app_Query ::
  "'m Msg \<Rightarrow> (Result \<Rightarrow> bytes) \<Rightarrow> bytes \<Rightarrow> (RequestQuery \<Rightarrow> query_response outcome) \<Rightarrow> RequestQuery \<Rightarrow> ('m, 'e, 'u) BaseApp
   \<Rightarrow> query_response outcome \<times> ('m, 'e, 'u) BaseApp" where
  "app_Query mi marshal version cmsQuery req app =
     (let path = query_path (rq_Path req);
          ok = empty_response\<lparr>qr_Code := WRSPCodeOK\<rparr>
      in if length path \<ge> 2 \<and> path ! 0 = ''app'' then
           (if path ! 1 = ''version'' then (Val (ok\<lparr>qr_Value := Some version\<rparr>), app)
            else
              let (result, app) = (if path ! 1 = ''simulate''
                then (case app_txDecoder app (rq_Data req) of Inl err \<Rightarrow> (Error_Result err, app) | Inr tx \<Rightarrow> Simulate mi tx app)
                else (Error_Result ErrUnknownRequest, app))
              in (Val (ok\<lparr>qr_Value := Some (marshal result)\<rparr>), app))
         else if length path \<ge> 1 \<and> path ! 0 = ''store'' then
           (cmsQuery (req\<lparr>rq_Path := ''/'' @ join_on CHR ''/'' (drop 1 path)\<rparr>), app)
         else if length path \<ge> 4 \<and> path ! 0 = ''p2p'' \<and> path ! 1 = ''filter'' \<and> path ! 2 = ''addr'' then
           (Val (FilterPeerByAddrPort app (path ! 3)), app)
         else if length path \<ge> 4 \<and> path ! 0 = ''p2p'' \<and> path ! 1 = ''filter'' \<and> path ! 2 = ''pubkey'' then
           (Val (FilterPeerByPubKey app (path ! 3)), app)
         else (Val (QueryResult ErrUnknownRequest), app))"

section \<open>What a query can do\<close>

lemma Simulate_frame:
  assumes "Simulate mi tx app = (r, app')"
  shows "forget_check app' = forget_check app"
proof -
  have "app' = app\<lparr>app_checkState := app_checkState app'\<rparr>" using runTx_frame [OF assms [unfolded Simulate_def]] by simp
  then have "forget_check app' = forget_check (app\<lparr>app_checkState := app_checkState app'\<rparr>)" by (rule arg_cong)
  then show ?thesis by (simp add: forget_check_def)
qed

text \<open>A query changes nothing but the check state, and that only when it simulates a transaction.\<close>

lemma Query_frame:
  "app_Query mi marshal version cmsQuery req app = (r, app') \<Longrightarrow> forget_check app' = forget_check app"
  by (auto simp: app_Query_def Let_def split: if_splits sum.splits prod.splits dest: Simulate_frame)

text \<open>A path below \<open>/store\<close> reaches the store it names, with the rest of the path.\<close>

lemma join_split_on: "join_on c (split_on c p) = p"
proof (induction p)
  case (Cons x p)
  obtain w ws where w: "split_on c p = w # ws" by (cases "split_on c p") (use Cons in \<open>cases p; auto split: if_splits list.splits\<close>)
  then have "join_on c (w # ws) = p" using Cons by simp
  then show ?case using w by (cases ws) auto
qed simp

lemma parsePath_store:
  assumes "CHR ''/'' \<notin> set name"
  shows "parsePath (''/'' @ name @ ''/'' @ rest) = Inr (name, ''/'' @ rest)"
proof -
  have "takeWhile (\<lambda>x. x \<noteq> c) (name @ c # rest) = name \<and> dropWhile (\<lambda>x. x \<noteq> c) (name @ c # rest) = c # rest"
    if "c \<notin> set name" for c using that by (induction name) auto
  from this [OF assms] show ?thesis by (simp add: parsePath_def)
qed

lemma store_query_routed:
  assumes "CHR ''/'' \<notin> set name" and "rq_Path req = ''/store/'' @ name @ ''/'' @ rest"
  shows "app_Query mi marshal version (rms_Query V marshalKVs rs) req app =
    ((case getStoreByName rs name of
        None \<Rightarrow> Val (QueryResult ErrUnknownRequest)
      | Some store \<Rightarrow> iavl_Query V marshalKVs store (req\<lparr>rq_Path := ''/'' @ rest\<rparr>)), app)"
proof -
  have "query_path (rq_Path req) = ''store'' # split_on CHR ''/'' (name @ ''/'' @ rest)"
    using assms(2) by (simp add: query_path_def)
  then have "app_Query mi marshal version (rms_Query V marshalKVs rs) req app =
      (rms_Query V marshalKVs rs (req\<lparr>rq_Path := ''/'' @ name @ ''/'' @ rest\<rparr>), app)"
    by (simp add: app_Query_def join_split_on)
  then show ?thesis using parsePath_store [OF assms(1), of rest] by (cases "getStoreByName rs name") (simp_all add: rms_Query_def)
qed

end
