(* ===== verification/Bank.thy ===== *)
theory Bank
  imports Auth
begin

text \<open>
  The module \<open>x/bank\<close>: reading and writing balances, transfers between accounts, the messages
  \<open>MsgSend\<close> and \<open>MsgIssue\<close> with their checks, and the handler.  The three keepers of the
  source share these functions.  The JSON forms used for signing are parameters.
\<close>

section \<open>Errors\<close>

definition bank_DefaultCodespace :: CodespaceType where "bank_DefaultCodespace = 2"
definition bank_CodeInvalidInput :: CodeType where "bank_CodeInvalidInput = 101"
definition bank_CodeInvalidOutput :: CodeType where "bank_CodeInvalidOutput = 102"

definition bank_codeToDefaultMsg :: "CodeType \<Rightarrow> string" where
  "bank_codeToDefaultMsg cd =
     (if cd = bank_CodeInvalidInput then ''invalid input coins''
      else if cd = bank_CodeInvalidOutput then ''invalid output coins''
      else CodeToDefaultMsg cd)"

definition ErrNoInputs :: "CodespaceType \<Rightarrow> sdkError" where
  "ErrNoInputs codespace = NewError codespace bank_CodeInvalidInput"

definition ErrNoOutputs :: "CodespaceType \<Rightarrow> sdkError" where
  "ErrNoOutputs codespace = NewError codespace bank_CodeInvalidOutput"

section \<open>The keeper\<close>

definition costGetCoins :: int where "costGetCoins = 10"
definition costHasCoins :: int where "costHasCoins = 10"
definition costSetCoins :: int where "costSetCoins = 100"
definition costSubtractCoins :: int where "costSubtractCoins = 10"
definition costAddCoins :: int where "costAddCoins = 10"

record Input =
  in_Address :: bytes
  in_Coins :: Coins

record Output =
  out_Address :: bytes
  out_Coins :: Coins

definition getCoins :: "auth_env \<Rightarrow> bytes \<Rightarrow> (world, Coins) M" where
  "getCoins E addr =
     bnd (ctx_ConsumeGas costGetCoins ''getCoins'') (\<lambda>_.
     bnd (GetAccount E addr) (\<lambda>acc. case acc of
       None \<Rightarrow> ret []
     | Some a \<Rightarrow> ret (ba_Coins a)))"

definition setCoins :: "auth_env \<Rightarrow> bytes \<Rightarrow> Coins \<Rightarrow> (world, unit) M" where
  "setCoins E addr coins =
     bnd (ctx_ConsumeGas costSetCoins ''setCoins'') (\<lambda>_.
     bnd (GetAccount E addr) (\<lambda>acc.
     bnd (case acc of None \<Rightarrow> NewAccountWithAddress E addr | Some a \<Rightarrow> ret a) (\<lambda>a.
     SetAccount E (SetCoins a coins))))"

definition hasCoins :: "auth_env \<Rightarrow> bytes \<Rightarrow> Coins \<Rightarrow> (world, bool) M" where
  "hasCoins E addr coins =
     bnd (ctx_ConsumeGas costHasCoins ''hasCoins'') (\<lambda>_.
     bnd (getCoins E addr) (\<lambda>old.
     lift (Coins_IsGTE old coins)))"

definition subtractCoins :: "auth_env \<Rightarrow> bytes \<Rightarrow> Coins \<Rightarrow> (world, sdkError + Coins \<times> Tags) M" where
  "subtractCoins E addr coins =
     bnd (ctx_ConsumeGas costSubtractCoins ''subtractCoins'') (\<lambda>_.
     bnd (getCoins E addr) (\<lambda>oldCoins.
     bnd (lift (Coins_Minus oldCoins coins)) (\<lambda>newCoins.
     if \<not> Coins_IsNotNegative newCoins then ret (Inl ErrInsufficientCoins)
     else
       bnd (setCoins E addr newCoins) (\<lambda>_.
       bnd (lift (NewTags [TagString ''sender'', TagBytes (ae_addrString E addr)])) (\<lambda>tags.
       ret (Inr (newCoins, tags)))))))"

definition addCoins :: "auth_env \<Rightarrow> bytes \<Rightarrow> Coins \<Rightarrow> (world, sdkError + Coins \<times> Tags) M" where
  "addCoins E addr coins =
     bnd (ctx_ConsumeGas costAddCoins ''addCoins'') (\<lambda>_.
     bnd (getCoins E addr) (\<lambda>oldCoins.
     bnd (lift (Coins_Plus oldCoins coins)) (\<lambda>newCoins.
     if \<not> Coins_IsNotNegative newCoins then ret (Inl ErrInsufficientCoins)
     else
       bnd (setCoins E addr newCoins) (\<lambda>_.
       bnd (lift (NewTags [TagString ''recipient'', TagBytes (ae_addrString E addr)])) (\<lambda>tags.
       ret (Inr (newCoins, tags)))))))"

definition sendCoins :: "auth_env \<Rightarrow> bytes \<Rightarrow> bytes \<Rightarrow> Coins \<Rightarrow> (world, sdkError + Tags) M" where
  "sendCoins E fromAddr toAddr coins =
     bnd (subtractCoins E fromAddr coins) (\<lambda>r. case r of
       Inl err \<Rightarrow> ret (Inl err)
     | Inr (_, subTags) \<Rightarrow>
         bnd (addCoins E toAddr coins) (\<lambda>r. case r of
           Inl err \<Rightarrow> ret (Inl err)
         | Inr (_, addTags) \<Rightarrow> ret (Inr (AppendTags subTags addTags))))"

fun inputs_loop :: "auth_env \<Rightarrow> Input list \<Rightarrow> Tags \<Rightarrow> (world, sdkError + Tags) M" where
  "inputs_loop E [] allTags = ret (Inr allTags)"
| "inputs_loop E (i # ins) allTags =
     bnd (subtractCoins E (in_Address i) (in_Coins i)) (\<lambda>r. case r of
       Inl err \<Rightarrow> ret (Inl err)
     | Inr (_, tags) \<Rightarrow> inputs_loop E ins (AppendTags allTags tags))"

fun outputs_loop :: "auth_env \<Rightarrow> Output list \<Rightarrow> Tags \<Rightarrow> (world, sdkError + Tags) M" where
  "outputs_loop E [] allTags = ret (Inr allTags)"
| "outputs_loop E (out # outs) allTags =
     bnd (addCoins E (out_Address out) (out_Coins out)) (\<lambda>r. case r of
       Inl err \<Rightarrow> ret (Inl err)
     | Inr (_, tags) \<Rightarrow> outputs_loop E outs (AppendTags allTags tags))"

definition inputOutputCoins :: "auth_env \<Rightarrow> Input list \<Rightarrow> Output list \<Rightarrow> (world, sdkError + Tags) M" where
  "inputOutputCoins E inputs outputs =
     bnd (inputs_loop E inputs EmptyTags) (\<lambda>r. case r of
       Inl err \<Rightarrow> ret (Inl err)
     | Inr allTags \<Rightarrow> outputs_loop E outputs allTags)"

section \<open>Messages\<close>

record MsgSend =
  msend_Inputs :: "Input list"
  msend_Outputs :: "Output list"

record MsgIssue =
  missue_Banker :: bytes
  missue_Outputs :: "Output list"

definition Input_ValidateBasic :: "Input \<Rightarrow> sdkError option" where
  "Input_ValidateBasic i =
     (if length (in_Address i) = 0 then Some ErrInvalidAddress
      else if \<not> Coins_IsValid (in_Coins i) then Some ErrInvalidCoins
      else if \<not> Coins_IsPositive (in_Coins i) then Some ErrInvalidCoins
      else None)"

definition Output_ValidateBasic :: "Output \<Rightarrow> sdkError option" where
  "Output_ValidateBasic out =
     (if length (out_Address out) = 0 then Some ErrInvalidAddress
      else if \<not> Coins_IsValid (out_Coins out) then Some ErrInvalidCoins
      else if \<not> Coins_IsPositive (out_Coins out) then Some ErrInvalidCoins
      else None)"

fun validate_inputs :: "Input list \<Rightarrow> Coins \<Rightarrow> (sdkError + Coins) outcome" where
  "validate_inputs [] totalIn = Val (Inr totalIn)"
| "validate_inputs (i # ins) totalIn =
     (case Input_ValidateBasic i of
        Some err \<Rightarrow> Val (Inl err)
      | None \<Rightarrow> obind (Coins_Plus totalIn (in_Coins i)) (\<lambda>totalIn. validate_inputs ins totalIn))"

fun validate_outputs :: "Output list \<Rightarrow> Coins \<Rightarrow> (sdkError + Coins) outcome" where
  "validate_outputs [] totalOut = Val (Inr totalOut)"
| "validate_outputs (out # outs) totalOut =
     (case Output_ValidateBasic out of
        Some err \<Rightarrow> Val (Inl err)
      | None \<Rightarrow> obind (Coins_Plus totalOut (out_Coins out)) (\<lambda>totalOut. validate_outputs outs totalOut))"

definition MsgSend_ValidateBasic :: "MsgSend \<Rightarrow> sdkError option outcome" where
  "MsgSend_ValidateBasic msg =
     (if length (msend_Inputs msg) = 0 then Val (Some (ErrNoInputs bank_DefaultCodespace))
      else if length (msend_Outputs msg) = 0 then Val (Some (ErrNoOutputs bank_DefaultCodespace))
      else obind (validate_inputs (msend_Inputs msg) []) (\<lambda>r. case r of
        Inl err \<Rightarrow> Val (Some err)
      | Inr totalIn \<Rightarrow> obind (validate_outputs (msend_Outputs msg) []) (\<lambda>r. case r of
          Inl err \<Rightarrow> Val (Some err)
        | Inr totalOut \<Rightarrow>
            if \<not> Coins_IsEqual totalIn totalOut then Val (Some ErrInvalidCoins) else Val None)))"

fun validate_each_output :: "Output list \<Rightarrow> sdkError option" where
  "validate_each_output [] = None"
| "validate_each_output (out # outs) =
     (case Output_ValidateBasic out of Some err \<Rightarrow> Some err | None \<Rightarrow> validate_each_output outs)"

definition MsgIssue_ValidateBasic :: "MsgIssue \<Rightarrow> sdkError option" where
  "MsgIssue_ValidateBasic msg =
     (if length (missue_Outputs msg) = 0 then Some (ErrNoOutputs bank_DefaultCodespace)
      else validate_each_output (missue_Outputs msg))"

record bank_json =
  bj_Bech32ifyAcc :: "bytes \<Rightarrow> string"
  bj_addrCoins :: "string \<Rightarrow> Coins \<Rightarrow> bytes"
  bj_send :: "bytes list \<Rightarrow> bytes list \<Rightarrow> bytes"
  bj_issue :: "string \<Rightarrow> bytes list \<Rightarrow> bytes"

definition Input_GetSignBytes :: "bank_json \<Rightarrow> Input \<Rightarrow> bytes" where
  "Input_GetSignBytes J i = bj_addrCoins J (bj_Bech32ifyAcc J (in_Address i)) (in_Coins i)"

definition Output_GetSignBytes :: "bank_json \<Rightarrow> Output \<Rightarrow> bytes" where
  "Output_GetSignBytes J out = bj_addrCoins J (bj_Bech32ifyAcc J (out_Address out)) (out_Coins out)"

definition MsgSend_GetSignBytes :: "bank_json \<Rightarrow> MsgSend \<Rightarrow> bytes" where
  "MsgSend_GetSignBytes J msg =
     bj_send J (map (Input_GetSignBytes J) (msend_Inputs msg)) (map (Output_GetSignBytes J) (msend_Outputs msg))"

definition MsgIssue_GetSignBytes :: "bank_json \<Rightarrow> MsgIssue \<Rightarrow> bytes" where
  "MsgIssue_GetSignBytes J msg =
     bj_issue J (bj_Bech32ifyAcc J (missue_Banker msg)) (map (Output_GetSignBytes J) (missue_Outputs msg))"

definition MsgSend_GetSigners :: "MsgSend \<Rightarrow> bytes list" where
  "MsgSend_GetSigners msg = map in_Address (msend_Inputs msg)"

definition MsgIssue_GetSigners :: "MsgIssue \<Rightarrow> bytes list" where
  "MsgIssue_GetSigners msg = [missue_Banker msg]"

datatype bank_msg = BankSend MsgSend | BankIssue MsgIssue

definition bank_Msg :: "bank_json \<Rightarrow> bank_msg Msg" where
  "bank_Msg J =
     \<lparr>msg_Type = (\<lambda>_. ''bank''),
      msg_ValidateBasic = (\<lambda>m. case m of
          BankSend s \<Rightarrow> MsgSend_ValidateBasic s | BankIssue i \<Rightarrow> Val (MsgIssue_ValidateBasic i)),
      msg_GetSignBytes = (\<lambda>m. case m of
          BankSend s \<Rightarrow> MsgSend_GetSignBytes J s | BankIssue i \<Rightarrow> MsgIssue_GetSignBytes J i),
      msg_GetSigners = (\<lambda>m. case m of
          BankSend s \<Rightarrow> MsgSend_GetSigners s | BankIssue i \<Rightarrow> MsgIssue_GetSigners i)\<rparr>"

section \<open>The handler\<close>

definition handleMsgSend :: "auth_env \<Rightarrow> MsgSend \<Rightarrow> (world, Result) M" where
  "handleMsgSend E msg =
     bnd (inputOutputCoins E (msend_Inputs msg) (msend_Outputs msg)) (\<lambda>r. case r of
       Inl err \<Rightarrow> ret (Error_Result err)
     | Inr tags \<Rightarrow> ret (emptyResult\<lparr>res_Tags := tags\<rparr>))"

definition handleMsgIssue :: "auth_env \<Rightarrow> MsgIssue \<Rightarrow> (world, Result) M" where
  "handleMsgIssue E msg = panicM (GoPanic ''not implemented yet'')"

text \<open>A message of another module reaches the default case of the switch.\<close>

definition bank_NewHandler :: "auth_env \<Rightarrow> bank_msg option \<Rightarrow> (world, Result) M" where
  "bank_NewHandler E msg = (case msg of
     Some (BankSend m) \<Rightarrow> handleMsgSend E m
   | Some (BankIssue m) \<Rightarrow> handleMsgIssue E m
   | None \<Rightarrow> ret (Error_Result ErrUnknownRequest))"

section \<open>Supply\<close>

text \<open>The coins that one entry of the account store stands for.\<close>

definition entry_amt :: "auth_env \<Rightarrow> string \<Rightarrow> bytes \<times> bytes \<Rightarrow> int" where
  "entry_amt E d kv =
     (if prefix ''account:'' (fst kv)
      then (case ae_decAcc E (snd kv) of None \<Rightarrow> 0 | Some acc \<Rightarrow> amt (ba_Coins acc) d)
      else 0)"

definition coin_supply :: "auth_env \<Rightarrow> world \<Rightarrow> string \<Rightarrow> int" where
  "coin_supply E w d = sum_list (map (entry_amt E d) (w_stores w (ae_accKey E)))"

definition balance :: "auth_env \<Rightarrow> world \<Rightarrow> bytes \<Rightarrow> string \<Rightarrow> int" where
  "balance E w a d = (case acct E w a of None \<Rightarrow> 0 | Some acc \<Rightarrow> amt (ba_Coins acc) d)"

text \<open>
  The invariant: the account store is sorted, accounts are under their own address, and every
  balance is sorted by denomination and not negative.
\<close>

definition bank_ok :: "auth_env \<Rightarrow> world \<Rightarrow> bool" where
  "bank_ok E w \<longleftrightarrow> kv_sorted (w_stores w (ae_accKey E)) \<and> accts_ok E w
     \<and> (\<forall>a acc. acct E w a = Some acc \<longrightarrow>
          sorted_denoms (ba_Coins acc) \<and> (\<forall>c \<in> set (ba_Coins acc). 0 \<le> Amount c))"

lemma kv_Set_sum:
  "kv_sorted m \<Longrightarrow> sum_list (map f (kv_Set m k v)) =
     sum_list (map f m) - (case kv_Get m k of None \<Rightarrow> 0 | Some old \<Rightarrow> f (k, old)) + (f (k, v) :: int)"
proof (induction m k v rule: kv_Set.induct)
  case (2 k' v' m k v)
  have "kv_Get m k = None" if "k < k'"
  proof -
    have "\<forall>x \<in> set m. k < fst x" using 2(2) that by (auto dest: less_trans)
    then show ?thesis by (auto simp: kv_Get_def map_of_eq_None_iff)
  qed
  moreover have "k' \<noteq> k" if "k < k'" using that by auto
  ultimately show ?case using 2 by (auto simp: kv_Get_def)
qed (simp add: kv_Get_def)

lemma coin_views_cong:
  assumes "w_stores t (ae_accKey E) = w_stores w (ae_accKey E)"
  shows "bank_ok E t = bank_ok E w" and "balance E t = balance E w" and "coin_supply E t = coin_supply E w"
  using acct_cong [OF assms] assms by (auto simp: bank_ok_def accts_ok_def balance_def coin_supply_def fun_eq_iff)

lemma AddressStoreKey_prefix [simp]: "prefix ''account:'' (AddressStoreKey a)"
  by (simp add: AddressStoreKey_def)

lemma global_not_account [simp]: "\<not> prefix ''account:'' globalAccountNumberKey"
  by (simp add: globalAccountNumberKey_def)

section \<open>The contract of a coin keeper\<close>

text \<open>
  What the modules that hold a bank keeper rely on: subtracting and adding coins either returns
  an error and changes no store, or changes the balance of the one address and the supply by
  the coins, keeps every balance not negative, and touches no other store.
\<close>

locale coin_keeper =
  fixes key :: string
    and ok :: "world \<Rightarrow> bool"
    and bal :: "world \<Rightarrow> bytes \<Rightarrow> string \<Rightarrow> int"
    and total :: "world \<Rightarrow> string \<Rightarrow> int"
    and sub add :: "bytes \<Rightarrow> Coins \<Rightarrow> (world, sdkError + Coins \<times> Tags) M"
  assumes views: "w_stores t key = w_stores w key \<Longrightarrow> ok t = ok w \<and> bal t = bal w \<and> total t = total w"
    and nonneg: "ok w \<Longrightarrow> 0 \<le> bal w a d"
    and sub_Inr: "\<lbrakk>sub a cs w = (Val (Inr r), t); ok w; sorted_denoms cs\<rbrakk> \<Longrightarrow>
        ok t \<and> bal t = (bal w)(a := \<lambda>d. bal w a d - amt cs d) \<and> total t = (\<lambda>d. total w d - amt cs d)
        \<and> (\<forall>n. n \<noteq> key \<longrightarrow> w_stores t n = w_stores w n)"
    and sub_Inl: "sub a cs w = (Val (Inl e), t) \<Longrightarrow> w_stores t = w_stores w"
    and add_Inr: "\<lbrakk>add a cs w = (Val (Inr r), t); ok w; sorted_denoms cs\<rbrakk> \<Longrightarrow>
        ok t \<and> bal t = (bal w)(a := \<lambda>d. bal w a d + amt cs d) \<and> total t = (\<lambda>d. total w d + amt cs d)
        \<and> (\<forall>n. n \<noteq> key \<longrightarrow> w_stores t n = w_stores w n)"
    and add_Inl: "add a cs w = (Val (Inl e), t) \<Longrightarrow> w_stores t = w_stores w"
begin

lemma sub_any:
  "\<lbrakk>sub a cs w = (Val r, t); ok w; sorted_denoms cs\<rbrakk> \<Longrightarrow> ok t \<and> (\<forall>n. n \<noteq> key \<longrightarrow> w_stores t n = w_stores w n)"
  using sub_Inr [of a cs w _ t] sub_Inl [of a cs w _ t] views [of t w] by (cases r) auto

lemma add_any:
  "\<lbrakk>add a cs w = (Val r, t); ok w; sorted_denoms cs\<rbrakk> \<Longrightarrow> ok t \<and> (\<forall>n. n \<noteq> key \<longrightarrow> w_stores t n = w_stores w n)"
  using add_Inr [of a cs w _ t] add_Inl [of a cs w _ t] views [of t w] by (cases r) auto

lemma sub_covered:
  assumes "sub a cs w = (Val (Inr r), t)" and "ok w" and "sorted_denoms cs"
  shows "amt cs d \<le> bal w a d"
  using sub_Inr [OF assms] nonneg [of t a d] by simp

lemma move_conserves:
  assumes "sub a cs w = (Val (Inr r), u)" and "add b cs u = (Val (Inr q), t)" and "ok w" and "sorted_denoms cs"
  shows "ok t \<and> total t = total w
    \<and> bal t c d = bal w c d - (if c = a then amt cs d else 0) + (if c = b then amt cs d else 0)"
  using sub_Inr [OF assms(1,3,4)] add_Inr [OF assms(2) _ assms(4)] by auto

end

section \<open>The bank keeper satisfies it\<close>

context auth_codec
begin

lemma GetNextAccountNumber_Val:
  assumes "GetNextAccountNumber E w = (Val n, t)"
  shows "\<exists>v. w_stores t = (w_stores w)(ae_accKey E := kv_Set (w_stores w (ae_accKey E)) globalAccountNumberKey v)"
  using assms by (auto simp: GetNextAccountNumber_def must_def run_iffs dest!: gas_Get_Val gas_Set_Val
      split: option.splits)

lemma NewAccountWithAddress_Val:
  assumes "NewAccountWithAddress E a w = (Val acc, t)" and "kv_sorted (w_stores w (ae_accKey E))"
  shows "acct E t = acct E w" and "coin_supply E t = coin_supply E w" and "ba_Address acc = a"
    and "kv_sorted (w_stores t (ae_accKey E))" and "n \<noteq> ae_accKey E \<Longrightarrow> w_stores t n = w_stores w n"
proof -
  obtain v where t: "w_stores t = (w_stores w)(ae_accKey E := kv_Set (w_stores w (ae_accKey E)) globalAccountNumberKey v)"
    and a: "ba_Address acc = a"
    using assms(1) by (auto simp: NewAccountWithAddress_def SetAddress_def SetAccountNumber_def zeroAccount_def run_iffs
        split: if_splits dest!: GetNextAccountNumber_Val)
  show "acct E t = acct E w" by (rule ext) (simp add: acct_def t)
  show "coin_supply E t = coin_supply E w"
    using assms(2) by (simp add: fun_eq_iff coin_supply_def t kv_Set_sum entry_amt_def split: option.splits)
  show "ba_Address acc = a" by (rule a)
  show "kv_sorted (w_stores t (ae_accKey E))" using assms(2) by (simp add: t)
  show "w_stores t n = w_stores w n" if "n \<noteq> ae_accKey E" using that by (simp add: t)
qed

lemma SetAccount_supply:
  assumes "SetAccount E acc w = (Val u, t)" and "kv_sorted (w_stores w (ae_accKey E))"
  shows "kv_sorted (w_stores t (ae_accKey E))"
    and "coin_supply E t d = coin_supply E w d - balance E w (ba_Address acc) d + amt (ba_Coins acc) d"
  using gas_Set_Val [OF assms(1) [unfolded SetAccount_def]] assms(2) dec_acc
  by (auto simp: coin_supply_def kv_Set_sum entry_amt_def balance_def acct_def split: option.splits)

lemma consume_acct:
  "ctx_ConsumeGas amount d w = (r, t) \<Longrightarrow> w_stores t = w_stores w \<and> acct E t = acct E w"
  by (auto simp: ctx_ConsumeGas_def dest!: consume_run intro: acct_cong)

lemma getCoins_Val:
  "getCoins E a w = (Val cs, t) \<Longrightarrow> w_stores t = w_stores w
     \<and> cs = (case acct E w a of None \<Rightarrow> [] | Some acc \<Rightarrow> ba_Coins acc)"
  by (auto simp: getCoins_def run_iffs dest!: consume_acct GetAccount_Val split: option.splits)

lemma setCoins_Val:
  assumes "setCoins E a cs w = (Val u, t)" and "bank_ok E w"
  shows "\<exists>acc. acct E t = (acct E w)(a \<mapsto> SetCoins acc cs) \<and> ba_Address acc = a"
    and "coin_supply E t d = coin_supply E w d - balance E w a d + amt cs d"
    and "kv_sorted (w_stores t (ae_accKey E))"
    and "n \<noteq> ae_accKey E \<Longrightarrow> w_stores t n = w_stores w n"
proof -
  obtain w1 w2 acc where w1: "w_stores w1 = w_stores w"
    and acc: "(case acct E w a of None \<Rightarrow> NewAccountWithAddress E a | Some x \<Rightarrow> ret x) w1 = (Val acc, w2)"
    and set: "SetAccount E (SetCoins acc cs) w2 = (Val u, t)"
    using assms(1) unfolding setCoins_def
    by (auto simp: run_iffs dest!: consume_acct GetAccount_Val)
  have sorted: "kv_sorted (w_stores w1 (ae_accKey E))" using assms(2) w1 by (simp add: bank_ok_def)
  have same: "acct E w1 = acct E w" "coin_supply E w1 = coin_supply E w"
    by (rule acct_cong, simp only: w1) (rule coin_views_cong, simp only: w1)
  have w2: "acct E w2 = acct E w" "coin_supply E w2 = coin_supply E w" "ba_Address acc = a"
    "kv_sorted (w_stores w2 (ae_accKey E))" "n \<noteq> ae_accKey E \<Longrightarrow> w_stores w2 n = w_stores w n"
  proof -
    show "acct E w2 = acct E w" "coin_supply E w2 = coin_supply E w" "ba_Address acc = a"
      "kv_sorted (w_stores w2 (ae_accKey E))" "n \<noteq> ae_accKey E \<Longrightarrow> w_stores w2 n = w_stores w n"
      using acc assms(2) same sorted w1 NewAccountWithAddress_Val [of a w1 acc w2]
      by (auto simp: run_iffs bank_ok_def accts_ok_def split: option.splits)
  qed
  have addr: "ba_Address (SetCoins acc cs) = a" "ba_Coins (SetCoins acc cs) = cs"
    by (simp_all add: SetCoins_def w2(3))
  show "\<exists>acc. acct E t = (acct E w)(a \<mapsto> SetCoins acc cs) \<and> ba_Address acc = a"
    using SetAccount_Val(1) [OF set] w2(1,3) addr by auto
  show "coin_supply E t d = coin_supply E w d - balance E w a d + amt cs d"
    using SetAccount_supply(2) [OF set w2(4)] addr w2(1,2) by (simp add: balance_def)
  show "kv_sorted (w_stores t (ae_accKey E))" by (rule SetAccount_supply(1) [OF set w2(4)])
  show "w_stores t n = w_stores w n" if "n \<noteq> ae_accKey E"
    using SetAccount_Val(3) [OF set that] w2(5) [OF that] by simp
qed

lemma setCoins_ok:
  assumes "setCoins E a cs w = (Val u, t)" and "bank_ok E w" and "sorted_denoms cs" and "Coins_IsNotNegative cs"
  shows "bank_ok E t" and "balance E t = (balance E w)(a := amt cs)"
proof -
  obtain acc where t: "acct E t = (acct E w)(a \<mapsto> SetCoins acc cs)" "ba_Address acc = a"
    using setCoins_Val(1) [OF assms(1,2)] by blast
  show "bank_ok E t"
    using assms(2-4) setCoins_Val(3) [OF assms(1,2)] t by (auto simp: bank_ok_def accts_ok_def SetCoins_def)
  show "balance E t = (balance E w)(a := amt cs)"
    by (auto simp: balance_def t(1) SetCoins_def fun_eq_iff)
qed

lemma getCoins_bal:
  assumes "getCoins E a w = (Val cs, t)" and "bank_ok E w"
  shows "w_stores t = w_stores w" and "bank_ok E t" and "sorted_denoms cs" and "amt cs = balance E w a"
  using getCoins_Val [OF assms(1)] assms(2) coin_views_cong(1) [of t E w]
  by (auto simp: bank_ok_def balance_def fun_eq_iff split: option.splits)

lemma update_Val:
  assumes get: "getCoins E a w = (Val old, u)" and set: "setCoins E a new u = (Val x, t)"
    and ok: "bank_ok E w" and new: "sorted_denoms new" "Coins_IsNotNegative new"
  shows "bank_ok E t" and "balance E t = (balance E w)(a := amt new)"
    and "coin_supply E t d = coin_supply E w d - balance E w a d + amt new d"
    and "n \<noteq> ae_accKey E \<Longrightarrow> w_stores t n = w_stores w n"
proof -
  note u = getCoins_bal [OF get ok]
  have view: "balance E u = balance E w" "coin_supply E u = coin_supply E w"
    by (rule coin_views_cong, simp only: u(1))+
  show "bank_ok E t" and "balance E t = (balance E w)(a := amt new)"
    using setCoins_ok [OF set u(2) new] view by simp_all
  show "coin_supply E t d = coin_supply E w d - balance E w a d + amt new d"
    using setCoins_Val(2) [OF set u(2)] view by simp
  show "n \<noteq> ae_accKey E \<Longrightarrow> w_stores t n = w_stores w n"
    using setCoins_Val(4) [OF set u(2)] u(1) by simp
qed

lemma subtractCoins_Inr:
  assumes "subtractCoins E a cs w = (Val (Inr r), t)" and "bank_ok E w" and "sorted_denoms cs"
  shows "bank_ok E t \<and> balance E t = (balance E w)(a := \<lambda>d. balance E w a d - amt cs d)
    \<and> coin_supply E t = (\<lambda>d. coin_supply E w d - amt cs d)
    \<and> (\<forall>n. n \<noteq> ae_accKey E \<longrightarrow> w_stores t n = w_stores w n)"
proof -
  obtain v u old new x where v: "w_stores v = w_stores w" and get: "getCoins E a v = (Val old, u)"
    and minus: "Coins_Minus old cs = Val new" and nn: "Coins_IsNotNegative new"
    and set: "setCoins E a new u = (Val x, t)"
    using assms(1) unfolding subtractCoins_def
    by (auto simp: run_iffs split: if_splits dest!: consume_acct)
  have ok: "bank_ok E v" and view: "balance E v = balance E w" "coin_supply E v = coin_supply E w"
    using coin_views_cong [of v E w] v assms(2) by simp_all
  note old = getCoins_bal(3,4) [OF get ok]
  have new: "sorted_denoms new" "\<And>d. amt new d = balance E w a d - amt cs d"
    using Coins_Minus_facts(1,2) [OF old(1) assms(3) minus] old(2) view by simp_all
  show ?thesis
    using update_Val [OF get set ok new(1) nn] view new(2) v by (auto simp: fun_eq_iff)
qed

lemma addCoins_Inr:
  assumes "addCoins E a cs w = (Val (Inr r), t)" and "bank_ok E w" and "sorted_denoms cs"
  shows "bank_ok E t \<and> balance E t = (balance E w)(a := \<lambda>d. balance E w a d + amt cs d)
    \<and> coin_supply E t = (\<lambda>d. coin_supply E w d + amt cs d)
    \<and> (\<forall>n. n \<noteq> ae_accKey E \<longrightarrow> w_stores t n = w_stores w n)"
proof -
  obtain v u old new x where v: "w_stores v = w_stores w" and get: "getCoins E a v = (Val old, u)"
    and plus: "Coins_Plus old cs = Val new" and nn: "Coins_IsNotNegative new"
    and set: "setCoins E a new u = (Val x, t)"
    using assms(1) unfolding addCoins_def
    by (auto simp: run_iffs split: if_splits dest!: consume_acct)
  have ok: "bank_ok E v" and view: "balance E v = balance E w" "coin_supply E v = coin_supply E w"
    using coin_views_cong [of v E w] v assms(2) by simp_all
  note old = getCoins_bal(3,4) [OF get ok]
  have new: "sorted_denoms new" "\<And>d. amt new d = balance E w a d + amt cs d"
    using Coins_Plus_facts [OF old(1) assms(3) plus] old(2) view by simp_all
  show ?thesis
    using update_Val [OF get set ok new(1) nn] view new(2) v by (auto simp: fun_eq_iff)
qed

lemma subtractCoins_Inl: "subtractCoins E a cs w = (Val (Inl e), t) \<Longrightarrow> w_stores t = w_stores w"
  unfolding subtractCoins_def
  by (auto simp: run_iffs split: if_splits dest!: consume_acct getCoins_Val)

lemma addCoins_Inl: "addCoins E a cs w = (Val (Inl e), t) \<Longrightarrow> w_stores t = w_stores w"
  unfolding addCoins_def
  by (auto simp: run_iffs split: if_splits dest!: consume_acct getCoins_Val)

end

sublocale auth_codec \<subseteq> bank: coin_keeper "ae_accKey E" "bank_ok E" "balance E" "coin_supply E"
    "subtractCoins E" "addCoins E"
proof
  fix t w :: world assume "w_stores t (ae_accKey E) = w_stores w (ae_accKey E)"
  then show "bank_ok E t = bank_ok E w \<and> balance E t = balance E w \<and> coin_supply E t = coin_supply E w"
    using coin_views_cong by blast
next
  fix w a d assume "bank_ok E w"
  then show "0 \<le> balance E w a d"
    using sorted_nonneg_iff by (auto simp: bank_ok_def balance_def split: option.splits)
qed (fact subtractCoins_Inr subtractCoins_Inl addCoins_Inr addCoins_Inl)+

section \<open>Transfers with several inputs and outputs\<close>

text \<open>What an address pays and receives.\<close>

definition paid_in :: "Input list \<Rightarrow> bytes \<Rightarrow> string \<Rightarrow> int" where
  "paid_in ins a d = sum_list (map (\<lambda>i. if in_Address i = a then amt (in_Coins i) d else 0) ins)"

definition paid_out :: "Output list \<Rightarrow> bytes \<Rightarrow> string \<Rightarrow> int" where
  "paid_out outs a d = sum_list (map (\<lambda>out. if out_Address out = a then amt (out_Coins out) d else 0) outs)"

definition total_in :: "Input list \<Rightarrow> string \<Rightarrow> int" where
  "total_in ins d = sum_list (map (\<lambda>i. amt (in_Coins i) d) ins)"

definition total_out :: "Output list \<Rightarrow> string \<Rightarrow> int" where
  "total_out outs d = sum_list (map (\<lambda>out. amt (out_Coins out) d) outs)"

lemmas sums_simps [simp] = paid_in_def paid_out_def total_in_def total_out_def

context auth_codec
begin

lemma inputs_loop_Inr:
  assumes "inputs_loop E ins tags w = (Val (Inr r), t)" and "bank_ok E w"
    and "\<forall>i \<in> set ins. sorted_denoms (in_Coins i)"
  shows "bank_ok E t \<and> (\<forall>a d. balance E t a d = balance E w a d - paid_in ins a d)
    \<and> (\<forall>d. coin_supply E t d = coin_supply E w d - total_in ins d)"
  using assms
proof (induction ins arbitrary: tags w)
  case (Cons i ins)
  obtain x u where sub: "subtractCoins E (in_Address i) (in_Coins i) w = (Val (Inr x), u)"
    and rest: "inputs_loop E ins (AppendTags tags (snd x)) u = (Val (Inr r), t)"
    using Cons.prems(1) by (auto simp: run_iffs split: sum.splits)
  show ?case
    using bank.sub_Inr [OF sub Cons.prems(2)] Cons.IH [OF rest] Cons.prems(3) by auto
qed (auto simp: run_iffs)

lemma outputs_loop_Inr:
  assumes "outputs_loop E outs tags w = (Val (Inr r), t)" and "bank_ok E w"
    and "\<forall>out \<in> set outs. sorted_denoms (out_Coins out)"
  shows "bank_ok E t \<and> (\<forall>a d. balance E t a d = balance E w a d + paid_out outs a d)
    \<and> (\<forall>d. coin_supply E t d = coin_supply E w d + total_out outs d)"
  using assms
proof (induction outs arbitrary: tags w)
  case (Cons out outs)
  obtain x u where add: "addCoins E (out_Address out) (out_Coins out) w = (Val (Inr x), u)"
    and rest: "outputs_loop E outs (AppendTags tags (snd x)) u = (Val (Inr r), t)"
    using Cons.prems(1) by (auto simp: run_iffs split: sum.splits)
  show ?case
    using bank.add_Inr [OF add Cons.prems(2)] Cons.IH [OF rest] Cons.prems(3) by auto
qed (auto simp: run_iffs)

lemma inputOutputCoins_Inr:
  assumes "inputOutputCoins E ins outs w = (Val (Inr r), t)" and "bank_ok E w"
    and "\<forall>i \<in> set ins. sorted_denoms (in_Coins i)" and "\<forall>out \<in> set outs. sorted_denoms (out_Coins out)"
  shows "bank_ok E t \<and> (\<forall>a d. balance E t a d = balance E w a d - paid_in ins a d + paid_out outs a d)
    \<and> (\<forall>d. coin_supply E t d = coin_supply E w d - total_in ins d + total_out outs d)"
proof -
  obtain tags u where ins: "inputs_loop E ins EmptyTags w = (Val (Inr tags), u)"
    and outs: "outputs_loop E outs tags u = (Val (Inr r), t)"
    using assms(1) by (auto simp: inputOutputCoins_def run_iffs split: sum.splits)
  show ?thesis
    using inputs_loop_Inr [OF ins assms(2,3)] outputs_loop_Inr [OF outs _ assms(4)] by simp
qed

lemma inputs_loop_any:
  assumes "inputs_loop E ins tags w = (Val r, t)" and "bank_ok E w"
    and "\<forall>i \<in> set ins. sorted_denoms (in_Coins i)"
  shows "bank_ok E t \<and> (\<forall>n. n \<noteq> ae_accKey E \<longrightarrow> w_stores t n = w_stores w n)"
  using assms
proof (induction ins arbitrary: tags w)
  case (Cons i ins)
  obtain x u where sub: "subtractCoins E (in_Address i) (in_Coins i) w = (Val x, u)"
    and rest: "(case x of Inl err \<Rightarrow> ret (Inl err) | Inr (_, ts) \<Rightarrow> inputs_loop E ins (AppendTags tags ts)) u = (Val r, t)"
    using Cons.prems(1) by (auto simp: bnd_Val_iff)
  have "bank_ok E u \<and> (\<forall>n. n \<noteq> ae_accKey E \<longrightarrow> w_stores u n = w_stores w n)"
    using bank.sub_any [OF sub Cons.prems(2)] Cons.prems(3) by simp
  then show ?case using rest Cons.IH Cons.prems(3) by (fastforce simp: run_iffs split: sum.splits)
qed (auto simp: run_iffs)

lemma outputs_loop_any:
  assumes "outputs_loop E outs tags w = (Val r, t)" and "bank_ok E w"
    and "\<forall>out \<in> set outs. sorted_denoms (out_Coins out)"
  shows "bank_ok E t \<and> (\<forall>n. n \<noteq> ae_accKey E \<longrightarrow> w_stores t n = w_stores w n)"
  using assms
proof (induction outs arbitrary: tags w)
  case (Cons out outs)
  obtain x u where add: "addCoins E (out_Address out) (out_Coins out) w = (Val x, u)"
    and rest: "(case x of Inl err \<Rightarrow> ret (Inl err) | Inr (_, ts) \<Rightarrow> outputs_loop E outs (AppendTags tags ts)) u = (Val r, t)"
    using Cons.prems(1) by (auto simp: bnd_Val_iff)
  have "bank_ok E u \<and> (\<forall>n. n \<noteq> ae_accKey E \<longrightarrow> w_stores u n = w_stores w n)"
    using bank.add_any [OF add Cons.prems(2)] Cons.prems(3) by simp
  then show ?case using rest Cons.IH Cons.prems(3) by (fastforce simp: run_iffs split: sum.splits)
qed (auto simp: run_iffs)

end

context auth_codec
begin

lemma inputOutputCoins_any:
  assumes "inputOutputCoins E ins outs w = (Val r, t)" and "bank_ok E w"
    and "\<forall>i \<in> set ins. sorted_denoms (in_Coins i)" and "\<forall>out \<in> set outs. sorted_denoms (out_Coins out)"
  shows "bank_ok E t \<and> (\<forall>n. n \<noteq> ae_accKey E \<longrightarrow> w_stores t n = w_stores w n)"
proof -
  obtain x u where ins: "inputs_loop E ins EmptyTags w = (Val x, u)"
    and rest: "(case x of Inl err \<Rightarrow> ret (Inl err) | Inr tags \<Rightarrow> outputs_loop E outs tags) u = (Val r, t)"
    using assms(1) by (auto simp: inputOutputCoins_def bnd_Val_iff)
  have u: "bank_ok E u \<and> (\<forall>n. n \<noteq> ae_accKey E \<longrightarrow> w_stores u n = w_stores w n)"
    by (rule inputs_loop_any [OF ins assms(2,3)])
  show ?thesis
  proof (cases x)
    case (Inl e)
    then show ?thesis using rest u by (simp add: run_iffs)
  next
    case (Inr tags)
    then show ?thesis using outputs_loop_any [of outs tags u r t] rest u assms(4) by simp
  qed
qed

end

lemma subtractCoins_err: "subtractCoins E a cs w = (Val (Inl e), t) \<Longrightarrow> e = ErrInsufficientCoins"
  by (auto simp: subtractCoins_def run_iffs split: if_splits)

lemma addCoins_err: "addCoins E a cs w = (Val (Inl e), t) \<Longrightarrow> e = ErrInsufficientCoins"
  by (auto simp: addCoins_def run_iffs split: if_splits)

lemma inputs_loop_err: "inputs_loop E ins tags w = (Val (Inl e), t) \<Longrightarrow> e = ErrInsufficientCoins"
  by (induction ins arbitrary: tags w) (auto simp: run_iffs split: sum.splits dest: subtractCoins_err)

lemma outputs_loop_err: "outputs_loop E outs tags w = (Val (Inl e), t) \<Longrightarrow> e = ErrInsufficientCoins"
  by (induction outs arbitrary: tags w) (auto simp: run_iffs split: sum.splits dest: addCoins_err)

lemma inputOutputCoins_err: "inputOutputCoins E ins outs w = (Val (Inl e), t) \<Longrightarrow> e = ErrInsufficientCoins"
  by (auto simp: inputOutputCoins_def run_iffs split: sum.splits dest: inputs_loop_err outputs_loop_err)

lemma ErrInsufficientCoins_not_OK [simp]: "\<not> Result_IsOK (Error_Result ErrInsufficientCoins)"
  by (rule Error_Result_not_OK) (simp add: ErrInsufficientCoins_def newErrorWithRootCodespace_def newError_def CodeInsufficientCoins_def)

lemma keeper_err_not_OK:
  "subtractCoins E a cs w = (Val (Inl e), t) \<Longrightarrow> \<not> Result_IsOK (Error_Result e)"
  "addCoins E a cs w = (Val (Inl e), t) \<Longrightarrow> \<not> Result_IsOK (Error_Result e)"
  using subtractCoins_err addCoins_err ErrInsufficientCoins_not_OK by metis+

section \<open>What validation accepts\<close>

definition payable :: "bytes \<Rightarrow> Coins \<Rightarrow> bool" where
  "payable a cs \<longleftrightarrow> a \<noteq> [] \<and> cs \<noteq> [] \<and> sorted_denoms cs \<and> (\<forall>c \<in> set cs. 0 < Amount c)"

lemma positive_valid: "cs \<noteq> [] \<Longrightarrow> \<forall>c \<in> set cs. 0 < Amount c \<Longrightarrow> Coins_IsValid cs \<longleftrightarrow> sorted_denoms cs"
  by (cases cs) (auto simp: Coins_IsValid_iff)

lemma Coins_IsPositive_iff: "Coins_IsPositive cs \<longleftrightarrow> cs \<noteq> [] \<and> (\<forall>c \<in> set cs. 0 < Amount c)"
  by (cases cs) (auto simp: Coins_IsPositive_def list_all_iff)

lemma Input_ValidateBasic_None: "Input_ValidateBasic i = None \<longleftrightarrow> payable (in_Address i) (in_Coins i)"
  using positive_valid [of "in_Coins i"]
  by (auto simp: Input_ValidateBasic_def payable_def Coins_IsPositive_iff split: if_splits)

lemma Output_ValidateBasic_None: "Output_ValidateBasic out = None \<longleftrightarrow> payable (out_Address out) (out_Coins out)"
  using positive_valid [of "out_Coins out"]
  by (auto simp: Output_ValidateBasic_def payable_def Coins_IsPositive_iff split: if_splits)

definition positive_coins :: "Coins \<Rightarrow> bool" where
  "positive_coins cs \<longleftrightarrow> sorted_denoms cs \<and> (\<forall>c \<in> set cs. 0 < Amount c)"

lemma Plus_positive_coins:
  assumes "positive_coins as" and "positive_coins bs" and "Coins_Plus as bs = Val r"
  shows "positive_coins r \<and> (\<forall>d. amt r d = amt as d + amt bs d)"
  using assms Coins_Plus_positive [OF _ _ assms(3)] Coins_Plus_facts [OF _ _ assms(3)]
  unfolding positive_coins_def by blast

lemma payable_positive: "payable a cs \<Longrightarrow> positive_coins cs"
  by (simp add: payable_def positive_coins_def)

lemma validate_inputs_spec:
  assumes "validate_inputs ins acc = Val r" and "positive_coins acc"
  shows "case r of Inl e \<Rightarrow> \<exists>i \<in> set ins. \<not> payable (in_Address i) (in_Coins i)
    | Inr tot \<Rightarrow> (\<forall>i \<in> set ins. payable (in_Address i) (in_Coins i)) \<and> positive_coins tot
        \<and> (\<forall>d. amt tot d = amt acc d + total_in ins d)"
  using assms
proof (induction ins arbitrary: acc)
  case (Cons i ins)
  show ?case
  proof (cases "payable (in_Address i) (in_Coins i)")
    case True
    then have "Input_ValidateBasic i = None" by (simp add: Input_ValidateBasic_None)
    then obtain acc' where p: "Coins_Plus acc (in_Coins i) = Val acc'" "validate_inputs ins acc' = Val r"
      using Cons.prems(1) by (auto simp: obind_Val_iff)
    have "positive_coins acc' \<and> (\<forall>d. amt acc' d = amt acc d + amt (in_Coins i) d)"
      by (rule Plus_positive_coins [OF Cons.prems(2) payable_positive [OF True] p(1)])
    then show ?thesis using Cons.IH [OF p(2)] True by (auto split: sum.splits)
  next
    case False
    then show ?thesis
      using Cons.prems(1) Input_ValidateBasic_None [of i] by (auto split: option.splits)
  qed
qed auto

lemma validate_outputs_spec:
  assumes "validate_outputs outs acc = Val r" and "positive_coins acc"
  shows "case r of Inl e \<Rightarrow> \<exists>out \<in> set outs. \<not> payable (out_Address out) (out_Coins out)
    | Inr tot \<Rightarrow> (\<forall>out \<in> set outs. payable (out_Address out) (out_Coins out)) \<and> positive_coins tot
        \<and> (\<forall>d. amt tot d = amt acc d + total_out outs d)"
  using assms
proof (induction outs arbitrary: acc)
  case (Cons out outs)
  show ?case
  proof (cases "payable (out_Address out) (out_Coins out)")
    case True
    then have "Output_ValidateBasic out = None" by (simp add: Output_ValidateBasic_None)
    then obtain acc' where p: "Coins_Plus acc (out_Coins out) = Val acc'" "validate_outputs outs acc' = Val r"
      using Cons.prems(1) by (auto simp: obind_Val_iff)
    have "positive_coins acc' \<and> (\<forall>d. amt acc' d = amt acc d + amt (out_Coins out) d)"
      by (rule Plus_positive_coins [OF Cons.prems(2) payable_positive [OF True] p(1)])
    then show ?thesis using Cons.IH [OF p(2)] True by (auto split: sum.splits)
  next
    case False
    then show ?thesis
      using Cons.prems(1) Output_ValidateBasic_None [of out] by (auto split: option.splits)
  qed
qed auto

definition balanced :: "MsgSend \<Rightarrow> bool" where
  "balanced msg \<longleftrightarrow> msend_Inputs msg \<noteq> [] \<and> msend_Outputs msg \<noteq> []
     \<and> (\<forall>i \<in> set (msend_Inputs msg). payable (in_Address i) (in_Coins i))
     \<and> (\<forall>out \<in> set (msend_Outputs msg). payable (out_Address out) (out_Coins out))
     \<and> (\<forall>d. total_in (msend_Inputs msg) d = total_out (msend_Outputs msg) d)"

lemma MsgSend_ValidateBasic_iff:
  assumes "MsgSend_ValidateBasic msg = Val r"
  shows "r = None \<longleftrightarrow> balanced msg"
proof (cases "msend_Inputs msg = [] \<or> msend_Outputs msg = []")
  case True
  then show ?thesis using assms by (auto simp: MsgSend_ValidateBasic_def balanced_def split: if_splits)
next
  case False
  have nil: "positive_coins []" by (simp add: positive_coins_def)
  obtain rin where rin: "validate_inputs (msend_Inputs msg) [] = Val rin"
    using assms False by (auto simp: MsgSend_ValidateBasic_def obind_Val_iff)
  show ?thesis
  proof (cases rin)
    case (Inl e)
    then show ?thesis
      using assms False rin validate_inputs_spec [OF rin nil]
      by (auto simp: MsgSend_ValidateBasic_def balanced_def)
  next
    case (Inr tin)
    obtain rout where rout: "validate_outputs (msend_Outputs msg) [] = Val rout"
      using assms False rin Inr by (auto simp: MsgSend_ValidateBasic_def obind_Val_iff)
    show ?thesis
    proof (cases rout)
      case (Inl e)
      then show ?thesis
        using assms False rin Inr rout validate_outputs_spec [OF rout nil]
        by (auto simp: MsgSend_ValidateBasic_def balanced_def)
    next
      case (Inr tout)
      have r: "r = None \<longleftrightarrow> tin = tout"
        using assms False rin \<open>rin = Inr tin\<close> rout Inr
        by (auto simp: MsgSend_ValidateBasic_def Coins_IsEqual_iff split: if_splits)
      have ti: "positive_coins tin" "\<And>d. amt tin d = total_in (msend_Inputs msg) d"
        "\<forall>i \<in> set (msend_Inputs msg). payable (in_Address i) (in_Coins i)"
        using validate_inputs_spec [OF rin nil] \<open>rin = Inr tin\<close> by simp_all
      have to: "positive_coins tout" "\<And>d. amt tout d = total_out (msend_Outputs msg) d"
        "\<forall>out \<in> set (msend_Outputs msg). payable (out_Address out) (out_Coins out)"
        using validate_outputs_spec [OF rout nil] Inr by simp_all
      have "tin = tout \<longleftrightarrow> (\<forall>d. amt tin d = amt tout d)"
        using sorted_nonzero_ext [of tin tout] ti(1) to(1) by (fastforce simp: positive_coins_def)
      then show ?thesis using r False ti to by (simp add: balanced_def)
    qed
  qed
qed

lemma handleMsgSend_spec:
  assumes "auth_codec E" and "bank_ok E w" and "MsgSend_ValidateBasic msg = Val None"
    and "handleMsgSend E msg w = (Val res, t)"
  shows "bank_ok E t \<and>
    (if Result_IsOK res
     then (\<forall>a d. balance E t a d = balance E w a d - paid_in (msend_Inputs msg) a d + paid_out (msend_Outputs msg) a d)
        \<and> coin_supply E t = coin_supply E w
     else res = Error_Result ErrInsufficientCoins)
    \<and> (\<forall>n. n \<noteq> ae_accKey E \<longrightarrow> w_stores t n = w_stores w n)"
proof -
  have bal: "balanced msg" using MsgSend_ValidateBasic_iff [OF assms(3)] by simp
  have coins: "\<forall>i \<in> set (msend_Inputs msg). sorted_denoms (in_Coins i)"
    "\<forall>out \<in> set (msend_Outputs msg). sorted_denoms (out_Coins out)"
    using bal by (auto simp: balanced_def payable_def)
  obtain r where r: "inputOutputCoins E (msend_Inputs msg) (msend_Outputs msg) w = (Val r, t)"
    and res: "res = (case r of Inl e \<Rightarrow> Error_Result e | Inr tags \<Rightarrow> emptyResult\<lparr>res_Tags := tags\<rparr>)"
    using assms(4) by (auto simp: handleMsgSend_def run_iffs split: sum.splits)
  have frame: "bank_ok E t \<and> (\<forall>n. n \<noteq> ae_accKey E \<longrightarrow> w_stores t n = w_stores w n)"
    by (rule auth_codec.inputOutputCoins_any [OF assms(1) r assms(2) coins])
  show ?thesis
  proof (cases r)
    case (Inl e)
    have "e = ErrInsufficientCoins" using inputOutputCoins_err r Inl by blast
    then show ?thesis using res Inl frame by simp
  next
    case (Inr tags)
    have "Result_IsOK res" using res Inr by (simp add: Result_IsOK_def WRSPCodeType_IsOK_def emptyResult_def WRSPCodeOK_def)
    moreover note auth_codec.inputOutputCoins_Inr [OF assms(1) r [unfolded Inr] assms(2) coins]
    ultimately show ?thesis using bal frame by (auto simp: balanced_def fun_eq_iff simp del: sums_simps)
  qed
qed

definition ex_send :: MsgSend where
  "ex_send = \<lparr>msend_Inputs = [\<lparr>in_Address = ''bob'', in_Coins = [NewCoin ''atom'' 5]\<rparr>],
     msend_Outputs = [\<lparr>out_Address = ''al'', out_Coins = [NewCoin ''atom'' 2]\<rparr>,
                      \<lparr>out_Address = ''eve'', out_Coins = [NewCoin ''atom'' 3]\<rparr>]\<rparr>"

definition ex_sent :: world where
  "ex_sent = snd (handleMsgSend net_auth_env ex_send ex_world)"

lemma ex_bank_ok: "bank_ok net_auth_env ex_world"
  using ex_world_ok
  by (auto simp: bank_ok_def acct_def ex_world_def net_auth_env_def kv_Get_def ex_account_def NewCoin_def NewInt_def)

lemma ex_send_valid: "MsgSend_ValidateBasic ex_send = Val None"
  by code_simp

lemma ex_send_ok: "\<exists>tags. handleMsgSend net_auth_env ex_send ex_world = (Val (emptyResult\<lparr>res_Tags := tags\<rparr>), ex_sent)"
proof -
  have "fst (handleMsgSend net_auth_env ex_send ex_world) =
      Val (emptyResult\<lparr>res_Tags := [(''sender'', ''bob''), (''recipient'', ''al''), (''recipient'', ''eve'')]\<rparr>)"
    by code_simp
  then show ?thesis unfolding ex_sent_def by (metis prod.collapse)
qed

section \<open>Properties\<close>

text \<open>
  \<open>MsgSend.ValidateBasic\<close>, when it returns, accepts exactly the messages with at least one
  input and one output, every one with an address and with coins that are sorted, not empty and
  positive, and whose inputs and outputs have the same total in every denomination.
\<close>

theorem MsgSend_ValidateBasic_exact:
  "MsgSend_ValidateBasic msg = Val r \<Longrightarrow> r = None \<longleftrightarrow> balanced msg"
  by (rule MsgSend_ValidateBasic_iff)

theorem MsgSend_ValidateBasic_exact_witness: "balanced ex_send"
  using MsgSend_ValidateBasic_exact [OF ex_send_valid] by simp

text \<open>
  C9: handling a validated \<open>MsgSend\<close> keeps every balance sorted and not negative; when it
  succeeds, every address has what it had, less its inputs, plus its outputs, and the supply of
  every denomination over all accounts is unchanged; the one error it reports is that of
  insufficient coins.
\<close>

theorem handleMsgSend_correct:
  assumes "auth_codec E" and "bank_ok E w" and "MsgSend_ValidateBasic msg = Val None"
    and "handleMsgSend E msg w = (Val res, t)"
  shows "bank_ok E t \<and>
    (if Result_IsOK res
     then (\<forall>a d. balance E t a d = balance E w a d - paid_in (msend_Inputs msg) a d + paid_out (msend_Outputs msg) a d)
        \<and> coin_supply E t = coin_supply E w
     else res = Error_Result ErrInsufficientCoins)"
  using handleMsgSend_spec [OF assms] by blast

theorem handleMsgSend_correct_witness:
  "balance net_auth_env ex_sent ''bob'' ''atom'' = 95 \<and> balance net_auth_env ex_sent ''eve'' ''atom'' = 3
     \<and> coin_supply net_auth_env ex_sent = coin_supply net_auth_env ex_world"
proof -
  obtain tags where run: "handleMsgSend net_auth_env ex_send ex_world = (Val (emptyResult\<lparr>res_Tags := tags\<rparr>), ex_sent)"
    using ex_send_ok by blast
  have "Result_IsOK (emptyResult\<lparr>res_Tags := tags\<rparr>)"
    by (simp add: Result_IsOK_def WRSPCodeType_IsOK_def emptyResult_def WRSPCodeOK_def)
  moreover have "balance net_auth_env ex_world ''bob'' ''atom'' = 100" "balance net_auth_env ex_world ''eve'' ''atom'' = 0"
    by code_simp+
  ultimately show ?thesis
    using handleMsgSend_correct [OF net_auth.auth_codec_axioms ex_bank_ok ex_send_valid run]
    by (auto simp: ex_send_def NewCoin_def NewInt_def)
qed

end
