(* ===== verification/Ibc.thy ===== *)
theory Ibc
  imports Bank
begin

text \<open>
  The module \<open>x/ibc\<close>: packets between chains, the queue of outgoing packets per destination,
  the sequence of incoming ones per source, and the handler that takes coins out on one chain
  and puts them in on the other.  The binary and JSON codecs are parameters.
\<close>

section \<open>Errors\<close>

definition ibc_DefaultCodespace :: CodespaceType where "ibc_DefaultCodespace = 3"
definition ibc_CodeInvalidSequence :: CodeType where "ibc_CodeInvalidSequence = 200"
definition ibc_CodeIdenticalChains :: CodeType where "ibc_CodeIdenticalChains = 201"

definition ibc_codeToDefaultMsg :: "CodeType \<Rightarrow> string" where
  "ibc_codeToDefaultMsg cd =
     (if cd = ibc_CodeInvalidSequence then ''invalid IBC packet sequence''
      else if cd = ibc_CodeIdenticalChains then ''source and destination chain cannot be identical''
      else CodeToDefaultMsg cd)"

definition ibc_ErrInvalidSequence :: "CodespaceType \<Rightarrow> sdkError" where
  "ibc_ErrInvalidSequence codespace = NewError codespace ibc_CodeInvalidSequence"

definition ErrIdenticalChains :: "CodespaceType \<Rightarrow> sdkError" where
  "ErrIdenticalChains codespace = NewError codespace ibc_CodeIdenticalChains"

section \<open>Packets and messages\<close>

record IBCPacket =
  pkt_SrcAddr :: bytes
  pkt_DestAddr :: bytes
  pkt_Coins :: Coins
  pkt_SrcChain :: string
  pkt_DestChain :: string

record IBCTransferMsg =
  tr_IBCPacket :: IBCPacket

record IBCReceiveMsg =
  rcv_IBCPacket :: IBCPacket
  rcv_Relayer :: bytes
  rcv_Sequence :: int

record ibc_env =
  ib_key :: string
  ib_codespace :: CodespaceType
  ib_encPacket :: "IBCPacket \<Rightarrow> bytes"
  ib_decPacket :: "bytes \<Rightarrow> IBCPacket option"
  ib_encInt :: "int \<Rightarrow> bytes"
  ib_decInt :: "bytes \<Rightarrow> int option"
  ib_Bech32ifyAcc :: "bytes \<Rightarrow> string"
  ib_jsonPacket :: "string \<Rightarrow> string \<Rightarrow> Coins \<Rightarrow> string \<Rightarrow> string \<Rightarrow> bytes"
  ib_jsonReceive :: "bytes \<Rightarrow> string \<Rightarrow> int \<Rightarrow> bytes"

definition NewIBCPacket :: "bytes \<Rightarrow> bytes \<Rightarrow> Coins \<Rightarrow> string \<Rightarrow> string \<Rightarrow> IBCPacket" where
  "NewIBCPacket srcAddr destAddr coins srcChain destChain =
     \<lparr>pkt_SrcAddr = srcAddr, pkt_DestAddr = destAddr, pkt_Coins = coins,
      pkt_SrcChain = srcChain, pkt_DestChain = destChain\<rparr>"

definition IBCPacket_GetSignBytes :: "ibc_env \<Rightarrow> IBCPacket \<Rightarrow> bytes" where
  "IBCPacket_GetSignBytes I p =
     ib_jsonPacket I (ib_Bech32ifyAcc I (pkt_SrcAddr p)) (ib_Bech32ifyAcc I (pkt_DestAddr p))
       (pkt_Coins p) (pkt_SrcChain p) (pkt_DestChain p)"

definition IBCPacket_ValidateBasic :: "IBCPacket \<Rightarrow> sdkError option" where
  "IBCPacket_ValidateBasic p =
     (if pkt_SrcChain p = pkt_DestChain p then Some (ErrIdenticalChains ibc_DefaultCodespace)
      else if \<not> Coins_IsValid (pkt_Coins p) then Some ErrInvalidCoins
      else None)"

definition IBCReceiveMsg_GetSignBytes :: "ibc_env \<Rightarrow> IBCReceiveMsg \<Rightarrow> bytes" where
  "IBCReceiveMsg_GetSignBytes I msg =
     ib_jsonReceive I (IBCPacket_GetSignBytes I (rcv_IBCPacket msg)) (ib_Bech32ifyAcc I (rcv_Relayer msg)) (rcv_Sequence msg)"

datatype ibc_msg = IbcTransfer IBCTransferMsg | IbcReceive IBCReceiveMsg

definition ibc_Msg :: "ibc_env \<Rightarrow> ibc_msg Msg" where
  "ibc_Msg I =
     \<lparr>msg_Type = (\<lambda>_. ''ibc''),
      msg_ValidateBasic = (\<lambda>m. case m of
          IbcTransfer tr \<Rightarrow> Val (IBCPacket_ValidateBasic (tr_IBCPacket tr))
        | IbcReceive rcv \<Rightarrow> Val (IBCPacket_ValidateBasic (rcv_IBCPacket rcv))),
      msg_GetSignBytes = (\<lambda>m. case m of
          IbcTransfer tr \<Rightarrow> IBCPacket_GetSignBytes I (tr_IBCPacket tr)
        | IbcReceive rcv \<Rightarrow> IBCReceiveMsg_GetSignBytes I rcv),
      msg_GetSigners = (\<lambda>m. case m of
          IbcTransfer tr \<Rightarrow> [pkt_SrcAddr (tr_IBCPacket tr)]
        | IbcReceive rcv \<Rightarrow> [rcv_Relayer rcv])\<rparr>"

section \<open>The mapper\<close>

definition EgressKey :: "string \<Rightarrow> int \<Rightarrow> bytes" where
  "EgressKey destChain index = ''egress/'' @ destChain @ ''/'' @ show_int index"

definition EgressLengthKey :: "string \<Rightarrow> bytes" where
  "EgressLengthKey destChain = ''egress/'' @ destChain"

definition IngressSequenceKey :: "string \<Rightarrow> bytes" where
  "IngressSequenceKey srcChain = ''ingress/'' @ srcChain"

definition getEgressLength :: "ibc_env \<Rightarrow> string \<Rightarrow> (world, int) M" where
  "getEgressLength I destChain =
     bnd (gas_Get (ib_key I) (EgressLengthKey destChain)) (\<lambda>bz. case bz of
       None \<Rightarrow>
         bnd (gas_Set (ib_key I) (EgressLengthKey destChain) (ib_encInt I 0)) (\<lambda>_. ret 0)
     | Some b \<Rightarrow> must (ib_decInt I b))"

definition PostIBCPacket :: "ibc_env \<Rightarrow> IBCPacket \<Rightarrow> (world, sdkError option) M" where
  "PostIBCPacket I packet =
     bnd (getEgressLength I (pkt_DestChain packet)) (\<lambda>index.
     bnd (gas_Set (ib_key I) (EgressKey (pkt_DestChain packet) index) (ib_encPacket I packet)) (\<lambda>_.
     bnd (gas_Set (ib_key I) (EgressLengthKey (pkt_DestChain packet)) (ib_encInt I (wrap64 (index + 1)))) (\<lambda>_.
     ret None)))"

definition ReceiveIBCPacket :: "ibc_env \<Rightarrow> IBCPacket \<Rightarrow> (world, sdkError option) M" where
  "ReceiveIBCPacket I packet = ret None"

definition GetIngressSequence :: "ibc_env \<Rightarrow> string \<Rightarrow> (world, int) M" where
  "GetIngressSequence I srcChain =
     bnd (gas_Get (ib_key I) (IngressSequenceKey srcChain)) (\<lambda>bz. case bz of
       None \<Rightarrow>
         bnd (gas_Set (ib_key I) (IngressSequenceKey srcChain) (ib_encInt I 0)) (\<lambda>_. ret 0)
     | Some b \<Rightarrow> must (ib_decInt I b))"

definition SetIngressSequence :: "ibc_env \<Rightarrow> string \<Rightarrow> int \<Rightarrow> (world, unit) M" where
  "SetIngressSequence I srcChain sequence =
     gas_Set (ib_key I) (IngressSequenceKey srcChain) (ib_encInt I sequence)"

section \<open>The handler\<close>

definition handleIBCTransferMsg :: "auth_env \<Rightarrow> ibc_env \<Rightarrow> IBCTransferMsg \<Rightarrow> (world, Result) M" where
  "handleIBCTransferMsg E I msg =
     (let packet = tr_IBCPacket msg in
      bnd (subtractCoins E (pkt_SrcAddr packet) (pkt_Coins packet)) (\<lambda>r. case r of
        Inl err \<Rightarrow> ret (Error_Result err)
      | Inr _ \<Rightarrow>
          bnd (PostIBCPacket I packet) (\<lambda>r. case r of
            Some err \<Rightarrow> ret (Error_Result err)
          | None \<Rightarrow> ret emptyResult)))"

definition handleIBCReceiveMsg :: "auth_env \<Rightarrow> ibc_env \<Rightarrow> IBCReceiveMsg \<Rightarrow> (world, Result) M" where
  "handleIBCReceiveMsg E I msg =
     (let packet = rcv_IBCPacket msg in
      bnd (GetIngressSequence I (pkt_SrcChain packet)) (\<lambda>seq.
      if rcv_Sequence msg \<noteq> seq then ret (Error_Result (ibc_ErrInvalidSequence (ib_codespace I)))
      else
        bnd (addCoins E (pkt_DestAddr packet) (pkt_Coins packet)) (\<lambda>r. case r of
          Inl err \<Rightarrow> ret (Error_Result err)
        | Inr _ \<Rightarrow>
            bnd (SetIngressSequence I (pkt_SrcChain packet) (wrap64 (seq + 1))) (\<lambda>_.
            ret emptyResult))))"

definition ibc_NewHandler :: "auth_env \<Rightarrow> ibc_env \<Rightarrow> ibc_msg option \<Rightarrow> (world, Result) M" where
  "ibc_NewHandler E I msg = (case msg of
     Some (IbcTransfer m) \<Rightarrow> handleIBCTransferMsg E I m
   | Some (IbcReceive m) \<Rightarrow> handleIBCReceiveMsg E I m
   | None \<Rightarrow> ret (Error_Result ErrUnknownRequest))"

section \<open>What the store holds\<close>

definition counter_at :: "ibc_env \<Rightarrow> world \<Rightarrow> bytes \<Rightarrow> int option" where
  "counter_at I w k = (case kv_Get (w_stores w (ib_key I)) k of None \<Rightarrow> Some 0 | Some b \<Rightarrow> ib_decInt I b)"

definition egress_len :: "ibc_env \<Rightarrow> world \<Rightarrow> string \<Rightarrow> int option" where
  "egress_len I w c = counter_at I w (EgressLengthKey c)"

definition ingress_seq :: "ibc_env \<Rightarrow> world \<Rightarrow> string \<Rightarrow> int option" where
  "ingress_seq I w c = counter_at I w (IngressSequenceKey c)"

definition egress :: "ibc_env \<Rightarrow> world \<Rightarrow> string \<Rightarrow> int \<Rightarrow> IBCPacket option" where
  "egress I w c i = Option.bind (kv_Get (w_stores w (ib_key I)) (EgressKey c i)) (ib_decPacket I)"

lemma show_int_eq [simp]: "show_int i = show_int j \<longleftrightarrow> i = j"
  by (metis SetString0_show_int option.inject)

lemma ibc_keys_distinct [simp]:
  "EgressKey c i = EgressKey c j \<longleftrightarrow> i = j"
  "EgressKey c i \<noteq> EgressLengthKey c" "EgressLengthKey c \<noteq> EgressKey c i"
  "EgressKey c i \<noteq> IngressSequenceKey c'" "IngressSequenceKey c' \<noteq> EgressKey c i"
  "IngressSequenceKey c = IngressSequenceKey c' \<longleftrightarrow> c = c'"
  "EgressLengthKey c \<noteq> IngressSequenceKey c'" "IngressSequenceKey c' \<noteq> EgressLengthKey c"
  by (simp_all add: EgressKey_def EgressLengthKey_def IngressSequenceKey_def)

text \<open>What the module relies on of the codec, and that it has a store of its own.\<close>

locale ibc_codec = auth_codec E for E :: auth_env +
  fixes I :: ibc_env
  assumes dec_packet: "ib_decPacket I (ib_encPacket I p) = Some p"
    and dec_counter: "ib_decInt I (ib_encInt I i) = Some i"
    and own_store: "ib_key I \<noteq> ae_accKey E"
begin

lemma getEgressLength_Val:
  assumes "getEgressLength I c w = (Val n, t)"
  shows "egress_len I w c = Some n" and "w_stores t (ae_accKey E) = w_stores w (ae_accKey E)"
    and "k \<noteq> EgressLengthKey c \<Longrightarrow> kv_Get (w_stores t (ib_key I)) k = kv_Get (w_stores w (ib_key I)) k"
  using assms own_store dec_counter
  by (auto simp: getEgressLength_def run_iffs egress_len_def counter_at_def
      dest!: gas_Get_Val gas_Set_Val split: option.splits)

lemma GetIngressSequence_Val:
  assumes "GetIngressSequence I c w = (Val n, t)"
  shows "ingress_seq I w c = Some n" and "w_stores t (ae_accKey E) = w_stores w (ae_accKey E)"
    and "k \<noteq> IngressSequenceKey c \<Longrightarrow> kv_Get (w_stores t (ib_key I)) k = kv_Get (w_stores w (ib_key I)) k"
  using assms own_store dec_counter
  by (auto simp: GetIngressSequence_def run_iffs counter_at_def ingress_seq_def
      dest!: gas_Get_Val gas_Set_Val split: option.splits if_splits)

text \<open>The store after a packet is posted.\<close>

definition posted :: "IBCPacket \<Rightarrow> world \<Rightarrow> world \<Rightarrow> bool" where
  "posted p w t \<longleftrightarrow> (\<exists>n. egress_len I w (pkt_DestChain p) = Some n
     \<and> kv_Get (w_stores t (ib_key I)) = (kv_Get (w_stores w (ib_key I)))
         (EgressKey (pkt_DestChain p) n \<mapsto> ib_encPacket I p,
          EgressLengthKey (pkt_DestChain p) \<mapsto> ib_encInt I (wrap64 (n + 1))))"

lemma PostIBCPacket_Val:
  assumes "PostIBCPacket I p w = (Val r, t)"
  shows "r = None \<and> posted p w t \<and> w_stores t (ae_accKey E) = w_stores w (ae_accKey E)"
proof -
  let ?c = "pkt_DestChain p"
  obtain n u where n: "getEgressLength I ?c w = (Val n, u)" and r: "r = None"
    and t: "w_stores t = (w_stores u)(ib_key I := kv_Set (kv_Set (w_stores u (ib_key I)) (EgressKey ?c n) (ib_encPacket I p))
      (EgressLengthKey ?c) (ib_encInt I (wrap64 (n + 1))))"
    using assms by (auto simp: PostIBCPacket_def run_iffs dest!: gas_Set_Val)
  note u = getEgressLength_Val [OF n]
  have "kv_Get (w_stores t (ib_key I)) = (kv_Get (w_stores w (ib_key I)))
      (EgressKey ?c n \<mapsto> ib_encPacket I p, EgressLengthKey ?c \<mapsto> ib_encInt I (wrap64 (n + 1)))"
    using u(3) by (auto simp: t fun_eq_iff)
  moreover have "w_stores t (ae_accKey E) = w_stores u (ae_accKey E)"
    using own_store by (simp add: t)
  ultimately show ?thesis using u(1,2) r by (auto simp: posted_def)
qed

lemma handleIBCTransferMsg_OK:
  assumes "handleIBCTransferMsg E I msg w = (Val res, t)" and "Result_IsOK res" and "bank_ok E w"
    and "p = tr_IBCPacket msg" and "sorted_denoms (pkt_Coins p)"
  shows "bank_ok E t \<and> coin_supply E t = (\<lambda>d. coin_supply E w d - amt (pkt_Coins p) d)
    \<and> balance E t = (balance E w)(pkt_SrcAddr p := \<lambda>d. balance E w (pkt_SrcAddr p) d - amt (pkt_Coins p) d)
    \<and> posted p w t"
proof -
  obtain r u where r: "subtractCoins E (pkt_SrcAddr p) (pkt_Coins p) w = (Val r, u)"
    and rest: "(case r of Inl err \<Rightarrow> ret (Error_Result err) | Inr _ \<Rightarrow> bnd (PostIBCPacket I p)
        (\<lambda>r. case r of Some err \<Rightarrow> ret (Error_Result err) | None \<Rightarrow> ret emptyResult)) u = (Val res, t)"
    using assms(1,4) by (auto simp: handleIBCTransferMsg_def Let_def bnd_Val_iff)
  obtain x where x: "r = Inr x"
    using rest assms(2) r by (cases r) (auto simp: run_iffs dest: keeper_err_not_OK)
  obtain q where post: "PostIBCPacket I p u = (Val q, t)"
    using rest x by (auto simp: run_iffs PostIBCPacket_Val split: option.splits)
  have acc: "w_stores t (ae_accKey E) = w_stores u (ae_accKey E)" and ib: "posted p u t"
    using PostIBCPacket_Val [OF post] by auto
  note sub = bank.sub_Inr [OF r [unfolded x] assms(3,5)]
  have "w_stores u (ib_key I) = w_stores w (ib_key I)" using sub own_store by auto
  then have "posted p w t" using ib by (simp add: posted_def egress_len_def counter_at_def)
  then show ?thesis using sub bank.views [OF acc] by simp
qed

text \<open>Coins that the sender has are taken without an error.\<close>

lemma subtractCoins_covered:
  assumes "subtractCoins E a cs w = (Val r, t)" and "bank_ok E w" and "sorted_denoms cs" and "\<forall>d. amt cs d \<le> balance E w a d"
  shows "\<exists>x. r = Inr x"
proof -
  obtain v u old new where v: "w_stores v = w_stores w" and get: "getCoins E a v = (Val old, u)"
    and minus: "Coins_Minus old cs = Val new" and r: "Coins_IsNotNegative new \<longrightarrow> (\<exists>x. r = Inr x)"
    using assms(1) unfolding subtractCoins_def
    by (auto simp: run_iffs split: if_splits dest!: consume_acct) blast+
  have ok: "bank_ok E v" and view: "balance E v = balance E w"
    using coin_views_cong [of v E w] v assms(2) by simp_all
  note old = getCoins_bal(3,4) [OF get ok]
  have new: "sorted_denoms new" "\<And>d. amt new d = balance E w a d - amt cs d"
    using Coins_Minus_facts(1,2) [OF old(1) assms(3) minus] old(2) view by simp_all
  have "\<forall>d. 0 \<le> amt new d" using new(2) assms(4) by simp
  then have "Coins_IsNotNegative new"
    using sorted_nonneg_iff [OF new(1)] by (simp add: Coins_IsNotNegative_def Coin_IsNotNegative_def Int_Sign_def list_all_iff)
  then show ?thesis using r by blast
qed

lemma handleIBCTransferMsg_covered:
  assumes "handleIBCTransferMsg E I msg w = (Val res, t)" and "bank_ok E w" and "p = tr_IBCPacket msg"
    and "sorted_denoms (pkt_Coins p)" and "\<forall>d. amt (pkt_Coins p) d \<le> balance E w (pkt_SrcAddr p) d"
  shows "Result_IsOK res"
  using assms(1,3) PostIBCPacket_Val subtractCoins_covered [OF _ assms(2,4,5)]
  by (fastforce simp: handleIBCTransferMsg_def Let_def run_iffs split: sum.splits option.splits)

lemma handleIBCTransferMsg_negative:
  assumes "handleIBCTransferMsg E I msg w = (Val res, t)" and "bank_ok E w" and "p = tr_IBCPacket msg"
    and "sorted_denoms (pkt_Coins p)" and "\<forall>d. amt (pkt_Coins p) d \<le> 0"
  shows "Result_IsOK res"
  using handleIBCTransferMsg_covered [OF assms(1-4)] assms(5) bank.nonneg [OF assms(2)] order_trans by blast

lemma handleIBCReceiveMsg_OK:
  assumes "handleIBCReceiveMsg E I msg w = (Val res, t)" and "Result_IsOK res" and "bank_ok E w"
    and "p = rcv_IBCPacket msg" and "sorted_denoms (pkt_Coins p)"
  shows "bank_ok E t \<and> coin_supply E t = (\<lambda>d. coin_supply E w d + amt (pkt_Coins p) d)
    \<and> balance E t = (balance E w)(pkt_DestAddr p := \<lambda>d. balance E w (pkt_DestAddr p) d + amt (pkt_Coins p) d)
    \<and> ingress_seq I w (pkt_SrcChain p) = Some (rcv_Sequence msg)
    \<and> kv_Get (w_stores t (ib_key I)) = (kv_Get (w_stores w (ib_key I)))
        (IngressSequenceKey (pkt_SrcChain p) \<mapsto> ib_encInt I (wrap64 (rcv_Sequence msg + 1)))"
proof -
  obtain seq u where seq: "GetIngressSequence I (pkt_SrcChain p) w = (Val seq, u)"
    and rest: "(if rcv_Sequence msg \<noteq> seq then ret (Error_Result (ibc_ErrInvalidSequence (ib_codespace I)))
      else bnd (addCoins E (pkt_DestAddr p) (pkt_Coins p)) (\<lambda>r. case r of Inl err \<Rightarrow> ret (Error_Result err)
        | Inr _ \<Rightarrow> bnd (SetIngressSequence I (pkt_SrcChain p) (wrap64 (seq + 1))) (\<lambda>_. ret emptyResult))) u
      = (Val res, t)"
    using assms(1,4) by (auto simp: handleIBCReceiveMsg_def Let_def bnd_Val_iff)
  have eq: "rcv_Sequence msg = seq"
    using rest assms(2) Error_Result_not_OK [of "ibc_ErrInvalidSequence (ib_codespace I)"]
    by (auto simp: run_iffs ibc_ErrInvalidSequence_def NewError_def newError_def ibc_CodeInvalidSequence_def split: if_splits)
  obtain x v where add: "addCoins E (pkt_DestAddr p) (pkt_Coins p) u = (Val (Inr x), v)"
    and set: "SetIngressSequence I (pkt_SrcChain p) (wrap64 (seq + 1)) v = (Val (), t)"
    using rest assms(2) eq by (auto simp: run_iffs split: sum.splits dest: keeper_err_not_OK)
  note u = GetIngressSequence_Val [OF seq]
  have ok: "bank_ok E u" and views: "balance E u = balance E w" "coin_supply E u = coin_supply E w"
    using bank.views [OF u(2)] assms(3) by simp_all
  note v = bank.add_Inr [OF add ok assms(5)]
  have t: "w_stores t = (w_stores v)(ib_key I := kv_Set (w_stores v (ib_key I)) (IngressSequenceKey (pkt_SrcChain p))
      (ib_encInt I (wrap64 (seq + 1))))"
    using gas_Set_Val set by (simp add: SetIngressSequence_def)
  have acc: "w_stores t (ae_accKey E) = w_stores v (ae_accKey E)" using own_store by (simp add: t)
  have "w_stores v (ib_key I) = w_stores u (ib_key I)" using v own_store by auto
  then have "kv_Get (w_stores t (ib_key I)) = (kv_Get (w_stores w (ib_key I)))
      (IngressSequenceKey (pkt_SrcChain p) \<mapsto> ib_encInt I (wrap64 (seq + 1)))"
    using u(3) by (auto simp: t fun_eq_iff)
  then show ?thesis using u(1) v views bank.views [OF acc] eq by simp
qed

end

section \<open>The books of a chain\<close>

text \<open>
  A run of the handlers of one chain, with the packets it sends and the messages with packets it
  accepts, in their order.  Every packet that passes its check can arrive, from any relayer, also
  one that no chain has sent.  Coins move between accounts meanwhile.  A message that fails has no
  effect (\<open>runTx\<close> drops its writes), and is left out.
\<close>

inductive ibc_run :: "auth_env \<Rightarrow> ibc_env \<Rightarrow> world \<Rightarrow> IBCPacket list \<Rightarrow> IBCReceiveMsg list \<Rightarrow> world \<Rightarrow> bool"
  for E :: auth_env and I :: ibc_env and w :: world where
  stop: "ibc_run E I w [] [] w"
| transfer:
    "\<lbrakk>ibc_run E I w sent rcvd s; IBCPacket_ValidateBasic (tr_IBCPacket msg) = None;
      handleIBCTransferMsg E I msg s = (Val res, t); Result_IsOK res\<rbrakk>
     \<Longrightarrow> ibc_run E I w (sent @ [tr_IBCPacket msg]) rcvd t"
| receive:
    "\<lbrakk>ibc_run E I w sent rcvd s; IBCPacket_ValidateBasic (rcv_IBCPacket msg) = None;
      handleIBCReceiveMsg E I msg s = (Val res, t); Result_IsOK res\<rbrakk>
     \<Longrightarrow> ibc_run E I w sent (rcvd @ [msg]) t"
| send:
    "\<lbrakk>ibc_run E I w sent rcvd s; MsgSend_ValidateBasic msg = Val None;
      handleMsgSend E msg s = (Val res, t); Result_IsOK res\<rbrakk>
     \<Longrightarrow> ibc_run E I w sent rcvd t"

definition pkts_amt :: "IBCPacket list \<Rightarrow> string \<Rightarrow> int" where
  "pkts_amt ps d = sum_list (map (\<lambda>p. amt (pkt_Coins p) d) ps)"

definition sent_to :: "string \<Rightarrow> IBCPacket list \<Rightarrow> IBCPacket list" where
  "sent_to c = filter (\<lambda>p. pkt_DestChain p = c)"

definition received_from :: "string \<Rightarrow> IBCReceiveMsg list \<Rightarrow> IBCReceiveMsg list" where
  "received_from c = filter (\<lambda>m. pkt_SrcChain (rcv_IBCPacket m) = c)"

lemma pkts_amt_simps [simp]:
  "pkts_amt [] d = 0" "pkts_amt (p # ps) d = amt (pkt_Coins p) d + pkts_amt ps d"
  "pkts_amt (ps @ qs) d = pkts_amt ps d + pkts_amt qs d"
  by (simp_all add: pkts_amt_def)

text \<open>The supply is what was there, with what came in and without what went out.\<close>

definition supply_booked :: "auth_env \<Rightarrow> world \<Rightarrow> IBCPacket list \<Rightarrow> IBCReceiveMsg list \<Rightarrow> world \<Rightarrow> bool" where
  "supply_booked E w sent rcvd t \<longleftrightarrow>
     (\<forall>d. coin_supply E t d = coin_supply E w d + pkts_amt (map rcv_IBCPacket rcvd) d - pkts_amt sent d)"

text \<open>The messages accepted from a chain have the sequence numbers from zero on, each once.\<close>

definition ingress_booked :: "ibc_env \<Rightarrow> IBCReceiveMsg list \<Rightarrow> world \<Rightarrow> bool" where
  "ingress_booked I rcvd t \<longleftrightarrow> (\<forall>c. ingress_seq I t c = Some (int (length (received_from c rcvd)))
     \<and> map rcv_Sequence (received_from c rcvd) = map int [0..<length (received_from c rcvd)])"

text \<open>The queue to a chain holds the packets sent to it, in their order, and nothing else.\<close>

definition queue_of :: "ibc_env \<Rightarrow> string \<Rightarrow> IBCPacket list \<Rightarrow> world \<Rightarrow> bool" where
  "queue_of I c ps t \<longleftrightarrow> egress_len I t c = Some (int (length ps))
     \<and> (\<forall>i. egress I t c i = (if 0 \<le> i \<and> i < int (length ps) then Some (ps ! nat i) else None))"

lemma sorted_of_valid: "IBCPacket_ValidateBasic p = None \<Longrightarrow> sorted_denoms (pkt_Coins p)"
  by (auto simp: IBCPacket_ValidateBasic_def Coins_IsValid_iff split: if_splits)

lemma wrap64_count: "int n < 2 ^ 63 - 1 \<Longrightarrow> wrap64 (int n + 1) = int n + 1"
  by (rule wrap64_id) (simp add: in_int64_def)

lemma ibc_views_cong:
  "w_stores t (ib_key I) = w_stores w (ib_key I) \<Longrightarrow>
     egress_len I t = egress_len I w \<and> ingress_seq I t = ingress_seq I w \<and> egress I t = egress I w"
  by (auto simp: egress_len_def ingress_seq_def egress_def counter_at_def fun_eq_iff)

text \<open>Names of chains for which no key of one queue is a key of another.\<close>

definition names_apart :: "string set \<Rightarrow> bool" where
  "names_apart N \<longleftrightarrow> (\<forall>c \<in> N. \<forall>c' \<in> N. \<forall>i j. (EgressKey c i = EgressKey c' j \<longrightarrow> c = c') \<and> EgressKey c i \<noteq> EgressLengthKey c')"

lemma names_apart_one: "names_apart {c}"
  by (simp add: names_apart_def)

context ibc_codec
begin

lemma send_keeps_views:
  assumes "MsgSend_ValidateBasic msg = Val None" and "handleMsgSend E msg w = (Val res, t)" and "Result_IsOK res"
    and "bank_ok E w"
  shows "bank_ok E t" and "coin_supply E t = coin_supply E w"
    and "egress_len I t = egress_len I w" and "ingress_seq I t = ingress_seq I w" and "egress I t = egress I w"
  using handleMsgSend_spec [OF auth_codec_axioms assms(4,1,2)] assms(3) own_store ibc_views_cong [of t I w] by auto

lemma posted_ingress: "posted p w t \<Longrightarrow> ingress_seq I t = ingress_seq I w"
  by (auto simp: posted_def ingress_seq_def counter_at_def fun_eq_iff)

lemma posted_queue:
  assumes "posted p w t" and "queue_of I c ps w" and "int (length ps) < 2 ^ 63 - 1"
    and "names_apart N" and "c \<in> N" and "pkt_DestChain p \<in> N"
  shows "queue_of I c (if pkt_DestChain p = c then ps @ [p] else ps) t"
proof -
  let ?b = "pkt_DestChain p"
  obtain n where n: "egress_len I w ?b = Some n"
    and t: "kv_Get (w_stores t (ib_key I)) = (kv_Get (w_stores w (ib_key I)))
      (EgressKey ?b n \<mapsto> ib_encPacket I p, EgressLengthKey ?b \<mapsto> ib_encInt I (wrap64 (n + 1)))"
    using assms(1) by (auto simp: posted_def)
  show ?thesis
  proof (cases "?b = c")
    case True
    then have "n = int (length ps)" using n assms(2) by (simp add: queue_of_def)
    then show ?thesis
      using assms(2,3) True
      by (auto simp: queue_of_def egress_len_def egress_def counter_at_def t dec_counter dec_packet wrap64_count nth_append)
  next
    case False
    then have "EgressKey c i \<noteq> EgressKey ?b n" "EgressKey c i \<noteq> EgressLengthKey ?b" "EgressLengthKey c \<noteq> EgressKey ?b n" for i
      using assms(4-6) unfolding names_apart_def by metis+
    moreover have "EgressLengthKey c \<noteq> EgressLengthKey ?b" using False by (simp add: EgressLengthKey_def)
    ultimately show ?thesis
      using assms(2) False by (simp add: queue_of_def egress_len_def egress_def counter_at_def t)
  qed
qed

lemma received_views:
  assumes "kv_Get (w_stores t (ib_key I)) = (kv_Get (w_stores w (ib_key I)))(IngressSequenceKey c \<mapsto> ib_encInt I n)"
  shows "ingress_seq I t = (ingress_seq I w)(c \<mapsto> n)" and "egress_len I t = egress_len I w" and "egress I t = egress I w"
  using assms by (auto simp: ingress_seq_def egress_len_def egress_def counter_at_def dec_counter fun_eq_iff)

lemma received_booked:
  assumes "ingress_booked I rcvd w" and "ingress_seq I w c = Some (rcv_Sequence msg)" and "c = pkt_SrcChain (rcv_IBCPacket msg)"
    and "ingress_seq I t = (ingress_seq I w)(c \<mapsto> wrap64 (rcv_Sequence msg + 1))" and "int (length rcvd) < 2 ^ 63 - 1"
  shows "ingress_booked I (rcvd @ [msg]) t"
proof -
  have "length (received_from c rcvd) \<le> length rcvd" by (simp add: received_from_def)
  then have "int (length (received_from c rcvd)) < 2 ^ 63 - 1" using assms(5) by linarith
  moreover have seq: "rcv_Sequence msg = int (length (received_from c rcvd))" using assms(1,2) by (simp add: ingress_booked_def)
  ultimately have next_seq: "wrap64 (rcv_Sequence msg + 1) = int (length (received_from c rcvd)) + 1" by (simp add: wrap64_count)
  show ?thesis unfolding ingress_booked_def
  proof (intro allI, goal_cases)
    case (1 x)
    have x: "ingress_seq I w x = Some (int (length (received_from x rcvd)))"
      "map rcv_Sequence (received_from x rcvd) = map int [0..<length (received_from x rcvd)]"
      using assms(1) by (simp_all add: ingress_booked_def)
    show ?case
    proof (cases "x = c")
      case True
      then have "received_from x (rcvd @ [msg]) = received_from c rcvd @ [msg]" using assms(3) by (simp add: received_from_def)
      then show ?thesis using True x seq next_seq assms(4) by simp
    next
      case False
      then have "received_from x (rcvd @ [msg]) = received_from x rcvd" using assms(3) by (simp add: received_from_def)
      then show ?thesis using False x assms(4) by simp
    qed
  qed
qed

lemma ibc_run_books:
  assumes "ibc_run E I w sent rcvd t" and "bank_ok E w" and "w_stores w (ib_key I) = []"
    and "names_apart N" and "c \<in> N"
  shows "int (length sent) < 2 ^ 63 \<Longrightarrow> int (length rcvd) < 2 ^ 63 \<Longrightarrow>
    bank_ok E t \<and> supply_booked E w sent rcvd t \<and> ingress_booked I rcvd t
    \<and> (pkt_DestChain ` set sent \<subseteq> N \<longrightarrow> queue_of I c (sent_to c sent) t)"
  using assms(1)
proof (induction rule: ibc_run.induct)
  case stop
  then show ?case using assms(2,3)
    by (simp add: supply_booked_def ingress_booked_def queue_of_def received_from_def sent_to_def egress_len_def ingress_seq_def egress_def
        counter_at_def kv_Get_def)
next
  case (transfer sent rcvd s msg res t)
  let ?p = "tr_IBCPacket msg"
  have s: "bank_ok E s" "supply_booked E w sent rcvd s" "ingress_booked I rcvd s"
    "pkt_DestChain ` set sent \<subseteq> N \<Longrightarrow> queue_of I c (sent_to c sent) s"
    using transfer.IH transfer.prems by auto
  note t = handleIBCTransferMsg_OK [OF transfer.hyps(3,4) s(1) refl sorted_of_valid [OF transfer.hyps(2)]]
  have "length (sent_to c sent) \<le> length sent" by (simp add: sent_to_def)
  then have len: "int (length (sent_to c sent)) < 2 ^ 63 - 1" using transfer.prems(1) by simp
  have "queue_of I c (sent_to c (sent @ [?p])) t" if "pkt_DestChain ` set (sent @ [?p]) \<subseteq> N"
    using posted_queue [of ?p s t, OF _ s(4) len assms(4,5)] t that by (auto simp: sent_to_def)
  then show ?case using s t posted_ingress [of ?p s t] by (auto simp: supply_booked_def ingress_booked_def)
next
  case (receive sent rcvd s msg res t)
  let ?p = "rcv_IBCPacket msg"
  have s: "bank_ok E s" "supply_booked E w sent rcvd s" "ingress_booked I rcvd s"
    "pkt_DestChain ` set sent \<subseteq> N \<Longrightarrow> queue_of I c (sent_to c sent) s"
    using receive.IH receive.prems by auto
  note t = handleIBCReceiveMsg_OK [OF receive.hyps(3,4) s(1) refl sorted_of_valid [OF receive.hyps(2)]]
  have v: "ingress_seq I t = (ingress_seq I s)(pkt_SrcChain ?p \<mapsto> wrap64 (rcv_Sequence msg + 1))"
    "egress_len I t = egress_len I s" "egress I t = egress I s"
    using t received_views by blast+
  have "ingress_booked I (rcvd @ [msg]) t"
    using received_booked [OF s(3) _ refl v(1)] t receive.prems(2) by simp
  then show ?case using s t v(2,3) by (auto simp: supply_booked_def queue_of_def)
next
  case (send sent rcvd s msg res t)
  have s: "bank_ok E s" "supply_booked E w sent rcvd s" "ingress_booked I rcvd s"
    "pkt_DestChain ` set sent \<subseteq> N \<Longrightarrow> queue_of I c (sent_to c sent) s"
    using send.IH send.prems by auto
  note t = send_keeps_views [OF send.hyps(2-4) s(1)]
  show ?case using s t by (auto simp: supply_booked_def ingress_booked_def queue_of_def)
qed

end

section \<open>Two chains\<close>

text \<open>
  The coins of the packets that one chain has sent to the other and the other has not yet
  received, as the stores of both say it.
\<close>

definition pkt_amt :: "IBCPacket option \<Rightarrow> string \<Rightarrow> int" where
  "pkt_amt p d = (case p of None \<Rightarrow> 0 | Some q \<Rightarrow> amt (pkt_Coins q) d)"

definition in_flight :: "ibc_env \<Rightarrow> string \<Rightarrow> string \<Rightarrow> world \<Rightarrow> world \<Rightarrow> string \<Rightarrow> int" where
  "in_flight I A B a b d =
     (case (ingress_seq I b A, egress_len I a B) of
        (Some m, Some n) \<Rightarrow> (\<Sum>i \<in> {m..<n}. pkt_amt (egress I a B i) d)
      | _ \<Rightarrow> 0)"

text \<open>
  What the relayers are trusted for: every packet that chain \<open>B\<close> has accepted is stored in the
  queue of chain \<open>A\<close> under the sequence number it came with.  The handler does not check it.
\<close>

definition relayed :: "ibc_env \<Rightarrow> string \<Rightarrow> string \<Rightarrow> world \<Rightarrow> IBCReceiveMsg list \<Rightarrow> bool" where
  "relayed I A B a rcvd \<longleftrightarrow> (\<forall>m \<in> set rcvd. pkt_SrcChain (rcv_IBCPacket m) = A
     \<and> egress I a B (rcv_Sequence m) = Some (rcv_IBCPacket m))"

lemma sum_queue:
  assumes "\<And>i. 0 \<le> i \<Longrightarrow> i < int (length ps) \<Longrightarrow> f i = Some (ps ! nat i)"
  shows "(\<Sum>i \<in> {int m..<int (length ps)}. pkt_amt (f i) d) = pkts_amt (drop m ps) d"
proof -
  have "(\<Sum>i \<in> {int m..<int (length ps)}. pkt_amt (f i) d) = (\<Sum>i \<in> {m..<length ps}. amt (pkt_Coins (ps ! i)) d)"
    using assms by (subst image_int_atLeastLessThan [symmetric], subst sum.reindex) (auto simp: pkt_amt_def intro!: sum.cong)
  also have "\<dots> = sum_list (map (\<lambda>p. amt (pkt_Coins p) d) (map ((!) ps) [m..<length ps]))"
    by (simp add: comp_def interv_sum_list_conv_sum_set_nat)
  also have "map ((!) ps) [m..<length ps] = drop m (map ((!) ps) [0..<length ps])" by (simp add: drop_map)
  finally show ?thesis by (simp add: map_nth pkts_amt_def)
qed

lemma relayed_prefix:
  assumes "ingress_booked I rcvd b" and "queue_of I B ps a" and "relayed I A B a rcvd"
  shows "map rcv_IBCPacket rcvd = take (length rcvd) ps \<and> length rcvd \<le> length ps
    \<and> ingress_seq I b A = Some (int (length rcvd)) \<and> in_flight I A B a b d = pkts_amt (drop (length rcvd) ps) d"
proof -
  have all: "received_from A rcvd = rcvd" using assms(3) by (simp add: received_from_def relayed_def filter_id_conv)
  then have seq: "ingress_seq I b A = Some (int (length rcvd))" "map rcv_Sequence rcvd = map int [0..<length rcvd]"
    using assms(1) unfolding ingress_booked_def by metis+
  have nth: "i < length ps \<and> rcv_IBCPacket (rcvd ! i) = ps ! i" if "i < length rcvd" for i
  proof -
    have "rcv_Sequence (rcvd ! i) = int i" using arg_cong [OF seq(2), of "\<lambda>xs. xs ! i"] that by simp
    then have "egress I a B (int i) = Some (rcv_IBCPacket (rcvd ! i))" using assms(3) nth_mem [OF that] unfolding relayed_def by metis
    then show ?thesis using assms(2) by (auto simp: queue_of_def split: if_splits)
  qed
  have le: "length rcvd \<le> length ps" using nth [of "length rcvd - 1"] by (cases "length rcvd") auto
  then have "map rcv_IBCPacket rcvd = take (length rcvd) ps" using nth by (intro nth_equalityI) auto
  moreover have "in_flight I A B a b d = pkts_amt (drop (length rcvd) ps) d"
    using assms(2) seq(1) sum_queue [of ps "egress I a B" d "length rcvd"] by (simp add: in_flight_def queue_of_def)
  ultimately show ?thesis using le seq(1) by blast
qed

text \<open>
  The keys of the module are apart as long as chain names have no slash.  In general they are
  not: the length of the queue to one chain is kept where a packet to another chain is.
\<close>

lemma EgressKey_slash_free:
  assumes "CHR ''/'' \<notin> set c" and "CHR ''/'' \<notin> set c'"
  shows "EgressKey c i = EgressKey c' j \<longleftrightarrow> c = c' \<and> i = j" and "EgressKey c i \<noteq> EgressLengthKey c'"
proof -
  show "EgressKey c i \<noteq> EgressLengthKey c'"
    using assms(2) by (auto simp: EgressKey_def EgressLengthKey_def)
  have "c = c'" if "c @ CHR ''/'' # show_int i = c' @ CHR ''/'' # show_int j"
    using arg_cong [OF that, of "split_on (CHR ''/'')"] assms by (simp add: split_on_append)
  then show "EgressKey c i = EgressKey c' j \<longleftrightarrow> c = c' \<and> i = j"
    by (auto simp: EgressKey_def)
qed

lemma EgressKey_collision: "EgressKey c i = EgressLengthKey (c @ ''/'' @ show_int i)"
  by (simp add: EgressKey_def EgressLengthKey_def)

lemma slash_free_apart: "names_apart {c. CHR ''/'' \<notin> set c}"
  using EgressKey_slash_free by (simp add: names_apart_def)

section \<open>A concrete codec\<close>

definition net_encPacket :: "IBCPacket \<Rightarrow> bytes" where
  "net_encPacket p = enc_fields [pkt_SrcAddr p, pkt_DestAddr p, enc_coins (pkt_Coins p), pkt_SrcChain p, pkt_DestChain p]"

definition net_decPacket :: "bytes \<Rightarrow> IBCPacket option" where
  "net_decPacket b = (case dec_fields b of
     Some [sa, da, cs, sc, dc] \<Rightarrow> map_option (\<lambda>coins. NewIBCPacket sa da coins sc dc) (dec_coins cs)
   | _ \<Rightarrow> None)"

lemma net_decPacket_encPacket [simp]: "net_decPacket (net_encPacket p) = Some p"
  by (simp add: net_decPacket_def net_encPacket_def NewIBCPacket_def)

definition net_ibc_env :: ibc_env where
  "net_ibc_env = \<lparr>ib_key = ''ibc'', ib_codespace = ibc_DefaultCodespace, ib_encPacket = net_encPacket, ib_decPacket = net_decPacket,
     ib_encInt = enc_int, ib_decInt = dec_int, ib_Bech32ifyAcc = (\<lambda>a. a),
     ib_jsonPacket = (\<lambda>a b cs c d. concat [a, b, Coins_String cs, c, d]), ib_jsonReceive = (\<lambda>b r i. b @ r @ show_int i)\<rparr>"

interpretation net_ibc: ibc_codec net_auth_env net_ibc_env
  by unfold_locales (simp_all add: net_ibc_env_def net_auth_env_def)

definition ex_packet :: "int \<Rightarrow> IBCPacket" where
  "ex_packet n = NewIBCPacket ''bob'' ''al'' [NewCoin ''atom'' n] ''A'' ''B''"

definition ex_empty :: world where
  "ex_empty = \<lparr>w_stores = (\<lambda>_. []), w_gas = NewInfiniteGasMeter\<rparr>"

definition ex_transferred :: "int \<Rightarrow> world" where
  "ex_transferred n = snd (handleIBCTransferMsg net_auth_env net_ibc_env \<lparr>tr_IBCPacket = ex_packet n\<rparr> ex_world)"

definition ex_receive :: IBCReceiveMsg where
  "ex_receive = \<lparr>rcv_IBCPacket = ex_packet 5, rcv_Relayer = ''rel'', rcv_Sequence = 0\<rparr>"

definition ex_received :: world where
  "ex_received = snd (handleIBCReceiveMsg net_auth_env net_ibc_env ex_receive ex_empty)"

lemma pair_of_fst: "fst p = x \<Longrightarrow> p = (x, snd p)"
  by auto

lemma ex_transfer_run:
  "handleIBCTransferMsg net_auth_env net_ibc_env \<lparr>tr_IBCPacket = ex_packet 5\<rparr> ex_world = (Val emptyResult, ex_transferred 5)"
  unfolding ex_transferred_def by (rule pair_of_fst) code_simp

lemma ex_negative_run:
  "handleIBCTransferMsg net_auth_env net_ibc_env \<lparr>tr_IBCPacket = ex_packet (- 5)\<rparr> ex_world = (Val emptyResult, ex_transferred (- 5))"
  unfolding ex_transferred_def by (rule pair_of_fst) code_simp

lemma ex_receive_run:
  "handleIBCReceiveMsg net_auth_env net_ibc_env ex_receive ex_empty = (Val emptyResult, ex_received)"
  unfolding ex_received_def by (rule pair_of_fst) code_simp

lemma ex_no_traffic:
  "bank_ok net_auth_env ex_empty" "w_stores ex_world (ib_key net_ibc_env) = []" "w_stores ex_empty (ib_key net_ibc_env) = []"
  by (simp_all add: ex_empty_def net_ibc_env_def ex_world_def bank_ok_def accts_ok_def acct_def kv_Get_def)

lemma ex_packet_facts:
  "n \<noteq> 0 \<Longrightarrow> IBCPacket_ValidateBasic (ex_packet n) = None" "pkt_SrcChain (ex_packet n) = ''A''"
  "pkt_DestChain (ex_packet n) = ''B''" "pkt_SrcAddr (ex_packet n) = ''bob''" "amt (pkt_Coins (ex_packet n)) ''atom'' = n"
  by (simp_all add: ex_packet_def NewIBCPacket_def IBCPacket_ValidateBasic_def NewCoin_def NewInt_def Coins_IsValid_iff)

lemma ex_egress_len: "egress_len net_ibc_env ex_world ''B'' = Some 0"
  by (simp add: egress_len_def counter_at_def ex_world_def net_ibc_env_def kv_Get_def)

lemma ex_egress: "egress net_ibc_env (ex_transferred 5) ''B'' 0 = Some (ex_packet 5)"
  by code_simp

section \<open>Properties\<close>

text \<open>
  The chain \<open>A\<close> of the examples sends a packet, and the chain \<open>B\<close> receives it.
\<close>

lemma ex_run_A: "ibc_run net_auth_env net_ibc_env ex_world [ex_packet 5] [] (ex_transferred 5)"
  using ibc_run.transfer [OF ibc_run.stop, of "\<lparr>tr_IBCPacket = ex_packet 5\<rparr>" net_auth_env net_ibc_env ex_world emptyResult]
  by (simp add: ex_transfer_run ex_packet_facts)

lemma ex_run_B: "ibc_run net_auth_env net_ibc_env ex_empty [] [ex_receive] ex_received"
  using ibc_run.receive [OF ibc_run.stop _ ex_receive_run] by (simp add: ex_packet_facts ex_receive_def)

text \<open>
  C12: two chains that send packets to each other only.  When the relayers deliver nothing but
  packets that the other chain has stored, under their sequence numbers, then whatever transfers,
  receipts and sends both chains execute, the supply of the two and the coins of the packets sent and not yet
  received, in both directions, add up to the initial supply, in every denomination.  The
  handler does not check what the relayers deliver, so this is a hypothesis.
\<close>

theorem ibc_link_conserves:
  assumes "ibc_codec E I" and "bank_ok E a0" and "bank_ok E b0"
    and "w_stores a0 (ib_key I) = []" and "w_stores b0 (ib_key I) = []"
    and "ibc_run E I a0 sentA rcvdA a" and "ibc_run E I b0 sentB rcvdB b"
    and "\<forall>xs \<in> {sentA, sentB}. int (length xs) < 2 ^ 63" and "\<forall>xs \<in> {rcvdA, rcvdB}. int (length xs) < 2 ^ 63"
    and "\<forall>p \<in> set sentA. pkt_DestChain p = B" and "\<forall>p \<in> set sentB. pkt_DestChain p = A"
    and "relayed I A B a rcvdB" and "relayed I B A b rcvdA"
  shows "coin_supply E a d + coin_supply E b d + in_flight I A B a b d + in_flight I B A b a d
      = coin_supply E a0 d + coin_supply E b0 d"
proof -
  have all: "sent_to B sentA = sentA" "sent_to A sentB = sentB" using assms(10,11) by (simp_all add: sent_to_def filter_id_conv)
  have a: "supply_booked E a0 sentA rcvdA a" "ingress_booked I rcvdA a" "queue_of I B sentA a"
    using ibc_codec.ibc_run_books [OF assms(1,6,2,4) names_apart_one, of B] assms(8-10) all by auto
  have b: "supply_booked E b0 sentB rcvdB b" "ingress_booked I rcvdB b" "queue_of I A sentB b"
    using ibc_codec.ibc_run_books [OF assms(1,7,3,5) names_apart_one, of A] assms(8,9,11) all by auto
  have split: "pkts_amt (take n ps) d + pkts_amt (drop n ps) d = pkts_amt ps d" for n ps
    using pkts_amt_simps(3) [of "take n ps" "drop n ps" d] by simp
  show ?thesis
    using a(1) b(1) relayed_prefix [OF b(2) a(3) assms(12), of d] relayed_prefix [OF a(2) b(3) assms(13), of d]
      split [of "length rcvdB" sentA] split [of "length rcvdA" sentB]
    by (simp add: supply_booked_def)
qed

theorem ibc_link_conserves_witness:
  "coin_supply net_auth_env (ex_transferred 5) ''atom'' + coin_supply net_auth_env ex_received ''atom''
     + in_flight net_ibc_env ''A'' ''B'' (ex_transferred 5) ex_received ''atom''
     + in_flight net_ibc_env ''B'' ''A'' ex_received (ex_transferred 5) ''atom''
   = coin_supply net_auth_env ex_world ''atom'' + coin_supply net_auth_env ex_empty ''atom''"
  by (rule ibc_link_conserves [OF net_ibc.ibc_codec_axioms ex_bank_ok ex_no_traffic(1,2,3) ex_run_A ex_run_B])
    (simp_all add: ex_packet_facts relayed_def ex_receive_def ex_egress)

text \<open>
  C34: the books of a chain are exact whatever packets arrive, forged ones included.  The supply
  is the initial one with the coins of the accepted packets and without those of the packets sent.
  The packets accepted from a chain have the sequence numbers from zero on, each once and in order.
  As long as the names of the destinations have no slash, the queue to a chain holds
  exactly the packets sent to it, in order.
\<close>

theorem ibc_books_exact:
  assumes "ibc_codec E I" and "bank_ok E w" and "w_stores w (ib_key I) = []" and "ibc_run E I w sent rcvd t"
    and "int (length sent) < 2 ^ 63" and "int (length rcvd) < 2 ^ 63"
  shows "coin_supply E t d = coin_supply E w d + pkts_amt (map rcv_IBCPacket rcvd) d - pkts_amt sent d
    \<and> ingress_seq I t c = Some (int (length (received_from c rcvd)))
    \<and> map rcv_Sequence (received_from c rcvd) = map int [0..<length (received_from c rcvd)]
    \<and> ((\<forall>p \<in> set sent. CHR ''/'' \<notin> set (pkt_DestChain p)) \<longrightarrow> CHR ''/'' \<notin> set c \<longrightarrow> queue_of I c (sent_to c sent) t)"
  using ibc_codec.ibc_run_books [OF assms(1,4,2,3) slash_free_apart, of c] ibc_codec.ibc_run_books [OF assms(1,4,2,3) slash_free_apart, of "[]"]
    assms(5,6)
  by (auto simp: supply_booked_def ingress_booked_def)

theorem ibc_books_exact_witness:
  "queue_of net_ibc_env ''B'' (sent_to ''B'' [ex_packet 5]) (ex_transferred 5)
   \<and> ingress_seq net_ibc_env ex_received ''A'' = Some 1"
  using ibc_books_exact [OF net_ibc.ibc_codec_axioms ex_bank_ok ex_no_traffic(2) ex_run_A, of "''atom''" "''B''"]
    ibc_books_exact [OF net_ibc.ibc_codec_axioms ex_no_traffic(1,3) ex_run_B, of "''atom''" "''A''"]
  by (simp add: ex_packet_facts received_from_def ex_receive_def)

text \<open>
  A packet that was received is not received again: as long as the incoming sequence of its
  source chain is as the first receipt left it, a message with the same sequence number fails
  with the sequence error.
\<close>

theorem ibc_receive_once:
  assumes "ibc_codec E I" and "bank_ok E w" and "IBCPacket_ValidateBasic (rcv_IBCPacket msg) = None"
    and "handleIBCReceiveMsg E I msg w = (Val res, t)" and "Result_IsOK res"
    and "ingress_seq I t2 c = ingress_seq I t c" and "c = pkt_SrcChain (rcv_IBCPacket msg)"
    and "pkt_SrcChain (rcv_IBCPacket msg2) = c" and "rcv_Sequence msg2 = rcv_Sequence msg"
    and "handleIBCReceiveMsg E I msg2 t2 = (Val res2, t3)"
  shows "res2 = Error_Result (ibc_ErrInvalidSequence (ib_codespace I))"
proof -
  have "ingress_seq I t2 c = Some (wrap64 (rcv_Sequence msg + 1))"
    using ibc_codec.handleIBCReceiveMsg_OK [OF assms(1,4,5,2) refl sorted_of_valid [OF assms(3)]] assms(6,7)
      ibc_codec.received_views(1) [OF assms(1), of t w c] by simp
  moreover obtain seq u where seq: "GetIngressSequence I c t2 = (Val seq, u)"
    and res2: "rcv_Sequence msg2 \<noteq> seq \<Longrightarrow> res2 = Error_Result (ibc_ErrInvalidSequence (ib_codespace I))"
    using assms(8,10) by (auto simp: handleIBCReceiveMsg_def Let_def run_iffs split: if_splits)
  ultimately have "seq = wrap64 (rcv_Sequence msg + 1)"
    using ibc_codec.GetIngressSequence_Val(1) [OF assms(1) seq] by simp
  then show ?thesis using res2 assms(9) wrap64_succ_neq by metis
qed

theorem ibc_receive_once_witness:
  "\<exists>res t. handleIBCReceiveMsg net_auth_env net_ibc_env ex_receive ex_received = (Val res, t)
     \<and> res = Error_Result (ibc_ErrInvalidSequence ibc_DefaultCodespace)"
proof -
  have valid: "IBCPacket_ValidateBasic (rcv_IBCPacket ex_receive) = None"
    by (simp add: ex_receive_def ex_packet_facts)
  have "is_val (fst (handleIBCReceiveMsg net_auth_env net_ibc_env ex_receive ex_received))"
    by code_simp
  then obtain res t where "handleIBCReceiveMsg net_auth_env net_ibc_env ex_receive ex_received = (Val res, t)"
    by (cases "handleIBCReceiveMsg net_auth_env net_ibc_env ex_receive ex_received") (auto simp: is_val_def)
  moreover have "ib_codespace net_ibc_env = ibc_DefaultCodespace" by (simp add: net_ibc_env_def)
  ultimately show ?thesis
    using ibc_receive_once [OF net_ibc.ibc_codec_axioms ex_no_traffic(1) valid ex_receive_run emptyResult_OK refl refl refl refl]
    by auto
qed

text \<open>
  C28: a transfer of negative amounts creates coins.  \<open>IBCPacket.ValidateBasic\<close> accepts every packet
  between different chains whose coins are sorted by denomination and all negative, and the
  handler, when it does not panic, succeeds for every such packet and every sender: it raises the
  balance of the sender and the supply of the chain by the absolute value of each amount.
\<close>

theorem ibc_negative_transfer_mints:
  assumes "ibc_codec E I" and "bank_ok E w" and "p = tr_IBCPacket msg" and "pkt_SrcChain p \<noteq> pkt_DestChain p"
    and "sorted_denoms (pkt_Coins p)" and "\<forall>c \<in> set (pkt_Coins p). Amount c < 0"
    and "handleIBCTransferMsg E I msg w = (Val res, t)"
  shows "IBCPacket_ValidateBasic p = None \<and> Result_IsOK res
    \<and> (\<forall>c \<in> set (pkt_Coins p). coin_supply E t (Denom c) = coin_supply E w (Denom c) + \<bar>Amount c\<bar>
         \<and> balance E t (pkt_SrcAddr p) (Denom c) = balance E w (pkt_SrcAddr p) (Denom c) + \<bar>Amount c\<bar>)"
proof -
  have amt: "amt (pkt_Coins p) d \<le> 0" for d
    using assms(6) by (cases "d \<in> Denom ` set (pkt_Coins p)") (auto simp: amt_in [OF assms(5)] less_imp_le)
  then have ok: "Result_IsOK res" using ibc_codec.handleIBCTransferMsg_negative [OF assms(1,7,2,3,5)] by blast
  have "IBCPacket_ValidateBasic p = None"
    using assms(4-6) by (cases "pkt_Coins p") (auto simp: IBCPacket_ValidateBasic_def Coins_IsValid_iff)
  then show ?thesis
    using ibc_codec.handleIBCTransferMsg_OK [OF assms(1,7) ok assms(2,3,5)] assms(6) ok by (auto simp: amt_in [OF assms(5)])
qed

theorem ibc_negative_transfer_mints_witness:
  "coin_supply net_auth_env (ex_transferred (- 5)) ''atom'' = coin_supply net_auth_env ex_world ''atom'' + 5"
  using ibc_negative_transfer_mints [OF net_ibc.ibc_codec_axioms ex_bank_ok refl _ _ _ ex_negative_run]
  by (simp add: ex_packet_def NewIBCPacket_def NewCoin_def NewInt_def)

end
