(* ===== verification/Invariants.thy ===== *)
theory Invariants
  imports SdkContext
begin

text \<open>
  A small program logic for keepers.  \<open>holds P m Q\<close>: when \<open>m\<close> runs from a world with
  \<open>P\<close> and returns a value, \<open>P\<close> still holds and \<open>Q\<close> holds of the value.  The rules follow the
  structure of a program; a collection gathers them, and components add one rule per operation.
\<close>

named_theorems holds_rules "rules of the invariant logic, one per construct and operation"

definition holds :: "('s \<Rightarrow> bool) \<Rightarrow> ('s, 'a) M \<Rightarrow> ('a \<Rightarrow> bool) \<Rightarrow> bool" where
  "holds P m Q \<longleftrightarrow> (\<forall>s r t. P s \<longrightarrow> m s = (Val r, t) \<longrightarrow> P t \<and> Q r)"

lemma holdsI: "(\<And>s r t. P s \<Longrightarrow> m s = (Val r, t) \<Longrightarrow> P t \<and> Q r) \<Longrightarrow> holds P m Q"
  by (simp add: holds_def)

lemma holdsD: "holds P m Q \<Longrightarrow> P s \<Longrightarrow> m s = (Val r, t) \<Longrightarrow> P t \<and> Q r"
  unfolding holds_def by blast

lemma holds_weaken: "holds P m Q \<Longrightarrow> (\<And>x. Q x \<Longrightarrow> R x) \<Longrightarrow> holds P m R"
  unfolding holds_def by blast

lemma holds_ret [holds_rules]: "Q x \<Longrightarrow> holds P (ret x) Q"
  by (simp add: holds_def ret_def)

lemma holds_panicM [holds_rules]: "holds P (panicM p) Q"
  by (simp add: holds_def panicM_def)

lemma holds_lift: "(\<And>x. m = Val x \<Longrightarrow> Q x) \<Longrightarrow> holds P (lift m) Q"
  by (auto simp: holds_def lift_def)

lemma holds_bnd:
  "holds P m Q \<Longrightarrow> (\<And>x. Q x \<Longrightarrow> holds P (f x) R) \<Longrightarrow> holds P (bnd m f) R"
  unfolding holds_def bnd_Val_iff by blast

lemma holds_bnd_lift [holds_rules]:
  "(\<And>x. m = Val x \<Longrightarrow> holds P (f x) R) \<Longrightarrow> holds P (bnd (lift m) f) R"
  by (auto intro: holds_bnd holds_lift)

lemma holds_if [holds_rules]:
  "(b \<Longrightarrow> holds P m Q) \<Longrightarrow> (\<not> b \<Longrightarrow> holds P n Q) \<Longrightarrow> holds P (if b then m else n) Q"
  by simp

lemma holds_case_option [holds_rules]:
  "(x = None \<Longrightarrow> holds P m Q) \<Longrightarrow> (\<And>y. x = Some y \<Longrightarrow> holds P (f y) Q) \<Longrightarrow> holds P (case_option m f x) Q"
  by (cases x) simp_all

lemma holds_case_sum [holds_rules]:
  "(\<And>y. x = Inl y \<Longrightarrow> holds P (f y) Q) \<Longrightarrow> (\<And>y. x = Inr y \<Longrightarrow> holds P (g y) Q) \<Longrightarrow> holds P (case_sum f g x) Q"
  by (cases x) simp_all

lemma holds_case_prod [holds_rules]:
  "(\<And>a b. x = (a, b) \<Longrightarrow> holds P (f a b) Q) \<Longrightarrow> holds P (case_prod f x) Q"
  by (cases x) simp

lemma holds_Let [holds_rules]: "(\<And>x. x = v \<Longrightarrow> holds P (f x) Q) \<Longrightarrow> holds P (Let v f) Q"
  by simp

lemma holds_iterM [holds_rules]: "(\<And>x. x \<in> set xs \<Longrightarrow> holds P (f x) (\<lambda>_. True)) \<Longrightarrow> holds P (iterM xs f) (\<lambda>_. True)"
proof (induction xs)
  case Nil
  show ?case by (simp add: holds_ret)
next
  case (Cons x xs)
  have "holds P (f x) (\<lambda>_. True)" by (rule Cons.prems) simp
  moreover have "holds P (iterM xs f) (\<lambda>_. True)" by (rule Cons.IH) (simp add: Cons.prems)
  ultimately show ?case by (auto intro: holds_bnd)
qed

text \<open>Operations that change no store keep every property of the stores.\<close>

definition reads :: "(world, 'a) M \<Rightarrow> bool" where
  "reads m \<longleftrightarrow> (\<forall>w r t. m w = (Val r, t) \<longrightarrow> w_stores t = w_stores w)"

named_theorems reads_rules "operations that change no store"

lemma readsD: "reads m \<Longrightarrow> m w = (Val r, t) \<Longrightarrow> w_stores t = w_stores w"
  unfolding reads_def by blast

lemma holds_reads:
  "reads m \<Longrightarrow> (\<And>v w. w_stores v = w_stores w \<Longrightarrow> P w \<Longrightarrow> P v) \<Longrightarrow> holds P m (\<lambda>_. True)"
  unfolding holds_def reads_def by blast

lemma reads_basic [reads_rules]:
  "reads (ret x)" "reads (panicM p)" "reads (lift m)" "reads (must y)"
  "reads (gas_Get n k)" "reads (gas_Has n k)" "reads (gas_iter_Key it)" "reads (gas_iter_Value it)"
  by (auto simp: reads_def run_iffs dest!: gas_dests)

lemma reads_bnd [reads_rules]: "reads m \<Longrightarrow> (\<And>x. reads (f x)) \<Longrightarrow> reads (bnd m f)"
  unfolding reads_def bnd_Val_iff by metis

lemma reads_iterators [reads_rules]:
  "reads (KVStorePrefixIterator n pfx)" "reads (KVStoreReversePrefixIterator n pfx)"
  by (auto simp: reads_def KVStorePrefixIterator_def KVStoreReversePrefixIterator_def run_iffs gas_iterator_run)

lemma reads_branches [reads_rules]:
  "reads m \<Longrightarrow> reads n \<Longrightarrow> reads (if b then m else n)"
  "reads m \<Longrightarrow> (\<And>y. reads (f y)) \<Longrightarrow> reads (case_option m f x)"
  "(\<And>a b. reads (g a b)) \<Longrightarrow> reads (case_prod g z)"
  "(\<And>y. reads (f y)) \<Longrightarrow> reads (Let v f)"
  by (simp_all split: option.splits prod.splits)

section \<open>Triples\<close>

text \<open>The general form, where the property of the world changes: what a run that returns establishes.\<close>

named_theorems triple_rules "rules for triples, one per construct"

definition triple :: "('s \<Rightarrow> bool) \<Rightarrow> ('s, 'a) M \<Rightarrow> ('a \<Rightarrow> 's \<Rightarrow> bool) \<Rightarrow> bool" where
  "triple P m Q \<longleftrightarrow> (\<forall>s r t. P s \<longrightarrow> m s = (Val r, t) \<longrightarrow> Q r t)"

lemma tripleI: "(\<And>s r t. P s \<Longrightarrow> m s = (Val r, t) \<Longrightarrow> Q r t) \<Longrightarrow> triple P m Q"
  by (simp add: triple_def)

lemma tripleD: "triple P m Q \<Longrightarrow> P s \<Longrightarrow> m s = (Val r, t) \<Longrightarrow> Q r t"
  unfolding triple_def by blast

lemma triple_weaken: "triple P m Q \<Longrightarrow> (\<And>r t. Q r t \<Longrightarrow> R r t) \<Longrightarrow> triple P m R"
  unfolding triple_def by blast

lemma triple_pre: "(\<And>s. P s \<Longrightarrow> P' s) \<Longrightarrow> triple P' m Q \<Longrightarrow> triple P m Q"
  unfolding triple_def by blast

lemma triple_holds: "holds P m Q \<Longrightarrow> (\<And>r t. Q r \<Longrightarrow> P t \<Longrightarrow> R r t) \<Longrightarrow> triple P m R"
  unfolding triple_def holds_def by blast

lemma triple_bnd: "triple P m Q \<Longrightarrow> (\<And>x. triple (Q x) (f x) R) \<Longrightarrow> triple P (bnd m f) R"
  unfolding triple_def bnd_Val_iff by blast

lemma triple_bnd_holds: "holds P m Q \<Longrightarrow> (\<And>x. Q x \<Longrightarrow> triple P (f x) R) \<Longrightarrow> triple P (bnd m f) R"
  unfolding triple_def holds_def bnd_Val_iff by blast

lemma triple_ex: "(\<And>x. A x \<Longrightarrow> triple (P x) m Q) \<Longrightarrow> triple (\<lambda>s. \<exists>x. A x \<and> P x s) m Q"
  unfolding triple_def by blast

lemma triple_ret [triple_rules]: "(\<And>s. P s \<Longrightarrow> Q x s) \<Longrightarrow> triple P (ret x) Q"
  by (simp add: triple_def ret_def)

lemma triple_panicM [triple_rules]: "triple P (panicM p) Q"
  by (simp add: triple_def panicM_def)

lemma triple_bnd_lift [triple_rules]:
  "(\<And>x. m = Val x \<Longrightarrow> triple P (f x) R) \<Longrightarrow> triple P (bnd (lift m) f) R"
  by (auto simp: triple_def run_iffs)

lemma triple_if [triple_rules]:
  "(b \<Longrightarrow> triple P m Q) \<Longrightarrow> (\<not> b \<Longrightarrow> triple P n Q) \<Longrightarrow> triple P (if b then m else n) Q"
  by simp

lemma triple_case_option [triple_rules]:
  "(x = None \<Longrightarrow> triple P m Q) \<Longrightarrow> (\<And>y. x = Some y \<Longrightarrow> triple P (f y) Q) \<Longrightarrow> triple P (case_option m f x) Q"
  by (cases x) simp_all

lemma triple_case_sum [triple_rules]:
  "(\<And>y. x = Inl y \<Longrightarrow> triple P (f y) Q) \<Longrightarrow> (\<And>y. x = Inr y \<Longrightarrow> triple P (g y) Q) \<Longrightarrow> triple P (case_sum f g x) Q"
  by (cases x) simp_all

lemma triple_case_prod [triple_rules]:
  "(\<And>a b. x = (a, b) \<Longrightarrow> triple P (f a b) Q) \<Longrightarrow> triple P (case_prod f x) Q"
  by (cases x) simp

lemma triple_Let [triple_rules]: "(\<And>x. x = v \<Longrightarrow> triple P (f x) Q) \<Longrightarrow> triple P (Let v f) Q"
  by simp

section \<open>Execution with an unlimited meter\<close>

text \<open>
  A world whose meter has no limit, and how each operation steps on it, so that runs on concrete
  stores can be computed by rewriting.  What the meter counts is left as it is.
\<close>

named_theorems exec_simps "steps of a run on a world with an unlimited meter"

definition free :: "(string \<Rightarrow> kvmap) \<Rightarrow> int \<Rightarrow> world" where
  "free st n = \<lparr>w_stores = st, w_gas = infiniteGasMeter n\<rparr>"

definition tick :: "int \<Rightarrow> int \<Rightarrow> int" where
  "tick n amount = wrap64 (n + amount)"

lemma free_stores [simp]: "w_stores (free st n) = st"
  by (simp add: free_def)

lemma consume_free [exec_simps]: "consume amount d (free st n) = (Val (), free st (tick n amount))"
  by (simp add: consume_def ConsumeGas_def free_def tick_def)

lemma ctx_ConsumeGas_free [exec_simps]: "ctx_ConsumeGas amount d (free st n) = (Val (), free st (tick n amount))"
  by (simp add: ctx_ConsumeGas_def consume_free)

definition read_cost :: "int \<Rightarrow> bytes option \<Rightarrow> int" where
  "read_cost n v = tick (tick n ReadCostFlat) (ReadCostPerByte * int (case v of None \<Rightarrow> 0 | Some bz \<Rightarrow> length bz))"

definition write_cost :: "int \<Rightarrow> bytes \<Rightarrow> int" where
  "write_cost n v = tick (tick n WriteCostFlat) (WriteCostPerByte * int (length v))"

definition value_cost :: "int \<Rightarrow> bytes \<Rightarrow> int" where
  "value_cost n v = tick (tick n ValueCostFlat) (ValueCostPerByte * int (length v))"

lemma gas_free [exec_simps]:
  "gas_Get s k (free st n) = (Val (kv_Get (st s) k), free st (read_cost n (kv_Get (st s) k)))"
  "gas_Set s k v (free st n) = (Val (), free (st(s := kv_Set (st s) k v)) (write_cost n v))"
  "gas_Has s k (free st n) = (Val (kv_Has (st s) k), free st (tick n HasCost))"
  "gas_Delete s k (free st n) = (Val (), free (st(s := kv_Delete (st s) k)) n)"
  "gas_iter_Key it (free st n) = (Val (fst it), free st (tick n KeyCostFlat))"
  "gas_iter_Value it (free st n) = (Val (snd it), free st (value_cost n (snd it)))"
  by (simp_all add: gas_Get_def gas_Set_def gas_Has_def gas_Delete_def gas_iter_Key_def gas_iter_Value_def Let_def
      bnd_def ret_def consume_free get_store_def put_store_def read_cost_def write_cost_def value_cost_def)
    (simp_all add: free_def)

lemma iterators_free:
  assumes "p \<noteq> []"
  shows "KVStorePrefixIterator s p (free st n) = (Val (filter (\<lambda>kv. prefix p (fst kv)) (st s)), free st n)"
    and "KVStoreReversePrefixIterator s p (free st n) = (Val (rev (filter (\<lambda>kv. prefix p (fst kv)) (st s))), free st n)"
proof -
  obtain e where e: "PrefixEndBytes (Some p) = Val e" using PrefixEndBytes_returns [OF assms] by (auto simp: is_val_def)
  have "in_dom (Some p) e k \<longleftrightarrow> prefix p k" for k
    using PrefixEndBytes_range [OF assms e, of k] by (auto simp: in_dom_def)
  moreover from this have "rev_dom (Some p) e k \<longleftrightarrow> prefix p k" for k by (simp add: rev_dom_above)
  ultimately show "KVStorePrefixIterator s p (free st n) = (Val (filter (\<lambda>kv. prefix p (fst kv)) (st s)), free st n)"
    and "KVStoreReversePrefixIterator s p (free st n) = (Val (rev (filter (\<lambda>kv. prefix p (fst kv)) (st s))), free st n)"
    by (simp_all add: KVStorePrefixIterator_def KVStoreReversePrefixIterator_def e bnd_def lift_def gas_iterator_run
        kv_Iterator_def kv_ReverseIterator_def case_prod_unfold)
qed

text \<open>Iterators over a prefix in general.\<close>

lemma KVStorePrefixIterator_Val:
  assumes "KVStorePrefixIterator s p w = (Val its, t)" and "p \<noteq> []"
  shows "its = filter (\<lambda>kv. prefix p (fst kv)) (w_stores w s) \<and> t = w"
proof -
  obtain e where e: "PrefixEndBytes (Some p) = Val e" using PrefixEndBytes_returns [OF assms(2)] by (auto simp: is_val_def)
  have "in_dom (Some p) e k \<longleftrightarrow> prefix p k" for k
    using PrefixEndBytes_range [OF assms(2) e, of k] by (auto simp: in_dom_def)
  then show ?thesis using assms(1)
    by (auto simp: KVStorePrefixIterator_def e run_iffs gas_iterator_run kv_Iterator_def case_prod_unfold)
qed

lemma filter_kv_Set: "\<not> P k \<Longrightarrow> filter (\<lambda>kv. P (fst kv)) (kv_Set m k v) = filter (\<lambda>kv. P (fst kv)) m"
  by (induction m k v rule: kv_Set.induct) auto

text \<open>A sequence of steps is run from its head; the rest is not looked at before.\<close>

lemma bnd_step [exec_simps]: "bnd m f s = (case m s of (r, t) \<Rightarrow> (case r of Val x \<Rightarrow> f x t | Panic p \<Rightarrow> (Panic p, t)))"
  by (simp add: bnd_def split: outcome.splits prod.splits)

lemma bnd_cong_weak: "s = t \<Longrightarrow> bnd m f s = bnd m f t"
  by simp

lemmas exec_basic [exec_simps] = ret_run panicM_run lift_run must_run

end
