(* ===== verification/StakeTypes.thy ===== *)
theory StakeTypes
  imports SdkRat SdkCoins SdkContext
begin

text \<open>
  The types of \<open>x/stake/types\<close>: the pool of staked tokens and the shares issued for them, the
  validators and what delegating to them, leaving them and changing their status does to both,
  delegations, parameters, messages and errors.  Token counts are \<open>int64\<close> and wrap around;
  shares are exact rationals, and dividing by a zero rate panics.
\<close>

section \<open>Errors\<close>

definition stake_DefaultCodespace :: CodespaceType where "stake_DefaultCodespace = 4"
definition CodeInvalidValidator :: CodeType where "CodeInvalidValidator = 101"
definition CodeInvalidDelegation :: CodeType where "CodeInvalidDelegation = 102"
definition stake_CodeInvalidInput :: CodeType where "stake_CodeInvalidInput = 103"
definition CodeValidatorJailed :: CodeType where "CodeValidatorJailed = 104"

definition ErrNilValidatorAddr :: "CodespaceType \<Rightarrow> sdkError" where
  "ErrNilValidatorAddr codespace = NewError codespace stake_CodeInvalidInput"
definition ErrNoValidatorFound :: "CodespaceType \<Rightarrow> sdkError" where
  "ErrNoValidatorFound codespace = NewError codespace CodeInvalidValidator"
definition ErrValidatorAlreadyExists :: "CodespaceType \<Rightarrow> sdkError" where
  "ErrValidatorAlreadyExists codespace = NewError codespace CodeInvalidValidator"
definition ErrValidatorRevoked :: "CodespaceType \<Rightarrow> sdkError" where
  "ErrValidatorRevoked codespace = NewError codespace CodeInvalidValidator"
definition ErrDescriptionLength :: "CodespaceType \<Rightarrow> sdkError" where
  "ErrDescriptionLength codespace = NewError codespace CodeInvalidValidator"
definition ErrNilDelegatorAddr :: "CodespaceType \<Rightarrow> sdkError" where
  "ErrNilDelegatorAddr codespace = NewError codespace stake_CodeInvalidInput"
definition ErrBadDenom :: "CodespaceType \<Rightarrow> sdkError" where
  "ErrBadDenom codespace = NewError codespace CodeInvalidDelegation"
definition ErrBadDelegationAmount :: "CodespaceType \<Rightarrow> sdkError" where
  "ErrBadDelegationAmount codespace = NewError codespace CodeInvalidDelegation"
definition ErrNoDelegatorForAddress :: "CodespaceType \<Rightarrow> sdkError" where
  "ErrNoDelegatorForAddress codespace = NewError codespace CodeInvalidDelegation"
definition ErrNotEnoughDelegationShares :: "CodespaceType \<Rightarrow> sdkError" where
  "ErrNotEnoughDelegationShares codespace = NewError codespace CodeInvalidDelegation"
definition ErrBadSharesAmount :: "CodespaceType \<Rightarrow> sdkError" where
  "ErrBadSharesAmount codespace = NewError codespace CodeInvalidDelegation"
definition ErrBadSharesPrecision :: "CodespaceType \<Rightarrow> sdkError" where
  "ErrBadSharesPrecision codespace = NewError codespace CodeInvalidDelegation"
definition ErrNotMature :: "CodespaceType \<Rightarrow> sdkError" where
  "ErrNotMature codespace = NewError codespace CodeUnauthorized"
definition ErrNoUnbondingDelegation :: "CodespaceType \<Rightarrow> sdkError" where
  "ErrNoUnbondingDelegation codespace = NewError codespace CodeInvalidDelegation"
definition ErrNoRedelegation :: "CodespaceType \<Rightarrow> sdkError" where
  "ErrNoRedelegation codespace = NewError codespace CodeInvalidDelegation"
definition ErrBadRedelegationDst :: "CodespaceType \<Rightarrow> sdkError" where
  "ErrBadRedelegationDst codespace = NewError codespace CodeInvalidDelegation"
definition ErrTransitiveRedelegation :: "CodespaceType \<Rightarrow> sdkError" where
  "ErrTransitiveRedelegation codespace = NewError codespace CodeInvalidDelegation"

lemmas stake_err_defs =
  ErrNilValidatorAddr_def ErrNoValidatorFound_def ErrValidatorAlreadyExists_def ErrValidatorRevoked_def
  ErrDescriptionLength_def ErrNilDelegatorAddr_def ErrBadDenom_def ErrBadDelegationAmount_def
  ErrNoDelegatorForAddress_def ErrNotEnoughDelegationShares_def ErrBadSharesAmount_def
  ErrBadSharesPrecision_def ErrNotMature_def ErrNoUnbondingDelegation_def ErrNoRedelegation_def
  ErrBadRedelegationDst_def ErrTransitiveRedelegation_def
  CodeInvalidValidator_def CodeInvalidDelegation_def stake_CodeInvalidInput_def

section \<open>The pool\<close>

datatype BondStatus = Unbonded | Unbonding | Bonded

definition BondStatusToString :: "BondStatus \<Rightarrow> string" where
  "BondStatusToString b = (case b of
     Unbonded \<Rightarrow> ''Unbonded'' | Unbonding \<Rightarrow> ''Unbonding'' | Bonded \<Rightarrow> ''Bonded'')"

record PoolShares =
  ps_Status :: BondStatus
  ps_Amount :: rat

record Pool =
  LooseTokens :: int
  UnbondedTokens :: int
  UnbondingTokens :: int
  BondedTokens :: int
  UnbondedShares :: rat
  UnbondingShares :: rat
  BondedShares :: rat
  InflationLastTime :: int
  Inflation :: rat
  DateLastCommissionReset :: int
  PrevBondedShares :: rat

definition NewUnbondedShares :: "rat \<Rightarrow> PoolShares" where
  "NewUnbondedShares amount = \<lparr>ps_Status = Unbonded, ps_Amount = amount\<rparr>"

definition NewUnbondingShares :: "rat \<Rightarrow> PoolShares" where
  "NewUnbondingShares amount = \<lparr>ps_Status = Unbonding, ps_Amount = amount\<rparr>"

definition NewBondedShares :: "rat \<Rightarrow> PoolShares" where
  "NewBondedShares amount = \<lparr>ps_Status = Bonded, ps_Amount = amount\<rparr>"

definition PoolShares_Equal :: "PoolShares \<Rightarrow> PoolShares \<Rightarrow> bool" where
  "PoolShares_Equal s s2 = (ps_Status s = ps_Status s2 \<and> ps_Amount s = ps_Amount s2)"

definition PoolShares_Bonded :: "PoolShares \<Rightarrow> rat" where
  "PoolShares_Bonded s = (if ps_Status s = Bonded then ps_Amount s else 0)"

definition PoolShares_Unbonding :: "PoolShares \<Rightarrow> rat" where
  "PoolShares_Unbonding s = (if ps_Status s = Unbonding then ps_Amount s else 0)"

definition PoolShares_Unbonded :: "PoolShares \<Rightarrow> rat" where
  "PoolShares_Unbonded s = (if ps_Status s = Unbonded then ps_Amount s else 0)"

definition InitialPool :: Pool where
  "InitialPool = \<lparr>LooseTokens = 0, UnbondedTokens = 0, UnbondingTokens = 0, BondedTokens = 0,
     UnbondedShares = 0, UnbondingShares = 0, BondedShares = 0, InflationLastTime = 0,
     Inflation = 7 / 100, DateLastCommissionReset = 0, PrevBondedShares = 0\<rparr>"

definition TokenSupply :: "Pool \<Rightarrow> int" where
  "TokenSupply p = wrap64 (LooseTokens p + UnbondedTokens p + UnbondingTokens p + BondedTokens p)"

definition BondedRatio :: "Pool \<Rightarrow> rat outcome" where
  "BondedRatio p = (if TokenSupply p > 0 then NewRat (BondedTokens p) [TokenSupply p] else Val 0)"

definition BondedShareExRate :: "Pool \<Rightarrow> rat outcome" where
  "BondedShareExRate p =
     (if BondedShares p = 0 then Val 1
      else obind (NewRat (BondedTokens p) []) (\<lambda>r. Rat_Quo r (BondedShares p)))"

definition UnbondingShareExRate :: "Pool \<Rightarrow> rat outcome" where
  "UnbondingShareExRate p =
     (if UnbondingShares p = 0 then Val 1
      else obind (NewRat (UnbondingTokens p) []) (\<lambda>r. Rat_Quo r (UnbondingShares p)))"

definition UnbondedShareExRate :: "Pool \<Rightarrow> rat outcome" where
  "UnbondedShareExRate p =
     (if UnbondedShares p = 0 then Val 1
      else obind (NewRat (UnbondedTokens p) []) (\<lambda>r. Rat_Quo r (UnbondedShares p)))"

definition loose_negative :: panic where
  "loose_negative = GoPanic ''sanity check: loose tokens negative''"

definition addTokensUnbonded :: "Pool \<Rightarrow> int \<Rightarrow> (Pool \<times> PoolShares) outcome" where
  "addTokensUnbonded p amount =
     obind (UnbondedShareExRate p) (\<lambda>rate.
     obind (Rat_Quo (rat_of_int amount) rate) (\<lambda>issuedSharesAmount.
     let p = p\<lparr>UnbondedShares := UnbondedShares p + issuedSharesAmount\<rparr>;
         p = p\<lparr>UnbondedTokens := wrap64 (UnbondedTokens p + amount)\<rparr>;
         p = p\<lparr>LooseTokens := wrap64 (LooseTokens p - amount)\<rparr>
     in if LooseTokens p < 0 then Panic loose_negative
        else Val (p, NewUnbondedShares issuedSharesAmount)))"

definition removeSharesUnbonded :: "Pool \<Rightarrow> rat \<Rightarrow> (Pool \<times> int) outcome" where
  "removeSharesUnbonded p shares =
     obind (UnbondedShareExRate p) (\<lambda>rate.
     let removedTokens = RoundInt64 (rate * shares);
         p = p\<lparr>UnbondedShares := UnbondedShares p - shares\<rparr>;
         p = p\<lparr>UnbondedTokens := wrap64 (UnbondedTokens p - removedTokens)\<rparr>;
         p = p\<lparr>LooseTokens := wrap64 (LooseTokens p + removedTokens)\<rparr>
     in if UnbondedTokens p < 0 then Panic (GoPanic ''sanity check: unbonded tokens negative'')
        else Val (p, removedTokens))"

definition addTokensUnbonding :: "Pool \<Rightarrow> int \<Rightarrow> (Pool \<times> PoolShares) outcome" where
  "addTokensUnbonding p amount =
     obind (UnbondingShareExRate p) (\<lambda>rate.
     obind (Rat_Quo (rat_of_int amount) rate) (\<lambda>issuedSharesAmount.
     let p = p\<lparr>UnbondingShares := UnbondingShares p + issuedSharesAmount\<rparr>;
         p = p\<lparr>UnbondingTokens := wrap64 (UnbondingTokens p + amount)\<rparr>;
         p = p\<lparr>LooseTokens := wrap64 (LooseTokens p - amount)\<rparr>
     in if LooseTokens p < 0 then Panic loose_negative
        else Val (p, NewUnbondingShares issuedSharesAmount)))"

text \<open>The last check of the next function and of \<open>removeSharesBonded\<close> is on the unbonded tokens, as in the source.\<close>

definition removeSharesUnbonding :: "Pool \<Rightarrow> rat \<Rightarrow> (Pool \<times> int) outcome" where
  "removeSharesUnbonding p shares =
     obind (UnbondingShareExRate p) (\<lambda>rate.
     let removedTokens = RoundInt64 (rate * shares);
         p = p\<lparr>UnbondingShares := UnbondingShares p - shares\<rparr>;
         p = p\<lparr>UnbondingTokens := wrap64 (UnbondingTokens p - removedTokens)\<rparr>;
         p = p\<lparr>LooseTokens := wrap64 (LooseTokens p + removedTokens)\<rparr>
     in if UnbondedTokens p < 0 then Panic (GoPanic ''sanity check: unbonding tokens negative'')
        else Val (p, removedTokens))"

definition addTokensBonded :: "Pool \<Rightarrow> int \<Rightarrow> (Pool \<times> PoolShares) outcome" where
  "addTokensBonded p amount =
     obind (BondedShareExRate p) (\<lambda>rate.
     obind (Rat_Quo (rat_of_int amount) rate) (\<lambda>issuedSharesAmount.
     let p = p\<lparr>BondedShares := BondedShares p + issuedSharesAmount\<rparr>;
         p = p\<lparr>BondedTokens := wrap64 (BondedTokens p + amount)\<rparr>;
         p = p\<lparr>LooseTokens := wrap64 (LooseTokens p - amount)\<rparr>
     in if LooseTokens p < 0 then Panic loose_negative
        else Val (p, NewBondedShares issuedSharesAmount)))"

definition removeSharesBonded :: "Pool \<Rightarrow> rat \<Rightarrow> (Pool \<times> int) outcome" where
  "removeSharesBonded p shares =
     obind (BondedShareExRate p) (\<lambda>rate.
     let removedTokens = RoundInt64 (rate * shares);
         p = p\<lparr>BondedShares := BondedShares p - shares\<rparr>;
         p = p\<lparr>BondedTokens := wrap64 (BondedTokens p - removedTokens)\<rparr>;
         p = p\<lparr>LooseTokens := wrap64 (LooseTokens p + removedTokens)\<rparr>
     in if UnbondedTokens p < 0 then Panic (GoPanic ''sanity check: bonded tokens negative'')
        else Val (p, removedTokens))"

section \<open>Shares\<close>

definition ToUnbonded :: "PoolShares \<Rightarrow> Pool \<Rightarrow> PoolShares outcome" where
  "ToUnbonded s p =
     obind (case ps_Status s of
       Bonded \<Rightarrow> obind (BondedShareExRate p) (\<lambda>a. obind (UnbondedShareExRate p) (\<lambda>b.
         obind (Rat_Quo a b) (\<lambda>exRate. Val (ps_Amount s * exRate))))
     | Unbonding \<Rightarrow> obind (UnbondingShareExRate p) (\<lambda>a. obind (UnbondedShareExRate p) (\<lambda>b.
         obind (Rat_Quo a b) (\<lambda>exRate. Val (ps_Amount s * exRate))))
     | Unbonded \<Rightarrow> Val (ps_Amount s))
     (\<lambda>amount. Val (NewUnbondedShares amount))"

definition ToUnbonding :: "PoolShares \<Rightarrow> Pool \<Rightarrow> PoolShares outcome" where
  "ToUnbonding s p =
     obind (case ps_Status s of
       Bonded \<Rightarrow> obind (BondedShareExRate p) (\<lambda>a. obind (UnbondingShareExRate p) (\<lambda>b.
         obind (Rat_Quo a b) (\<lambda>exRate. Val (ps_Amount s * exRate))))
     | Unbonding \<Rightarrow> Val (ps_Amount s)
     | Unbonded \<Rightarrow> obind (UnbondedShareExRate p) (\<lambda>a. obind (UnbondingShareExRate p) (\<lambda>b.
         obind (Rat_Quo a b) (\<lambda>exRate. Val (ps_Amount s * exRate)))))
     (\<lambda>amount. Val (NewUnbondingShares amount))"

text \<open>The result has the status unbonded, as in the source; its callers only read the amount.\<close>

definition ToBonded :: "PoolShares \<Rightarrow> Pool \<Rightarrow> PoolShares outcome" where
  "ToBonded s p =
     obind (case ps_Status s of
       Bonded \<Rightarrow> Val (ps_Amount s)
     | Unbonding \<Rightarrow> obind (UnbondingShareExRate p) (\<lambda>a. obind (BondedShareExRate p) (\<lambda>b.
         obind (Rat_Quo a b) (\<lambda>exRate. Val (ps_Amount s * exRate))))
     | Unbonded \<Rightarrow> obind (UnbondedShareExRate p) (\<lambda>a. obind (BondedShareExRate p) (\<lambda>b.
         obind (Rat_Quo a b) (\<lambda>exRate. Val (ps_Amount s * exRate)))))
     (\<lambda>amount. Val (NewUnbondedShares amount))"

definition PoolShares_Tokens :: "PoolShares \<Rightarrow> Pool \<Rightarrow> rat outcome" where
  "PoolShares_Tokens s p = (case ps_Status s of
     Bonded \<Rightarrow> obind (BondedShareExRate p) (\<lambda>r. Val (r * ps_Amount s))
   | Unbonding \<Rightarrow> obind (UnbondingShareExRate p) (\<lambda>r. Val (r * ps_Amount s))
   | Unbonded \<Rightarrow> obind (UnbondedShareExRate p) (\<lambda>r. Val (r * ps_Amount s)))"

section \<open>Parameters\<close>

record Params =
  InflationRateChange :: rat
  InflationMax :: rat
  InflationMin :: rat
  GoalBonded :: rat
  UnbondingTime :: int
  MaxValidators :: nat
  BondDenom :: string

definition DefaultParams :: Params where
  "DefaultParams = \<lparr>InflationRateChange = 13 / 100, InflationMax = 20 / 100, InflationMin = 7 / 100,
     GoalBonded = 67 / 100, UnbondingTime = 60 * 60 * 24 * 3, MaxValidators = 100, BondDenom = ''steak''\<rparr>"

section \<open>Validators\<close>

record Description =
  Moniker :: string
  Identity :: string
  Website :: string
  Details :: string

record Validator =
  Owner :: bytes
  val_PubKey :: bytes
  Revoked :: bool
  val_PoolShares :: PoolShares
  DelegatorShares :: rat
  val_Description :: Description
  BondHeight :: int
  BondIntraTxCounter :: int
  ProposerRewardPool :: Coins
  Commission :: rat
  CommissionMax :: rat
  CommissionChangeRate :: rat
  CommissionChangeToday :: rat
  val_PrevBondedShares :: rat

definition NewValidator :: "bytes \<Rightarrow> bytes \<Rightarrow> Description \<Rightarrow> Validator" where
  "NewValidator owner pubKey description =
     \<lparr>Owner = owner, val_PubKey = pubKey, Revoked = False, val_PoolShares = NewUnbondedShares 0,
      DelegatorShares = 0, val_Description = description, BondHeight = 0, BondIntraTxCounter = 0,
      ProposerRewardPool = [], Commission = 0, CommissionMax = 0, CommissionChangeRate = 0,
      CommissionChangeToday = 0, val_PrevBondedShares = 0\<rparr>"

definition Validator_Equal :: "Validator \<Rightarrow> Validator \<Rightarrow> bool" where
  "Validator_Equal v c2 \<longleftrightarrow> val_PubKey v = val_PubKey c2 \<and> Owner v = Owner c2
     \<and> PoolShares_Equal (val_PoolShares v) (val_PoolShares c2) \<and> DelegatorShares v = DelegatorShares c2
     \<and> val_Description v = val_Description c2 \<and> Coins_IsEqual (ProposerRewardPool v) (ProposerRewardPool c2)
     \<and> Commission v = Commission c2 \<and> CommissionMax v = CommissionMax c2
     \<and> CommissionChangeRate v = CommissionChangeRate c2
     \<and> CommissionChangeToday v = CommissionChangeToday c2
     \<and> val_PrevBondedShares v = val_PrevBondedShares c2"

definition NewDescription :: "string \<Rightarrow> string \<Rightarrow> string \<Rightarrow> string \<Rightarrow> Description" where
  "NewDescription moniker identity website details =
     \<lparr>Moniker = moniker, Identity = identity, Website = website, Details = details\<rparr>"

definition EnsureLength :: "Description \<Rightarrow> sdkError + Description" where
  "EnsureLength d =
     (if length (Moniker d) > 70 then Inl (ErrDescriptionLength stake_DefaultCodespace)
      else if length (Identity d) > 3000 then Inl (ErrDescriptionLength stake_DefaultCodespace)
      else if length (Website d) > 140 then Inl (ErrDescriptionLength stake_DefaultCodespace)
      else if length (Details d) > 280 then Inl (ErrDescriptionLength stake_DefaultCodespace)
      else Inr d)"

text \<open>The receiver is the stored description and the argument the new one.\<close>

definition UpdateDescription :: "Description \<Rightarrow> Description \<Rightarrow> sdkError + Description" where
  "UpdateDescription d d2 =
     (let d2 = (if Moniker d = ''[do-not-modify]'' then d2\<lparr>Moniker := Moniker d\<rparr> else d2);
          d2 = (if Identity d = ''[do-not-modify]'' then d2\<lparr>Identity := Identity d\<rparr> else d2);
          d2 = (if Website d = ''[do-not-modify]'' then d2\<lparr>Website := Website d\<rparr> else d2);
          d2 = (if Details d = ''[do-not-modify]'' then d2\<lparr>Details := Details d\<rparr> else d2)
      in EnsureLength d2)"

record wrsp_Validator =
  wv_PubKey :: bytes
  wv_Power :: int

definition WRSPValidator :: "Validator \<Rightarrow> wrsp_Validator" where
  "WRSPValidator v = \<lparr>wv_PubKey = val_PubKey v, wv_Power = RoundInt64 (PoolShares_Bonded (val_PoolShares v))\<rparr>"

definition WRSPValidatorZero :: "Validator \<Rightarrow> wrsp_Validator" where
  "WRSPValidatorZero v = \<lparr>wv_PubKey = val_PubKey v, wv_Power = 0\<rparr>"

definition val_Status :: "Validator \<Rightarrow> BondStatus" where
  "val_Status v = ps_Status (val_PoolShares v)"

definition UpdateStatus :: "Validator \<Rightarrow> Pool \<Rightarrow> BondStatus \<Rightarrow> (Validator \<times> Pool) outcome" where
  "UpdateStatus v pool NewStatus =
     (if val_Status v = NewStatus then Val (v, pool)
      else obind (case val_Status v of
          Unbonded \<Rightarrow> removeSharesUnbonded pool (ps_Amount (val_PoolShares v))
        | Unbonding \<Rightarrow> removeSharesUnbonding pool (ps_Amount (val_PoolShares v))
        | Bonded \<Rightarrow> removeSharesBonded pool (ps_Amount (val_PoolShares v))) (\<lambda>(pool, tokens).
        obind (case NewStatus of
          Unbonded \<Rightarrow> addTokensUnbonded pool tokens
        | Unbonding \<Rightarrow> addTokensUnbonding pool tokens
        | Bonded \<Rightarrow> addTokensBonded pool tokens) (\<lambda>(pool, shares).
        Val (v\<lparr>val_PoolShares := shares\<rparr>, pool))))"

definition RemovePoolShares :: "Validator \<Rightarrow> Pool \<Rightarrow> rat \<Rightarrow> (Validator \<times> Pool \<times> int) outcome" where
  "RemovePoolShares v pool poolShares =
     obind (case val_Status v of
       Unbonded \<Rightarrow> removeSharesUnbonded pool poolShares
     | Unbonding \<Rightarrow> removeSharesUnbonding pool poolShares
     | Bonded \<Rightarrow> removeSharesBonded pool poolShares) (\<lambda>(pool, tokens).
     Val (v\<lparr>val_PoolShares := (val_PoolShares v)\<lparr>ps_Amount := ps_Amount (val_PoolShares v) - poolShares\<rparr>\<rparr>, pool, tokens))"

definition EquivalentBondedShares :: "Validator \<Rightarrow> Pool \<Rightarrow> rat outcome" where
  "EquivalentBondedShares v pool = obind (ToBonded (val_PoolShares v) pool) (\<lambda>s. Val (ps_Amount s))"

definition DelegatorShareExRate :: "Validator \<Rightarrow> Pool \<Rightarrow> rat outcome" where
  "DelegatorShareExRate v pool =
     (if DelegatorShares v = 0 then Val 1
      else obind (ToBonded (val_PoolShares v) pool) (\<lambda>eqBondedShares.
        Rat_Quo (ps_Amount eqBondedShares) (DelegatorShares v)))"

definition AddTokensFromDel :: "Validator \<Rightarrow> Pool \<Rightarrow> int \<Rightarrow> (Validator \<times> Pool \<times> rat) outcome" where
  "AddTokensFromDel v pool amount =
     obind (DelegatorShareExRate v pool) (\<lambda>exRate.
     obind (case val_Status v of
       Unbonded \<Rightarrow> addTokensUnbonded pool amount
     | Unbonding \<Rightarrow> addTokensUnbonding pool amount
     | Bonded \<Rightarrow> addTokensBonded pool amount) (\<lambda>(pool, poolShares).
     let v = v\<lparr>val_PoolShares := (val_PoolShares v)\<lparr>ps_Amount := ps_Amount (val_PoolShares v) + ps_Amount poolShares\<rparr>\<rparr> in
     obind (ToBonded poolShares pool) (\<lambda>equivalentBondedShares.
     obind (Rat_Quo (ps_Amount equivalentBondedShares) exRate) (\<lambda>issuedDelegatorShares.
     Val (v\<lparr>DelegatorShares := DelegatorShares v + issuedDelegatorShares\<rparr>, pool, issuedDelegatorShares)))))"

definition RemoveDelShares :: "Validator \<Rightarrow> Pool \<Rightarrow> rat \<Rightarrow> (Validator \<times> Pool \<times> int) outcome" where
  "RemoveDelShares v pool delShares =
     obind (DelegatorShareExRate v pool) (\<lambda>rate.
     let amount = rate * delShares;
         eqBondedSharesToRemove = NewBondedShares amount;
         v = v\<lparr>DelegatorShares := DelegatorShares v - delShares\<rparr>;
         less = (\<lambda>shares. v\<lparr>val_PoolShares := (val_PoolShares v)\<lparr>ps_Amount := ps_Amount (val_PoolShares v) - shares\<rparr>\<rparr>)
     in (case val_Status v of
       Unbonded \<Rightarrow>
         obind (ToUnbonded eqBondedSharesToRemove pool) (\<lambda>s.
         obind (removeSharesUnbonded pool (ps_Amount s)) (\<lambda>(pool, createdCoins).
         Val (less (ps_Amount s), pool, createdCoins)))
     | Unbonding \<Rightarrow>
         obind (ToUnbonding eqBondedSharesToRemove pool) (\<lambda>s.
         obind (removeSharesUnbonding pool (ps_Amount s)) (\<lambda>(pool, createdCoins).
         Val (less (ps_Amount s), pool, createdCoins)))
     | Bonded \<Rightarrow>
         obind (removeSharesBonded pool (ps_Amount eqBondedSharesToRemove)) (\<lambda>(pool, createdCoins).
         Val (less (ps_Amount eqBondedSharesToRemove), pool, createdCoins))))"

section \<open>Delegations\<close>

record Delegation =
  del_DelegatorAddr :: bytes
  del_ValidatorAddr :: bytes
  del_Shares :: rat
  del_Height :: int

definition Delegation_Equal :: "Delegation \<Rightarrow> Delegation \<Rightarrow> bool" where
  "Delegation_Equal d d2 \<longleftrightarrow> del_DelegatorAddr d = del_DelegatorAddr d2 \<and> del_ValidatorAddr d = del_ValidatorAddr d2
     \<and> del_Height d = del_Height d2 \<and> del_Shares d = del_Shares d2"

record UnbondingDelegation =
  ubd_DelegatorAddr :: bytes
  ubd_ValidatorAddr :: bytes
  ubd_CreationHeight :: int
  ubd_MinTime :: int
  ubd_InitialBalance :: Coin
  ubd_Balance :: Coin

record Redelegation =
  red_DelegatorAddr :: bytes
  red_ValidatorSrcAddr :: bytes
  red_ValidatorDstAddr :: bytes
  red_CreationHeight :: int
  red_MinTime :: int
  red_InitialBalance :: Coin
  red_Balance :: Coin
  red_SharesSrc :: rat
  red_SharesDst :: rat

section \<open>Messages\<close>

text \<open>An address of a message may be nil, which is \<open>None\<close>.\<close>

definition MaxBondDenominatorPrecision :: nat where "MaxBondDenominatorPrecision = 8"

definition maximumBondingRationalDenominator :: sdk_int where
  "maximumBondingRationalDenominator = NewInt (10 ^ MaxBondDenominatorPrecision)"

definition stake_MsgType :: string where "stake_MsgType = ''stake''"

definition emptyDescription :: Description where
  "emptyDescription = \<lparr>Moniker = [], Identity = [], Website = [], Details = []\<rparr>"

record MsgCreateValidator =
  mcv_Description :: Description
  mcv_ValidatorAddr :: "bytes option"
  mcv_PubKey :: bytes
  mcv_SelfDelegation :: Coin

record MsgEditValidator =
  mev_Description :: Description
  mev_ValidatorAddr :: "bytes option"

record MsgDelegate =
  md_DelegatorAddr :: "bytes option"
  md_ValidatorAddr :: "bytes option"
  md_Bond :: Coin

record MsgBeginRedelegate =
  mbr_DelegatorAddr :: "bytes option"
  mbr_ValidatorSrcAddr :: "bytes option"
  mbr_ValidatorDstAddr :: "bytes option"
  mbr_SharesAmount :: rat

record MsgCompleteRedelegate =
  mcr_DelegatorAddr :: "bytes option"
  mcr_ValidatorSrcAddr :: "bytes option"
  mcr_ValidatorDstAddr :: "bytes option"

record MsgBeginUnbonding =
  mbu_DelegatorAddr :: "bytes option"
  mbu_ValidatorAddr :: "bytes option"
  mbu_SharesAmount :: rat

record MsgCompleteUnbonding =
  mcu_DelegatorAddr :: "bytes option"
  mcu_ValidatorAddr :: "bytes option"

definition MsgCreateValidator_ValidateBasic :: "MsgCreateValidator \<Rightarrow> sdkError option" where
  "MsgCreateValidator_ValidateBasic msg =
     (if mcv_ValidatorAddr msg = None then Some (ErrNilValidatorAddr stake_DefaultCodespace)
      else if \<not> Int_GT (Amount (mcv_SelfDelegation msg)) ZeroInt then Some (ErrBadDelegationAmount stake_DefaultCodespace)
      else if mcv_Description msg = emptyDescription then Some (NewError stake_DefaultCodespace stake_CodeInvalidInput)
      else None)"

definition MsgEditValidator_ValidateBasic :: "MsgEditValidator \<Rightarrow> sdkError option" where
  "MsgEditValidator_ValidateBasic msg =
     (if mev_ValidatorAddr msg = None then Some (NewError stake_DefaultCodespace stake_CodeInvalidInput)
      else if mev_Description msg = emptyDescription then Some (NewError stake_DefaultCodespace stake_CodeInvalidInput)
      else None)"

definition MsgDelegate_ValidateBasic :: "MsgDelegate \<Rightarrow> sdkError option" where
  "MsgDelegate_ValidateBasic msg =
     (if md_DelegatorAddr msg = None then Some (ErrNilDelegatorAddr stake_DefaultCodespace)
      else if md_ValidatorAddr msg = None then Some (ErrNilValidatorAddr stake_DefaultCodespace)
      else if \<not> Int_GT (Amount (md_Bond msg)) ZeroInt then Some (ErrBadDelegationAmount stake_DefaultCodespace)
      else None)"

definition MsgBeginRedelegate_ValidateBasic :: "MsgBeginRedelegate \<Rightarrow> sdkError option" where
  "MsgBeginRedelegate_ValidateBasic msg =
     (if mbr_DelegatorAddr msg = None then Some (ErrNilDelegatorAddr stake_DefaultCodespace)
      else if mbr_ValidatorSrcAddr msg = None then Some (ErrNilValidatorAddr stake_DefaultCodespace)
      else if mbr_ValidatorDstAddr msg = None then Some (ErrNilValidatorAddr stake_DefaultCodespace)
      else if mbr_SharesAmount msg \<le> 0 then Some (ErrBadSharesAmount stake_DefaultCodespace)
      else if Int_GT (Rat_Denom (mbr_SharesAmount msg)) maximumBondingRationalDenominator
        then Some (ErrBadSharesPrecision stake_DefaultCodespace)
      else None)"

definition MsgCompleteRedelegate_ValidateBasic :: "MsgCompleteRedelegate \<Rightarrow> sdkError option" where
  "MsgCompleteRedelegate_ValidateBasic msg =
     (if mcr_DelegatorAddr msg = None then Some (ErrNilDelegatorAddr stake_DefaultCodespace)
      else if mcr_ValidatorSrcAddr msg = None then Some (ErrNilValidatorAddr stake_DefaultCodespace)
      else if mcr_ValidatorDstAddr msg = None then Some (ErrNilValidatorAddr stake_DefaultCodespace)
      else None)"

definition MsgBeginUnbonding_ValidateBasic :: "MsgBeginUnbonding \<Rightarrow> sdkError option" where
  "MsgBeginUnbonding_ValidateBasic msg =
     (if mbu_DelegatorAddr msg = None then Some (ErrNilDelegatorAddr stake_DefaultCodespace)
      else if mbu_ValidatorAddr msg = None then Some (ErrNilValidatorAddr stake_DefaultCodespace)
      else if mbu_SharesAmount msg \<le> 0 then Some (ErrBadSharesAmount stake_DefaultCodespace)
      else if Int_GT (Rat_Denom (mbu_SharesAmount msg)) maximumBondingRationalDenominator
        then Some (ErrBadSharesPrecision stake_DefaultCodespace)
      else None)"

definition MsgCompleteUnbonding_ValidateBasic :: "MsgCompleteUnbonding \<Rightarrow> sdkError option" where
  "MsgCompleteUnbonding_ValidateBasic msg =
     (if mcu_DelegatorAddr msg = None then Some (ErrNilDelegatorAddr stake_DefaultCodespace)
      else if mcu_ValidatorAddr msg = None then Some (ErrNilValidatorAddr stake_DefaultCodespace)
      else None)"

text \<open>
  The JSON forms for signing are parameters.  The bond of the first one is the zero value of a
  coin (\<open>None\<close>): the source does not fill in that field.
\<close>

record stake_json =
  sj_Bech32ifyAcc :: "bytes option \<Rightarrow> string"
  sj_Bech32ifyVal :: "bytes option \<Rightarrow> string"
  sj_Bech32ifyValPub :: "bytes \<Rightarrow> string"
  sj_ratString :: "rat \<Rightarrow> string"
  sj_create :: "Description \<Rightarrow> string \<Rightarrow> string \<Rightarrow> Coin option \<Rightarrow> bytes"
  sj_edit :: "Description \<Rightarrow> string \<Rightarrow> bytes"
  sj_delegate :: "string \<Rightarrow> string \<Rightarrow> Coin \<Rightarrow> bytes"
  sj_beginRedelegate :: "string \<Rightarrow> string \<Rightarrow> string \<Rightarrow> string \<Rightarrow> bytes"
  sj_completeRedelegate :: "string \<Rightarrow> string \<Rightarrow> string \<Rightarrow> bytes"
  sj_beginUnbonding :: "string \<Rightarrow> string \<Rightarrow> string \<Rightarrow> bytes"
  sj_completeUnbonding :: "string \<Rightarrow> string \<Rightarrow> bytes"

definition MsgCreateValidator_GetSignBytes :: "stake_json \<Rightarrow> MsgCreateValidator \<Rightarrow> bytes" where
  "MsgCreateValidator_GetSignBytes J msg =
     sj_create J (mcv_Description msg) (sj_Bech32ifyVal J (mcv_ValidatorAddr msg)) (sj_Bech32ifyValPub J (mcv_PubKey msg)) None"

definition MsgEditValidator_GetSignBytes :: "stake_json \<Rightarrow> MsgEditValidator \<Rightarrow> bytes" where
  "MsgEditValidator_GetSignBytes J msg = sj_edit J (mev_Description msg) (sj_Bech32ifyVal J (mev_ValidatorAddr msg))"

definition MsgDelegate_GetSignBytes :: "stake_json \<Rightarrow> MsgDelegate \<Rightarrow> bytes" where
  "MsgDelegate_GetSignBytes J msg =
     sj_delegate J (sj_Bech32ifyAcc J (md_DelegatorAddr msg)) (sj_Bech32ifyVal J (md_ValidatorAddr msg)) (md_Bond msg)"

definition MsgBeginRedelegate_GetSignBytes :: "stake_json \<Rightarrow> MsgBeginRedelegate \<Rightarrow> bytes" where
  "MsgBeginRedelegate_GetSignBytes J msg =
     sj_beginRedelegate J (sj_Bech32ifyAcc J (mbr_DelegatorAddr msg)) (sj_Bech32ifyVal J (mbr_ValidatorSrcAddr msg))
       (sj_Bech32ifyVal J (mbr_ValidatorDstAddr msg)) (sj_ratString J (mbr_SharesAmount msg))"

definition MsgCompleteRedelegate_GetSignBytes :: "stake_json \<Rightarrow> MsgCompleteRedelegate \<Rightarrow> bytes" where
  "MsgCompleteRedelegate_GetSignBytes J msg =
     sj_completeRedelegate J (sj_Bech32ifyAcc J (mcr_DelegatorAddr msg)) (sj_Bech32ifyVal J (mcr_ValidatorSrcAddr msg))
       (sj_Bech32ifyVal J (mcr_ValidatorDstAddr msg))"

definition MsgBeginUnbonding_GetSignBytes :: "stake_json \<Rightarrow> MsgBeginUnbonding \<Rightarrow> bytes" where
  "MsgBeginUnbonding_GetSignBytes J msg =
     sj_beginUnbonding J (sj_Bech32ifyAcc J (mbu_DelegatorAddr msg)) (sj_Bech32ifyVal J (mbu_ValidatorAddr msg))
       (sj_ratString J (mbu_SharesAmount msg))"

definition MsgCompleteUnbonding_GetSignBytes :: "stake_json \<Rightarrow> MsgCompleteUnbonding \<Rightarrow> bytes" where
  "MsgCompleteUnbonding_GetSignBytes J msg =
     sj_completeUnbonding J (sj_Bech32ifyAcc J (mcu_DelegatorAddr msg)) (sj_Bech32ifyVal J (mcu_ValidatorAddr msg))"

datatype stake_msg =
    CreateValidator MsgCreateValidator
  | EditValidator MsgEditValidator
  | Delegate MsgDelegate
  | BeginRedelegate MsgBeginRedelegate
  | CompleteRedelegate MsgCompleteRedelegate
  | BeginUnbonding MsgBeginUnbonding
  | CompleteUnbonding MsgCompleteUnbonding

definition raw :: "bytes option \<Rightarrow> bytes" where
  "raw a = (case a of None \<Rightarrow> [] | Some b \<Rightarrow> b)"

definition stake_Msg :: "stake_json \<Rightarrow> stake_msg Msg" where
  "stake_Msg J =
     \<lparr>msg_Type = (\<lambda>_. stake_MsgType),
      msg_ValidateBasic = (\<lambda>m. Val (case m of
          CreateValidator x \<Rightarrow> MsgCreateValidator_ValidateBasic x
        | EditValidator x \<Rightarrow> MsgEditValidator_ValidateBasic x
        | Delegate x \<Rightarrow> MsgDelegate_ValidateBasic x
        | BeginRedelegate x \<Rightarrow> MsgBeginRedelegate_ValidateBasic x
        | CompleteRedelegate x \<Rightarrow> MsgCompleteRedelegate_ValidateBasic x
        | BeginUnbonding x \<Rightarrow> MsgBeginUnbonding_ValidateBasic x
        | CompleteUnbonding x \<Rightarrow> MsgCompleteUnbonding_ValidateBasic x)),
      msg_GetSignBytes = (\<lambda>m. case m of
          CreateValidator x \<Rightarrow> MsgCreateValidator_GetSignBytes J x
        | EditValidator x \<Rightarrow> MsgEditValidator_GetSignBytes J x
        | Delegate x \<Rightarrow> MsgDelegate_GetSignBytes J x
        | BeginRedelegate x \<Rightarrow> MsgBeginRedelegate_GetSignBytes J x
        | CompleteRedelegate x \<Rightarrow> MsgCompleteRedelegate_GetSignBytes J x
        | BeginUnbonding x \<Rightarrow> MsgBeginUnbonding_GetSignBytes J x
        | CompleteUnbonding x \<Rightarrow> MsgCompleteUnbonding_GetSignBytes J x),
      msg_GetSigners = (\<lambda>m. [raw (case m of
          CreateValidator x \<Rightarrow> mcv_ValidatorAddr x
        | EditValidator x \<Rightarrow> mev_ValidatorAddr x
        | Delegate x \<Rightarrow> md_DelegatorAddr x
        | BeginRedelegate x \<Rightarrow> mbr_DelegatorAddr x
        | CompleteRedelegate x \<Rightarrow> mcr_DelegatorAddr x
        | BeginUnbonding x \<Rightarrow> mbu_DelegatorAddr x
        | CompleteUnbonding x \<Rightarrow> mcu_DelegatorAddr x)])\<rparr>"

section \<open>The pool by status\<close>

text \<open>The three families of functions of the source, with the status as an argument.\<close>

definition pool_tokens :: "Pool \<Rightarrow> BondStatus \<Rightarrow> int" where
  "pool_tokens p s = (case s of Unbonded \<Rightarrow> UnbondedTokens p | Unbonding \<Rightarrow> UnbondingTokens p | Bonded \<Rightarrow> BondedTokens p)"

definition pool_shares :: "Pool \<Rightarrow> BondStatus \<Rightarrow> rat" where
  "pool_shares p s = (case s of Unbonded \<Rightarrow> UnbondedShares p | Unbonding \<Rightarrow> UnbondingShares p | Bonded \<Rightarrow> BondedShares p)"

definition rate :: "Pool \<Rightarrow> BondStatus \<Rightarrow> rat" where
  "rate p s = (if pool_shares p s = 0 then 1 else rat_of_int (pool_tokens p s) / pool_shares p s)"

definition addTokens :: "BondStatus \<Rightarrow> Pool \<Rightarrow> int \<Rightarrow> (Pool \<times> PoolShares) outcome" where
  "addTokens s p amount = (case s of
     Unbonded \<Rightarrow> addTokensUnbonded p amount
   | Unbonding \<Rightarrow> addTokensUnbonding p amount
   | Bonded \<Rightarrow> addTokensBonded p amount)"

definition removeShares :: "BondStatus \<Rightarrow> Pool \<Rightarrow> rat \<Rightarrow> (Pool \<times> int) outcome" where
  "removeShares s p shares = (case s of
     Unbonded \<Rightarrow> removeSharesUnbonded p shares
   | Unbonding \<Rightarrow> removeSharesUnbonding p shares
   | Bonded \<Rightarrow> removeSharesBonded p shares)"

lemma ExRates [simp]:
  "BondedShareExRate p = Val (rate p Bonded)"
  "UnbondingShareExRate p = Val (rate p Unbonding)"
  "UnbondedShareExRate p = Val (rate p Unbonded)"
  by (simp_all add: BondedShareExRate_def UnbondingShareExRate_def UnbondedShareExRate_def rate_def
      pool_shares_def pool_tokens_def NewRat_def Rat_Quo_def)

lemma Rat_Quo_Val: "Rat_Quo a b = Val c \<longleftrightarrow> b \<noteq> 0 \<and> c = a / b"
  by (auto simp: Rat_Quo_def)

lemma sum_status: "(\<Sum>s \<in> UNIV. f s) = f Unbonded + f Unbonding + (f Bonded :: 'a :: comm_monoid_add)"
proof -
  have u: "(UNIV :: BondStatus set) = {Unbonded, Unbonding, Bonded}"
    using BondStatus.exhaust by auto
  show ?thesis unfolding u by (simp add: add.assoc)
qed

lemma addTokens_Val:
  "addTokens s p amount = Val (p', sh) \<longleftrightarrow>
     rate p s \<noteq> 0 \<and> 0 \<le> wrap64 (LooseTokens p - amount)
     \<and> sh = \<lparr>ps_Status = s, ps_Amount = rat_of_int amount / rate p s\<rparr>
     \<and> p' = (case s of
          Unbonded \<Rightarrow> p\<lparr>UnbondedShares := UnbondedShares p + rat_of_int amount / rate p s,
            UnbondedTokens := wrap64 (UnbondedTokens p + amount), LooseTokens := wrap64 (LooseTokens p - amount)\<rparr>
        | Unbonding \<Rightarrow> p\<lparr>UnbondingShares := UnbondingShares p + rat_of_int amount / rate p s,
            UnbondingTokens := wrap64 (UnbondingTokens p + amount), LooseTokens := wrap64 (LooseTokens p - amount)\<rparr>
        | Bonded \<Rightarrow> p\<lparr>BondedShares := BondedShares p + rat_of_int amount / rate p s,
            BondedTokens := wrap64 (BondedTokens p + amount), LooseTokens := wrap64 (LooseTokens p - amount)\<rparr>)"
  by (cases s)
    (auto simp: addTokens_def addTokensUnbonded_def addTokensUnbonding_def addTokensBonded_def obind_Val_iff
      Rat_Quo_Val Let_def NewUnbondedShares_def NewUnbondingShares_def NewBondedShares_def)

lemma addTokens_views:
  assumes "addTokens s p amount = Val (p', sh)"
  shows "pool_tokens p' = (pool_tokens p)(s := wrap64 (pool_tokens p s + amount))"
    and "pool_shares p' = (pool_shares p)(s := pool_shares p s + ps_Amount sh)"
    and "LooseTokens p' = wrap64 (LooseTokens p - amount)"
    and "ps_Amount sh = rat_of_int amount / rate p s" and "ps_Status sh = s" and "rate p s \<noteq> 0" and "0 \<le> LooseTokens p'"
  using assms unfolding addTokens_Val
  by (auto simp: fun_eq_iff pool_tokens_def pool_shares_def split: BondStatus.splits)

lemma removeShares_views:
  assumes "removeShares s p shares = Val (p', n)"
  shows "pool_tokens p' = (pool_tokens p)(s := wrap64 (pool_tokens p s - n))"
    and "pool_shares p' = (pool_shares p)(s := pool_shares p s - shares)"
    and "LooseTokens p' = wrap64 (LooseTokens p + n)"
    and "n = RoundInt64 (rate p s * shares)"
  using assms
  by (auto simp: removeShares_def removeSharesUnbonded_def removeSharesUnbonding_def removeSharesBonded_def
      Let_def fun_eq_iff pool_tokens_def pool_shares_def split: BondStatus.splits if_splits)

lemma TokenSupply_sum: "TokenSupply p = wrap64 (LooseTokens p + (\<Sum>s \<in> UNIV. pool_tokens p s))"
  by (simp add: TokenSupply_def sum_status pool_tokens_def algebra_simps)

lemma sum_upd:
  "(\<Sum>s \<in> UNIV. (f(x := y)) s) = (\<Sum>s \<in> UNIV. f s) - f x + y"
  for f :: "BondStatus \<Rightarrow> int"
  by (cases x) (simp_all add: sum_status algebra_simps)

lemma shift_supply:
  "wrap64 (wrap64 (l - n) + (S - t + wrap64 (t + n))) = wrap64 (l + S)"
  "wrap64 (wrap64 (l + n) + (S - t + wrap64 (t - n))) = wrap64 (l + S)"
proof -
  have "wrap64 (wrap64 (l - n) + (S - t + wrap64 (t + n))) = wrap64 ((l - n + (S - t)) + wrap64 (t + n))"
    by (simp add: add.assoc)
  also have "\<dots> = wrap64 (l - n + (S - t) + (t + n))" by (simp only: wrap64_add_right)
  finally show "wrap64 (wrap64 (l - n) + (S - t + wrap64 (t + n))) = wrap64 (l + S)" by (simp add: algebra_simps)
  have "wrap64 (wrap64 (l + n) + (S - t + wrap64 (t - n))) = wrap64 ((l + n + (S - t)) + wrap64 (t - n))"
    by (simp add: add.assoc)
  also have "\<dots> = wrap64 (l + n + (S - t) + (t - n))" by (simp only: wrap64_add_right)
  finally show "wrap64 (wrap64 (l + n) + (S - t + wrap64 (t - n))) = wrap64 (l + S)" by (simp add: algebra_simps)
qed

lemma pool_moves_conserve:
  shows "addTokens s p amount = Val (p', sh) \<Longrightarrow> TokenSupply p' = TokenSupply p"
    and "removeShares s p shares = Val (p', n) \<Longrightarrow> TokenSupply p' = TokenSupply p"
proof -
  assume a: "addTokens s p amount = Val (p', sh)"
  show "TokenSupply p' = TokenSupply p"
    unfolding TokenSupply_sum addTokens_views(1,3) [OF a] sum_upd by (rule shift_supply)
next
  assume a: "removeShares s p shares = Val (p', n)"
  show "TokenSupply p' = TokenSupply p"
    unfolding TokenSupply_sum removeShares_views(1,3) [OF a] sum_upd by (rule shift_supply)
qed

text \<open>The operations on validators in terms of these.\<close>

lemma UpdateStatus_alt:
  "UpdateStatus v pool st =
     (if val_Status v = st then Val (v, pool)
      else obind (removeShares (val_Status v) pool (ps_Amount (val_PoolShares v))) (\<lambda>(pool, tokens).
        obind (addTokens st pool tokens) (\<lambda>(pool, shares). Val (v\<lparr>val_PoolShares := shares\<rparr>, pool))))"
  by (simp add: UpdateStatus_def removeShares_def addTokens_def)

lemma RemovePoolShares_alt:
  "RemovePoolShares v pool shares =
     obind (removeShares (val_Status v) pool shares) (\<lambda>(pool, tokens).
     Val (v\<lparr>val_PoolShares := (val_PoolShares v)\<lparr>ps_Amount := ps_Amount (val_PoolShares v) - shares\<rparr>\<rparr>, pool, tokens))"
  by (simp add: RemovePoolShares_def removeShares_def)

text \<open>Shares of one kind as bonded shares of the same worth, and back.\<close>

definition bonded_worth :: "Pool \<Rightarrow> BondStatus \<Rightarrow> rat \<Rightarrow> rat" where
  "bonded_worth p s a = (if s = Bonded then a else a * (rate p s / rate p Bonded))"

definition worth_in :: "Pool \<Rightarrow> BondStatus \<Rightarrow> rat \<Rightarrow> rat" where
  "worth_in p s a = (if s = Bonded then a else a * (rate p Bonded / rate p s))"

lemma ToBonded_Val:
  "ToBonded sh p = Val x \<longleftrightarrow>
     (ps_Status sh \<noteq> Bonded \<longrightarrow> rate p Bonded \<noteq> 0) \<and> x = NewUnbondedShares (bonded_worth p (ps_Status sh) (ps_Amount sh))"
  by (cases "ps_Status sh") (auto simp: ToBonded_def bonded_worth_def obind_Val_iff Rat_Quo_Val)

lemma DelegatorShareExRate_Val:
  "DelegatorShareExRate v p = Val r \<longleftrightarrow>
     (if DelegatorShares v = 0 then r = 1
      else (val_Status v \<noteq> Bonded \<longrightarrow> rate p Bonded \<noteq> 0)
         \<and> r = bonded_worth p (val_Status v) (ps_Amount (val_PoolShares v)) / DelegatorShares v)"
  by (auto simp: DelegatorShareExRate_def obind_Val_iff ToBonded_Val Rat_Quo_Val NewUnbondedShares_def val_Status_def)

lemma AddTokensFromDel_Val:
  assumes "AddTokensFromDel v pool amount = Val (v', p', issued)"
  shows "\<exists>e sh. DelegatorShareExRate v pool = Val e \<and> e \<noteq> 0 \<and> addTokens (val_Status v) pool amount = Val (p', sh)
    \<and> (val_Status v \<noteq> Bonded \<longrightarrow> rate p' Bonded \<noteq> 0)
    \<and> issued = bonded_worth p' (val_Status v) (ps_Amount sh) / e
    \<and> v' = v\<lparr>val_PoolShares := (val_PoolShares v)\<lparr>ps_Amount := ps_Amount (val_PoolShares v) + ps_Amount sh\<rparr>,
         DelegatorShares := DelegatorShares v + issued\<rparr>"
proof -
  obtain e q sh b where e: "DelegatorShareExRate v pool = Val e" and add: "addTokens (val_Status v) pool amount = Val (q, sh)"
    and b: "ToBonded sh q = Val b" and r: "Rat_Quo (ps_Amount b) e = Val issued" and q: "q = p'"
    and v: "v' = v\<lparr>val_PoolShares := (val_PoolShares v)\<lparr>ps_Amount := ps_Amount (val_PoolShares v) + ps_Amount sh\<rparr>,
         DelegatorShares := DelegatorShares v + issued\<rparr>"
    using assms unfolding AddTokensFromDel_def addTokens_def [symmetric] by (auto simp: obind_Val_iff Let_def)
  have b': "(val_Status v \<noteq> Bonded \<longrightarrow> rate p' Bonded \<noteq> 0) \<and> ps_Amount b = bonded_worth p' (val_Status v) (ps_Amount sh)"
    using b addTokens_views(5) [OF add] q by (simp add: ToBonded_Val NewUnbondedShares_def)
  show ?thesis
  proof (intro exI conjI)
    show "DelegatorShareExRate v pool = Val e" by (rule e)
    show "addTokens (val_Status v) pool amount = Val (p', sh)" using add q by simp
    show "issued = bonded_worth p' (val_Status v) (ps_Amount sh) / e" "e \<noteq> 0"
      using r b' by (simp_all add: Rat_Quo_Val)
  qed (use b' v in simp_all)
qed

lemma RemoveDelShares_Val:
  "RemoveDelShares v pool shares = Val (v', p', n) \<longleftrightarrow>
     (\<exists>e. DelegatorShareExRate v pool = Val e \<and> (val_Status v \<noteq> Bonded \<longrightarrow> rate pool (val_Status v) \<noteq> 0)
        \<and> removeShares (val_Status v) pool (worth_in pool (val_Status v) (e * shares)) = Val (p', n)
        \<and> v' = v\<lparr>DelegatorShares := DelegatorShares v - shares, val_PoolShares := (val_PoolShares v)\<lparr>
             ps_Amount := ps_Amount (val_PoolShares v) - worth_in pool (val_Status v) (e * shares)\<rparr>\<rparr>)"
  by (cases "val_Status v")
    (auto simp: RemoveDelShares_def removeShares_def obind_Val_iff Let_def worth_in_def ToUnbonded_def ToUnbonding_def
      NewBondedShares_def NewUnbondedShares_def NewUnbondingShares_def Rat_Quo_Val val_Status_def)

section \<open>Invariants\<close>

definition pool_ok :: "Pool \<Rightarrow> bool" where
  "pool_ok p \<longleftrightarrow> 0 \<le> LooseTokens p
     \<and> (\<forall>s. 0 \<le> pool_tokens p s \<and> 0 \<le> pool_shares p s \<and> (pool_shares p s = 0 \<longrightarrow> pool_tokens p s = 0))
     \<and> LooseTokens p + (\<Sum>s \<in> UNIV. pool_tokens p s) < 2 ^ 63"

text \<open>A validator holds part of the shares of its kind, and none when it has no delegator.\<close>

definition val_ok :: "Pool \<Rightarrow> Validator \<Rightarrow> bool" where
  "val_ok p v \<longleftrightarrow> 0 \<le> ps_Amount (val_PoolShares v) \<and> ps_Amount (val_PoolShares v) \<le> pool_shares p (val_Status v)
     \<and> 0 \<le> DelegatorShares v \<and> (DelegatorShares v = 0 \<longrightarrow> ps_Amount (val_PoolShares v) = 0)"

text \<open>The shares of each kind that other validators hold.\<close>

definition others :: "Pool \<Rightarrow> Validator \<Rightarrow> BondStatus \<Rightarrow> rat" where
  "others p v s = pool_shares p s - (if val_Status v = s then ps_Amount (val_PoolShares v) else 0)"

lemma tokens_le_sum: "pool_ok p \<Longrightarrow> pool_tokens p s \<le> (\<Sum>s \<in> UNIV. pool_tokens p s)"
  unfolding pool_ok_def sum_status by (cases s) simp_all

lemma pool_ok_range:
  assumes "pool_ok p"
  shows "0 \<le> pool_tokens p s" and "pool_tokens p s < 2 ^ 63" and "0 \<le> LooseTokens p" and "LooseTokens p < 2 ^ 63"
    and "LooseTokens p + pool_tokens p s < 2 ^ 63"
proof -
  have "0 \<le> (\<Sum>s \<in> UNIV. pool_tokens p s)" using assms by (auto simp: pool_ok_def intro: sum_nonneg)
  then show "0 \<le> pool_tokens p s" "pool_tokens p s < 2 ^ 63" "0 \<le> LooseTokens p" "LooseTokens p < 2 ^ 63"
    "LooseTokens p + pool_tokens p s < 2 ^ 63"
    using assms tokens_le_sum [OF assms, of s] by (auto simp: pool_ok_def)
qed

lemma wrap64_id_range: "- (2 ^ 63) \<le> x \<Longrightarrow> x < 2 ^ 63 \<Longrightarrow> wrap64 x = x"
  by (rule wrap64_id) (simp add: in_int64_def)

lemma rate_nonneg: "pool_ok p \<Longrightarrow> 0 \<le> rate p s"
  by (auto simp: rate_def pool_ok_def)

lemma rate_times_shares:
  assumes "pool_ok p" and "0 \<le> x" and "x \<le> pool_shares p s"
  shows "0 \<le> rate p s * x" and "rate p s * x \<le> rat_of_int (pool_tokens p s)"
    and "x = pool_shares p s \<Longrightarrow> rate p s * x = rat_of_int (pool_tokens p s)"
proof -
  have t: "0 \<le> rat_of_int (pool_tokens p s)" using pool_ok_range(1) [OF assms(1)] by simp
  show "0 \<le> rate p s * x" using rate_nonneg [OF assms(1)] assms(2) by simp
  have full: "rate p s * pool_shares p s = rat_of_int (pool_tokens p s)"
    using assms(1) by (simp add: rate_def pool_ok_def)
  show "rate p s * x \<le> rat_of_int (pool_tokens p s)"
    unfolding full [symmetric] using assms(3) rate_nonneg [OF assms(1)] by (rule mult_left_mono)
  show "rate p s * x = rat_of_int (pool_tokens p s)" if "x = pool_shares p s" using full that by simp
qed

lemma RoundInt64_bound:
  assumes "0 \<le> r" and "r \<le> rat_of_int t" and "t < 2 ^ 63"
  shows "0 \<le> RoundInt64 r" and "RoundInt64 r \<le> t" and "RoundInt64 r = EvaluateBig r"
proof -
  have b: "0 \<le> EvaluateBig r" "EvaluateBig r \<le> t"
    using EvaluateBig_nonneg [OF assms(1)] EvaluateBig_mono [OF assms(2)] by simp_all
  then show "RoundInt64 r = EvaluateBig r"
    using assms(3) by (simp add: RoundInt64_def wrap64_id_range)
  then show "0 \<le> RoundInt64 r" "RoundInt64 r \<le> t" using b by simp_all
qed

lemma removeShares_ok:
  assumes "removeShares s p x = Val (p', n)" and "pool_ok p" and "0 \<le> x" and "x \<le> pool_shares p s"
  shows "pool_ok p'" and "0 \<le> n" and "n \<le> pool_tokens p s"
    and "pool_tokens p' = (pool_tokens p)(s := pool_tokens p s - n)" and "LooseTokens p' = LooseTokens p + n"
    and "x = pool_shares p s \<Longrightarrow> n = pool_tokens p s"
proof -
  note v = removeShares_views [OF assms(1)]
  note r = rate_times_shares [OF assms(2-4)]
  note range = pool_ok_range [OF assms(2)]
  have n: "0 \<le> n" "n \<le> pool_tokens p s" "n = EvaluateBig (rate p s * x)"
    using RoundInt64_bound [OF r(1,2) range(2)] v(4) by simp_all
  then show "0 \<le> n" "n \<le> pool_tokens p s" by simp_all
  show all: "n = pool_tokens p s" if "x = pool_shares p s" using n(3) r(3) [OF that] by simp
  show t: "pool_tokens p' = (pool_tokens p)(s := pool_tokens p s - n)"
    using v(1) n range(2) [of s] by (simp add: wrap64_id_range)
  show l: "LooseTokens p' = LooseTokens p + n"
    using v(3) n range(3) range(5) [of s] by (simp add: wrap64_id_range)
  have "LooseTokens p' + (\<Sum>s \<in> UNIV. pool_tokens p' s) = LooseTokens p + (\<Sum>s \<in> UNIV. pool_tokens p s)"
    unfolding t l sum_upd by simp
  moreover have "pool_shares p s - x = 0 \<longrightarrow> pool_tokens p s - n = 0" using all by simp
  ultimately show "pool_ok p'"
    using assms(2-4) n(1,2) unfolding pool_ok_def l t v(2) by auto
qed

lemma addTokens_ok:
  assumes "addTokens s p n = Val (p', sh)" and "pool_ok p" and "0 \<le> n" and "n < 2 ^ 63"
  shows "pool_ok p'" and "pool_tokens p' = (pool_tokens p)(s := pool_tokens p s + n)"
    and "LooseTokens p' = LooseTokens p - n" and "0 \<le> ps_Amount sh" and "rate p' = rate p"
proof -
  note v = addTokens_views [OF assms(1)]
  note range = pool_ok_range [OF assms(2)]
  have pos: "0 < rate p s" using rate_nonneg [OF assms(2), of s] v(6) by simp
  show l: "LooseTokens p' = LooseTokens p - n"
    using v(3) assms(3,4) range(3,4) by (simp add: wrap64_id_range)
  have le: "n \<le> LooseTokens p" using l v(7) by simp
  show t: "pool_tokens p' = (pool_tokens p)(s := pool_tokens p s + n)"
    using v(1) le assms(3) range(1) [of s] range(5) [of s] by (simp add: wrap64_id_range)
  show sh: "0 \<le> ps_Amount sh" using v(4) pos assms(3) by simp
  have zero: "pool_shares p s + ps_Amount sh = 0 \<longrightarrow> pool_tokens p s + n = 0"
    using assms(2) sh pos v(4) by (auto simp: pool_ok_def add_nonneg_eq_0_iff)
  have "LooseTokens p' + (\<Sum>s \<in> UNIV. pool_tokens p' s) = LooseTokens p + (\<Sum>s \<in> UNIV. pool_tokens p s)"
    unfolding t l sum_upd by simp
  then show "pool_ok p'"
    using assms(2,3) le sh zero unfolding pool_ok_def l t v(2) by auto
  show "rate p' = rate p"
  proof
    fix k
    show "rate p' k = rate p k"
    proof (cases "k = s")
      case True
      show ?thesis
      proof (cases "pool_shares p s = 0")
        case empty: True
        then have "pool_tokens p s = 0" "rate p s = 1" using assms(2) by (auto simp: pool_ok_def rate_def)
        then show ?thesis using True empty v(2,4) t by (simp add: rate_def)
      next
        case False
        then have "pool_tokens p s \<noteq> 0" using pos by (auto simp: rate_def)
        then have T: "0 < rat_of_int (pool_tokens p s)" using range(1) [of s] by simp
        have S: "0 < pool_shares p s" using False assms(2) unfolding pool_ok_def by (metis order_le_less)
        have "pool_shares p s + rat_of_int n / rate p s = pool_shares p s * (rat_of_int (pool_tokens p s) + rat_of_int n) / rat_of_int (pool_tokens p s)"
          using T S by (simp add: rate_def field_simps)
        then show ?thesis
          using True T S v(2,4) t assms(3) False by (simp add: rate_def field_simps add_nonneg_eq_0_iff)
      qed
    next
      case False
      then show ?thesis using v(2) t by (simp add: rate_def)
    qed
  qed
qed

section \<open>The operations on validators keep them\<close>

text \<open>What every operation on a validator and the pool keeps.\<close>

definition kept :: "Pool \<Rightarrow> Validator \<Rightarrow> Pool \<Rightarrow> Validator \<Rightarrow> bool" where
  "kept p v p' v' \<longleftrightarrow> pool_ok p' \<and> val_ok p' v' \<and> others p' v' = others p v \<and> TokenSupply p' = TokenSupply p
     \<and> Owner v' = Owner v \<and> val_PubKey v' = val_PubKey v \<and> Revoked v' = Revoked v"

lemma kept_refl: "pool_ok p \<Longrightarrow> val_ok p v \<Longrightarrow> kept p v p v"
  by (simp add: kept_def)

lemma UpdateStatus_kept:
  assumes "UpdateStatus v p st = Val (v', p')" and "pool_ok p" and "val_ok p v"
  shows "kept p v p' v' \<and> val_Status v' = st \<and> DelegatorShares v' = DelegatorShares v"
proof (cases "val_Status v = st")
  case True
  then show ?thesis using assms by (simp add: UpdateStatus_alt kept_refl)
next
  case False
  let ?x = "ps_Amount (val_PoolShares v)"
  obtain q n sh where rem: "removeShares (val_Status v) p ?x = Val (q, n)" and add: "addTokens st q n = Val (p', sh)"
    and v': "v' = v\<lparr>val_PoolShares := sh\<rparr>"
    using assms(1) False by (auto simp: UpdateStatus_alt obind_Val_iff)
  have x: "0 \<le> ?x" "?x \<le> pool_shares p (val_Status v)" using assms(3) by (simp_all add: val_ok_def)
  note r = removeShares_ok [OF rem assms(2) x]
  have n: "n < 2 ^ 63" using r(3) pool_ok_range(2) [OF assms(2)] by (meson le_less_trans)
  note a = addTokens_ok [OF add r(1,2) n]
  note views = removeShares_views(2) [OF rem] addTokens_views(2,5) [OF add]
  have shares: "pool_shares p' st = pool_shares p st + ps_Amount sh" "0 \<le> pool_shares p st"
    using views False assms(2) by (auto simp: pool_ok_def)
  have "n = 0" if "?x = 0"
    using removeShares_views(4) [OF rem] that by (simp add: RoundInt64_def EvaluateBig_of_int [of 0, simplified])
  then have "ps_Amount sh = 0" if "DelegatorShares v = 0"
    using that assms(3) addTokens_views(4) [OF add] by (simp add: val_ok_def)
  then have "val_ok p' v'"
    using assms(3) a(4) shares views(3) v' by (auto simp: val_ok_def val_Status_def)
  moreover have "others p' v' = others p v"
    using views v' False by (auto simp: others_def val_Status_def fun_eq_iff)
  moreover have "TokenSupply p' = TokenSupply p"
    using pool_moves_conserve(2) [OF rem] pool_moves_conserve(1) [OF add] by simp
  ultimately show ?thesis using a(1) v' views(3) by (simp add: kept_def val_Status_def)
qed

lemma less_shares_kept:
  assumes "removeShares (val_Status v) p x = Val (p', n)" and "pool_ok p" and "val_ok p v"
    and "0 \<le> x" and "x \<le> ps_Amount (val_PoolShares v)" and "0 \<le> D"
    and "D = 0 \<Longrightarrow> x = ps_Amount (val_PoolShares v)"
  shows "kept p v p' (v\<lparr>DelegatorShares := D, val_PoolShares := (val_PoolShares v)\<lparr>ps_Amount := ps_Amount (val_PoolShares v) - x\<rparr>\<rparr>)"
    and "0 \<le> n"
proof -
  have le: "x \<le> pool_shares p (val_Status v)" using assms(3,5) by (simp add: val_ok_def)
  note r = removeShares_ok [OF assms(1,2,4) le]
  show "0 \<le> n" by (rule r(2))
  show "kept p v p' (v\<lparr>DelegatorShares := D, val_PoolShares := (val_PoolShares v)\<lparr>ps_Amount := ps_Amount (val_PoolShares v) - x\<rparr>\<rparr>)"
    using r(1) removeShares_views(2) [OF assms(1)] assms(3-7) pool_moves_conserve(2) [OF assms(1)]
    by (auto simp: kept_def val_ok_def others_def val_Status_def fun_eq_iff)
qed

lemma RemovePoolShares_kept:
  assumes "RemovePoolShares v p x = Val (v', p', n)" and "pool_ok p" and "val_ok p v"
    and "0 \<le> x" and "x \<le> ps_Amount (val_PoolShares v)"
  shows "kept p v p' v' \<and> 0 \<le> n \<and> DelegatorShares v' = DelegatorShares v \<and> val_Status v' = val_Status v"
proof -
  have rem: "removeShares (val_Status v) p x = Val (p', n)"
    and v': "v' = v\<lparr>val_PoolShares := (val_PoolShares v)\<lparr>ps_Amount := ps_Amount (val_PoolShares v) - x\<rparr>\<rparr>"
    using assms(1) by (auto simp: RemovePoolShares_alt obind_Val_iff)
  have "v' = v\<lparr>DelegatorShares := DelegatorShares v, val_PoolShares := (val_PoolShares v)\<lparr>ps_Amount := ps_Amount (val_PoolShares v) - x\<rparr>\<rparr>"
    by (simp add: v')
  moreover have "DelegatorShares v = 0 \<Longrightarrow> x = ps_Amount (val_PoolShares v)" "0 \<le> DelegatorShares v"
    using assms(3-5) by (auto simp: val_ok_def)
  ultimately show ?thesis
    using less_shares_kept [OF rem assms(2-5), of "DelegatorShares v"] by (simp add: val_Status_def)
qed

lemma worth_back:
  "\<lbrakk>rate p s \<noteq> 0; s \<noteq> Bonded \<longrightarrow> rate p Bonded \<noteq> 0\<rbrakk> \<Longrightarrow> worth_in p s (bonded_worth p s a * c) = a * c"
  by (simp add: worth_in_def bonded_worth_def)

lemma RemoveDelShares_kept:
  assumes "RemoveDelShares v p x = Val (v', p', n)" and "pool_ok p" and "val_ok p v"
    and "0 \<le> x" and "x \<le> DelegatorShares v"
  shows "kept p v p' v' \<and> 0 \<le> n \<and> DelegatorShares v' = DelegatorShares v - x \<and> val_Status v' = val_Status v"
proof -
  let ?a = "ps_Amount (val_PoolShares v)" and ?s = "val_Status v" and ?D = "DelegatorShares v"
  obtain e where e: "DelegatorShareExRate v p = Val e" and rate: "?s \<noteq> Bonded \<longrightarrow> rate p ?s \<noteq> 0"
    and rem: "removeShares ?s p (worth_in p ?s (e * x)) = Val (p', n)"
    and v': "v' = v\<lparr>DelegatorShares := ?D - x, val_PoolShares := (val_PoolShares v)\<lparr>ps_Amount := ?a - worth_in p ?s (e * x)\<rparr>\<rparr>"
    using assms(1) unfolding RemoveDelShares_Val by blast
  have w: "worth_in p ?s (e * x) = (if ?D = 0 then 0 else ?a * (x / ?D))"
  proof (cases "?D = 0")
    case True
    then show ?thesis using assms(4,5) by (simp add: worth_in_def)
  next
    case False
    then have "e = bonded_worth p ?s ?a / ?D" "?s \<noteq> Bonded \<longrightarrow> rate p Bonded \<noteq> 0"
      using e by (simp_all add: DelegatorShareExRate_Val)
    then show ?thesis
      using False rate by (auto simp: worth_in_def bonded_worth_def)
  qed
  have a: "0 \<le> ?a" "?D = 0 \<longrightarrow> ?a = 0" "0 \<le> ?D" using assms(3) by (simp_all add: val_ok_def)
  have "0 \<le> worth_in p ?s (e * x)" using w a assms(4) by simp
  moreover have "worth_in p ?s (e * x) \<le> ?a"
  proof (cases "?D = 0")
    case False
    then have "x / ?D \<le> 1" using assms(5) a(3) by simp
    then show ?thesis using w False a(1) mult_left_mono [of "x / ?D" 1 ?a] by simp
  qed (use w a in simp)
  moreover have "?D - x = 0 \<Longrightarrow> worth_in p ?s (e * x) = ?a" using w a by auto
  ultimately show ?thesis
    using less_shares_kept [OF rem assms(2,3), of "?D - x"] assms(5) v' by (simp add: val_Status_def)
qed

lemma removeShares_undoes_add:
  assumes "addTokens s p n = Val (p', sh)" and "pool_ok p" and "0 \<le> n" and "n < 2 ^ 63"
  shows "removeShares s p' (ps_Amount sh) = Val (p, n)"
proof -
  have p': "p' = (case s of
      Unbonded \<Rightarrow> p\<lparr>UnbondedShares := UnbondedShares p + ps_Amount sh,
        UnbondedTokens := wrap64 (UnbondedTokens p + n), LooseTokens := wrap64 (LooseTokens p - n)\<rparr>
    | Unbonding \<Rightarrow> p\<lparr>UnbondingShares := UnbondingShares p + ps_Amount sh,
        UnbondingTokens := wrap64 (UnbondingTokens p + n), LooseTokens := wrap64 (LooseTokens p - n)\<rparr>
    | Bonded \<Rightarrow> p\<lparr>BondedShares := BondedShares p + ps_Amount sh,
        BondedTokens := wrap64 (BondedTokens p + n), LooseTokens := wrap64 (LooseTokens p - n)\<rparr>)"
    using assms(1) unfolding addTokens_Val by (cases s) auto
  have "rate p' s * ps_Amount sh = rat_of_int n"
    using addTokens_ok(5) [OF assms] addTokens_views(4,6) [OF assms(1)] by simp
  then have n: "RoundInt64 (rate p' s * ps_Amount sh) = n"
    using assms(3,4) by (simp add: RoundInt64_def wrap64_id_range)
  have w: "wrap64 (pool_tokens p k) = pool_tokens p k" "0 \<le> pool_tokens p k" "wrap64 (LooseTokens p) = LooseTokens p" for k
    using pool_ok_range(1,2) [OF assms(2), of k] pool_ok_range(3,4) [OF assms(2)] by (simp_all add: wrap64_id_range)
  show ?thesis
    using n w(1) [of Unbonded] w(1) [of Unbonding] w(1) [of Bonded] w(2) [of Unbonded] w(3) p'
    by (cases s) (simp_all add: removeShares_def removeSharesUnbonded_def removeSharesUnbonding_def removeSharesBonded_def
        Let_def pool_tokens_def)
qed

lemma AddTokensFromDel_kept:
  assumes "AddTokensFromDel v p n = Val (v', p', x)" and "pool_ok p" and "val_ok p v" and "0 \<le> n" and "n < 2 ^ 63"
  shows "kept p v p' v' \<and> 0 \<le> x \<and> DelegatorShares v' = DelegatorShares v + x \<and> val_Status v' = val_Status v"
    and "DelegatorShareExRate v' p' = DelegatorShareExRate v p" and "rate p' = rate p"
    and "RemoveDelShares v' p' x = Val (v, p, n)"
proof -
  let ?a = "ps_Amount (val_PoolShares v)" and ?s = "val_Status v" and ?D = "DelegatorShares v"
  obtain e sh where e: "DelegatorShareExRate v p = Val e" "e \<noteq> 0" and add: "addTokens ?s p n = Val (p', sh)"
    and rB: "?s \<noteq> Bonded \<longrightarrow> rate p' Bonded \<noteq> 0" and x: "x = bonded_worth p' ?s (ps_Amount sh) / e"
    and v': "v' = v\<lparr>val_PoolShares := (val_PoolShares v)\<lparr>ps_Amount := ?a + ps_Amount sh\<rparr>, DelegatorShares := ?D + x\<rparr>"
    using AddTokensFromDel_Val [OF assms(1)] by blast
  note ok = addTokens_ok [OF add assms(2,4,5)] and views = addTokens_views [OF add]
  show rates: "rate p' = rate p" by (rule ok(5))
  have bw: "bonded_worth p' = bonded_worth p" by (simp add: fun_eq_iff bonded_worth_def rates)
  have r0: "rate p ?s \<noteq> 0" by (rule views(6))
  have nn: "0 \<le> bonded_worth p ?s b \<and> (bonded_worth p ?s b = 0 \<longrightarrow> b = 0)" if "0 \<le> b" for b
    using that r0 rB rates rate_nonneg [OF assms(2)] by (simp add: bonded_worth_def)
  have a: "0 \<le> ?a" "?D = 0 \<longrightarrow> ?a = 0" "0 \<le> ?D" using assms(3) by (simp_all add: val_ok_def)
  have e': "e = (if ?D = 0 then 1 else bonded_worth p ?s ?a / ?D)"
    using e(1) by (auto simp: DelegatorShareExRate_Val split: if_splits)
  then have epos: "0 < e" using e(2) nn [OF a(1)] a(3) by (auto simp: order_le_less split: if_splits)
  have x_nn: "0 \<le> x" using x bw nn [OF ok(4)] epos by simp
  have x_zero: "x = 0 \<Longrightarrow> ps_Amount sh = 0" using x bw nn [OF ok(4)] epos by simp
  have val: "val_ok p' v'"
    using a x_nn x_zero ok(4) views(2) v' assms(3) by (auto simp: val_ok_def val_Status_def add_nonneg_eq_0_iff)
  show "kept p v p' v' \<and> 0 \<le> x \<and> DelegatorShares v' = ?D + x \<and> val_Status v' = ?s"
    using val ok(1) x_nn views(2) v' pool_moves_conserve(1) [OF add]
    by (auto simp: kept_def others_def val_Status_def fun_eq_iff)
  have bw_add: "bonded_worth p ?s (?a + ps_Amount sh) = bonded_worth p ?s ?a + bonded_worth p ?s (ps_Amount sh)"
    by (simp add: bonded_worth_def distrib_right add_divide_distrib)
  have same: "DelegatorShareExRate v' p' = Val e"
  proof (cases "?D = 0")
    case True
    then have "e = 1" "?a = 0" using e' a by simp_all
    then show ?thesis
      using True x v' bw rB by (auto simp: DelegatorShareExRate_Val val_Status_def)
  next
    case False
    then have E: "bonded_worth p ?s ?a = e * ?D" using e' by simp
    have pos: "0 < ?D" using False a(3) by simp
    then have D': "?D + x \<noteq> 0" using x_nn by simp
    have "bonded_worth p ?s (?a + ps_Amount sh) = e * (?D + x)"
      unfolding bw_add E using x bw e(2) by (simp add: algebra_simps)
    then show ?thesis
      using D' v' rB bw by (simp add: DelegatorShareExRate_Val val_Status_def)
  qed
  then show "DelegatorShareExRate v' p' = DelegatorShareExRate v p" using e(1) by simp
  have ex: "e * x = bonded_worth p' ?s (ps_Amount sh)" using x e(2) by simp
  have undo: "worth_in p' ?s (e * x) = ps_Amount sh"
    using worth_back [of p' ?s "ps_Amount sh" 1] r0 rates rB ex by simp
  have "removeShares ?s p' (ps_Amount sh) = Val (p, n)"
    by (rule removeShares_undoes_add [OF add assms(2,4,5)])
  then show "RemoveDelShares v' p' x = Val (v, p, n)"
    unfolding RemoveDelShares_Val using same v' undo rates r0 by (simp add: val_Status_def)
qed

definition ex_pool :: Pool where
  "ex_pool = InitialPool\<lparr>LooseTokens := 1000, BondedTokens := 150, BondedShares := 100, UnbondedTokens := 30, UnbondedShares := 40\<rparr>"

definition ex_validator :: Validator where
  "ex_validator = (NewValidator ''val'' ''pk'' emptyDescription)\<lparr>val_PoolShares := NewUnbondedShares 20, DelegatorShares := 5\<rparr>"

lemma ex_pool_ok: "pool_ok ex_pool" "val_ok ex_pool ex_validator"
  unfolding pool_ok_def sum_status
  by (auto simp: ex_pool_def ex_validator_def val_ok_def val_Status_def InitialPool_def NewValidator_def NewUnbondedShares_def
      pool_tokens_def pool_shares_def split: BondStatus.splits)

section \<open>Properties\<close>

text \<open>
  C16: the four operations of a validator on the pool (changing its status, adding tokens for a
  delegator, removing a delegator's shares, removing pool shares) keep all token counts and shares
  not negative, keep the total number of tokens, keep what the other validators hold of every kind
  of share, and keep the validator within the pool.  Removing pool shares is a step of slashing, and
  turns what it removes into loose tokens; that the keeper burns these afterwards is not part of it.
\<close>

theorem stake_pool_invariant:
  assumes "pool_ok p" and "val_ok p v"
  shows "(UpdateStatus v p st = Val (v1, p1) \<longrightarrow> kept p v p1 v1 \<and> val_Status v1 = st)
    \<and> (AddTokensFromDel v p n = Val (v2, p2, x2) \<and> 0 \<le> n \<and> n < 2 ^ 63 \<longrightarrow>
         kept p v p2 v2 \<and> 0 \<le> x2 \<and> DelegatorShares v2 = DelegatorShares v + x2)
    \<and> (RemoveDelShares v p x = Val (v3, p3, n3) \<and> 0 \<le> x \<and> x \<le> DelegatorShares v \<longrightarrow>
         kept p v p3 v3 \<and> 0 \<le> n3 \<and> DelegatorShares v3 = DelegatorShares v - x)
    \<and> (RemovePoolShares v p y = Val (v4, p4, n4) \<and> 0 \<le> y \<and> y \<le> ps_Amount (val_PoolShares v) \<longrightarrow>
         kept p v p4 v4 \<and> 0 \<le> n4)"
  using UpdateStatus_kept [OF _ assms] AddTokensFromDel_kept(1) [OF _ assms] RemoveDelShares_kept [OF _ assms]
    RemovePoolShares_kept [OF _ assms]
  by blast

theorem stake_pool_invariant_witness:
  "\<exists>v1 p1. UpdateStatus ex_validator ex_pool Bonded = Val (v1, p1) \<and> kept ex_pool ex_validator p1 v1"
proof -
  have "is_val (UpdateStatus ex_validator ex_pool Bonded)" by code_simp
  then obtain v1 p1 where "UpdateStatus ex_validator ex_pool Bonded = Val (v1, p1)"
    by (cases "UpdateStatus ex_validator ex_pool Bonded") auto
  then show ?thesis using stake_pool_invariant [OF ex_pool_ok, of Bonded v1 p1] by blast
qed

text \<open>
  A delegation dilutes no one: adding tokens for a delegator changes neither the worth in
  tokens of a share of any pool nor the worth of a delegator share of the validator.
\<close>

theorem delegation_keeps_rates:
  assumes "pool_ok p" and "val_ok p v" and "0 \<le> n" and "n < 2 ^ 63" and "AddTokensFromDel v p n = Val (v', p', x)"
  shows "BondedShareExRate p' = BondedShareExRate p \<and> UnbondingShareExRate p' = UnbondingShareExRate p
    \<and> UnbondedShareExRate p' = UnbondedShareExRate p \<and> DelegatorShareExRate v' p' = DelegatorShareExRate v p"
  using AddTokensFromDel_kept(2,3) [OF assms(5,1-4)] by simp

theorem delegation_keeps_rates_witness:
  "\<exists>v p x. AddTokensFromDel ex_validator ex_pool 10 = Val (v, p, x) \<and> DelegatorShareExRate v p = DelegatorShareExRate ex_validator ex_pool"
proof -
  have "is_val (AddTokensFromDel ex_validator ex_pool 10)" by code_simp
  then obtain v p x where "AddTokensFromDel ex_validator ex_pool 10 = Val (v, p, x)"
    by (cases "AddTokensFromDel ex_validator ex_pool 10") auto
  then show ?thesis using delegation_keeps_rates [OF ex_pool_ok, of 10 v p x] by auto
qed

text \<open>
  C29: delegating and taking the issued shares out again gives exactly the tokens back and leaves
  the validator and the pool as they were: nothing is lost to rounding.
\<close>

theorem delegate_undelegate:
  assumes "pool_ok p" and "val_ok p v" and "0 \<le> n" and "n < 2 ^ 63" and "AddTokensFromDel v p n = Val (v', p', x)"
  shows "RemoveDelShares v' p' x = Val (v, p, n)"
  by (rule AddTokensFromDel_kept(4) [OF assms(5,1-4)])

theorem delegate_undelegate_witness:
  "\<exists>v p x. AddTokensFromDel ex_validator ex_pool 10 = Val (v, p, x) \<and> RemoveDelShares v p x = Val (ex_validator, ex_pool, 10)"
proof -
  have "is_val (AddTokensFromDel ex_validator ex_pool 10)" by code_simp
  then obtain v p x where "AddTokensFromDel ex_validator ex_pool 10 = Val (v, p, x)"
    by (cases "AddTokensFromDel ex_validator ex_pool 10") auto
  then show ?thesis using delegate_undelegate [OF ex_pool_ok, of 10 v p x] by auto
qed

end
