(* ===== verification/StakeKeeper.thy ===== *)
theory StakeKeeper
  imports StakeTypes Bank
begin

text \<open>
  The keeper of \<open>x/stake\<close>: parameters, pool, validators with their indexes by public key, by
  power and of the bonded ones, delegations, unbonding delegations and redelegations; delegating
  and unbonding; the choice of the bonded validators; slashing and inflation; the handler and the
  end of a block.  The binary codec is a parameter, as is the order in which Go walks a map.  An
  iterator yields the items that the store had when it was made.
\<close>

record stake_env =
  sk_key :: string
  sk_codespace :: CodespaceType
  sk_encParams :: "Params \<Rightarrow> bytes"
  sk_decParams :: "bytes \<Rightarrow> Params option"
  sk_encPool :: "Pool \<Rightarrow> bytes"
  sk_decPool :: "bytes \<Rightarrow> Pool option"
  sk_encVal :: "Validator \<Rightarrow> bytes"
  sk_decVal :: "bytes \<Rightarrow> Validator option"
  sk_encWRSP :: "wrsp_Validator \<Rightarrow> bytes"
  sk_decWRSP :: "bytes \<Rightarrow> wrsp_Validator option"
  sk_encDel :: "Delegation \<Rightarrow> bytes"
  sk_decDel :: "bytes \<Rightarrow> Delegation option"
  sk_encUBD :: "UnbondingDelegation \<Rightarrow> bytes"
  sk_decUBD :: "bytes \<Rightarrow> UnbondingDelegation option"
  sk_encRED :: "Redelegation \<Rightarrow> bytes"
  sk_decRED :: "bytes \<Rightarrow> Redelegation option"
  sk_encInt16 :: "int \<Rightarrow> bytes"
  sk_decInt16 :: "bytes \<Rightarrow> int option"
  sk_encAddr :: "bytes \<Rightarrow> bytes"
  sk_pkBytes :: "bytes \<Rightarrow> bytes"
  sk_mapOrder :: "bytes list \<Rightarrow> bytes list"

section \<open>Keys\<close>

definition ParamKey :: bytes where "ParamKey = [CHR 0x00]"
definition PoolKey :: bytes where "PoolKey = [CHR 0x01]"
definition ValidatorsKey :: bytes where "ValidatorsKey = [CHR 0x02]"
definition ValidatorsByPubKeyIndexKey :: bytes where "ValidatorsByPubKeyIndexKey = [CHR 0x03]"
definition ValidatorsBondedIndexKey :: bytes where "ValidatorsBondedIndexKey = [CHR 0x04]"
definition ValidatorsByPowerIndexKey :: bytes where "ValidatorsByPowerIndexKey = [CHR 0x05]"
definition ValidatorCliffIndexKey :: bytes where "ValidatorCliffIndexKey = [CHR 0x06]"
definition ValidatorPowerCliffKey :: bytes where "ValidatorPowerCliffKey = [CHR 0x07]"
definition TendermintUpdatesKey :: bytes where "TendermintUpdatesKey = [CHR 0x08]"
definition IntraTxCounterKey :: bytes where "IntraTxCounterKey = [CHR 0x09]"
definition DelegationKey :: bytes where "DelegationKey = [CHR 0x0A]"
definition UnbondingDelegationKey :: bytes where "UnbondingDelegationKey = [CHR 0x0B]"
definition UnbondingDelegationByValIndexKey :: bytes where "UnbondingDelegationByValIndexKey = [CHR 0x0C]"
definition RedelegationKey :: bytes where "RedelegationKey = [CHR 0x0D]"
definition RedelegationByValSrcIndexKey :: bytes where "RedelegationByValSrcIndexKey = [CHR 0x0E]"
definition RedelegationByValDstIndexKey :: bytes where "RedelegationByValDstIndexKey = [CHR 0x0F]"

lemmas stake_key_defs =
  ParamKey_def PoolKey_def ValidatorsKey_def ValidatorsByPubKeyIndexKey_def ValidatorsBondedIndexKey_def
  ValidatorsByPowerIndexKey_def ValidatorCliffIndexKey_def ValidatorPowerCliffKey_def TendermintUpdatesKey_def
  IntraTxCounterKey_def DelegationKey_def UnbondingDelegationKey_def UnbondingDelegationByValIndexKey_def
  RedelegationKey_def RedelegationByValSrcIndexKey_def RedelegationByValDstIndexKey_def

definition maxDigitsForAccount :: int where "maxDigitsForAccount = 12"

definition GetValidatorKey :: "bytes \<Rightarrow> bytes" where
  "GetValidatorKey ownerAddr = ValidatorsKey @ ownerAddr"

definition GetValidatorByPubKeyIndexKey :: "stake_env \<Rightarrow> bytes \<Rightarrow> bytes" where
  "GetValidatorByPubKeyIndexKey S pubkey = ValidatorsByPubKeyIndexKey @ sk_pkBytes S pubkey"

definition GetValidatorsBondedIndexKey :: "bytes \<Rightarrow> bytes" where
  "GetValidatorsBondedIndexKey ownerAddr = ValidatorsBondedIndexKey @ ownerAddr"

text \<open>\<open>PutUint64\<close> and \<open>PutUint16\<close> of \<open>binary.BigEndian\<close>.\<close>

fun big_endian :: "nat \<Rightarrow> int \<Rightarrow> bytes" where
  "big_endian 0 x = []"
| "big_endian (Suc n) x = big_endian n (x div 256) @ [char_of (nat (x mod 256))]"

definition GetValidatorPowerRank :: "Validator \<Rightarrow> Pool \<Rightarrow> bytes outcome" where
  "GetValidatorPowerRank validator pool =
     obind (EquivalentBondedShares validator pool) (\<lambda>power.
     let powerBytes = ToLeftPadded power maxDigitsForAccount;
         revokedBytes = [if Revoked validator then CHR 0x01 else CHR 0x00];
         heightBytes = big_endian 8 ((- BondHeight validator - 1) mod 2 ^ 64) @ [CHR 0x00, CHR 0x00];
         counterBytes = big_endian 2 ((- BondIntraTxCounter validator - 1) mod 2 ^ 16)
     in Val (ValidatorsByPowerIndexKey @ revokedBytes @ powerBytes @ heightBytes @ counterBytes))"

definition GetValidatorsByPowerIndexKey :: "Validator \<Rightarrow> Pool \<Rightarrow> bytes outcome" where
  "GetValidatorsByPowerIndexKey validator pool = GetValidatorPowerRank validator pool"

definition GetTendermintUpdatesKey :: "bytes \<Rightarrow> bytes" where
  "GetTendermintUpdatesKey ownerAddr = TendermintUpdatesKey @ ownerAddr"

definition GetDelegationsKey :: "stake_env \<Rightarrow> bytes \<Rightarrow> bytes" where
  "GetDelegationsKey S delegatorAddr = DelegationKey @ sk_encAddr S delegatorAddr"

definition GetDelegationKey :: "stake_env \<Rightarrow> bytes \<Rightarrow> bytes \<Rightarrow> bytes" where
  "GetDelegationKey S delegatorAddr validatorAddr = GetDelegationsKey S delegatorAddr @ validatorAddr"

definition GetUBDsKey :: "stake_env \<Rightarrow> bytes \<Rightarrow> bytes" where
  "GetUBDsKey S delegatorAddr = UnbondingDelegationKey @ sk_encAddr S delegatorAddr"

definition GetUBDsByValIndexKey :: "stake_env \<Rightarrow> bytes \<Rightarrow> bytes" where
  "GetUBDsByValIndexKey S validatorAddr = UnbondingDelegationByValIndexKey @ sk_encAddr S validatorAddr"

definition GetUBDKey :: "stake_env \<Rightarrow> bytes \<Rightarrow> bytes \<Rightarrow> bytes" where
  "GetUBDKey S delegatorAddr validatorAddr = GetUBDsKey S delegatorAddr @ validatorAddr"

definition GetUBDByValIndexKey :: "stake_env \<Rightarrow> bytes \<Rightarrow> bytes \<Rightarrow> bytes" where
  "GetUBDByValIndexKey S delegatorAddr validatorAddr = GetUBDsByValIndexKey S validatorAddr @ delegatorAddr"

definition GetREDsKey :: "stake_env \<Rightarrow> bytes \<Rightarrow> bytes" where
  "GetREDsKey S delegatorAddr = RedelegationKey @ sk_encAddr S delegatorAddr"

definition GetREDsFromValSrcIndexKey :: "stake_env \<Rightarrow> bytes \<Rightarrow> bytes" where
  "GetREDsFromValSrcIndexKey S validatorSrcAddr = RedelegationByValSrcIndexKey @ sk_encAddr S validatorSrcAddr"

definition GetREDsToValDstIndexKey :: "stake_env \<Rightarrow> bytes \<Rightarrow> bytes" where
  "GetREDsToValDstIndexKey S validatorDstAddr = RedelegationByValDstIndexKey @ sk_encAddr S validatorDstAddr"

definition GetREDKey :: "stake_env \<Rightarrow> bytes \<Rightarrow> bytes \<Rightarrow> bytes \<Rightarrow> bytes" where
  "GetREDKey S delegatorAddr validatorSrcAddr validatorDstAddr =
     GetREDsKey S delegatorAddr @ validatorSrcAddr @ validatorDstAddr"

definition GetREDByValSrcIndexKey :: "stake_env \<Rightarrow> bytes \<Rightarrow> bytes \<Rightarrow> bytes \<Rightarrow> bytes" where
  "GetREDByValSrcIndexKey S delegatorAddr validatorSrcAddr validatorDstAddr =
     GetREDsFromValSrcIndexKey S validatorSrcAddr @ delegatorAddr @ validatorDstAddr"

definition GetREDByValDstIndexKey :: "stake_env \<Rightarrow> bytes \<Rightarrow> bytes \<Rightarrow> bytes \<Rightarrow> bytes" where
  "GetREDByValDstIndexKey S delegatorAddr validatorSrcAddr validatorDstAddr =
     GetREDsToValDstIndexKey S validatorDstAddr @ delegatorAddr @ validatorSrcAddr"

definition GetREDsByDelToValDstIndexKey :: "stake_env \<Rightarrow> bytes \<Rightarrow> bytes \<Rightarrow> bytes" where
  "GetREDsByDelToValDstIndexKey S delegatorAddr validatorDstAddr =
     GetREDsToValDstIndexKey S validatorDstAddr @ delegatorAddr"

section \<open>Parameters, pool and counter\<close>

definition GetParams :: "stake_env \<Rightarrow> (world, Params) M" where
  "GetParams S = bnd (gas_Get (sk_key S) ParamKey) (\<lambda>b. case b of
     None \<Rightarrow> panicM (GoPanic ''Stored params should not have been nil'')
   | Some bz \<Rightarrow> must (sk_decParams S bz))"

definition SetNewParams :: "stake_env \<Rightarrow> Params \<Rightarrow> (world, unit) M" where
  "SetNewParams S params = gas_Set (sk_key S) ParamKey (sk_encParams S params)"

definition GetPool :: "stake_env \<Rightarrow> (world, Pool) M" where
  "GetPool S = bnd (gas_Get (sk_key S) PoolKey) (\<lambda>b. case b of
     None \<Rightarrow> panicM (GoPanic ''Stored pool should not have been nil'')
   | Some bz \<Rightarrow> must (sk_decPool S bz))"

definition SetPool :: "stake_env \<Rightarrow> Pool \<Rightarrow> (world, unit) M" where
  "SetPool S pool = gas_Set (sk_key S) PoolKey (sk_encPool S pool)"

definition SetIntraTxCounter :: "stake_env \<Rightarrow> int \<Rightarrow> (world, unit) M" where
  "SetIntraTxCounter S counter = gas_Set (sk_key S) IntraTxCounterKey (sk_encInt16 S counter)"

definition InitIntraTxCounter :: "stake_env \<Rightarrow> (world, unit) M" where
  "InitIntraTxCounter S = bnd (gas_Get (sk_key S) IntraTxCounterKey) (\<lambda>b.
     if b = None then SetIntraTxCounter S 0 else ret ())"

text \<open>A missing counter is decoded from nil bytes, which fails.\<close>

definition GetIntraTxCounter :: "stake_env \<Rightarrow> (world, int) M" where
  "GetIntraTxCounter S = bnd (gas_Get (sk_key S) IntraTxCounterKey) (\<lambda>b.
     must (Option.bind b (sk_decInt16 S)))"

definition wrap16 :: "int \<Rightarrow> int" where
  "wrap16 x = (x + 2 ^ 15) mod 2 ^ 16 - 2 ^ 15"

section \<open>Validators\<close>

definition GetValidator :: "stake_env \<Rightarrow> bytes \<Rightarrow> (world, Validator option) M" where
  "GetValidator S addr = bnd (gas_Get (sk_key S) (GetValidatorKey addr)) (\<lambda>b. case b of
     None \<Rightarrow> ret None
   | Some bz \<Rightarrow> bnd (must (sk_decVal S bz)) (\<lambda>v. ret (Some v)))"

definition GetValidatorByPubKey :: "stake_env \<Rightarrow> bytes \<Rightarrow> (world, Validator option) M" where
  "GetValidatorByPubKey S pubkey = bnd (gas_Get (sk_key S) (GetValidatorByPubKeyIndexKey S pubkey)) (\<lambda>addr. case addr of
     None \<Rightarrow> ret None
   | Some a \<Rightarrow> GetValidator S a)"

definition SetValidator :: "stake_env \<Rightarrow> Validator \<Rightarrow> (world, unit) M" where
  "SetValidator S validator = gas_Set (sk_key S) (GetValidatorKey (Owner validator)) (sk_encVal S validator)"

definition SetValidatorByPubKeyIndex :: "stake_env \<Rightarrow> Validator \<Rightarrow> (world, unit) M" where
  "SetValidatorByPubKeyIndex S validator =
     gas_Set (sk_key S) (GetValidatorByPubKeyIndexKey S (val_PubKey validator)) (Owner validator)"

definition SetValidatorByPowerIndex :: "stake_env \<Rightarrow> Validator \<Rightarrow> Pool \<Rightarrow> (world, unit) M" where
  "SetValidatorByPowerIndex S validator pool =
     bnd (lift (GetValidatorsByPowerIndexKey validator pool)) (\<lambda>key. gas_Set (sk_key S) key (Owner validator))"

definition SetValidatorBondedIndex :: "stake_env \<Rightarrow> Validator \<Rightarrow> (world, unit) M" where
  "SetValidatorBondedIndex S validator =
     gas_Set (sk_key S) (GetValidatorsBondedIndexKey (Owner validator)) (Owner validator)"

definition get_val_or_panic :: "stake_env \<Rightarrow> bytes \<Rightarrow> (world, Validator) M" where
  "get_val_or_panic S address = bnd (GetValidator S address) (\<lambda>v. case v of
     None \<Rightarrow> panicM (GoPanic ''validator record not found for address'')
   | Some v \<Rightarrow> ret v)"

fun decode_all :: "(bytes \<Rightarrow> 'a option) \<Rightarrow> (bytes \<times> bytes) list \<Rightarrow> (world, 'a list) M" where
  "decode_all dec [] = ret []"
| "decode_all dec (it # its) =
     bnd (gas_iter_Value it) (\<lambda>bz.
     bnd (must (dec bz)) (\<lambda>x.
     bnd (decode_all dec its) (\<lambda>xs. ret (x # xs))))"

definition GetAllValidators :: "stake_env \<Rightarrow> (world, Validator list) M" where
  "GetAllValidators S = bnd (KVStorePrefixIterator (sk_key S) ValidatorsKey) (\<lambda>its. decode_all (sk_decVal S) its)"

text \<open>At most \<open>maxRetrieve\<close> of them; \<open>make\<close> panics on a negative size.\<close>

definition GetValidators :: "stake_env \<Rightarrow> int \<Rightarrow> (world, Validator list) M" where
  "GetValidators S maxRetrieve = bnd (KVStorePrefixIterator (sk_key S) ValidatorsKey) (\<lambda>its.
     if maxRetrieve < 0 then panicM (GoPanic ''makeslice: len out of range'')
     else decode_all (sk_decVal S) (take (nat maxRetrieve) its))"

text \<open>\<open>int(maxValidators-1)\<close> on a \<open>uint16\<close>.\<close>

definition max_index :: "Params \<Rightarrow> int" where
  "max_index params = (int (MaxValidators params) - 1) mod 2 ^ 16"

fun bonded_loop :: "stake_env \<Rightarrow> int \<Rightarrow> (bytes \<times> bytes) list \<Rightarrow> int \<Rightarrow> (world, Validator list) M" where
  "bonded_loop S mx [] i = ret []"
| "bonded_loop S mx (it # its) i =
     (if i > mx then panicM (GoPanic ''maxValidators is less than the number of records in ValidatorsBonded Store'')
      else bnd (gas_iter_Value it) (\<lambda>address.
        bnd (get_val_or_panic S address) (\<lambda>v.
        bnd (bonded_loop S mx its (i + 1)) (\<lambda>vs. ret (v # vs)))))"

definition GetValidatorsBonded :: "stake_env \<Rightarrow> (world, Validator list) M" where
  "GetValidatorsBonded S =
     bnd (GetParams S) (\<lambda>params.
     bnd (KVStorePrefixIterator (sk_key S) ValidatorsBondedIndexKey) (\<lambda>its.
     bonded_loop S (max_index params) its 0))"

fun by_power_loop :: "stake_env \<Rightarrow> int \<Rightarrow> (bytes \<times> bytes) list \<Rightarrow> int \<Rightarrow> (world, Validator list) M" where
  "by_power_loop S mx [] i = ret []"
| "by_power_loop S mx (it # its) i =
     (if i > mx then ret []
      else bnd (gas_iter_Value it) (\<lambda>address.
        bnd (get_val_or_panic S address) (\<lambda>v.
        if val_Status v = Bonded
        then bnd (by_power_loop S mx its (i + 1)) (\<lambda>vs. ret (v # vs))
        else by_power_loop S mx its i)))"

definition GetValidatorsByPower :: "stake_env \<Rightarrow> (world, Validator list) M" where
  "GetValidatorsByPower S =
     bnd (GetParams S) (\<lambda>params.
     bnd (KVStoreReversePrefixIterator (sk_key S) ValidatorsByPowerIndexKey) (\<lambda>its.
     by_power_loop S (max_index params) its 0))"

definition GetTendermintUpdates :: "stake_env \<Rightarrow> (world, wrsp_Validator list) M" where
  "GetTendermintUpdates S =
     bnd (KVStorePrefixIterator (sk_key S) TendermintUpdatesKey) (\<lambda>its. decode_all (sk_decWRSP S) its)"

definition ClearTendermintUpdates :: "stake_env \<Rightarrow> (world, unit) M" where
  "ClearTendermintUpdates S =
     bnd (KVStorePrefixIterator (sk_key S) TendermintUpdatesKey) (\<lambda>its.
     iterM its (\<lambda>it. bnd (gas_iter_Key it) (\<lambda>k. gas_Delete (sk_key S) k)))"

section \<open>The cliff\<close>

definition getCliffValidator :: "stake_env \<Rightarrow> (world, bytes option) M" where
  "getCliffValidator S = gas_Get (sk_key S) ValidatorCliffIndexKey"

definition getCliffValidatorPower :: "stake_env \<Rightarrow> (world, bytes option) M" where
  "getCliffValidatorPower S = gas_Get (sk_key S) ValidatorPowerCliffKey"

definition setCliffValidator :: "stake_env \<Rightarrow> Validator \<Rightarrow> Pool \<Rightarrow> (world, unit) M" where
  "setCliffValidator S validator pool =
     bnd (lift (GetValidatorsByPowerIndexKey validator pool)) (\<lambda>bz.
     bnd (gas_Set (sk_key S) ValidatorPowerCliffKey bz) (\<lambda>_.
     gas_Set (sk_key S) ValidatorCliffIndexKey (Owner validator)))"

definition clearCliffValidator :: "stake_env \<Rightarrow> (world, unit) M" where
  "clearCliffValidator S =
     bnd (gas_Delete (sk_key S) ValidatorPowerCliffKey) (\<lambda>_.
     gas_Delete (sk_key S) ValidatorCliffIndexKey)"

section \<open>Bonding and unbonding a validator\<close>

definition unbondValidator :: "stake_env \<Rightarrow> Validator \<Rightarrow> (world, Validator) M" where
  "unbondValidator S validator =
     bnd (GetPool S) (\<lambda>pool.
     if val_Status validator = Unbonded then panicM (GoPanic ''should not already be unbonded'')
     else
       bnd (lift (UpdateStatus validator pool Unbonded)) (\<lambda>(validator, pool).
       bnd (SetPool S pool) (\<lambda>_.
       bnd (gas_Set (sk_key S) (GetValidatorKey (Owner validator)) (sk_encVal S validator)) (\<lambda>_.
       bnd (gas_Set (sk_key S) (GetTendermintUpdatesKey (Owner validator)) (sk_encWRSP S (WRSPValidatorZero validator))) (\<lambda>_.
       bnd (gas_Delete (sk_key S) (GetValidatorsBondedIndexKey (Owner validator))) (\<lambda>_.
       ret validator))))))"

definition bondValidator :: "stake_env \<Rightarrow> Validator \<Rightarrow> (world, Validator) M" where
  "bondValidator S validator =
     bnd (GetPool S) (\<lambda>pool.
     if val_Status validator = Bonded then panicM (GoPanic ''should not already be bonded'')
     else
       bnd (lift (UpdateStatus validator pool Bonded)) (\<lambda>(validator, pool).
       bnd (SetPool S pool) (\<lambda>_.
       bnd (gas_Set (sk_key S) (GetValidatorKey (Owner validator)) (sk_encVal S validator)) (\<lambda>_.
       bnd (gas_Set (sk_key S) (GetValidatorsBondedIndexKey (Owner validator)) (Owner validator)) (\<lambda>_.
       bnd (gas_Set (sk_key S) (GetTendermintUpdatesKey (Owner validator)) (sk_encWRSP S (WRSPValidator validator))) (\<lambda>_.
       ret validator))))))"

text \<open>The zero value that a Go variable of this type starts with.\<close>

definition zeroValidator :: Validator where
  "zeroValidator = NewValidator [] [] emptyDescription"

definition end_of_ranking :: "stake_env \<Rightarrow> Params \<Rightarrow> int \<Rightarrow> Validator \<Rightarrow> (world, unit) M" where
  "end_of_ranking S params count validator =
     (if count = int (MaxValidators params)
      then bnd (GetPool S) (\<lambda>pool. setCliffValidator S validator pool) else ret ())"

fun ubv_loop ::
  "stake_env \<Rightarrow> Params \<Rightarrow> Validator \<Rightarrow> (bytes \<times> bytes) list \<Rightarrow> int \<Rightarrow> Validator \<Rightarrow> bool \<Rightarrow> Validator option
   \<Rightarrow> (world, bool \<times> Validator option) M" where
  "ubv_loop S params newValidator [] count validator kick updatedVal =
     bnd (end_of_ranking S params count validator) (\<lambda>_. ret (kick, updatedVal))"
| "ubv_loop S params newValidator (it # its) count validator kick updatedVal =
     (if count > max_index params
      then bnd (end_of_ranking S params count validator) (\<lambda>_. ret (kick, updatedVal))
      else
        bnd (gas_iter_Value it) (\<lambda>ownerAddr.
        bnd (if ownerAddr = Owner newValidator then ret newValidator else get_val_or_panic S ownerAddr) (\<lambda>validator.
        bnd (if val_Status validator \<noteq> Bonded \<and> \<not> Revoked validator
             then bnd (bondValidator S validator) (\<lambda>v.
               ret (v, True, if ownerAddr = Owner newValidator then Some v else updatedVal))
             else ret (validator, kick, updatedVal)) (\<lambda>(validator, kick, updatedVal).
        if Revoked validator \<and> val_Status validator = Bonded
        then panicM (GoPanic ''revoked validator cannot be bonded'')
        else ubv_loop S params newValidator its (count + 1) validator kick updatedVal))))"

definition UpdateBondedValidators :: "stake_env \<Rightarrow> Validator \<Rightarrow> (world, Validator option) M" where
  "UpdateBondedValidators S newValidator =
     bnd (getCliffValidator S) (\<lambda>oldCliffValidatorAddr.
     bnd (GetParams S) (\<lambda>params.
     bnd (KVStoreReversePrefixIterator (sk_key S) ValidatorsByPowerIndexKey) (\<lambda>its.
     bnd (ubv_loop S params newValidator its 0 zeroValidator False None) (\<lambda>(kickCliffValidator, updatedVal).
     bnd (case oldCliffValidatorAddr of
            Some addr \<Rightarrow>
              if kickCliffValidator
              then bnd (get_val_or_panic S addr) (\<lambda>v. bnd (unbondValidator S v) (\<lambda>_. ret ()))
              else ret ()
          | None \<Rightarrow> ret ()) (\<lambda>_.
     ret updatedVal)))))"

text \<open>
  The main record is written when the function returns, as the deferred call does; a panic, on
  which Go runs the deferred call too, leaves the world to whoever recovers, who drops it.  The
  pool is the one read at the start.
\<close>

definition UpdateValidator :: "stake_env \<Rightarrow> Context \<Rightarrow> Validator \<Rightarrow> (world, Validator) M" where
  "UpdateValidator S ctx validator =
     bnd (GetPool S) (\<lambda>pool.
     let ownerAddr = Owner validator;
         finish = (\<lambda>validator. bnd (gas_Set (sk_key S) (GetValidatorKey ownerAddr) (sk_encVal S validator)) (\<lambda>_. ret validator))
     in
     bnd (GetValidator S ownerAddr) (\<lambda>old.
     let oldFound = (old \<noteq> None);
         oldValidator = (case old of None \<Rightarrow> zeroValidator | Some v \<Rightarrow> v)
     in
     bnd (if Revoked validator \<and> val_Status oldValidator = Bonded
          then bnd (unbondValidator S validator) (\<lambda>v. bnd (clearCliffValidator S) (\<lambda>_. ret v))
          else ret validator) (\<lambda>validator.
     let powerIncreasing = (oldFound \<and> PoolShares_Bonded (val_PoolShares oldValidator) < PoolShares_Bonded (val_PoolShares validator))
     in
     bnd (if oldFound \<and> val_Status oldValidator = Bonded
          then ret (validator\<lparr>BondHeight := BondHeight oldValidator, BondIntraTxCounter := BondIntraTxCounter oldValidator\<rparr>)
          else bnd (GetIntraTxCounter S) (\<lambda>counter.
            bnd (SetIntraTxCounter S (wrap16 (counter + 1))) (\<lambda>_.
            ret (validator\<lparr>BondHeight := ctx_BlockHeight ctx, BondIntraTxCounter := counter\<rparr>)))) (\<lambda>validator.
     bnd (if oldFound
          then bnd (lift (GetValidatorsByPowerIndexKey oldValidator pool)) (\<lambda>k. gas_Delete (sk_key S) k)
          else ret ()) (\<lambda>_.
     bnd (lift (GetValidatorsByPowerIndexKey validator pool)) (\<lambda>valPower.
     bnd (gas_Set (sk_key S) valPower (Owner validator)) (\<lambda>_.
     if powerIncreasing \<and> \<not> Revoked validator \<and> val_Status oldValidator = Bonded
     then bnd (gas_Set (sk_key S) (GetTendermintUpdatesKey ownerAddr) (sk_encWRSP S (WRSPValidator validator))) (\<lambda>_.
       finish validator)
     else
       bnd (getCliffValidatorPower S) (\<lambda>cliffPower.
       if (case cliffPower of None \<Rightarrow> False | Some cp \<Rightarrow>
             (\<not> oldFound \<or> oldFound \<and> val_Status oldValidator = Unbonded) \<and> valPower < cp)
       then finish validator
       else bnd (UpdateBondedValidators S validator) (\<lambda>updatedVal.
         finish (case updatedVal of None \<Rightarrow> validator | Some u \<Rightarrow> u))))))))))"

fun full_loop ::
  "stake_env \<Rightarrow> Params \<Rightarrow> (bytes \<times> bytes) list \<Rightarrow> int \<Rightarrow> Validator \<Rightarrow> bytes list \<Rightarrow> (world, bytes list) M" where
  "full_loop S params [] count validator toKickOut =
     bnd (end_of_ranking S params count validator) (\<lambda>_. ret toKickOut)"
| "full_loop S params (it # its) count validator toKickOut =
     (if count > max_index params
      then bnd (end_of_ranking S params count validator) (\<lambda>_. ret toKickOut)
      else
        bnd (gas_iter_Value it) (\<lambda>ownerAddr.
        bnd (get_val_or_panic S ownerAddr) (\<lambda>validator.
        bnd (if ownerAddr \<in> set toKickOut then ret (validator, remove1 ownerAddr toKickOut)
             else bnd (bondValidator S validator) (\<lambda>v. ret (v, toKickOut))) (\<lambda>(validator, toKickOut).
        if Revoked validator \<and> val_Status validator = Bonded
        then panicM (GoPanic ''revoked validator cannot be bonded'')
        else full_loop S params its (count + 1) validator toKickOut))))"

fun values_loop :: "(bytes \<times> bytes) list \<Rightarrow> (world, bytes list) M" where
  "values_loop [] = ret []"
| "values_loop (it # its) = bnd (gas_iter_Value it) (\<lambda>v. bnd (values_loop its) (\<lambda>vs. ret (v # vs)))"

definition UpdateBondedValidatorsFull :: "stake_env \<Rightarrow> (world, unit) M" where
  "UpdateBondedValidatorsFull S =
     bnd (KVStorePrefixIterator (sk_key S) ValidatorsBondedIndexKey) (\<lambda>its.
     bnd (values_loop its) (\<lambda>owners.
     bnd (GetParams S) (\<lambda>params.
     bnd (KVStoreReversePrefixIterator (sk_key S) ValidatorsByPowerIndexKey) (\<lambda>ranks.
     bnd (full_loop S params ranks 0 zeroValidator (remdups owners)) (\<lambda>toKickOut.
     iterM (sk_mapOrder S toKickOut) (\<lambda>ownerAddr.
       bnd (get_val_or_panic S ownerAddr) (\<lambda>v. bnd (unbondValidator S v) (\<lambda>_. ret ()))))))))"

definition SetParams :: "stake_env \<Rightarrow> Params \<Rightarrow> (world, unit) M" where
  "SetParams S params =
     bnd (GetParams S) (\<lambda>exParams.
     bnd (if MaxValidators exParams \<noteq> MaxValidators params then UpdateBondedValidatorsFull S else ret ()) (\<lambda>_.
     gas_Set (sk_key S) ParamKey (sk_encParams S params)))"

definition RemoveValidator :: "stake_env \<Rightarrow> bytes \<Rightarrow> (world, unit) M" where
  "RemoveValidator S address =
     bnd (GetValidator S address) (\<lambda>v. case v of
       None \<Rightarrow> ret ()
     | Some validator \<Rightarrow>
         bnd (GetPool S) (\<lambda>pool.
         bnd (gas_Delete (sk_key S) (GetValidatorKey address)) (\<lambda>_.
         bnd (gas_Delete (sk_key S) (GetValidatorByPubKeyIndexKey S (val_PubKey validator))) (\<lambda>_.
         bnd (lift (GetValidatorsByPowerIndexKey validator pool)) (\<lambda>k.
         bnd (gas_Delete (sk_key S) k) (\<lambda>_.
         bnd (gas_Get (sk_key S) (GetValidatorsBondedIndexKey (Owner validator))) (\<lambda>b.
         if b = None then ret ()
         else
           bnd (gas_Delete (sk_key S) (GetValidatorsBondedIndexKey (Owner validator))) (\<lambda>_.
           gas_Set (sk_key S) (GetTendermintUpdatesKey address) (sk_encWRSP S (WRSPValidatorZero validator))))))))))"

section \<open>Delegations\<close>

definition GetDelegation :: "stake_env \<Rightarrow> bytes \<Rightarrow> bytes \<Rightarrow> (world, Delegation option) M" where
  "GetDelegation S delegatorAddr validatorAddr =
     bnd (gas_Get (sk_key S) (GetDelegationKey S delegatorAddr validatorAddr)) (\<lambda>b. case b of
       None \<Rightarrow> ret None
     | Some bz \<Rightarrow> bnd (must (sk_decDel S bz)) (\<lambda>d. ret (Some d)))"

definition GetAllDelegations :: "stake_env \<Rightarrow> (world, Delegation list) M" where
  "GetAllDelegations S = bnd (KVStorePrefixIterator (sk_key S) DelegationKey) (\<lambda>its. decode_all (sk_decDel S) its)"

definition GetDelegations :: "stake_env \<Rightarrow> bytes \<Rightarrow> int \<Rightarrow> (world, Delegation list) M" where
  "GetDelegations S delegator maxRetrieve =
     bnd (KVStorePrefixIterator (sk_key S) (GetDelegationsKey S delegator)) (\<lambda>its.
     if maxRetrieve < 0 then panicM (GoPanic ''makeslice: len out of range'')
     else decode_all (sk_decDel S) (take (nat maxRetrieve) its))"

definition SetDelegation :: "stake_env \<Rightarrow> Delegation \<Rightarrow> (world, unit) M" where
  "SetDelegation S delegation =
     gas_Set (sk_key S) (GetDelegationKey S (del_DelegatorAddr delegation) (del_ValidatorAddr delegation)) (sk_encDel S delegation)"

definition RemoveDelegation :: "stake_env \<Rightarrow> Delegation \<Rightarrow> (world, unit) M" where
  "RemoveDelegation S delegation =
     gas_Delete (sk_key S) (GetDelegationKey S (del_DelegatorAddr delegation) (del_ValidatorAddr delegation))"

definition GetUnbondingDelegation :: "stake_env \<Rightarrow> bytes \<Rightarrow> bytes \<Rightarrow> (world, UnbondingDelegation option) M" where
  "GetUnbondingDelegation S delegatorAddr validatorAddr =
     bnd (gas_Get (sk_key S) (GetUBDKey S delegatorAddr validatorAddr)) (\<lambda>b. case b of
       None \<Rightarrow> ret None
     | Some bz \<Rightarrow> bnd (must (sk_decUBD S bz)) (\<lambda>u. ret (Some u)))"

text \<open>An index entry holds the key of a record, which is read and decoded.\<close>

fun decode_indexed :: "string \<Rightarrow> (bytes \<Rightarrow> 'a option) \<Rightarrow> (bytes \<times> bytes) list \<Rightarrow> (world, 'a list) M" where
  "decode_indexed st dec [] = ret []"
| "decode_indexed st dec (it # its) =
     bnd (gas_iter_Value it) (\<lambda>key.
     bnd (gas_Get st key) (\<lambda>b.
     bnd (must (Option.bind b dec)) (\<lambda>x.
     bnd (decode_indexed st dec its) (\<lambda>xs. ret (x # xs)))))"

definition GetUnbondingDelegationsFromValidator :: "stake_env \<Rightarrow> bytes \<Rightarrow> (world, UnbondingDelegation list) M" where
  "GetUnbondingDelegationsFromValidator S valAddr =
     bnd (KVStorePrefixIterator (sk_key S) (GetUBDsByValIndexKey S valAddr)) (\<lambda>its.
     decode_indexed (sk_key S) (sk_decUBD S) its)"

definition SetUnbondingDelegation :: "stake_env \<Rightarrow> UnbondingDelegation \<Rightarrow> (world, unit) M" where
  "SetUnbondingDelegation S ubd =
     (let ubdKey = GetUBDKey S (ubd_DelegatorAddr ubd) (ubd_ValidatorAddr ubd) in
      bnd (gas_Set (sk_key S) ubdKey (sk_encUBD S ubd)) (\<lambda>_.
      gas_Set (sk_key S) (GetUBDByValIndexKey S (ubd_DelegatorAddr ubd) (ubd_ValidatorAddr ubd)) ubdKey))"

definition RemoveUnbondingDelegation :: "stake_env \<Rightarrow> UnbondingDelegation \<Rightarrow> (world, unit) M" where
  "RemoveUnbondingDelegation S ubd =
     (let ubdKey = GetUBDKey S (ubd_DelegatorAddr ubd) (ubd_ValidatorAddr ubd) in
      bnd (gas_Delete (sk_key S) ubdKey) (\<lambda>_.
      gas_Delete (sk_key S) (GetUBDByValIndexKey S (ubd_DelegatorAddr ubd) (ubd_ValidatorAddr ubd))))"

definition GetRedelegation :: "stake_env \<Rightarrow> bytes \<Rightarrow> bytes \<Rightarrow> bytes \<Rightarrow> (world, Redelegation option) M" where
  "GetRedelegation S delegatorAddr validatorSrcAddr validatorDstAddr =
     bnd (gas_Get (sk_key S) (GetREDKey S delegatorAddr validatorSrcAddr validatorDstAddr)) (\<lambda>b. case b of
       None \<Rightarrow> ret None
     | Some bz \<Rightarrow> bnd (must (sk_decRED S bz)) (\<lambda>r. ret (Some r)))"

definition GetRedelegationsFromValidator :: "stake_env \<Rightarrow> bytes \<Rightarrow> (world, Redelegation list) M" where
  "GetRedelegationsFromValidator S valAddr =
     bnd (KVStorePrefixIterator (sk_key S) (GetREDsFromValSrcIndexKey S valAddr)) (\<lambda>its.
     decode_indexed (sk_key S) (sk_decRED S) its)"

definition HasReceivingRedelegation :: "stake_env \<Rightarrow> bytes \<Rightarrow> bytes \<Rightarrow> (world, bool) M" where
  "HasReceivingRedelegation S delegatorAddr validatorDstAddr =
     bnd (KVStorePrefixIterator (sk_key S) (GetREDsByDelToValDstIndexKey S delegatorAddr validatorDstAddr)) (\<lambda>its.
     ret (its \<noteq> []))"

definition SetRedelegation :: "stake_env \<Rightarrow> Redelegation \<Rightarrow> (world, unit) M" where
  "SetRedelegation S red =
     (let del = red_DelegatorAddr red; src = red_ValidatorSrcAddr red; dst = red_ValidatorDstAddr red;
          redKey = GetREDKey S del src dst in
      bnd (gas_Set (sk_key S) redKey (sk_encRED S red)) (\<lambda>_.
      bnd (gas_Set (sk_key S) (GetREDByValSrcIndexKey S del src dst) redKey) (\<lambda>_.
      gas_Set (sk_key S) (GetREDByValDstIndexKey S del src dst) redKey)))"

definition RemoveRedelegation :: "stake_env \<Rightarrow> Redelegation \<Rightarrow> (world, unit) M" where
  "RemoveRedelegation S red =
     (let del = red_DelegatorAddr red; src = red_ValidatorSrcAddr red; dst = red_ValidatorDstAddr red;
          redKey = GetREDKey S del src dst in
      bnd (gas_Delete (sk_key S) redKey) (\<lambda>_.
      bnd (gas_Delete (sk_key S) (GetREDByValSrcIndexKey S del src dst)) (\<lambda>_.
      gas_Delete (sk_key S) (GetREDByValDstIndexKey S del src dst))))"

section \<open>Delegating and unbonding\<close>

definition keeper_Delegate ::
  "auth_env \<Rightarrow> stake_env \<Rightarrow> Context \<Rightarrow> bytes \<Rightarrow> Coin \<Rightarrow> Validator \<Rightarrow> (world, sdkError + rat) M" where
  "keeper_Delegate E S ctx delegatorAddr bondAmt validator =
     bnd (GetDelegation S delegatorAddr (Owner validator)) (\<lambda>d.
     let delegation = (case d of
           None \<Rightarrow> \<lparr>del_DelegatorAddr = delegatorAddr, del_ValidatorAddr = Owner validator, del_Shares = 0, del_Height = 0\<rparr>
         | Some d \<Rightarrow> d)
     in
     bnd (GetPool S) (\<lambda>pool.
     bnd (subtractCoins E (del_DelegatorAddr delegation) [bondAmt]) (\<lambda>r. case r of
       Inl err \<Rightarrow> ret (Inl err)
     | Inr _ \<Rightarrow>
         bnd (lift (Int_Int64 (Amount bondAmt))) (\<lambda>amount.
         bnd (lift (AddTokensFromDel validator pool amount)) (\<lambda>(validator, pool, newShares).
         let delegation = delegation\<lparr>del_Shares := del_Shares delegation + newShares, del_Height := ctx_BlockHeight ctx\<rparr> in
         bnd (SetPool S pool) (\<lambda>_.
         bnd (SetDelegation S delegation) (\<lambda>_.
         bnd (UpdateValidator S ctx validator) (\<lambda>_.
         ret (Inr newShares)))))))))"

definition unbond ::
  "stake_env \<Rightarrow> Context \<Rightarrow> bytes \<Rightarrow> bytes \<Rightarrow> rat \<Rightarrow> (world, sdkError + int) M" where
  "unbond S ctx delegatorAddr validatorAddr shares =
     bnd (GetDelegation S delegatorAddr validatorAddr) (\<lambda>d. case d of
       None \<Rightarrow> ret (Inl (ErrNoDelegatorForAddress (sk_codespace S)))
     | Some delegation \<Rightarrow>
         if del_Shares delegation < shares then ret (Inl (ErrNotEnoughDelegationShares (sk_codespace S)))
         else
           bnd (GetValidator S validatorAddr) (\<lambda>v. case v of
             None \<Rightarrow> ret (Inl (ErrNoValidatorFound (sk_codespace S)))
           | Some validator \<Rightarrow>
               let delegation = delegation\<lparr>del_Shares := del_Shares delegation - shares\<rparr> in
               bnd (if del_Shares delegation = 0
                    then
                      let validator = (if del_DelegatorAddr delegation = Owner validator \<and> \<not> Revoked validator
                                       then validator\<lparr>Revoked := True\<rparr> else validator)
                      in bnd (RemoveDelegation S delegation) (\<lambda>_. ret validator)
                    else
                      bnd (SetDelegation S (delegation\<lparr>del_Height := ctx_BlockHeight ctx\<rparr>)) (\<lambda>_. ret validator)) (\<lambda>validator.
               bnd (GetPool S) (\<lambda>pool.
               bnd (lift (RemoveDelShares validator pool shares)) (\<lambda>(validator, pool, amount).
               bnd (SetPool S pool) (\<lambda>_.
               bnd (UpdateValidator S ctx validator) (\<lambda>validator.
               bnd (if DelegatorShares validator = 0 then RemoveValidator S (Owner validator) else ret ()) (\<lambda>_.
               ret (Inr amount)))))))))"

definition keeper_BeginUnbonding ::
  "stake_env \<Rightarrow> Context \<Rightarrow> bytes \<Rightarrow> bytes \<Rightarrow> rat \<Rightarrow> (world, sdkError option) M" where
  "keeper_BeginUnbonding S ctx delegatorAddr validatorAddr sharesAmount =
     bnd (unbond S ctx delegatorAddr validatorAddr sharesAmount) (\<lambda>r. case r of
       Inl err \<Rightarrow> ret (Some err)
     | Inr returnAmount \<Rightarrow>
         bnd (GetParams S) (\<lambda>params.
         let minTime = wrap64 (hdr_Time (ctx_BlockHeader ctx) + UnbondingTime params);
             bal = \<lparr>Denom = BondDenom params, Amount = NewInt returnAmount\<rparr>;
             ubd = \<lparr>ubd_DelegatorAddr = delegatorAddr, ubd_ValidatorAddr = validatorAddr, ubd_CreationHeight = 0,
                    ubd_MinTime = minTime, ubd_InitialBalance = bal, ubd_Balance = bal\<rparr>
         in bnd (SetUnbondingDelegation S ubd) (\<lambda>_. ret None)))"

definition keeper_CompleteUnbonding ::
  "auth_env \<Rightarrow> stake_env \<Rightarrow> Context \<Rightarrow> bytes \<Rightarrow> bytes \<Rightarrow> (world, sdkError option) M" where
  "keeper_CompleteUnbonding E S ctx delegatorAddr validatorAddr =
     bnd (GetUnbondingDelegation S delegatorAddr validatorAddr) (\<lambda>u. case u of
       None \<Rightarrow> ret (Some (ErrNoUnbondingDelegation (sk_codespace S)))
     | Some ubd \<Rightarrow>
         let ctxTime = hdr_Time (ctx_BlockHeader ctx) in
         if ubd_MinTime ubd > ctxTime then ret (Some (ErrNotMature (sk_codespace S)))
         else
           bnd (addCoins E (ubd_DelegatorAddr ubd) [ubd_Balance ubd]) (\<lambda>r. case r of
             Inl err \<Rightarrow> ret (Some err)
           | Inr _ \<Rightarrow> bnd (RemoveUnbondingDelegation S ubd) (\<lambda>_. ret None)))"

definition BeginRedelegation ::
  "auth_env \<Rightarrow> stake_env \<Rightarrow> Context \<Rightarrow> bytes \<Rightarrow> bytes \<Rightarrow> bytes \<Rightarrow> rat \<Rightarrow> (world, sdkError option) M" where
  "BeginRedelegation E S ctx delegatorAddr validatorSrcAddr validatorDstAddr sharesAmount =
     bnd (HasReceivingRedelegation S delegatorAddr validatorSrcAddr) (\<lambda>has.
     if has then ret (Some (ErrTransitiveRedelegation (sk_codespace S)))
     else
       bnd (unbond S ctx delegatorAddr validatorSrcAddr sharesAmount) (\<lambda>r. case r of
         Inl err \<Rightarrow> ret (Some err)
       | Inr returnAmount \<Rightarrow>
           bnd (GetParams S) (\<lambda>params.
           let returnCoin = \<lparr>Denom = BondDenom params, Amount = NewInt returnAmount\<rparr> in
           bnd (GetValidator S validatorDstAddr) (\<lambda>v. case v of
             None \<Rightarrow> ret (Some (ErrBadRedelegationDst (sk_codespace S)))
           | Some dstValidator \<Rightarrow>
               bnd (keeper_Delegate E S ctx delegatorAddr returnCoin dstValidator) (\<lambda>r. case r of
                 Inl err \<Rightarrow> ret (Some err)
               | Inr sharesCreated \<Rightarrow>
                   let minTime = wrap64 (hdr_Time (ctx_BlockHeader ctx) + UnbondingTime params);
                       red = \<lparr>red_DelegatorAddr = delegatorAddr, red_ValidatorSrcAddr = validatorSrcAddr,
                              red_ValidatorDstAddr = validatorDstAddr, red_CreationHeight = 0, red_MinTime = minTime,
                              red_InitialBalance = returnCoin, red_Balance = returnCoin,
                              red_SharesSrc = sharesAmount, red_SharesDst = sharesCreated\<rparr>
                   in bnd (SetRedelegation S red) (\<lambda>_. ret None))))))"

definition CompleteRedelegation ::
  "stake_env \<Rightarrow> Context \<Rightarrow> bytes \<Rightarrow> bytes \<Rightarrow> bytes \<Rightarrow> (world, sdkError option) M" where
  "CompleteRedelegation S ctx delegatorAddr validatorSrcAddr validatorDstAddr =
     bnd (GetRedelegation S delegatorAddr validatorSrcAddr validatorDstAddr) (\<lambda>r. case r of
       None \<Rightarrow> ret (Some (ErrNoRedelegation (sk_codespace S)))
     | Some red \<Rightarrow>
         let ctxTime = hdr_Time (ctx_BlockHeader ctx) in
         if red_MinTime red > ctxTime then ret (Some (ErrNotMature (sk_codespace S)))
         else bnd (RemoveRedelegation S red) (\<lambda>_. ret None))"

section \<open>Slashing\<close>

definition slashUnbondingDelegation ::
  "stake_env \<Rightarrow> Context \<Rightarrow> UnbondingDelegation \<Rightarrow> int \<Rightarrow> rat \<Rightarrow> (world, sdk_int) M" where
  "slashUnbondingDelegation S ctx unbondingDelegation infractionHeight slashFactor =
     (let now = hdr_Time (ctx_BlockHeader ctx) in
      if ubd_CreationHeight unbondingDelegation < infractionHeight then ret ZeroInt
      else if ubd_MinTime unbondingDelegation < now then ret ZeroInt
      else
        bnd (lift (NewRatFromInt (Amount (ubd_InitialBalance unbondingDelegation)) [OneInt])) (\<lambda>r.
        bnd (lift (RoundInt (r * slashFactor))) (\<lambda>slashAmount.
        let held = Amount (ubd_Balance unbondingDelegation);
            unbondingSlashAmount = (if Int_GT slashAmount held then held else slashAmount)
        in
        if Int_IsZero unbondingSlashAmount then ret slashAmount
        else
          bnd (lift (Int_Sub held unbondingSlashAmount)) (\<lambda>left.
          bnd (SetUnbondingDelegation S
                 (unbondingDelegation\<lparr>ubd_Balance := (ubd_Balance unbondingDelegation)\<lparr>Amount := left\<rparr>\<rparr>)) (\<lambda>_.
          bnd (GetPool S) (\<lambda>pool.
          bnd (lift (Int_Int64 slashAmount)) (\<lambda>burn.
          bnd (SetPool S (pool\<lparr>LooseTokens := wrap64 (LooseTokens pool - burn)\<rparr>)) (\<lambda>_.
          ret slashAmount))))))))"

definition slashRedelegation ::
  "stake_env \<Rightarrow> Context \<Rightarrow> Redelegation \<Rightarrow> int \<Rightarrow> rat \<Rightarrow> (world, sdk_int) M" where
  "slashRedelegation S ctx redelegation infractionHeight slashFactor =
     (let now = hdr_Time (ctx_BlockHeader ctx) in
      if red_CreationHeight redelegation < infractionHeight then ret ZeroInt
      else if red_MinTime redelegation < now then ret ZeroInt
      else
        bnd (lift (NewRatFromInt (Amount (red_InitialBalance redelegation)) [OneInt])) (\<lambda>r.
        bnd (lift (RoundInt (r * slashFactor))) (\<lambda>slashAmount.
        let held = Amount (red_Balance redelegation);
            redelegationSlashAmount = (if Int_GT slashAmount held then held else slashAmount)
        in
        bnd (if Int_IsZero redelegationSlashAmount then ret ()
             else
               bnd (lift (Int_Sub held redelegationSlashAmount)) (\<lambda>left.
               SetRedelegation S (redelegation\<lparr>red_Balance := (red_Balance redelegation)\<lparr>Amount := left\<rparr>\<rparr>))) (\<lambda>_.
        let sharesToUnbond = slashFactor * red_SharesDst redelegation in
        if sharesToUnbond = 0 then ret slashAmount
        else
          bnd (GetDelegation S (red_DelegatorAddr redelegation) (red_ValidatorDstAddr redelegation)) (\<lambda>d. case d of
            None \<Rightarrow> ret slashAmount
          | Some delegation \<Rightarrow>
              let sharesToUnbond = (if sharesToUnbond > del_Shares delegation then del_Shares delegation else sharesToUnbond) in
              bnd (unbond S ctx (red_DelegatorAddr redelegation) (red_ValidatorDstAddr redelegation) sharesToUnbond) (\<lambda>r. case r of
                Inl err \<Rightarrow> panicM (GoPanic ''error unbonding delegator'')
              | Inr tokensToBurn \<Rightarrow>
                  bnd (GetPool S) (\<lambda>pool.
                  bnd (SetPool S (pool\<lparr>LooseTokens := wrap64 (LooseTokens pool - tokensToBurn)\<rparr>)) (\<lambda>_.
                  ret slashAmount))))))))"

text \<open>The two loops of \<open>Slash\<close>: what is left to slash after each record.\<close>

definition less_slashed :: "sdk_int \<Rightarrow> sdk_int \<Rightarrow> (world, sdk_int) M" where
  "less_slashed remainingSlashAmount amountSlashed =
     (if Int_IsZero amountSlashed then ret remainingSlashAmount
      else lift (Int_Sub remainingSlashAmount amountSlashed))"

fun slash_ubds ::
  "stake_env \<Rightarrow> Context \<Rightarrow> int \<Rightarrow> rat \<Rightarrow> UnbondingDelegation list \<Rightarrow> sdk_int \<Rightarrow> (world, sdk_int) M" where
  "slash_ubds S ctx infractionHeight slashFactor [] remainingSlashAmount = ret remainingSlashAmount"
| "slash_ubds S ctx infractionHeight slashFactor (u # us) remainingSlashAmount =
     bnd (slashUnbondingDelegation S ctx u infractionHeight slashFactor) (\<lambda>amountSlashed.
     bnd (less_slashed remainingSlashAmount amountSlashed) (\<lambda>left.
     slash_ubds S ctx infractionHeight slashFactor us left))"

fun slash_reds ::
  "stake_env \<Rightarrow> Context \<Rightarrow> int \<Rightarrow> rat \<Rightarrow> Redelegation list \<Rightarrow> sdk_int \<Rightarrow> (world, sdk_int) M" where
  "slash_reds S ctx infractionHeight slashFactor [] remainingSlashAmount = ret remainingSlashAmount"
| "slash_reds S ctx infractionHeight slashFactor (r # rs) remainingSlashAmount =
     bnd (slashRedelegation S ctx r infractionHeight slashFactor) (\<lambda>amountSlashed.
     bnd (less_slashed remainingSlashAmount amountSlashed) (\<lambda>left.
     slash_reds S ctx infractionHeight slashFactor rs left))"

definition Slash :: "stake_env \<Rightarrow> Context \<Rightarrow> bytes \<Rightarrow> int \<Rightarrow> int \<Rightarrow> rat \<Rightarrow> (world, unit) M" where
  "Slash S ctx pubkey infractionHeight votingPower slashFactor =
     (if slashFactor < 0 then panicM (GoPanic ''attempted to slash with a negative slashFactor'')
      else
        bnd (lift (NewRat votingPower [])) (\<lambda>p.
        bnd (lift (RoundInt (p * slashFactor))) (\<lambda>slashAmount.
        bnd (GetValidatorByPubKey S pubkey) (\<lambda>v. case v of
          None \<Rightarrow> panicM (GoPanic ''attempted to slash a nonexistent validator'')
        | Some validator \<Rightarrow>
            bnd (if infractionHeight > ctx_BlockHeight ctx
                 then panicM (GoPanic ''impossible attempt to slash future infraction'')
                 else if infractionHeight = ctx_BlockHeight ctx then ret slashAmount
                 else
                   bnd (GetUnbondingDelegationsFromValidator S (Owner validator)) (\<lambda>ubds.
                   bnd (slash_ubds S ctx infractionHeight slashFactor ubds slashAmount) (\<lambda>left.
                   bnd (GetRedelegationsFromValidator S (Owner validator)) (\<lambda>reds.
                   slash_reds S ctx infractionHeight slashFactor reds left)))) (\<lambda>remainingSlashAmount.
            bnd (lift (RoundInt (ps_Amount (val_PoolShares validator)))) (\<lambda>all.
            let sharesToRemove = (if Int_GT remainingSlashAmount all then all else remainingSlashAmount) in
            bnd (GetPool S) (\<lambda>pool.
            bnd (lift (NewRatFromInt sharesToRemove [])) (\<lambda>shares.
            bnd (lift (RemovePoolShares validator pool shares)) (\<lambda>(validator, pool, burned).
            bnd (SetPool S (pool\<lparr>LooseTokens := wrap64 (LooseTokens pool - burned)\<rparr>)) (\<lambda>_.
            bnd (UpdateValidator S ctx validator) (\<lambda>_. ret ())))))))))))"

definition setRevoked :: "stake_env \<Rightarrow> Context \<Rightarrow> bytes \<Rightarrow> bool \<Rightarrow> (world, unit) M" where
  "setRevoked S ctx pubkey revoked =
     bnd (GetValidatorByPubKey S pubkey) (\<lambda>v. case v of
       None \<Rightarrow> panicM (GoPanic ''Validator not found, cannot set revoked'')
     | Some validator \<Rightarrow> bnd (UpdateValidator S ctx (validator\<lparr>Revoked := revoked\<rparr>)) (\<lambda>_. ret ()))"

definition Revoke :: "stake_env \<Rightarrow> Context \<Rightarrow> bytes \<Rightarrow> (world, unit) M" where
  "Revoke S ctx pubkey = setRevoked S ctx pubkey True"

definition Unrevoke :: "stake_env \<Rightarrow> Context \<Rightarrow> bytes \<Rightarrow> (world, unit) M" where
  "Unrevoke S ctx pubkey = setRevoked S ctx pubkey False"

section \<open>Inflation\<close>

definition hrsPerYr :: int where "hrsPerYr = 8766"
definition inflation_precision :: int where "inflation_precision = 100000000000"
definition hrsPerYrRat :: rat where "hrsPerYrRat = rat_of_int hrsPerYr"

text \<open>The rate of \<open>NextInflation\<close> as a function of the parameters and the pool it reads.\<close>

definition next_rate :: "Params \<Rightarrow> Pool \<Rightarrow> rat outcome" where
  "next_rate params pool =
     obind (BondedRatio pool) (\<lambda>ratio.
     obind (Rat_Quo ratio (GoalBonded params)) (\<lambda>q.
     let inflationRateChangePerYear = (1 - q) * InflationRateChange params in
     obind (Rat_Quo inflationRateChangePerYear hrsPerYrRat) (\<lambda>inflationRateChange.
     let inflation = Inflation pool + inflationRateChange;
         inflation = (if inflation > InflationMax params then InflationMax params else inflation);
         inflation = (if inflation < InflationMin params then InflationMin params else inflation)
     in Rat_Round inflation inflation_precision)))"

definition NextInflation :: "stake_env \<Rightarrow> (world, rat) M" where
  "NextInflation S =
     bnd (GetParams S) (\<lambda>params.
     bnd (GetPool S) (\<lambda>pool.
     lift (next_rate params pool)))"

definition ProcessProvisions :: "stake_env \<Rightarrow> (world, Pool) M" where
  "ProcessProvisions S =
     bnd (GetPool S) (\<lambda>pool.
     bnd (NextInflation S) (\<lambda>inflation.
     let pool = pool\<lparr>Inflation := inflation\<rparr> in
     bnd (lift (NewRat (TokenSupply pool) [])) (\<lambda>tokens.
     bnd (lift (Rat_Quo (Inflation pool * tokens) hrsPerYrRat)) (\<lambda>q.
     let provisions = RoundInt64 q in
     ret (pool\<lparr>LooseTokens := wrap64 (LooseTokens pool + provisions)\<rparr>)))))"

section \<open>The validator set seen by other modules\<close>

text \<open>
  The callback has a state of its own, which the closures of the source capture, and says
  whether to stop.
\<close>

fun iter_validators ::
  "stake_env \<Rightarrow> (int \<Rightarrow> Validator \<Rightarrow> 'a \<Rightarrow> (world, 'a \<times> bool) M) \<Rightarrow> (bytes \<times> bytes) list \<Rightarrow> int \<Rightarrow> 'a \<Rightarrow> (world, 'a) M" where
  "iter_validators S fn [] i acc = ret acc"
| "iter_validators S fn (it # its) i acc =
     bnd (gas_iter_Value it) (\<lambda>bz.
     bnd (must (sk_decVal S bz)) (\<lambda>validator.
     bnd (fn i validator acc) (\<lambda>(acc, stop).
     if stop then ret acc else iter_validators S fn its (wrap64 (i + 1)) acc)))"

definition IterateValidators ::
  "stake_env \<Rightarrow> (int \<Rightarrow> Validator \<Rightarrow> 'a \<Rightarrow> (world, 'a \<times> bool) M) \<Rightarrow> 'a \<Rightarrow> (world, 'a) M" where
  "IterateValidators S fn acc =
     bnd (KVStorePrefixIterator (sk_key S) ValidatorsKey) (\<lambda>its. iter_validators S fn its 0 acc)"

fun iter_bonded ::
  "stake_env \<Rightarrow> (int \<Rightarrow> Validator \<Rightarrow> 'a \<Rightarrow> (world, 'a \<times> bool) M) \<Rightarrow> (bytes \<times> bytes) list \<Rightarrow> int \<Rightarrow> 'a \<Rightarrow> (world, 'a) M" where
  "iter_bonded S fn [] i acc = ret acc"
| "iter_bonded S fn (it # its) i acc =
     bnd (gas_iter_Value it) (\<lambda>address.
     bnd (get_val_or_panic S address) (\<lambda>validator.
     bnd (fn i validator acc) (\<lambda>(acc, stop).
     if stop then ret acc else iter_bonded S fn its (wrap64 (i + 1)) acc)))"

definition IterateValidatorsBonded ::
  "stake_env \<Rightarrow> (int \<Rightarrow> Validator \<Rightarrow> 'a \<Rightarrow> (world, 'a \<times> bool) M) \<Rightarrow> 'a \<Rightarrow> (world, 'a) M" where
  "IterateValidatorsBonded S fn acc =
     bnd (KVStorePrefixIterator (sk_key S) ValidatorsBondedIndexKey) (\<lambda>its. iter_bonded S fn its 0 acc)"

definition keeper_Validator :: "stake_env \<Rightarrow> bytes \<Rightarrow> (world, Validator option) M" where
  "keeper_Validator S address = GetValidator S address"

definition TotalPower :: "stake_env \<Rightarrow> (world, rat) M" where
  "TotalPower S = bnd (GetPool S) (\<lambda>pool. ret (BondedShares pool))"

definition keeper_Delegation :: "stake_env \<Rightarrow> bytes \<Rightarrow> bytes \<Rightarrow> (world, Delegation option) M" where
  "keeper_Delegation S addrDel addrVal = GetDelegation S addrDel addrVal"

fun iter_delegations ::
  "stake_env \<Rightarrow> (int \<Rightarrow> Delegation \<Rightarrow> 'a \<Rightarrow> (world, 'a \<times> bool) M) \<Rightarrow> (bytes \<times> bytes) list \<Rightarrow> int \<Rightarrow> 'a \<Rightarrow> (world, 'a) M" where
  "iter_delegations S fn [] i acc = ret acc"
| "iter_delegations S fn (it # its) i acc =
     bnd (gas_iter_Value it) (\<lambda>bz.
     bnd (must (sk_decDel S bz)) (\<lambda>delegation.
     bnd (fn i delegation acc) (\<lambda>(acc, stop).
     if stop then ret acc else iter_delegations S fn its (wrap64 (i + 1)) acc)))"

definition IterateDelegations ::
  "stake_env \<Rightarrow> bytes \<Rightarrow> (int \<Rightarrow> Delegation \<Rightarrow> 'a \<Rightarrow> (world, 'a \<times> bool) M) \<Rightarrow> 'a \<Rightarrow> (world, 'a) M" where
  "IterateDelegations S delAddr fn acc =
     bnd (KVStorePrefixIterator (sk_key S) (GetDelegationsKey S delAddr)) (\<lambda>its. iter_delegations S fn its 0 acc)"

section \<open>Genesis\<close>

record stake_GenesisState =
  sg_Pool :: Pool
  sg_Params :: Params
  sg_Validators :: "Validator list"
  sg_Bonds :: "Delegation list"

definition stake_NewGenesisState :: "Pool \<Rightarrow> Params \<Rightarrow> Validator list \<Rightarrow> Delegation list \<Rightarrow> stake_GenesisState" where
  "stake_NewGenesisState pool params validators bonds =
     \<lparr>sg_Pool = pool, sg_Params = params, sg_Validators = validators, sg_Bonds = bonds\<rparr>"

definition stake_DefaultGenesisState :: stake_GenesisState where
  "stake_DefaultGenesisState =
     \<lparr>sg_Pool = InitialPool, sg_Params = DefaultParams, sg_Validators = [], sg_Bonds = []\<rparr>"

definition stake_InitGenesis :: "stake_env \<Rightarrow> stake_GenesisState \<Rightarrow> (world, unit) M" where
  "stake_InitGenesis S data =
     bnd (SetPool S (sg_Pool data)) (\<lambda>_.
     bnd (SetNewParams S (sg_Params data)) (\<lambda>_.
     bnd (InitIntraTxCounter S) (\<lambda>_.
     bnd (iterM (sg_Validators data) (\<lambda>validator.
       bnd (SetValidator S validator) (\<lambda>_.
       bnd (SetValidatorByPubKeyIndex S validator) (\<lambda>_.
       bnd (SetValidatorByPowerIndex S validator (sg_Pool data)) (\<lambda>_.
       if val_Status validator = Bonded then SetValidatorBondedIndex S validator else ret ()))))) (\<lambda>_.
     bnd (iterM (sg_Bonds data) (\<lambda>bond. SetDelegation S bond)) (\<lambda>_.
     UpdateBondedValidatorsFull S)))))"

definition stake_WriteGenesis :: "stake_env \<Rightarrow> (world, stake_GenesisState) M" where
  "stake_WriteGenesis S =
     bnd (GetPool S) (\<lambda>pool.
     bnd (GetParams S) (\<lambda>params.
     bnd (GetAllValidators S) (\<lambda>validators.
     bnd (GetAllDelegations S) (\<lambda>bonds.
     ret \<lparr>sg_Pool = pool, sg_Params = params, sg_Validators = validators, sg_Bonds = bonds\<rparr>))))"

record GenesisValidator =
  gv_PubKey :: bytes
  gv_Power :: int
  gv_Name :: string

definition WriteValidators :: "stake_env \<Rightarrow> (world, GenesisValidator list) M" where
  "WriteValidators S =
     IterateValidatorsBonded S (\<lambda>_ validator vals.
       ret (vals @ [\<lparr>gv_PubKey = val_PubKey validator,
                     gv_Power = RoundInt64 (PoolShares_Bonded (val_PoolShares validator)),
                     gv_Name = Moniker (val_Description validator)\<rparr>], False)) []"

section \<open>The end of a block\<close>

definition stake_EndBlocker :: "stake_env \<Rightarrow> Context \<Rightarrow> (world, wrsp_Validator list) M" where
  "stake_EndBlocker S ctx =
     bnd (GetPool S) (\<lambda>pool.
     let blockTime = hdr_Time (ctx_BlockHeader ctx) in
     bnd (if wrap64 (InflationLastTime pool + blockTime) \<ge> 3600
          then
            let pool = pool\<lparr>InflationLastTime := blockTime\<rparr>
            in ProcessProvisions S
          else ret pool) (\<lambda>pool.
     bnd (SetPool S pool) (\<lambda>_.
     bnd (SetIntraTxCounter S 0) (\<lambda>_.
     bnd (GetTendermintUpdates S) (\<lambda>ValidatorUpdates.
     bnd (ClearTendermintUpdates S) (\<lambda>_.
     ret ValidatorUpdates))))))"

section \<open>The handler\<close>

definition handleMsgCreateValidator ::
  "auth_env \<Rightarrow> stake_env \<Rightarrow> Context \<Rightarrow> MsgCreateValidator \<Rightarrow> (world, Result) M" where
  "handleMsgCreateValidator E S ctx msg =
     bnd (GetValidator S (raw (mcv_ValidatorAddr msg))) (\<lambda>v.
     if v \<noteq> None then ret (Error_Result (ErrValidatorAlreadyExists (sk_codespace S)))
     else
       bnd (GetParams S) (\<lambda>params.
       if Denom (mcv_SelfDelegation msg) \<noteq> BondDenom params then ret (Error_Result (ErrBadDenom (sk_codespace S)))
       else
         let validator = NewValidator (raw (mcv_ValidatorAddr msg)) (mcv_PubKey msg) (mcv_Description msg) in
         bnd (SetValidator S validator) (\<lambda>_.
         bnd (SetValidatorByPubKeyIndex S validator) (\<lambda>_.
         bnd (keeper_Delegate E S ctx (raw (mcv_ValidatorAddr msg)) (mcv_SelfDelegation msg) validator) (\<lambda>r. case r of
           Inl err \<Rightarrow> ret (Error_Result err)
         | Inr _ \<Rightarrow>
             bnd (lift (NewTags
               [TagString ''action'', TagBytes ''create-validator'',
                TagString ''destination-validator'', TagBytes (ae_addrString E (raw (mcv_ValidatorAddr msg))),
                TagString ''moniker'', TagBytes (Moniker (mcv_Description msg)),
                TagString ''Identity'', TagBytes (Identity (mcv_Description msg))])) (\<lambda>tags.
             ret (emptyResult\<lparr>res_Tags := tags\<rparr>)))))))"

definition handleMsgEditValidator ::
  "auth_env \<Rightarrow> stake_env \<Rightarrow> Context \<Rightarrow> MsgEditValidator \<Rightarrow> (world, Result) M" where
  "handleMsgEditValidator E S ctx msg =
     bnd (GetValidator S (raw (mev_ValidatorAddr msg))) (\<lambda>v. case v of
       None \<Rightarrow> ret (Error_Result (ErrNoValidatorFound (sk_codespace S)))
     | Some validator \<Rightarrow>
         (case UpdateDescription (val_Description validator) (mev_Description msg) of
           Inl err \<Rightarrow> ret (Error_Result err)
         | Inr description \<Rightarrow>
             bnd (UpdateValidator S ctx (validator\<lparr>val_Description := description\<rparr>)) (\<lambda>_.
             bnd (lift (NewTags
               [TagString ''action'', TagBytes ''edit-validator'',
                TagString ''destination-validator'', TagBytes (ae_addrString E (raw (mev_ValidatorAddr msg))),
                TagString ''moniker'', TagBytes (Moniker description),
                TagString ''Identity'', TagBytes (Identity description)])) (\<lambda>tags.
             ret (emptyResult\<lparr>res_Tags := tags\<rparr>)))))"

definition handleMsgDelegate :: "auth_env \<Rightarrow> stake_env \<Rightarrow> Context \<Rightarrow> MsgDelegate \<Rightarrow> (world, Result) M" where
  "handleMsgDelegate E S ctx msg =
     bnd (GetValidator S (raw (md_ValidatorAddr msg))) (\<lambda>v. case v of
       None \<Rightarrow> ret (Error_Result (ErrNoValidatorFound (sk_codespace S)))
     | Some validator \<Rightarrow>
         bnd (GetParams S) (\<lambda>params.
         if Denom (md_Bond msg) \<noteq> BondDenom params then ret (Error_Result (ErrBadDenom (sk_codespace S)))
         else if Revoked validator then ret (Error_Result (ErrValidatorRevoked (sk_codespace S)))
         else
           bnd (keeper_Delegate E S ctx (raw (md_DelegatorAddr msg)) (md_Bond msg) validator) (\<lambda>r. case r of
             Inl err \<Rightarrow> ret (Error_Result err)
           | Inr _ \<Rightarrow>
               bnd (lift (NewTags
                 [TagString ''action'', TagBytes ''delegate'',
                  TagString ''delegator'', TagBytes (ae_addrString E (raw (md_DelegatorAddr msg))),
                  TagString ''destination-validator'', TagBytes (ae_addrString E (raw (md_ValidatorAddr msg)))])) (\<lambda>tags.
               ret (emptyResult\<lparr>res_Tags := tags\<rparr>)))))"

definition handleMsgBeginUnbonding :: "auth_env \<Rightarrow> stake_env \<Rightarrow> Context \<Rightarrow> MsgBeginUnbonding \<Rightarrow> (world, Result) M" where
  "handleMsgBeginUnbonding E S ctx msg =
     bnd (keeper_BeginUnbonding S ctx (raw (mbu_DelegatorAddr msg)) (raw (mbu_ValidatorAddr msg)) (mbu_SharesAmount msg)) (\<lambda>r. case r of
       Some err \<Rightarrow> ret (Error_Result err)
     | None \<Rightarrow>
         bnd (lift (NewTags
           [TagString ''action'', TagBytes ''begin-unbonding'',
            TagString ''delegator'', TagBytes (ae_addrString E (raw (mbu_DelegatorAddr msg))),
            TagString ''source-validator'', TagBytes (ae_addrString E (raw (mbu_ValidatorAddr msg)))])) (\<lambda>tags.
         ret (emptyResult\<lparr>res_Tags := tags\<rparr>)))"

definition handleMsgCompleteUnbonding :: "auth_env \<Rightarrow> stake_env \<Rightarrow> Context \<Rightarrow> MsgCompleteUnbonding \<Rightarrow> (world, Result) M" where
  "handleMsgCompleteUnbonding E S ctx msg =
     bnd (keeper_CompleteUnbonding E S ctx (raw (mcu_DelegatorAddr msg)) (raw (mcu_ValidatorAddr msg))) (\<lambda>r. case r of
       Some err \<Rightarrow> ret (Error_Result err)
     | None \<Rightarrow>
         bnd (lift (NewTags
           [TagString ''action'', TagBytes ''complete-unbonding'',
            TagString ''delegator'', TagBytes (ae_addrString E (raw (mcu_DelegatorAddr msg))),
            TagString ''source-validator'', TagBytes (ae_addrString E (raw (mcu_ValidatorAddr msg)))])) (\<lambda>tags.
         ret (emptyResult\<lparr>res_Tags := tags\<rparr>)))"

definition handleMsgBeginRedelegate :: "auth_env \<Rightarrow> stake_env \<Rightarrow> Context \<Rightarrow> MsgBeginRedelegate \<Rightarrow> (world, Result) M" where
  "handleMsgBeginRedelegate E S ctx msg =
     bnd (BeginRedelegation E S ctx (raw (mbr_DelegatorAddr msg)) (raw (mbr_ValidatorSrcAddr msg))
            (raw (mbr_ValidatorDstAddr msg)) (mbr_SharesAmount msg)) (\<lambda>r. case r of
       Some err \<Rightarrow> ret (Error_Result err)
     | None \<Rightarrow>
         bnd (lift (NewTags
           [TagString ''action'', TagBytes ''begin-redelegation'',
            TagString ''delegator'', TagBytes (ae_addrString E (raw (mbr_DelegatorAddr msg))),
            TagString ''source-validator'', TagBytes (ae_addrString E (raw (mbr_ValidatorSrcAddr msg))),
            TagString ''destination-validator'', TagBytes (ae_addrString E (raw (mbr_ValidatorDstAddr msg)))])) (\<lambda>tags.
         ret (emptyResult\<lparr>res_Tags := tags\<rparr>)))"

definition handleMsgCompleteRedelegate :: "auth_env \<Rightarrow> stake_env \<Rightarrow> Context \<Rightarrow> MsgCompleteRedelegate \<Rightarrow> (world, Result) M" where
  "handleMsgCompleteRedelegate E S ctx msg =
     bnd (CompleteRedelegation S ctx (raw (mcr_DelegatorAddr msg)) (raw (mcr_ValidatorSrcAddr msg)) (raw (mcr_ValidatorDstAddr msg))) (\<lambda>r. case r of
       Some err \<Rightarrow> ret (Error_Result err)
     | None \<Rightarrow>
         bnd (lift (NewTags
           [TagString ''action'', TagBytes ''complete-redelegation'',
            TagString ''delegator'', TagBytes (ae_addrString E (raw (mcr_DelegatorAddr msg))),
            TagString ''source-validator'', TagBytes (ae_addrString E (raw (mcr_ValidatorSrcAddr msg))),
            TagString ''destination-validator'', TagBytes (ae_addrString E (raw (mcr_ValidatorDstAddr msg)))])) (\<lambda>tags.
         ret (emptyResult\<lparr>res_Tags := tags\<rparr>)))"

definition stake_NewHandler :: "auth_env \<Rightarrow> stake_env \<Rightarrow> Context \<Rightarrow> stake_msg option \<Rightarrow> (world, Result) M" where
  "stake_NewHandler E S ctx msg = (case msg of
     None \<Rightarrow> ret (Error_Result ErrTxDecode)
   | Some (CreateValidator m) \<Rightarrow> handleMsgCreateValidator E S ctx m
   | Some (EditValidator m) \<Rightarrow> handleMsgEditValidator E S ctx m
   | Some (Delegate m) \<Rightarrow> handleMsgDelegate E S ctx m
   | Some (BeginRedelegate m) \<Rightarrow> handleMsgBeginRedelegate E S ctx m
   | Some (CompleteRedelegate m) \<Rightarrow> handleMsgCompleteRedelegate E S ctx m
   | Some (BeginUnbonding m) \<Rightarrow> handleMsgBeginUnbonding E S ctx m
   | Some (CompleteUnbonding m) \<Rightarrow> handleMsgCompleteUnbonding E S ctx m)"

end
