(* ===== verification/Frames.thy ===== *)
theory Frames
  imports Invariants StakeKeeper
begin

text \<open>
  Which stores an operation can change, whatever its outcome: the keepers of a module reach only
  the stores whose keys they hold.  The rules follow the structure of a program; the operations of
  the staking keeper that other modules call are shown to stay within the staking store.
\<close>

named_theorems confined_rules "which stores an operation can change, one rule per construct and operation"

definition same_but :: "string set \<Rightarrow> world \<Rightarrow> world \<Rightarrow> bool" where
  "same_but A w t \<longleftrightarrow> (\<forall>s. s \<notin> A \<longrightarrow> w_stores t s = w_stores w s)"

definition confined :: "string set \<Rightarrow> (world, 'a) M \<Rightarrow> bool" where
  "confined A m \<longleftrightarrow> steps (same_but A) m"

lemma same_but_reflp: "reflp (same_but A)" and same_but_transp: "transp (same_but A)"
  by (auto simp: reflp_def transp_def same_but_def)

lemma confinedD: "confined A m \<Longrightarrow> m w = (r, t) \<Longrightarrow> s \<notin> A \<Longrightarrow> w_stores t s = w_stores w s"
  unfolding confined_def using stepsD by (fastforce simp: same_but_def)

lemma confined_mono: "confined A m \<Longrightarrow> A \<subseteq> B \<Longrightarrow> confined B m"
  by (auto simp: confined_def steps_def same_but_def)

lemma confined_basic [confined_rules]:
  "confined A (ret x)" "confined A (panicM p)" "confined A (lift y)" "confined A (must z)"
  by (auto simp: confined_def must_def intro: steps_ret steps_panicM steps_lift same_but_reflp split: option.splits)

lemma confined_bnd [confined_rules]: "confined A m \<Longrightarrow> (\<And>x. confined A (f x)) \<Longrightarrow> confined A (bnd m f)"
  unfolding confined_def by (rule steps_bnd [OF same_but_transp])

lemma confined_iterM [confined_rules]: "(\<And>x. confined A (f x)) \<Longrightarrow> confined A (iterM xs f)"
  unfolding confined_def by (rule steps_iterM [OF same_but_reflp same_but_transp])

lemma confined_foldM [confined_rules]: "(\<And>b x. confined A (f b x)) \<Longrightarrow> confined A (foldM f b xs)"
  unfolding confined_def by (rule steps_foldM [OF same_but_reflp same_but_transp])

lemma confined_branches [confined_rules]:
  "confined A m \<Longrightarrow> confined A n \<Longrightarrow> confined A (if b then m else n)"
  "confined A m \<Longrightarrow> (\<And>y. confined A (f y)) \<Longrightarrow> confined A (case_option m f x)"
  "(\<And>y. confined A (g y)) \<Longrightarrow> (\<And>y. confined A (h y)) \<Longrightarrow> confined A (case_sum g h u)"
  "(\<And>a b. confined A (k a b)) \<Longrightarrow> confined A (case_prod k z)"
  "(\<And>y. confined A (f y)) \<Longrightarrow> confined A (Let v f)"
  by (simp_all split: option.splits sum.splits prod.splits)

lemma confined_consume [confined_rules]: "confined A (consume n d)" "confined A (ctx_ConsumeGas n d)" "confined A (WithGasMeter g)"
  by (auto simp: confined_def steps_def same_but_def consume_def ctx_ConsumeGas_def WithGasMeter_def split: prod.splits)

lemma confined_store: "confined A (get_store s)" "s \<in> A \<Longrightarrow> confined A (put_store s m)"
  by (auto simp: confined_def steps_def same_but_def get_store_def put_store_def)

lemma confined_gas [confined_rules]:
  "confined A (gas_Get s k)" "confined A (gas_Has s k)" "confined A (gas_iter_Key it)" "confined A (gas_iter_Value it)"
  "confined A (KVStorePrefixIterator s k)" "confined A (KVStoreReversePrefixIterator s k)"
  "s \<in> A \<Longrightarrow> confined A (gas_Set s k v)" "s \<in> A \<Longrightarrow> confined A (gas_Delete s k)"
  unfolding gas_Get_def gas_Has_def gas_iter_Key_def gas_iter_Value_def KVStorePrefixIterator_def
    KVStoreReversePrefixIterator_def gas_iterator_def gas_Set_def gas_Delete_def
  by (intro confined_rules confined_store; assumption)+

section \<open>The staking keeper\<close>

lemmas stake_confined_defs = GetParams_def GetPool_def SetPool_def SetIntraTxCounter_def GetIntraTxCounter_def GetValidator_def
  GetValidatorByPubKey_def SetValidator_def SetValidatorByPubKeyIndex_def get_val_or_panic_def getCliffValidator_def
  getCliffValidatorPower_def clearCliffValidator_def setCliffValidator_def GetDelegation_def SetDelegation_def RemoveDelegation_def
  SetUnbondingDelegation_def SetRedelegation_def bondValidator_def unbondValidator_def end_of_ranking_def
  GetUnbondingDelegationsFromValidator_def GetRedelegationsFromValidator_def

lemma confined_stake_loops [confined_rules]:
  "confined A (decode_all dec its)" "confined A (decode_indexed s dec' its)"
  by (induction its) (auto intro!: confined_rules)

lemma confined_stake_basic [confined_rules]:
  assumes "sk_key S \<in> A"
  shows "confined A (GetParams S)" "confined A (GetPool S)" "confined A (SetPool S p)" "confined A (SetIntraTxCounter S c)"
    "confined A (GetIntraTxCounter S)" "confined A (GetValidator S a)" "confined A (GetValidatorByPubKey S k)"
    "confined A (get_val_or_panic S a)" "confined A (getCliffValidator S)" "confined A (getCliffValidatorPower S)"
    "confined A (clearCliffValidator S)" "confined A (GetDelegation S a b)" "confined A (SetDelegation S d)"
    "confined A (RemoveDelegation S d)" "confined A (SetUnbondingDelegation S u)" "confined A (SetRedelegation S r)"
    "confined A (bondValidator S v)" "confined A (unbondValidator S v)" "confined A (end_of_ranking S params count v)"
    "confined A (GetUnbondingDelegationsFromValidator S a)" "confined A (GetRedelegationsFromValidator S a)"
  unfolding stake_confined_defs by (intro confined_rules assms)+

lemma confined_ubv_loop [confined_rules]:
  "sk_key S \<in> A \<Longrightarrow> confined A (ubv_loop S params new its count v kick u)"
  by (induction its arbitrary: count v kick u) (auto intro!: confined_rules split: if_splits)

lemma confined_UpdateValidator [confined_rules]:
  assumes "sk_key S \<in> A"
  shows "confined A (UpdateBondedValidators S v)" "confined A (UpdateValidator S ctx v)"
proof -
  show "confined A (UpdateBondedValidators S v)" for v
    unfolding UpdateBondedValidators_def by (intro confined_rules assms)
  then show "confined A (UpdateValidator S ctx v)"
    unfolding UpdateValidator_def Let_def by (intro confined_rules assms)
qed

lemma confined_unbond [confined_rules]:
  assumes "sk_key S \<in> A"
  shows "confined A (RemoveValidator S a)" "confined A (unbond S ctx d b sh)" "confined A (keeper_Validator S a)"
    "confined A (TotalPower S)"
proof -
  show remove: "confined A (RemoveValidator S a)" for a
    unfolding RemoveValidator_def by (intro confined_rules assms)
  show "confined A (unbond S ctx d b sh)"
    unfolding unbond_def Let_def by (intro confined_rules remove assms)
qed (simp_all add: keeper_Validator_def TotalPower_def confined_rules assms)

lemma confined_slashes [confined_rules]:
  assumes "sk_key S \<in> A"
  shows "confined A (slashUnbondingDelegation S ctx u h f)" "confined A (slashRedelegation S ctx r h f)"
    "confined A (less_slashed n m)"
  unfolding slashUnbondingDelegation_def slashRedelegation_def less_slashed_def
  by (intro confined_rules assms)+

lemma confined_slash_loops [confined_rules]:
  "sk_key S \<in> A \<Longrightarrow> confined A (slash_ubds S ctx h f us n)" "sk_key S \<in> A \<Longrightarrow> confined A (slash_reds S ctx h f rs n)"
  by (induction us arbitrary: n) (auto intro!: confined_rules, induction rs arbitrary: n, auto intro!: confined_rules)

lemma confined_Slash [confined_rules]:
  assumes "sk_key S \<in> A"
  shows "confined A (Slash S ctx pk h vp f)" "confined A (Revoke S ctx pk)" "confined A (Unrevoke S ctx pk)"
  unfolding Slash_def Revoke_def Unrevoke_def setRevoked_def by (intro confined_rules assms)+

end
