(* ===== verification/StakeViews.thy ===== *)
theory StakeViews
  imports StakeKeeper Invariants
begin

text \<open>
  Views of the staking store, and how the operations of the keeper change them: a value computed
  from the pool is kept by everything that maintains the validator set as soon as a validator's
  change of status keeps it.
\<close>

section \<open>Views of the store\<close>

definition stored_pool :: "stake_env \<Rightarrow> world \<Rightarrow> Pool option" where
  "stored_pool S w = Option.bind (kv_Get (w_stores w (sk_key S)) PoolKey) (sk_decPool S)"

definition stored_params :: "stake_env \<Rightarrow> world \<Rightarrow> Params option" where
  "stored_params S w = Option.bind (kv_Get (w_stores w (sk_key S)) ParamKey) (sk_decParams S)"

definition stored_val :: "stake_env \<Rightarrow> world \<Rightarrow> bytes \<Rightarrow> Validator option" where
  "stored_val S w a = Option.bind (kv_Get (w_stores w (sk_key S)) (GetValidatorKey a)) (sk_decVal S)"

definition stored_del :: "stake_env \<Rightarrow> world \<Rightarrow> bytes \<Rightarrow> bytes \<Rightarrow> Delegation option" where
  "stored_del S w d v = Option.bind (kv_Get (w_stores w (sk_key S)) (GetDelegationKey S d v)) (sk_decDel S)"

definition stored_ubd :: "stake_env \<Rightarrow> world \<Rightarrow> bytes \<Rightarrow> bytes \<Rightarrow> UnbondingDelegation option" where
  "stored_ubd S w d v = Option.bind (kv_Get (w_stores w (sk_key S)) (GetUBDKey S d v)) (sk_decUBD S)"

definition stored_red :: "stake_env \<Rightarrow> world \<Rightarrow> bytes \<Rightarrow> bytes \<Rightarrow> bytes \<Rightarrow> Redelegation option" where
  "stored_red S w d a b = Option.bind (kv_Get (w_stores w (sk_key S)) (GetREDKey S d a b)) (sk_decRED S)"

text \<open>Delegations are stored under the address of their delegator.\<close>

definition dels_ok :: "stake_env \<Rightarrow> world \<Rightarrow> bool" where
  "dels_ok S w \<longleftrightarrow> (\<forall>d v del. stored_del S w d v = Some del \<longrightarrow> del_DelegatorAddr del = d)"

text \<open>
  Decoding undoes encoding, and an address is encoded with its length, which the library of the
  codec documents.
\<close>

locale stake_codec =
  fixes S :: stake_env
  assumes dec_params: "sk_decParams S (sk_encParams S params) = Some params"
    and dec_pool: "sk_decPool S (sk_encPool S pool) = Some pool"
    and dec_val: "sk_decVal S (sk_encVal S val) = Some val"
    and dec_wrsp: "sk_decWRSP S (sk_encWRSP S upd) = Some upd"
    and dec_del: "sk_decDel S (sk_encDel S del) = Some del"
    and dec_ubd: "sk_decUBD S (sk_encUBD S ubd) = Some ubd"
    and dec_red: "sk_decRED S (sk_encRED S red) = Some red"
    and dec_int16: "- (2 ^ 15) \<le> c \<Longrightarrow> c < 2 ^ 15 \<Longrightarrow> sk_decInt16 S (sk_encInt16 S c) = Some c"
    and enc_addr: "sk_encAddr S a @ x = sk_encAddr S b @ y \<Longrightarrow> a = b \<and> x = y"

text \<open>The record of the pool is under a key of its own.\<close>

lemma not_PoolKey:
  "ParamKey \<noteq> PoolKey" "GetValidatorKey a \<noteq> PoolKey" "GetValidatorByPubKeyIndexKey S k \<noteq> PoolKey"
  "GetValidatorsBondedIndexKey a \<noteq> PoolKey" "ValidatorCliffIndexKey \<noteq> PoolKey" "ValidatorPowerCliffKey \<noteq> PoolKey"
  "GetTendermintUpdatesKey a \<noteq> PoolKey" "IntraTxCounterKey \<noteq> PoolKey" "GetDelegationKey S a b \<noteq> PoolKey"
  "GetUBDKey S a b \<noteq> PoolKey" "GetUBDByValIndexKey S a b \<noteq> PoolKey" "GetREDKey S a b c \<noteq> PoolKey"
  "GetREDByValSrcIndexKey S a b c \<noteq> PoolKey" "GetREDByValDstIndexKey S a b c \<noteq> PoolKey"
  by (simp_all add: stake_key_defs GetValidatorKey_def GetValidatorByPubKeyIndexKey_def GetValidatorsBondedIndexKey_def
      GetTendermintUpdatesKey_def GetDelegationKey_def GetDelegationsKey_def GetUBDKey_def GetUBDsKey_def
      GetUBDByValIndexKey_def GetUBDsByValIndexKey_def GetREDKey_def GetREDsKey_def GetREDByValSrcIndexKey_def
      GetREDsFromValSrcIndexKey_def GetREDByValDstIndexKey_def GetREDsToValDstIndexKey_def)

lemma not_DelegationKey:
  "ParamKey \<noteq> GetDelegationKey S d e" "GetValidatorKey a \<noteq> GetDelegationKey S d e"
  "GetValidatorByPubKeyIndexKey S' k \<noteq> GetDelegationKey S d e" "GetValidatorsBondedIndexKey a \<noteq> GetDelegationKey S d e"
  "ValidatorCliffIndexKey \<noteq> GetDelegationKey S d e" "ValidatorPowerCliffKey \<noteq> GetDelegationKey S d e"
  "GetTendermintUpdatesKey a \<noteq> GetDelegationKey S d e" "IntraTxCounterKey \<noteq> GetDelegationKey S d e"
  "PoolKey \<noteq> GetDelegationKey S d e"
  "GetUBDKey S' a b \<noteq> GetDelegationKey S d e" "GetUBDByValIndexKey S' a b \<noteq> GetDelegationKey S d e"
  "GetREDKey S' a b c \<noteq> GetDelegationKey S d e" "GetREDByValSrcIndexKey S' a b c \<noteq> GetDelegationKey S d e"
  "GetREDByValDstIndexKey S' a b c \<noteq> GetDelegationKey S d e"
  by (simp_all add: stake_key_defs GetValidatorKey_def GetValidatorByPubKeyIndexKey_def GetValidatorsBondedIndexKey_def
      GetTendermintUpdatesKey_def GetDelegationKey_def GetDelegationsKey_def GetUBDKey_def GetUBDsKey_def
      GetUBDByValIndexKey_def GetUBDsByValIndexKey_def GetREDKey_def GetREDsKey_def GetREDByValSrcIndexKey_def
      GetREDsFromValSrcIndexKey_def GetREDByValDstIndexKey_def GetREDsToValDstIndexKey_def)

lemma power_key_other:
  "GetValidatorsByPowerIndexKey v p = Val k \<Longrightarrow> k \<noteq> PoolKey"
  "GetValidatorsByPowerIndexKey v p = Val k \<Longrightarrow> k \<noteq> GetDelegationKey S d e"
  by (auto simp: GetValidatorsByPowerIndexKey_def GetValidatorPowerRank_def Let_def obind_Val_iff stake_key_defs
      GetDelegationKey_def GetDelegationsKey_def)

lemma reads_stake [reads_rules]:
  "reads (GetParams S)" "reads (GetPool S)" "reads (GetIntraTxCounter S)" "reads (GetValidator S a)"
  "reads (GetValidatorByPubKey S k)" "reads (get_val_or_panic S a)" "reads (GetDelegation S a b)"
  "reads (getCliffValidator S)" "reads (getCliffValidatorPower S)" "reads (GetUnbondingDelegation S a b)"
  "reads (GetRedelegation S a b c)" "reads (HasReceivingRedelegation S a b)"
  unfolding GetParams_def GetPool_def GetIntraTxCounter_def GetValidator_def GetValidatorByPubKey_def get_val_or_panic_def
    GetDelegation_def getCliffValidator_def getCliffValidatorPower_def GetUnbondingDelegation_def GetRedelegation_def
    HasReceivingRedelegation_def
  by (intro reads_rules)+

lemma reads_loops [reads_rules]:
  "reads (decode_all dec its)" "reads (decode_indexed st dec' its)" "reads (values_loop its)"
  by (induction its) (auto intro!: reads_rules)

section \<open>A view of the pool that changes of status keep\<close>

text \<open>
  A value computed from the pool.  Only \<open>SetPool\<close> changes it, the keeper touches no other store
  than its own, and delegations stay under the address of their delegator.
\<close>

definition pool_view_is :: "stake_env \<Rightarrow> (Pool \<Rightarrow> 'v) \<Rightarrow> (string \<Rightarrow> kvmap) \<Rightarrow> 'v \<Rightarrow> world \<Rightarrow> bool" where
  "pool_view_is S g st n w \<longleftrightarrow>
     (\<exists>p. stored_pool S w = Some p \<and> g p = n) \<and> (\<forall>s. s \<noteq> sk_key S \<longrightarrow> w_stores w s = st s) \<and> dels_ok S w"

locale pool_fun = stake_codec S for S :: stake_env +
  fixes g :: "Pool \<Rightarrow> 'v"
begin

abbreviation I :: "(string \<Rightarrow> kvmap) \<Rightarrow> 'v \<Rightarrow> world \<Rightarrow> bool" where
  "I \<equiv> pool_view_is S g"

lemmas I_def = pool_view_is_def [of S g]

lemma I_start: "stored_pool S w = Some p \<Longrightarrow> dels_ok S w \<Longrightarrow> I (w_stores w) (g p) w"
  by (simp add: I_def)

lemma I_cong: "w_stores v = w_stores w \<Longrightarrow> I st n w \<Longrightarrow> I st n v"
  by (simp add: I_def stored_pool_def dels_ok_def stored_del_def)

lemma I_reads: "reads m \<Longrightarrow> holds (I st n) m (\<lambda>_. True)"
  by (rule holds_reads) (auto intro: I_cong)

lemma I_Set:
  assumes "k \<noteq> PoolKey" and "\<And>d e. k \<noteq> GetDelegationKey S d e"
  shows "holds (I st n) (gas_Set (sk_key S) k v) (\<lambda>_. True)"
  using assms(1) assms(2) [symmetric]
  by (intro holdsI) (auto simp: I_def stored_pool_def dels_ok_def stored_del_def dest!: gas_Set_Val)

lemma I_Delete: "k \<noteq> PoolKey \<Longrightarrow> holds (I st n) (gas_Delete (sk_key S) k) (\<lambda>_. True)"
  by (rule holdsI)
    (auto simp: I_def stored_pool_def dels_ok_def stored_del_def gas_Delete_run split: if_splits)

lemma I_GetPool: "holds (I st n) (GetPool S) (\<lambda>p. g p = n)"
proof (rule holdsI)
  fix w r t assume "I st n w" and "GetPool S w = (Val r, t)"
  then have "w_stores t = w_stores w" and "stored_pool S w = Some r"
    by (auto simp: GetPool_def stored_pool_def run_iffs dest!: gas_Get_Val)
  then show "I st n t \<and> g r = n" using \<open>I st n w\<close> I_cong [of t w] by (auto simp: I_def)
qed

lemma I_SetPool: "g p = n \<Longrightarrow> holds (I st n) (SetPool S p) (\<lambda>_. True)"
  by (rule holdsI)
    (auto simp: I_def stored_pool_def SetPool_def dec_pool dels_ok_def stored_del_def not_PoolKey dest!: gas_Set_Val)

lemma GetDelegationKey_inj: "GetDelegationKey S a b = GetDelegationKey S c d \<Longrightarrow> a = c \<and> b = d"
  by (auto simp: GetDelegationKey_def GetDelegationsKey_def stake_key_defs dest: enc_addr)

lemma I_SetDelegation: "holds (I st n) (SetDelegation S d) (\<lambda>_. True)"
proof (rule holdsI, rule conjI)
  fix w r t assume w: "I st n w" and "SetDelegation S d w = (Val r, t)"
  then have t: "w_stores t = (w_stores w)(sk_key S := kv_Set (w_stores w (sk_key S))
      (GetDelegationKey S (del_DelegatorAddr d) (del_ValidatorAddr d)) (sk_encDel S d))"
    by (auto simp: SetDelegation_def dest!: gas_Set_Val)
  have "del_DelegatorAddr del = a" if "stored_del S t a b = Some del" for a b del
    using that w GetDelegationKey_inj [of a b "del_DelegatorAddr d" "del_ValidatorAddr d"]
    by (auto simp: stored_del_def t dec_del I_def dels_ok_def split: if_splits)
  then show "I st n t" using w not_DelegationKey(9)
    by (auto simp: I_def stored_pool_def dels_ok_def t not_PoolKey)
qed simp

lemmas I_writes = I_Set [OF not_PoolKey(1) not_DelegationKey(1)] I_Set [OF not_PoolKey(2) not_DelegationKey(2)]
  I_Set [OF not_PoolKey(3) not_DelegationKey(3)] I_Set [OF not_PoolKey(4) not_DelegationKey(4)]
  I_Set [OF not_PoolKey(5) not_DelegationKey(5)] I_Set [OF not_PoolKey(6) not_DelegationKey(6)]
  I_Set [OF not_PoolKey(7) not_DelegationKey(7)] I_Set [OF not_PoolKey(8) not_DelegationKey(8)]
  I_Set [OF not_PoolKey(10) not_DelegationKey(10)] I_Set [OF not_PoolKey(11) not_DelegationKey(11)]
  I_Set [OF not_PoolKey(12) not_DelegationKey(12)] I_Set [OF not_PoolKey(13) not_DelegationKey(13)]
  I_Set [OF not_PoolKey(14) not_DelegationKey(14)]
  I_Delete [OF not_PoolKey(2)] I_Delete [OF not_PoolKey(3)] I_Delete [OF not_PoolKey(4)] I_Delete [OF not_PoolKey(5)]
  I_Delete [OF not_PoolKey(6)] I_Delete [OF not_PoolKey(9)] I_Delete [OF not_PoolKey(10)] I_Delete [OF not_PoolKey(11)]
  I_Delete [OF not_PoolKey(12)] I_Delete [OF not_PoolKey(13)] I_Delete [OF not_PoolKey(14)]

lemma I_power_key:
  "GetValidatorsByPowerIndexKey v p = Val k \<Longrightarrow> holds (I st n) (gas_Set (sk_key S) k x) (\<lambda>_. True)"
  "GetValidatorsByPowerIndexKey v p = Val k \<Longrightarrow> holds (I st n) (gas_Delete (sk_key S) k) (\<lambda>_. True)"
  by (simp_all add: I_Set I_Delete power_key_other)

lemma I_bnd_reads:
  "reads m \<Longrightarrow> (\<And>x. holds (I st n) (f x) R) \<Longrightarrow> holds (I st n) (bnd m f) R"
  using holds_bnd [OF I_reads] by blast

lemma I_bnd_write:
  "holds (I st n) m (\<lambda>_. True) \<Longrightarrow> (\<And>x. holds (I st n) (f x) R) \<Longrightarrow> holds (I st n) (bnd m f) R"
  using holds_bnd by blast

lemma I_counter: "holds (I st n) (SetIntraTxCounter S c) (\<lambda>_. True)" "holds (I st n) (clearCliffValidator S) (\<lambda>_. True)"
  unfolding SetIntraTxCounter_def clearCliffValidator_def by (intro I_bnd_write I_writes)+

lemma I_delegations:
  "holds (I st n) (RemoveDelegation S d) (\<lambda>_. True)"
  "holds (I st n) (SetUnbondingDelegation S u) (\<lambda>_. True)" "holds (I st n) (RemoveUnbondingDelegation S u) (\<lambda>_. True)"
  "holds (I st n) (SetRedelegation S r) (\<lambda>_. True)" "holds (I st n) (RemoveRedelegation S r) (\<lambda>_. True)"
  "holds (I st n) (SetValidator S v) (\<lambda>_. True)" "holds (I st n) (SetValidatorByPubKeyIndex S v) (\<lambda>_. True)"
  unfolding RemoveDelegation_def SetUnbondingDelegation_def RemoveUnbondingDelegation_def
    SetRedelegation_def RemoveRedelegation_def SetValidator_def SetValidatorByPubKeyIndex_def Let_def
  by (intro I_bnd_write I_writes)+

end

text \<open>
  A value that a validator's change of status does not change: nothing in the maintenance of
  the validator set changes it.
\<close>

locale pool_view = pool_fun S g for S :: stake_env and g :: "Pool \<Rightarrow> 'v" +
  assumes g_status: "UpdateStatus v p s = Val (v', p') \<Longrightarrow> g p' = g p"
begin

lemma I_unbondValidator: "holds (I st n) (unbondValidator S v) (\<lambda>_. True)"
  unfolding unbondValidator_def
  by (rule holds_bnd [OF I_GetPool]) (intro holds_rules I_bnd_write I_writes I_SetPool; auto dest: g_status)

lemma I_bondValidator: "holds (I st n) (bondValidator S v) (\<lambda>_. True)"
  unfolding bondValidator_def
  by (rule holds_bnd [OF I_GetPool]) (intro holds_rules I_bnd_write I_writes I_SetPool; auto dest: g_status)

lemma I_end_of_ranking: "holds (I st n) (end_of_ranking S params count v) (\<lambda>_. True)"
  unfolding end_of_ranking_def setCliffValidator_def
  by (intro holds_if holds_ret I_bnd_reads reads_rules holds_bnd_lift I_bnd_write I_writes) simp

lemma I_ubv_loop: "holds (I st n) (ubv_loop S params new its count v kick u) (\<lambda>_. True)"
proof (induction its arbitrary: count v kick u)
  case Nil
  show ?case unfolding ubv_loop.simps by (intro I_bnd_write I_end_of_ranking holds_ret TrueI)
next
  case (Cons it its)
  show ?case unfolding ubv_loop.simps
    by (intro holds_rules I_bnd_reads reads_rules I_bnd_write I_end_of_ranking I_bondValidator Cons.IH TrueI)
qed

lemma I_UpdateBondedValidators: "holds (I st n) (UpdateBondedValidators S v) (\<lambda>_. True)"
  unfolding UpdateBondedValidators_def
  by (intro holds_rules I_bnd_reads reads_rules I_bnd_write I_ubv_loop I_unbondValidator TrueI)

lemma I_UpdateValidator: "holds (I st n) (UpdateValidator S ctx v) (\<lambda>_. True)"
  unfolding UpdateValidator_def Let_def
  by (intro holds_if holds_case_option holds_case_prod holds_ret I_bnd_reads reads_stake holds_bnd_lift I_bnd_write I_writes
      I_power_key I_counter I_UpdateBondedValidators I_unbondValidator TrueI; assumption)

lemma I_full_loop: "holds (I st n) (full_loop S params its count v kick) (\<lambda>_. True)"
proof (induction its arbitrary: count v kick)
  case Nil
  show ?case unfolding full_loop.simps by (intro I_bnd_write I_end_of_ranking holds_ret TrueI)
next
  case (Cons it its)
  show ?case unfolding full_loop.simps
    by (intro holds_rules I_bnd_reads reads_rules I_bnd_write I_end_of_ranking I_bondValidator Cons.IH TrueI)
qed

lemma I_UpdateBondedValidatorsFull: "holds (I st n) (UpdateBondedValidatorsFull S) (\<lambda>_. True)"
  unfolding UpdateBondedValidatorsFull_def
  by (intro holds_rules I_bnd_reads reads_rules I_bnd_write I_full_loop I_unbondValidator TrueI)

lemma I_RemoveValidator: "holds (I st n) (RemoveValidator S a) (\<lambda>_. True)"
  unfolding RemoveValidator_def
  by (intro holds_if holds_case_option holds_ret I_bnd_reads reads_rules holds_bnd_lift I_bnd_write I_writes I_power_key TrueI;
      assumption)

end

text \<open>The pool itself, its token supply, its loose tokens and the time of the last inflation.\<close>

sublocale stake_codec \<subseteq> pool: pool_fun S "\<lambda>p. p"
  by unfold_locales

lemma UpdateStatus_supply: "UpdateStatus v p s = Val (v', p') \<Longrightarrow> TokenSupply p' = TokenSupply p"
  unfolding UpdateStatus_alt
  by (auto simp: obind_Val_iff split: if_splits dest!: pool_moves_conserve)

lemma UpdateStatus_loose: "UpdateStatus v p s = Val (v', p') \<Longrightarrow> wrap64 (LooseTokens p') = wrap64 (LooseTokens p)"
  unfolding UpdateStatus_alt
  by (auto simp: obind_Val_iff split: if_splits dest!: addTokens_views(3) removeShares_views(3))

sublocale stake_codec \<subseteq> tokens: pool_view S "\<lambda>p. (TokenSupply p, wrap64 (LooseTokens p))"
  by unfold_locales (auto dest: UpdateStatus_supply UpdateStatus_loose)

context stake_codec
begin

lemma SetPool_Val:
  assumes "SetPool S p w = (Val u, t)"
  shows "stored_pool S t = Some p" and "s \<noteq> sk_key S \<Longrightarrow> w_stores t s = w_stores w s" and "dels_ok S t = dels_ok S w"
  using assms by (auto simp: SetPool_def stored_pool_def dec_pool dels_ok_def stored_del_def not_PoolKey dest!: gas_Set_Val)

lemma I_changed:
  assumes "pool.I st p v" and "SetPool S q v = (Val u, t)"
  shows "tokens.I st (TokenSupply q, wrap64 (LooseTokens q)) t"
  using assms SetPool_Val [OF assms(2)] by (auto simp: pool_view_is_def)

lemma tokens_of_pool: "pool.I st p w \<Longrightarrow> tokens.I st (TokenSupply p, wrap64 (LooseTokens p)) w"
  by (auto simp: pool_view_is_def)

end

end
