(* ===== verification/StakeSafety.thy ===== *)
theory StakeSafety
  imports StakeViews Netstring
begin

text \<open>
  What the keeper of \<open>x/stake\<close> guarantees: the tokens that the pool accounts for, the coins it
  takes from and returns to accounts, the records it writes, inflation, and the updates handed to
  the consensus engine at the end of a block.
\<close>

section \<open>Delegating and unbonding\<close>

lemma AddTokensFromDel_tokens:
  assumes "AddTokensFromDel v p n = Val (v', q, shares)"
  shows "TokenSupply q = TokenSupply p" and "wrap64 (LooseTokens q) = wrap64 (LooseTokens p - n)"
  using AddTokensFromDel_Val [OF assms] by (auto dest: addTokens_views(3) pool_moves_conserve(1))

lemma RemoveDelShares_tokens:
  assumes "RemoveDelShares v p shares = Val (v', q, n)"
  shows "TokenSupply q = TokenSupply p" and "wrap64 (LooseTokens q) = wrap64 (LooseTokens p + n)"
  using assms unfolding RemoveDelShares_Val by (auto dest: removeShares_views(3) pool_moves_conserve(2))

context stake_codec
begin

lemmas read_step = triple_bnd_holds [OF pool.I_reads]

lemma SetPool_step:
  "triple (pool.I st p) (SetPool S q) (\<lambda>_. tokens.I st (TokenSupply q, wrap64 (LooseTokens q)))"
  by (rule tripleI) (rule I_changed)

lemma update_step:
  "(\<And>x. triple (tokens.I st n) (f x) Q) \<Longrightarrow> triple (tokens.I st n) (bnd (UpdateValidator S ctx v) f) Q"
  by (rule triple_bnd_holds [OF tokens.I_UpdateValidator])

lemma remove_step:
  "(\<And>x. triple (tokens.I st n) (f x) Q) \<Longrightarrow>
     triple (tokens.I st n) (bnd (if DelegatorShares v = 0 then RemoveValidator S a else ret ()) f) Q"
  by (rule triple_bnd_holds [where Q = "\<lambda>_. True"], intro holds_if tokens.I_RemoveValidator holds_ret TrueI)

lemma unbond_spec:
  "triple (pool.I st p) (unbond S ctx d v shares) (\<lambda>r t. case r of
     Inl err \<Rightarrow> pool.I st p t
   | Inr amount \<Rightarrow> \<exists>val val' q. RemoveDelShares val p shares = Val (val', q, amount)
       \<and> tokens.I st (TokenSupply q, wrap64 (LooseTokens q)) t)"
proof -
  have rest: "triple (pool.I st p) (bnd (GetPool S) (\<lambda>pool.
      bnd (lift (RemoveDelShares val pool shares)) (\<lambda>(val, pool, amount).
      bnd (SetPool S pool) (\<lambda>_.
      bnd (UpdateValidator S ctx val) (\<lambda>val.
      bnd (if DelegatorShares val = 0 then RemoveValidator S (Owner val) else ret ()) (\<lambda>_.
      ret (Inr amount))))))) (\<lambda>r t. case r of
     Inl err \<Rightarrow> pool.I st p t
   | Inr amount \<Rightarrow> \<exists>val val' q. RemoveDelShares val p shares = Val (val', q, amount)
       \<and> tokens.I st (TokenSupply q, wrap64 (LooseTokens q)) t)" (is "triple _ _ ?Q") for val
  proof (rule triple_bnd_holds [OF pool.I_GetPool], rule triple_bnd_lift, rule triple_case_prod, rule triple_case_prod)
    fix po y val' z q amount
    assume "po = p" and "RemoveDelShares val po shares = Val y" and "y = (val', z)" and "z = (q, amount)"
    then have rem: "RemoveDelShares val p shares = Val (val', q, amount)" by simp
    have "triple (tokens.I st (TokenSupply q, wrap64 (LooseTokens q)))
      (bnd (UpdateValidator S ctx val') (\<lambda>val.
       bnd (if DelegatorShares val = 0 then RemoveValidator S (Owner val) else ret ()) (\<lambda>_. ret (Inr amount)))) ?Q"
      using rem by (intro update_step remove_step triple_ret) auto
    then show "triple (pool.I st p) (bnd (SetPool S q) (\<lambda>_. bnd (UpdateValidator S ctx val') (\<lambda>val.
       bnd (if DelegatorShares val = 0 then RemoveValidator S (Owner val) else ret ()) (\<lambda>_. ret (Inr amount))))) ?Q"
      by (rule triple_bnd [OF SetPool_step])
  qed
  have mid: "holds (pool.I st p) (if b then Let x (\<lambda>y. bnd (RemoveDelegation S d1) (\<lambda>_. ret y))
      else bnd (SetDelegation S d2) (\<lambda>_. ret z)) (\<lambda>_. True)" for b x d1 d2 z
    by (intro holds_if holds_Let pool.I_bnd_write pool.I_delegations pool.I_SetDelegation holds_ret TrueI)
  show ?thesis
    unfolding unbond_def
    by (intro read_step reads_stake triple_case_option triple_if triple_Let triple_bnd_holds [OF mid] rest triple_ret) simp_all
qed

lemma GetDelegation_step:
  "(\<And>x. (\<forall>del. x = Some del \<longrightarrow> del_DelegatorAddr del = d) \<Longrightarrow> triple (pool.I st p) (f x) Q) \<Longrightarrow>
     triple (pool.I st p) (bnd (GetDelegation S d v) f) Q"
proof (rule triple_bnd_holds)
  show "holds (pool.I st p) (GetDelegation S d v) (\<lambda>x. \<forall>del. x = Some del \<longrightarrow> del_DelegatorAddr del = d)"
  proof (rule holdsI)
    fix w r t assume w: "pool.I st p w" and run: "GetDelegation S d v w = (Val r, t)"
    then have "w_stores t = w_stores w" and "r = stored_del S w d v \<or> r = None"
      by (auto simp: GetDelegation_def stored_del_def run_iffs dest!: gas_Get_Val)
    then show "pool.I st p t \<and> (\<forall>del. r = Some del \<longrightarrow> del_DelegatorAddr del = d)"
      using w pool.I_cong [of t w] by (auto simp: pool_view_is_def dels_ok_def)
  qed
qed

end

text \<open>The coins of accounts, which a frame \<open>st\<close> of the other stores determines.\<close>

definition accounts :: "auth_env \<Rightarrow> (string \<Rightarrow> kvmap) \<Rightarrow> (bytes \<Rightarrow> string \<Rightarrow> int) \<Rightarrow> (string \<Rightarrow> int) \<Rightarrow> bool" where
  "accounts E st b c \<longleftrightarrow> (\<forall>w. w_stores w (ae_accKey E) = st (ae_accKey E) \<longrightarrow>
     bank_ok E w \<and> balance E w = b \<and> coin_supply E w = c)"

definition credited ::
  "auth_env \<Rightarrow> (string \<Rightarrow> kvmap) \<Rightarrow> (bytes \<Rightarrow> string \<Rightarrow> int) \<Rightarrow> (string \<Rightarrow> int) \<Rightarrow> bytes \<Rightarrow> (string \<Rightarrow> int) \<Rightarrow> (string \<Rightarrow> kvmap) \<Rightarrow> bool" where
  "credited E st b c a x st' \<longleftrightarrow> accounts E st' (b(a := \<lambda>d. b a d + x d)) (\<lambda>d. c d + x d)
     \<and> (\<forall>s. s \<noteq> ae_accKey E \<longrightarrow> st' s = st s)"

lemma accounts_start: "bank_ok E w \<Longrightarrow> accounts E (w_stores w) (balance E w) (coin_supply E w)"
  unfolding accounts_def using coin_views_cong by blast

text \<open>The keeper with the bank keeper that it holds, on stores of their own.\<close>

locale stake_bank = auth_codec E + stake_codec S for E :: auth_env and S :: stake_env +
  assumes keys: "ae_accKey E \<noteq> sk_key S"
begin

lemma accounts_at:
  "pool_view_is S g st n w \<Longrightarrow> accounts E st b c \<Longrightarrow> bank_ok E w \<and> balance E w = b \<and> coin_supply E w = c"
  using keys by (auto simp: pool_view_is_def accounts_def)

lemma subtractCoins_step:
  assumes "accounts E st b c"
  shows "triple (pool.I st p) (subtractCoins E a [coin]) (\<lambda>r t. case r of
    Inl err \<Rightarrow> pool.I st p t
  | Inr _ \<Rightarrow> \<exists>st'. credited E st b c a (\<lambda>d. - amt [coin] d) st' \<and> pool.I st' p t)"
proof (rule tripleI)
  fix w r t assume w: "pool.I st p w" and run: "subtractCoins E a [coin] w = (Val r, t)"
  have ok: "bank_ok E w" "balance E w = b" "coin_supply E w = c" using accounts_at [OF w assms] by auto
  have one: "sorted_denoms [coin]" by simp
  show "case r of Inl err \<Rightarrow> pool.I st p t
    | Inr _ \<Rightarrow> \<exists>st'. credited E st b c a (\<lambda>d. - amt [coin] d) st' \<and> pool.I st' p t"
  proof (cases r)
    case (Inl err)
    then show ?thesis using pool.I_cong [OF bank.sub_Inl w] run by simp
  next
    case (Inr x)
    note t = bank.sub_Inr [OF run [unfolded Inr] ok(1) one]
    have "credited E st b c a (\<lambda>d. - amt [coin] d) (st(ae_accKey E := w_stores t (ae_accKey E)))"
      using coin_views_cong [of _ E t] t ok by (simp add: credited_def accounts_def)
    moreover have "pool.I (st(ae_accKey E := w_stores t (ae_accKey E))) p t"
      using w t keys by (auto simp: pool_view_is_def stored_pool_def dels_ok_def stored_del_def)
    ultimately show ?thesis unfolding Inr sum.case by blast
  qed
qed

lemma keeper_Delegate_spec:
  assumes "accounts E st b c"
  shows "triple (pool.I st p) (keeper_Delegate E S ctx d coin v) (\<lambda>r t. case r of
    Inl err \<Rightarrow> pool.I st p t
  | Inr shares \<Rightarrow> \<exists>st'. credited E st b c d (\<lambda>x. - amt [coin] x) st' \<and> in_int64 (Amount coin)
      \<and> (\<exists>v' q. AddTokensFromDel v p (Amount coin) = Val (v', q, shares)
          \<and> tokens.I st' (TokenSupply q, wrap64 (LooseTokens q)) t))" (is "triple _ _ ?Q")
proof -
  define rest where "rest del = (\<lambda>(r :: sdkError + Coins \<times> Tags). case r of
       Inl err \<Rightarrow> ret (Inl err)
     | Inr _ \<Rightarrow>
         bnd (lift (Int_Int64 (Amount coin))) (\<lambda>amount.
         bnd (lift (AddTokensFromDel v p amount)) (\<lambda>(validator, pool, newShares).
         let delegation = del\<lparr>del_Shares := del_Shares del + newShares, del_Height := ctx_BlockHeight ctx\<rparr> in
         bnd (SetPool S pool) (\<lambda>_.
         bnd (SetDelegation S delegation) (\<lambda>_.
         bnd (UpdateValidator S ctx validator) (\<lambda>_.
         ret (Inr newShares)))))))" for del :: Delegation
  have rest: "triple (\<lambda>t. case r of Inl err \<Rightarrow> pool.I st p t
      | Inr _ \<Rightarrow> \<exists>st'. credited E st b c d (\<lambda>x. - amt [coin] x) st' \<and> pool.I st' p t) (rest del r) ?Q" for r del
  proof (cases r)
    case (Inl err)
    then show ?thesis by (simp add: rest_def triple_ret)
  next
    case (Inr y)
    show ?thesis unfolding Inr rest_def sum.case Let_def
    proof (rule triple_ex, rule triple_bnd_lift, rule triple_bnd_lift, rule triple_case_prod, rule triple_case_prod)
      fix st' amount x v' z q shares
      assume st': "credited E st b c d (\<lambda>x. - amt [coin] x) st'" and "Int_Int64 (Amount coin) = Val amount"
        and "AddTokensFromDel v p amount = Val x" and "x = (v', z)" and "z = (q, shares)"
      then have add: "in_int64 (Amount coin)" "AddTokensFromDel v p (Amount coin) = Val (v', q, shares)"
        by (auto simp: Int_Int64_def split: if_splits)
      show "triple (pool.I st' p) (bnd (SetPool S q) (\<lambda>_. bnd (SetDelegation S
          (del\<lparr>del_Shares := del_Shares del + shares, del_Height := ctx_BlockHeight ctx\<rparr>)) (\<lambda>_.
          bnd (UpdateValidator S ctx v') (\<lambda>_. ret (Inr shares))))) ?Q"
        using st' add
        by (intro triple_bnd [OF SetPool_step] triple_bnd_holds [OF tokens.I_SetDelegation] update_step triple_ret)
          (simp only: sum.case, blast)
    qed
  qed
  show ?thesis
    unfolding keeper_Delegate_def Let_def
  proof (rule GetDelegation_step, rule triple_bnd_holds [OF pool.I_GetPool], goal_cases)
    case (1 x po)
    define del where "del = (case x of None \<Rightarrow> \<lparr>del_DelegatorAddr = d, del_ValidatorAddr = Owner v, del_Shares = 0, del_Height = 0\<rparr>
      | Some del \<Rightarrow> del)"
    have "del_DelegatorAddr del = d" using 1(1) by (simp add: del_def split: option.splits)
    then show ?case
      using triple_bnd [OF subtractCoins_step [OF assms] rest, of "\<lambda>_. del"]
      unfolding 1(2) del_def [symmetric] rest_def Let_def by simp
  qed
qed

lemma addCoins_step:
  assumes "accounts E st b c"
  shows "triple (pool.I st p) (addCoins E a [coin]) (\<lambda>r t. case r of
    Inl err \<Rightarrow> pool.I st p t
  | Inr _ \<Rightarrow> \<exists>st'. credited E st b c a (amt [coin]) st' \<and> pool.I st' p t)"
proof (rule tripleI)
  fix w r t assume w: "pool.I st p w" and run: "addCoins E a [coin] w = (Val r, t)"
  have ok: "bank_ok E w" "balance E w = b" "coin_supply E w = c" using accounts_at [OF w assms] by auto
  have one: "sorted_denoms [coin]" by simp
  show "case r of Inl err \<Rightarrow> pool.I st p t
    | Inr _ \<Rightarrow> \<exists>st'. credited E st b c a (amt [coin]) st' \<and> pool.I st' p t"
  proof (cases r)
    case (Inl err)
    then show ?thesis using pool.I_cong [OF bank.add_Inl w] run by simp
  next
    case (Inr x)
    note t = bank.add_Inr [OF run [unfolded Inr] ok(1) one]
    have "credited E st b c a (amt [coin]) (st(ae_accKey E := w_stores t (ae_accKey E)))"
      using coin_views_cong [of _ E t] t ok by (simp add: credited_def accounts_def)
    moreover have "pool.I (st(ae_accKey E := w_stores t (ae_accKey E))) p t"
      using w t keys by (auto simp: pool_view_is_def stored_pool_def dels_ok_def stored_del_def)
    ultimately show ?thesis unfolding Inr sum.case by blast
  qed
qed

lemma SetUnbondingDelegation_step:
  "triple (tokens.I st n) (SetUnbondingDelegation S u)
     (\<lambda>_ t. tokens.I st n t \<and> stored_ubd S t (ubd_DelegatorAddr u) (ubd_ValidatorAddr u) = Some u)"
proof (rule tripleI)
  fix w r t assume w: "tokens.I st n w" and run: "SetUnbondingDelegation S u w = (Val r, t)"
  have "stored_ubd S t (ubd_DelegatorAddr u) (ubd_ValidatorAddr u) = Some u"
    using run by (auto simp: SetUnbondingDelegation_def Let_def run_iffs stored_ubd_def dec_ubd GetUBDKey_def GetUBDsKey_def
        GetUBDByValIndexKey_def GetUBDsByValIndexKey_def stake_key_defs dest!: gas_Set_Val)
  then show "tokens.I st n t \<and> stored_ubd S t (ubd_DelegatorAddr u) (ubd_ValidatorAddr u) = Some u"
    using holdsD [OF tokens.I_delegations(2) w run] by simp
qed

lemma keeper_BeginUnbonding_spec:
  "triple (pool.I st p) (keeper_BeginUnbonding S ctx d v shares) (\<lambda>r t. case r of
     Some err \<Rightarrow> pool.I st p t
   | None \<Rightarrow> \<exists>n u. tokens.I st (TokenSupply p, wrap64 (LooseTokens p + n)) t
       \<and> stored_ubd S t d v = Some u \<and> Amount (ubd_Balance u) = n \<and> ubd_InitialBalance u = ubd_Balance u)"
  unfolding keeper_BeginUnbonding_def
proof (rule triple_bnd [OF unbond_spec], rule triple_case_sum, goal_cases)
  case (1 r err)
  then show ?case by (auto intro: triple_ret)
next
  case (2 r n)
  show ?case unfolding 2 sum.case Let_def
  proof (rule triple_pre [where P' = "tokens.I st (TokenSupply p, wrap64 (LooseTokens p + n))"], goal_cases)
    case (1 t)
    then show ?case by (metis RemoveDelShares_tokens)
  next
    case 2
    show ?case
      by (rule triple_bnd_holds [OF tokens.I_reads [OF reads_stake(1)]], rule triple_bnd [OF SetUnbondingDelegation_step],
          rule triple_ret) (auto simp: NewInt_def)
  qed
qed

lemma keeper_CompleteUnbonding_spec:
  assumes "accounts E st b c"
  shows "triple (pool.I st p) (keeper_CompleteUnbonding E S ctx d v) (\<lambda>_ t. \<exists>st'. pool.I st' p t
    \<and> (\<forall>s. s \<noteq> ae_accKey E \<longrightarrow> st' s = st s))" (is "triple _ _ ?Q")
  unfolding keeper_CompleteUnbonding_def Let_def
proof (rule triple_bnd_holds [OF pool.I_reads [OF reads_stake(10)]], rule triple_case_option, blast intro: triple_ret,
    rule triple_if, blast intro: triple_ret, rule triple_bnd [OF addCoins_step [OF assms]], rule triple_case_sum, goal_cases)
  case (1 x u r err)
  then show ?case by (auto intro: triple_ret)
next
  case (2 x u r y)
  show ?case unfolding 2(4) sum.case
    by (rule triple_ex, rule triple_bnd_holds [OF pool.I_delegations(3)], rule triple_ret) (auto simp: credited_def)
qed

lemma keeper_Delegate_from_tokens:
  assumes "accounts E st b c"
  shows "triple (tokens.I st (n, l)) (keeper_Delegate E S ctx d coin v) (\<lambda>r t. case r of
    Inl err \<Rightarrow> tokens.I st (n, l) t
  | Inr shares \<Rightarrow> \<exists>st'. credited E st b c d (\<lambda>x. - amt [coin] x) st'
      \<and> tokens.I st' (n, wrap64 (l - Amount coin)) t)" (is "triple _ _ ?Q")
proof (rule triple_pre)
  show "\<exists>p. (TokenSupply p = n \<and> wrap64 (LooseTokens p) = l) \<and> pool.I st p w" if "tokens.I st (n, l) w" for w
    using that by (auto simp: pool_view_is_def)
  show "triple (\<lambda>w. \<exists>p. (TokenSupply p = n \<and> wrap64 (LooseTokens p) = l) \<and> pool.I st p w) (keeper_Delegate E S ctx d coin v) ?Q"
  proof (rule triple_ex, rule triple_weaken [OF keeper_Delegate_spec [OF assms]], goal_cases)
    case (1 p r t)
    then show ?case
    proof (cases r)
      case (Inr shares)
      then obtain st' v' q where st': "credited E st b c d (\<lambda>x. - amt [coin] x) st'"
        and add: "AddTokensFromDel v p (Amount coin) = Val (v', q, shares)" and t: "tokens.I st' (TokenSupply q, wrap64 (LooseTokens q)) t"
        using 1(2) by auto
      have "wrap64 (LooseTokens q) = wrap64 (l - Amount coin)"
        using AddTokensFromDel_tokens(2) [OF add] 1(1) by (metis wrap64_diff_left)
      then show ?thesis using st' t AddTokensFromDel_tokens(1) [OF add] 1(1) Inr by auto
    qed (auto dest: tokens_of_pool)
  qed
qed

lemma SetRedelegation_step:
  "triple (tokens.I st n) (SetRedelegation S r)
     (\<lambda>_ t. tokens.I st n t \<and> stored_red S t (red_DelegatorAddr r) (red_ValidatorSrcAddr r) (red_ValidatorDstAddr r) = Some r)"
proof (rule tripleI)
  fix w x t assume w: "tokens.I st n w" and run: "SetRedelegation S r w = (Val x, t)"
  have "stored_red S t (red_DelegatorAddr r) (red_ValidatorSrcAddr r) (red_ValidatorDstAddr r) = Some r"
    using run by (auto simp: SetRedelegation_def Let_def run_iffs stored_red_def dec_red GetREDKey_def GetREDsKey_def
        GetREDByValSrcIndexKey_def GetREDsFromValSrcIndexKey_def GetREDByValDstIndexKey_def GetREDsToValDstIndexKey_def
        stake_key_defs dest!: gas_Set_Val)
  then show "tokens.I st n t \<and> stored_red S t (red_DelegatorAddr r) (red_ValidatorSrcAddr r) (red_ValidatorDstAddr r) = Some r"
    using holdsD [OF tokens.I_delegations(4) w run] by simp
qed

lemma BeginRedelegation_spec:
  assumes "accounts E st b c"
  shows "triple (pool.I st p) (BeginRedelegation E S ctx d src dst shares) (\<lambda>r t. case r of
     Some err \<Rightarrow> \<exists>n. tokens.I st (TokenSupply p, wrap64 (LooseTokens p + n)) t
   | None \<Rightarrow> \<exists>red st'. credited E st b c d (\<lambda>x. - amt [red_Balance red] x) st'
       \<and> tokens.I st' (TokenSupply p, wrap64 (LooseTokens p)) t \<and> stored_red S t d src dst = Some red)" (is "triple _ _ ?Q")
proof -
  have same: "?Q (Some err) t" if "pool.I st p t" for err t
    using tokens_of_pool [OF that] by (auto intro: exI [of _ 0])
  have after: "triple (tokens.I st (TokenSupply p, wrap64 (LooseTokens p + n)))
    (bnd (GetParams S) (\<lambda>params. let returnCoin = \<lparr>Denom = BondDenom params, Amount = NewInt n\<rparr> in
       bnd (GetValidator S dst) (\<lambda>v. case v of
         None \<Rightarrow> ret (Some (ErrBadRedelegationDst (sk_codespace S)))
       | Some dstValidator \<Rightarrow>
           bnd (keeper_Delegate E S ctx d returnCoin dstValidator) (\<lambda>r. case r of
             Inl err \<Rightarrow> ret (Some err)
           | Inr sharesCreated \<Rightarrow>
               let minTime = wrap64 (hdr_Time (ctx_BlockHeader ctx) + UnbondingTime params);
                   red = \<lparr>red_DelegatorAddr = d, red_ValidatorSrcAddr = src,
                          red_ValidatorDstAddr = dst, red_CreationHeight = 0, red_MinTime = minTime,
                          red_InitialBalance = returnCoin, red_Balance = returnCoin,
                          red_SharesSrc = shares, red_SharesDst = sharesCreated\<rparr>
               in bnd (SetRedelegation S red) (\<lambda>_. ret None))))) ?Q" for n
    unfolding Let_def
  proof (rule triple_bnd_holds [OF tokens.I_reads [OF reads_stake(1)]], rule triple_bnd_holds [OF tokens.I_reads [OF reads_stake(4)]],
      rule triple_case_option, force intro: triple_ret, rule triple_bnd [OF keeper_Delegate_from_tokens [OF assms]],
      rule triple_case_sum, goal_cases)
    case (1 params x v r err)
    then show ?case by (auto intro!: triple_ret)
  next
    case (2 params x v r sh)
    show ?case unfolding 2(4) sum.case
      by (rule triple_ex, rule triple_bnd [OF SetRedelegation_step], rule triple_ret) (auto simp: NewInt_def cong: if_cong)
  qed
  show ?thesis
    unfolding BeginRedelegation_def
  proof (rule triple_bnd_holds [OF pool.I_reads [OF reads_stake(12)]], rule triple_if, blast intro: triple_ret same,
      rule triple_bnd [OF unbond_spec], rule triple_case_sum, goal_cases)
    case (1 x r err)
    then show ?case using same by (auto intro!: triple_ret)
  next
    case (2 x r n)
    show ?case unfolding 2(3) sum.case
    proof (rule triple_pre [OF _ after])
      fix t assume "\<exists>val val' q. RemoveDelShares val p shares = Val (val', q, n) \<and> tokens.I st (TokenSupply q, wrap64 (LooseTokens q)) t"
      then show "tokens.I st (TokenSupply p, wrap64 (LooseTokens p + n)) t" by (metis RemoveDelShares_tokens)
    qed
  qed
qed

text \<open>What every message leaves as it is: the token supply, and the stores of other modules.\<close>

abbreviation spared :: "(string \<Rightarrow> kvmap) \<Rightarrow> int \<Rightarrow> world \<Rightarrow> bool" where
  "spared st n t \<equiv> (\<exists>q. stored_pool S t = Some q \<and> TokenSupply q = n)
     \<and> (\<forall>s. s \<noteq> sk_key S \<longrightarrow> s \<noteq> ae_accKey E \<longrightarrow> w_stores t s = st s)"

lemma spared_tokens: "tokens.I st' (n, l) t \<Longrightarrow> (\<And>s. s \<noteq> ae_accKey E \<Longrightarrow> st' s = st s) \<Longrightarrow> spared st n t"
  by (auto simp: pool_view_is_def)

lemma spared_pool: "pool.I st' p t \<Longrightarrow> (\<And>s. s \<noteq> ae_accKey E \<Longrightarrow> st' s = st s) \<Longrightarrow> spared st (TokenSupply p) t"
  by (auto simp: pool_view_is_def)

lemma finish_step: "(\<And>s. P s \<Longrightarrow> Q s) \<Longrightarrow> triple P (bnd (lift m) (\<lambda>x. ret (f x))) (\<lambda>_. Q)"
  by (auto simp: triple_def run_iffs)

lemma option_handler:
  assumes "triple P m (\<lambda>_. Q)"
  shows "triple P (bnd m (\<lambda>r. case r of Some err \<Rightarrow> ret (h err) | None \<Rightarrow> bnd (lift tags) (\<lambda>x. ret (f x)))) (\<lambda>_. Q)"
  by (rule triple_bnd [OF assms], rule triple_case_option) (auto intro: finish_step triple_ret)

lemma keeper_Delegate_spared:
  assumes "accounts E st b c"
  shows "triple (pool.I st p) (keeper_Delegate E S ctx d coin v) (\<lambda>_. spared st (TokenSupply p))"
proof (rule triple_pre [OF tokens_of_pool triple_weaken [OF keeper_Delegate_from_tokens [OF assms]]], assumption, goal_cases)
  case (1 r t)
  then show ?case
    by (cases r) (auto simp: credited_def intro!: spared_tokens)
qed

lemma sum_handler:
  assumes "triple P m (\<lambda>_. Q)"
  shows "triple P (bnd m (\<lambda>r. case r of Inl err \<Rightarrow> ret (h err) | Inr _ \<Rightarrow> bnd (lift tags) (\<lambda>x. ret (f x)))) (\<lambda>_. Q)"
  by (rule triple_bnd [OF assms], rule triple_case_sum) (auto intro: finish_step triple_ret)

lemma read_pool:
  "reads m \<Longrightarrow> (\<And>x. triple (pool.I st p) (f x) Q) \<Longrightarrow> triple (pool.I st p) (bnd m f) Q"
  using triple_bnd_holds [OF pool.I_reads] by blast

lemma write_pool:
  "holds (pool.I st p) m (\<lambda>_. True) \<Longrightarrow> (\<And>x. triple (pool.I st p) (f x) Q) \<Longrightarrow> triple (pool.I st p) (bnd m f) Q"
  using triple_bnd_holds by blast

lemmas pool_steps = reads_stake [THEN read_pool] pool.I_delegations [THEN write_pool]

lemma handler_spared:
  assumes "accounts E st b c"
  shows "triple (pool.I st p) (stake_NewHandler E S ctx msg) (\<lambda>_. spared st (TokenSupply p))" (is "triple _ _ (\<lambda>_. ?Q)")
proof -
  have pool: "?Q t" if "pool.I st p t" for t using spared_pool [OF that] by blast
  have create: "triple (pool.I st p) (handleMsgCreateValidator E S ctx m) (\<lambda>_. ?Q)" for m
    unfolding handleMsgCreateValidator_def Let_def
    by (intro pool_steps triple_if triple_ret pool sum_handler keeper_Delegate_spared [OF assms])
  have edit: "triple (pool.I st p) (handleMsgEditValidator E S ctx m) (\<lambda>_. ?Q)" for m
  proof -
    have "triple (pool.I st p) (bnd (UpdateValidator S ctx v) (\<lambda>_. bnd (lift tags) (\<lambda>x. ret (f x)))) (\<lambda>_. ?Q)" for v tags f
      by (rule triple_pre [OF tokens_of_pool update_step], assumption, rule finish_step, rule spared_tokens) simp_all
    then show ?thesis unfolding handleMsgEditValidator_def
      by (intro pool_steps triple_case_option triple_case_sum triple_ret pool)
  qed
  have delegate: "triple (pool.I st p) (handleMsgDelegate E S ctx m) (\<lambda>_. ?Q)" for m
    unfolding handleMsgDelegate_def
    by (intro pool_steps triple_if triple_case_option triple_ret pool sum_handler keeper_Delegate_spared [OF assms])
  have unbonding: "triple (pool.I st p) (handleMsgBeginUnbonding E S ctx m) (\<lambda>_. ?Q)" for m
    unfolding handleMsgBeginUnbonding_def
    by (rule option_handler, rule triple_weaken [OF keeper_BeginUnbonding_spec])
      (auto split: option.splits dest!: pool spared_tokens)
  have complete: "triple (pool.I st p) (handleMsgCompleteUnbonding E S ctx m) (\<lambda>_. ?Q)" for m
    unfolding handleMsgCompleteUnbonding_def
    by (rule option_handler, rule triple_weaken [OF keeper_CompleteUnbonding_spec [OF assms]]) (auto intro!: spared_pool)
  have begin_red: "triple (pool.I st p) (handleMsgBeginRedelegate E S ctx m) (\<lambda>_. ?Q)" for m
    unfolding handleMsgBeginRedelegate_def
    by (rule option_handler, rule triple_weaken [OF BeginRedelegation_spec [OF assms]])
      (auto simp: credited_def split: option.splits intro!: spared_tokens)
  have complete_red: "triple (pool.I st p) (handleMsgCompleteRedelegate E S ctx m) (\<lambda>_. ?Q)" for m
    unfolding handleMsgCompleteRedelegate_def CompleteRedelegation_def Let_def
    by (rule option_handler) (intro pool_steps triple_if triple_case_option triple_ret pool)
  have none: "triple (pool.I st p) (ret (Error_Result ErrTxDecode)) (\<lambda>_. ?Q)"
    by (rule triple_ret) (rule pool)
  show ?thesis
    unfolding stake_NewHandler_def
    using none create edit delegate unbonding complete begin_red complete_red
    by (simp split: option.splits stake_msg.splits)
qed

end

section \<open>A concrete codec\<close>

definition enc_status :: "BondStatus \<Rightarrow> bytes" where
  "enc_status b = BondStatusToString b"

definition dec_status :: "bytes \<Rightarrow> BondStatus option" where
  "dec_status bz = (if bz = ''Unbonded'' then Some Unbonded else if bz = ''Unbonding'' then Some Unbonding
     else if bz = ''Bonded'' then Some Bonded else None)"

lemma dec_enc_status [simp]: "dec_status (enc_status b) = Some b"
  by (cases b) (simp_all add: enc_status_def dec_status_def BondStatusToString_def)

definition net_encParams :: "Params \<Rightarrow> bytes" where
  "net_encParams p = enc_fields [enc_rat (InflationRateChange p), enc_rat (InflationMax p), enc_rat (InflationMin p),
     enc_rat (GoalBonded p), enc_int (UnbondingTime p), enc_int (int (MaxValidators p)), BondDenom p]"

definition net_decParams :: "bytes \<Rightarrow> Params option" where
  "net_decParams bz = (case dec_fields bz of
     Some [a, b, c, d, e, f, g] \<Rightarrow>
       Option.bind (dec_rat a) (\<lambda>a. Option.bind (dec_rat b) (\<lambda>b. Option.bind (dec_rat c) (\<lambda>c.
       Option.bind (dec_rat d) (\<lambda>d. Option.bind (dec_int e) (\<lambda>e. Option.bind (dec_int f) (\<lambda>f.
       Some \<lparr>InflationRateChange = a, InflationMax = b, InflationMin = c, GoalBonded = d, UnbondingTime = e,
         MaxValidators = nat f, BondDenom = g\<rparr>))))))
   | _ \<Rightarrow> None)"

definition net_encPool :: "Pool \<Rightarrow> bytes" where
  "net_encPool p = enc_fields [enc_int (LooseTokens p), enc_int (UnbondedTokens p), enc_int (UnbondingTokens p),
     enc_int (BondedTokens p), enc_rat (UnbondedShares p), enc_rat (UnbondingShares p), enc_rat (BondedShares p),
     enc_int (InflationLastTime p), enc_rat (Inflation p), enc_int (DateLastCommissionReset p), enc_rat (PrevBondedShares p)]"

definition net_decPool :: "bytes \<Rightarrow> Pool option" where
  "net_decPool bz = (case dec_fields bz of
     Some [a, b, c, d, e, f, g, h, i, j, k] \<Rightarrow>
       Option.bind (dec_int a) (\<lambda>a. Option.bind (dec_int b) (\<lambda>b. Option.bind (dec_int c) (\<lambda>c.
       Option.bind (dec_int d) (\<lambda>d. Option.bind (dec_rat e) (\<lambda>e. Option.bind (dec_rat f) (\<lambda>f.
       Option.bind (dec_rat g) (\<lambda>g. Option.bind (dec_int h) (\<lambda>h. Option.bind (dec_rat i) (\<lambda>i.
       Option.bind (dec_int j) (\<lambda>j. Option.bind (dec_rat k) (\<lambda>k.
       Some \<lparr>LooseTokens = a, UnbondedTokens = b, UnbondingTokens = c, BondedTokens = d, UnbondedShares = e,
         UnbondingShares = f, BondedShares = g, InflationLastTime = h, Inflation = i, DateLastCommissionReset = j,
         PrevBondedShares = k\<rparr>)))))))))))
   | _ \<Rightarrow> None)"

definition net_encVal :: "Validator \<Rightarrow> bytes" where
  "net_encVal v = enc_fields [Owner v, val_PubKey v, enc_bool (Revoked v), enc_status (ps_Status (val_PoolShares v)),
     enc_rat (ps_Amount (val_PoolShares v)), enc_rat (DelegatorShares v), Moniker (val_Description v),
     Identity (val_Description v), Website (val_Description v), Details (val_Description v), enc_int (BondHeight v),
     enc_int (BondIntraTxCounter v), enc_coins (ProposerRewardPool v), enc_rat (Commission v), enc_rat (CommissionMax v),
     enc_rat (CommissionChangeRate v), enc_rat (CommissionChangeToday v), enc_rat (val_PrevBondedShares v)]"

definition net_decVal :: "bytes \<Rightarrow> Validator option" where
  "net_decVal bz = (case dec_fields bz of
     Some [a, b, c, d, e, f, m1, m2, m3, m4, g, h, i, j, k, l, m, n] \<Rightarrow>
       Option.bind (dec_bool c) (\<lambda>c. Option.bind (dec_status d) (\<lambda>d. Option.bind (dec_rat e) (\<lambda>e.
       Option.bind (dec_rat f) (\<lambda>f. Option.bind (dec_int g) (\<lambda>g. Option.bind (dec_int h) (\<lambda>h.
       Option.bind (dec_coins i) (\<lambda>i. Option.bind (dec_rat j) (\<lambda>j. Option.bind (dec_rat k) (\<lambda>k.
       Option.bind (dec_rat l) (\<lambda>l. Option.bind (dec_rat m) (\<lambda>m. Option.bind (dec_rat n) (\<lambda>n.
       Some \<lparr>Owner = a, val_PubKey = b, Revoked = c, val_PoolShares = \<lparr>ps_Status = d, ps_Amount = e\<rparr>, DelegatorShares = f,
         val_Description = \<lparr>Moniker = m1, Identity = m2, Website = m3, Details = m4\<rparr>, BondHeight = g,
         BondIntraTxCounter = h, ProposerRewardPool = i, Commission = j, CommissionMax = k, CommissionChangeRate = l,
         CommissionChangeToday = m, val_PrevBondedShares = n\<rparr>))))))))))))
   | _ \<Rightarrow> None)"

definition net_encWRSP :: "wrsp_Validator \<Rightarrow> bytes" where
  "net_encWRSP v = enc_fields [wv_PubKey v, enc_int (wv_Power v)]"

definition net_decWRSP :: "bytes \<Rightarrow> wrsp_Validator option" where
  "net_decWRSP bz = (case dec_fields bz of
     Some [a, b] \<Rightarrow> map_option (\<lambda>b. \<lparr>wv_PubKey = a, wv_Power = b\<rparr>) (dec_int b)
   | _ \<Rightarrow> None)"

definition net_encDel :: "Delegation \<Rightarrow> bytes" where
  "net_encDel d = enc_fields [del_DelegatorAddr d, del_ValidatorAddr d, enc_rat (del_Shares d), enc_int (del_Height d)]"

definition net_decDel :: "bytes \<Rightarrow> Delegation option" where
  "net_decDel bz = (case dec_fields bz of
     Some [a, b, c, d] \<Rightarrow> Option.bind (dec_rat c) (\<lambda>c. Option.bind (dec_int d) (\<lambda>d.
       Some \<lparr>del_DelegatorAddr = a, del_ValidatorAddr = b, del_Shares = c, del_Height = d\<rparr>))
   | _ \<Rightarrow> None)"

definition net_encUBD :: "UnbondingDelegation \<Rightarrow> bytes" where
  "net_encUBD u = enc_fields [ubd_DelegatorAddr u, ubd_ValidatorAddr u, enc_int (ubd_CreationHeight u), enc_int (ubd_MinTime u),
     enc_coin (ubd_InitialBalance u), enc_coin (ubd_Balance u)]"

definition net_decUBD :: "bytes \<Rightarrow> UnbondingDelegation option" where
  "net_decUBD bz = (case dec_fields bz of
     Some [a, b, c, d, e, f] \<Rightarrow>
       Option.bind (dec_int c) (\<lambda>c. Option.bind (dec_int d) (\<lambda>d. Option.bind (dec_coin e) (\<lambda>e. Option.bind (dec_coin f) (\<lambda>f.
       Some \<lparr>ubd_DelegatorAddr = a, ubd_ValidatorAddr = b, ubd_CreationHeight = c, ubd_MinTime = d, ubd_InitialBalance = e,
         ubd_Balance = f\<rparr>))))
   | _ \<Rightarrow> None)"

definition net_encRED :: "Redelegation \<Rightarrow> bytes" where
  "net_encRED r = enc_fields [red_DelegatorAddr r, red_ValidatorSrcAddr r, red_ValidatorDstAddr r, enc_int (red_CreationHeight r),
     enc_int (red_MinTime r), enc_coin (red_InitialBalance r), enc_coin (red_Balance r), enc_rat (red_SharesSrc r),
     enc_rat (red_SharesDst r)]"

definition net_decRED :: "bytes \<Rightarrow> Redelegation option" where
  "net_decRED bz = (case dec_fields bz of
     Some [a, b, c, d, e, f, g, h, i] \<Rightarrow>
       Option.bind (dec_int d) (\<lambda>d. Option.bind (dec_int e) (\<lambda>e. Option.bind (dec_coin f) (\<lambda>f. Option.bind (dec_coin g) (\<lambda>g.
       Option.bind (dec_rat h) (\<lambda>h. Option.bind (dec_rat i) (\<lambda>i.
       Some \<lparr>red_DelegatorAddr = a, red_ValidatorSrcAddr = b, red_ValidatorDstAddr = c, red_CreationHeight = d,
         red_MinTime = e, red_InitialBalance = f, red_Balance = g, red_SharesSrc = h, red_SharesDst = i\<rparr>))))))
   | _ \<Rightarrow> None)"

definition net_stake_env :: stake_env where
  "net_stake_env = \<lparr>sk_key = ''stake'', sk_codespace = stake_DefaultCodespace,
     sk_encParams = net_encParams, sk_decParams = net_decParams, sk_encPool = net_encPool, sk_decPool = net_decPool,
     sk_encVal = net_encVal, sk_decVal = net_decVal, sk_encWRSP = net_encWRSP, sk_decWRSP = net_decWRSP,
     sk_encDel = net_encDel, sk_decDel = net_decDel, sk_encUBD = net_encUBD, sk_decUBD = net_decUBD,
     sk_encRED = net_encRED, sk_decRED = net_decRED, sk_encInt16 = enc_int, sk_decInt16 = dec_int,
     sk_encAddr = enc_field, sk_pkBytes = (\<lambda>pk. pk), sk_mapOrder = (\<lambda>ks. ks)\<rparr>"

lemma enc_field_inj: "enc_field a @ x = enc_field b @ y \<Longrightarrow> a = b \<and> x = y"
proof -
  assume eq: "enc_field a @ x = enc_field b @ y"
  have "takeWhile is_digit (enc_field a @ x) = show_nat (length a)" "dropWhile is_digit (enc_field a @ x) = CHR '':'' # a @ x" for a x
    by (simp_all add: enc_field_def takeWhile_digits_colon)
  then have "show_nat (length a) = show_nat (length b)" "a @ x = b @ y"
    using eq by (metis, metis list.inject)
  then have "length a = length b" "a @ x = b @ y" by (metis scan_digits_show_nat option.inject)+
  then show "a = b \<and> x = y" by simp
qed

interpretation net_stake: stake_codec net_stake_env
  by unfold_locales
    (auto simp: net_stake_env_def net_encParams_def net_decParams_def net_encPool_def net_decPool_def net_encVal_def
      net_decVal_def net_encWRSP_def net_decWRSP_def net_encDel_def net_decDel_def net_encUBD_def net_decUBD_def
      net_encRED_def net_decRED_def dest: enc_field_inj)

interpretation net_stake_bank: stake_bank net_auth_env net_stake_env
  by unfold_locales (simp add: net_auth_env_def net_stake_env_def)

section \<open>A concrete state\<close>

text \<open>
  Two validators and room for one: \<open>x\<close> is bonded and on the cliff, \<open>y\<close> is not bonded; \<open>bob\<close> has
  coins, a delegation to \<open>x\<close> and an unbonding delegation from \<open>y\<close>.
\<close>

definition ex_pool2 :: Pool where
  "ex_pool2 = InitialPool\<lparr>LooseTokens := 100, BondedTokens := 10, BondedShares := 10, UnbondedTokens := 5, UnbondedShares := 5\<rparr>"

definition ex_val :: "bytes \<Rightarrow> PoolShares \<Rightarrow> Validator" where
  "ex_val a sh = (NewValidator a a emptyDescription)\<lparr>val_PoolShares := sh, DelegatorShares := ps_Amount sh\<rparr>"

definition ex_power_key :: "string \<Rightarrow> bytes" where
  "ex_power_key s = [CHR 0x05, CHR 0x00] @ s @ [CHR 0xFF, CHR 0xFF, CHR 0xFF, CHR 0xFF, CHR 0xFF, CHR 0xFF, CHR 0xFF, CHR 0xFF,
     CHR 0x00, CHR 0x00, CHR 0xFF, CHR 0xFF]"

definition ex_ubd :: UnbondingDelegation where
  "ex_ubd = \<lparr>ubd_DelegatorAddr = ''bob'', ubd_ValidatorAddr = ''y'', ubd_CreationHeight = 0, ubd_MinTime = 0,
     ubd_InitialBalance = NewCoin ''steak'' 4, ubd_Balance = NewCoin ''steak'' 4\<rparr>"

definition ex_stores :: "string \<Rightarrow> kvmap" where
  "ex_stores = (\<lambda>_. [])
     (''acc'' := [(AddressStoreKey ''bob'', net_encAcc \<lparr>ba_Address = ''bob'', ba_Coins = [NewCoin ''steak'' 96],
        ba_PubKey = None, ba_AccountNumber = 0, ba_Sequence = 0\<rparr>)],
      ''stake'' :=
       [(ParamKey, net_encParams (DefaultParams\<lparr>MaxValidators := 1\<rparr>)),
        (PoolKey, net_encPool ex_pool2),
        (GetValidatorKey ''x'', net_encVal (ex_val ''x'' (NewBondedShares 10))),
        (GetValidatorKey ''y'', net_encVal (ex_val ''y'' (NewUnbondedShares 5))),
        (GetValidatorsBondedIndexKey ''x'', ''x''),
        (ex_power_key ''000000000005'', ''y''),
        (ex_power_key ''000000000010'', ''x''),
        (ValidatorCliffIndexKey, ''x''),
        (IntraTxCounterKey, enc_int 0),
        (GetDelegationKey net_stake_env ''bob'' ''x'', net_encDel
           \<lparr>del_DelegatorAddr = ''bob'', del_ValidatorAddr = ''x'', del_Shares = 7, del_Height = 0\<rparr>),
        (GetUBDKey net_stake_env ''bob'' ''y'', net_encUBD ex_ubd),
        (GetUBDByValIndexKey net_stake_env ''bob'' ''y'', GetUBDKey net_stake_env ''bob'' ''y'')])"

definition ex_stake :: world where
  "ex_stake = free ex_stores 0"

text \<open>How the operations unfold when they are run.\<close>

lemmas stake_runs = handleMsgDelegate_def [THEN fun_cong] GetPool_def [THEN fun_cong] SetPool_def [THEN fun_cong]
  GetParams_def [THEN fun_cong] GetValidator_def [THEN fun_cong] keeper_Delegate_def [THEN fun_cong]
  GetDelegation_def [THEN fun_cong] SetDelegation_def [THEN fun_cong] RemoveDelegation_def [THEN fun_cong]
  UpdateValidator_def [THEN fun_cong] GetIntraTxCounter_def [THEN fun_cong] SetIntraTxCounter_def [THEN fun_cong]
  unbond_def [THEN fun_cong] keeper_BeginUnbonding_def [THEN fun_cong] keeper_CompleteUnbonding_def [THEN fun_cong]
  BeginRedelegation_def [THEN fun_cong] HasReceivingRedelegation_def [THEN fun_cong] SetRedelegation_def [THEN fun_cong]
  GetUnbondingDelegation_def [THEN fun_cong] SetUnbondingDelegation_def [THEN fun_cong] RemoveUnbondingDelegation_def [THEN fun_cong]
  UpdateBondedValidators_def [THEN fun_cong] ubv_loop.simps [THEN fun_cong] end_of_ranking_def [THEN fun_cong]
  setCliffValidator_def [THEN fun_cong] getCliffValidator_def [THEN fun_cong] getCliffValidatorPower_def [THEN fun_cong]
  get_val_or_panic_def [THEN fun_cong] bondValidator_def [THEN fun_cong] unbondValidator_def [THEN fun_cong]
  RemoveValidator_def [THEN fun_cong] clearCliffValidator_def [THEN fun_cong]

lemmas key_runs = stake_key_defs GetValidatorKey_def GetValidatorByPubKeyIndexKey_def GetValidatorsBondedIndexKey_def
  GetTendermintUpdatesKey_def GetDelegationKey_def GetDelegationsKey_def GetUBDKey_def GetUBDsKey_def
  GetUBDByValIndexKey_def GetUBDsByValIndexKey_def GetREDKey_def GetREDsKey_def GetREDByValSrcIndexKey_def
  GetREDsFromValSrcIndexKey_def GetREDByValDstIndexKey_def GetREDsToValDstIndexKey_def GetREDsByDelToValDstIndexKey_def
  GetValidatorsByPowerIndexKey_def GetValidatorPowerRank_def maxDigitsForAccount_def

lemmas value_runs = EquivalentBondedShares_def ToBonded_def ToUnbonded_def AddTokensFromDel_def RemoveDelShares_def DelegatorShareExRate_def
  addTokensBonded_def addTokensUnbonded_def removeSharesBonded_def removeSharesUnbonded_def UpdateStatus_def
  val_Status_def PoolShares_Bonded_def NewRat_def Rat_Quo_def NewBondedShares_def NewUnbondedShares_def NewValidator_def
  WRSPValidator_def WRSPValidatorZero_def InitialPool_def DefaultParams_def rate_def pool_tokens_def pool_shares_def
  emptyResult_def Result_IsOK_def WRSPCodeType_IsOK_def zeroValidator_def max_index_def RoundInt64_def wrap16_def

lemmas bank_runs = subtractCoins_def [THEN fun_cong] addCoins_def [THEN fun_cong] getCoins_def [THEN fun_cong]
  setCoins_def [THEN fun_cong] GetAccount_def [THEN fun_cong] SetAccount_def [THEN fun_cong] decodeAccount_def [THEN fun_cong]
  Coins_Minus_def Coins_Plus_def Coins_Negative_def SetCoins_def NewCoin_def Int_Int64_def NewInt_def Int_Neg_def
  Coin_Plus_def Int_Add_def BitLen_255 Int_range_def SameDenomAs_def Int_Equal_def Int_IsZero_def Coins_IsNotNegative_def
  Coin_IsNotNegative_def Int_Sign_def NewTags_def AddressStoreKey_def in_int64_def wrap64_def

lemma env_runs:
  "sk_key net_stake_env = ''stake''" "sk_codespace net_stake_env = stake_DefaultCodespace"
  "sk_encAddr net_stake_env = enc_field" "sk_pkBytes net_stake_env = (\<lambda>pk. pk)"
  "sk_encVal net_stake_env = net_encVal" "sk_encPool net_stake_env = net_encPool" "sk_encParams net_stake_env = net_encParams"
  "sk_encDel net_stake_env = net_encDel" "sk_encUBD net_stake_env = net_encUBD" "sk_encRED net_stake_env = net_encRED"
  "sk_encInt16 net_stake_env = enc_int" "sk_encWRSP net_stake_env = net_encWRSP"
  "ae_accKey net_auth_env = ''acc''" "ae_decAcc net_auth_env = net_decAcc" "ae_encAcc net_auth_env = net_encAcc"
  "ae_addrString net_auth_env = (\<lambda>a. a)"
  by (simp_all add: net_stake_env_def net_auth_env_def)

lemmas dec_runs = net_stake.dec_params [unfolded env_runs] net_stake.dec_pool [unfolded env_runs] net_stake.dec_val [unfolded env_runs]
  net_stake.dec_del [unfolded env_runs] net_stake.dec_ubd [unfolded env_runs] net_stake.dec_red [unfolded env_runs]
  net_stake.dec_int16 [unfolded env_runs]

lemma text_runs:
  "enc_field ''bob'' = ''3:bob''" "enc_field ''x'' = ''1:x''" "enc_field ''y'' = ''1:y''"
  "ToLeftPadded 15 12 = ''000000000015''" "ToLeftPadded 10 12 = ''000000000010''" "ToLeftPadded 8 12 = ''000000000008''"
  "ToLeftPadded 7 12 = ''000000000007''" "ToLeftPadded 5 12 = ''000000000005''" "ToLeftPadded 3 12 = ''000000000003''"
  "big_endian 8 18446744073709551615 = [CHR 0xFF, CHR 0xFF, CHR 0xFF, CHR 0xFF, CHR 0xFF, CHR 0xFF, CHR 0xFF, CHR 0xFF]"
  "big_endian 8 18446744073709551614 = [CHR 0xFF, CHR 0xFF, CHR 0xFF, CHR 0xFF, CHR 0xFF, CHR 0xFF, CHR 0xFF, CHR 0xFE]"
  "big_endian 2 65535 = [CHR 0xFF, CHR 0xFF]" "big_endian 2 65534 = [CHR 0xFF, CHR 0xFE]"
  "EvaluateBig 10 = 10" "EvaluateBig 7 = 7" "EvaluateBig 5 = 5" "EvaluateBig 2 = 2"
  by code_simp+

lemmas stake_exec = stake_runs key_runs value_runs bank_runs env_runs dec_runs text_runs exec_simps iterators_free Let_def
  kv_Get_def kv_Delete_def ex_stake_def ex_stores_def ex_val_def ex_power_key_def ex_pool2_def raw_def
  ex_ctx_def NewContext_def ex_ubd_def

definition ex_delegate :: MsgDelegate where
  "ex_delegate = \<lparr>md_DelegatorAddr = Some ''bob'', md_ValidatorAddr = Some ''x'', md_Bond = NewCoin ''steak'' 5\<rparr>"

lemma ex_delegate_run:
  "\<exists>res t. handleMsgDelegate net_auth_env net_stake_env ex_ctx ex_delegate ex_stake = (Val res, t) \<and> Result_IsOK res"
  by (simp add: stake_exec ex_delegate_def WRSPCodeOK_def cong: bnd_cong_weak)

lemma ex_unbond_run: "fst (keeper_BeginUnbonding net_stake_env ex_ctx ''bob'' ''x'' 2 ex_stake) = Val None"
  by (simp add: stake_exec cong: bnd_cong_weak)

lemma ex_complete_run: "fst (keeper_CompleteUnbonding net_auth_env net_stake_env ex_ctx ''bob'' ''y'' ex_stake) = Val None"
  by (simp add: stake_exec cong: bnd_cong_weak)

lemma ex_redelegate_run: "fst (BeginRedelegation net_auth_env net_stake_env ex_ctx ''bob'' ''x'' ''y'' 2 ex_stake) = Val None"
  by (simp add: stake_exec cong: bnd_cong_weak)

end
