(* ===== verification/StakeProperties.thy ===== *)
theory StakeProperties
  imports StakeSafety
begin

text \<open>The properties of the staking module.\<close>

section \<open>Messages\<close>

lemma stake_bank_start:
  assumes "stored_pool S w = Some p" and "dels_ok S w" and "bank_ok E w"
  shows "pool_view_is S (\<lambda>p. p) (w_stores w) p w" and "accounts E (w_stores w) (balance E w) (coin_supply E w)"
  using assms(1,2) accounts_start [OF assms(3)] by (simp_all add: pool_view_is_def)

lemma accounts_end:
  assumes "stake_bank E S" and "pool_view_is S g st n t" and "credited E st0 b c a x st"
  shows "bank_ok E t" and "balance E t = b(a := \<lambda>d. b a d + x d)" and "coin_supply E t = (\<lambda>d. c d + x d)"
  using stake_bank.accounts_at [OF assms(1,2)] assms(3) by (auto simp: credited_def)

lemma stake_errors_not_OK:
  "\<not> Result_IsOK (Error_Result (ErrNoValidatorFound cs))" "\<not> Result_IsOK (Error_Result (ErrBadDenom cs))"
  "\<not> Result_IsOK (Error_Result (ErrValidatorRevoked cs))"
  by (rule Error_Result_not_OK, simp add: stake_err_defs NewError_def newError_def)+

lemma keeper_Delegate_err: "keeper_Delegate E S ctx d coin v w = (Val (Inl e), t) \<Longrightarrow> e = ErrInsufficientCoins"
  by (auto simp: keeper_Delegate_def Let_def run_iffs dest: subtractCoins_err)

lemma handleMsgDelegate_OK:
  assumes "handleMsgDelegate E S ctx msg w = (Val res, t)" and "Result_IsOK res"
  shows "\<exists>v u sh. w_stores u = w_stores w
    \<and> keeper_Delegate E S ctx (raw (md_DelegatorAddr msg)) (md_Bond msg) v u = (Val (Inr sh), t)"
proof -
  obtain v w1 params w2 sh where "GetValidator S (raw (md_ValidatorAddr msg)) w = (Val (Some v), w1)"
    "GetParams S w1 = (Val params, w2)" "keeper_Delegate E S ctx (raw (md_DelegatorAddr msg)) (md_Bond msg) v w2 = (Val (Inr sh), t)"
    using assms stake_errors_not_OK by (auto simp: handleMsgDelegate_def run_iffs dest!: keeper_Delegate_err)
  then show ?thesis
    using readsD [OF reads_stake(4)] readsD [OF reads_stake(1)] by metis
qed

lemma ex_stake_facts:
  "stored_pool net_stake_env ex_stake = Some ex_pool2" "dels_ok net_stake_env ex_stake" "bank_ok net_auth_env ex_stake"
proof -
  show "stored_pool net_stake_env ex_stake = Some ex_pool2"
    by (simp add: stored_pool_def ex_stake_def ex_stores_def env_runs kv_Get_def dec_runs stake_key_defs)
  have "kv_Get (ex_stores ''stake'') (GetDelegationKey net_stake_env d v) = (if d = ''bob'' \<and> v = ''x''
      then Some (net_encDel \<lparr>del_DelegatorAddr = ''bob'', del_ValidatorAddr = ''x'', del_Shares = 7, del_Height = 0\<rparr>) else None)" for d v
    using net_stake.pool.GetDelegationKey_inj [of d v "''bob''" "''x''"]
    by (auto simp: ex_stores_def kv_Get_def stake_key_defs GetDelegationKey_def GetDelegationsKey_def GetValidatorKey_def
        GetValidatorsBondedIndexKey_def ex_power_key_def GetUBDKey_def GetUBDsKey_def GetUBDByValIndexKey_def GetUBDsByValIndexKey_def)
  then show "dels_ok net_stake_env ex_stake"
    by (auto simp: dels_ok_def stored_del_def ex_stake_def env_runs dec_runs)
  show "bank_ok net_auth_env ex_stake"
    by (auto simp: bank_ok_def accts_ok_def acct_def ex_stake_def ex_stores_def env_runs kv_Get_def NewCoin_def NewInt_def
        AddressStoreKey_def split: if_splits)
qed

lemma ex_balance: "balance net_auth_env ex_stake ''bob'' = amt [NewCoin ''steak'' 96]"
  by (simp add: fun_eq_iff balance_def acct_def ex_stake_def ex_stores_def env_runs kv_Get_def)

lemma ex_pool_tokens: "TokenSupply ex_pool2 = 115" "wrap64 (LooseTokens ex_pool2 + n) = wrap64 (100 + n)"
  "wrap64 (LooseTokens ex_pool2 - n) = wrap64 (100 - n)" "wrap64 95 = 95"
  by (simp_all add: ex_pool2_def InitialPool_def TokenSupply_def wrap64_def)

text \<open>
  C8: no message of the staking module changes the number of tokens that the pool accounts for,
  and none touches a store other than the staking store and the account store, whether it
  succeeds or fails.
\<close>

theorem stake_supply_kept:
  assumes "stake_bank E S" and "stored_pool S w = Some p" and "dels_ok S w" and "bank_ok E w"
    and "stake_NewHandler E S ctx msg w = (Val res, t)"
  shows "(\<exists>q. stored_pool S t = Some q \<and> TokenSupply q = TokenSupply p)
    \<and> (\<forall>s. s \<notin> {sk_key S, ae_accKey E} \<longrightarrow> w_stores t s = w_stores w s)"
  using tripleD [OF stake_bank.handler_spared [OF assms(1) stake_bank_start(2) [OF assms(2-4)]]
      stake_bank_start(1) [OF assms(2-4)] assms(5)]
  by simp

theorem stake_supply_kept_witness:
  "\<exists>res t q. stake_NewHandler net_auth_env net_stake_env ex_ctx (Some (Delegate ex_delegate)) ex_stake = (Val res, t)
     \<and> stored_pool net_stake_env t = Some q \<and> TokenSupply q = 115"
proof -
  obtain res t where run: "stake_NewHandler net_auth_env net_stake_env ex_ctx (Some (Delegate ex_delegate)) ex_stake = (Val res, t)"
    using ex_delegate_run by (auto simp: stake_NewHandler_def)
  from stake_supply_kept [OF net_stake_bank.stake_bank_axioms ex_stake_facts run] run show ?thesis
    by (auto simp: ex_pool_tokens)
qed

text \<open>
  C30: a delegation that succeeds takes exactly the bonded coin from the delegator and from nobody
  else; the loose tokens of the pool go down by the same amount and the token supply stays.
\<close>

theorem delegate_moves_coins:
  assumes "stake_bank E S" and "stored_pool S w = Some p" and "dels_ok S w" and "bank_ok E w"
    and "handleMsgDelegate E S ctx msg w = (Val res, t)" and "Result_IsOK res"
  shows "bank_ok E t
    \<and> balance E t = (balance E w)(raw (md_DelegatorAddr msg) :=
        \<lambda>d. balance E w (raw (md_DelegatorAddr msg)) d - amt [md_Bond msg] d)
    \<and> (\<exists>q. stored_pool S t = Some q \<and> TokenSupply q = TokenSupply p
        \<and> wrap64 (LooseTokens q) = wrap64 (LooseTokens p - Amount (md_Bond msg)))"
proof -
  note start = stake_bank_start [OF assms(2-4)]
  obtain v u sh where u: "w_stores u = w_stores w"
    and run: "keeper_Delegate E S ctx (raw (md_DelegatorAddr msg)) (md_Bond msg) v u = (Val (Inr sh), t)"
    using handleMsgDelegate_OK [OF assms(5,6)] by blast
  have "pool_view_is S (\<lambda>p. (TokenSupply p, wrap64 (LooseTokens p))) (w_stores w) (TokenSupply p, wrap64 (LooseTokens p)) u"
    using start(1) u by (auto simp: pool_view_is_def stored_pool_def dels_ok_def stored_del_def)
  from tripleD [OF stake_bank.keeper_Delegate_from_tokens [OF assms(1) start(2)] this run]
  obtain st' where st': "credited E (w_stores w) (balance E w) (coin_supply E w) (raw (md_DelegatorAddr msg)) (\<lambda>x. - amt [md_Bond msg] x) st'"
    and t: "pool_view_is S (\<lambda>p. (TokenSupply p, wrap64 (LooseTokens p))) st'
      (TokenSupply p, wrap64 (wrap64 (LooseTokens p) - Amount (md_Bond msg))) t"
    by auto
  show ?thesis
    using accounts_end [OF assms(1) t st'] t by (auto simp: pool_view_is_def)
qed

theorem delegate_moves_coins_witness:
  "\<exists>t q. balance net_auth_env t ''bob'' ''steak'' = 91
     \<and> stored_pool net_stake_env t = Some q \<and> TokenSupply q = 115 \<and> wrap64 (LooseTokens q) = 95"
proof -
  obtain res t where "handleMsgDelegate net_auth_env net_stake_env ex_ctx ex_delegate ex_stake = (Val res, t)" "Result_IsOK res"
    using ex_delegate_run by blast
  from delegate_moves_coins [OF net_stake_bank.stake_bank_axioms ex_stake_facts this] show ?thesis
    by (intro exI [of _ t]) (auto simp: ex_balance ex_pool_tokens ex_delegate_def raw_def NewCoin_def NewInt_def)
qed

text \<open>
  When unbonding begins, the supply of tokens stays, the tokens released become loose, and the
  record that is stored holds exactly those tokens.  A record that was there before for the same
  delegator and validator is replaced, and its tokens are in no record any more.
\<close>

theorem begin_unbonding_records:
  assumes "stake_bank E S" and "stored_pool S w = Some p" and "dels_ok S w"
    and "keeper_BeginUnbonding S ctx d v shares w = (Val None, t)"
  shows "\<exists>q u. stored_pool S t = Some q \<and> stored_ubd S t d v = Some u \<and> TokenSupply q = TokenSupply p
    \<and> wrap64 (LooseTokens q) = wrap64 (LooseTokens p + Amount (ubd_Balance u)) \<and> ubd_InitialBalance u = ubd_Balance u"
proof -
  have "pool_view_is S (\<lambda>p. p) (w_stores w) p w" using assms(2,3) by (simp add: pool_view_is_def)
  from tripleD [OF stake_bank.keeper_BeginUnbonding_spec [OF assms(1)] this assms(4)] show ?thesis
    by (auto simp: pool_view_is_def)
qed

theorem begin_unbonding_records_witness:
  "\<exists>t q u. stored_pool net_stake_env t = Some q \<and> stored_ubd net_stake_env t ''bob'' ''x'' = Some u \<and> TokenSupply q = 115
    \<and> wrap64 (LooseTokens q) = wrap64 (100 + Amount (ubd_Balance u))"
proof -
  obtain t where "keeper_BeginUnbonding net_stake_env ex_ctx ''bob'' ''x'' 2 ex_stake = (Val None, t)"
    using ex_unbond_run by (metis prod.collapse)
  from begin_unbonding_records [OF net_stake_bank.stake_bank_axioms ex_stake_facts(1,2) this] show ?thesis
    by (simp add: ex_pool_tokens) blast
qed

lemma GetUnbondingDelegation_Val:
  "GetUnbondingDelegation S d v w = (Val u, t) \<Longrightarrow> u = stored_ubd S w d v \<and> w_stores t = w_stores w"
  by (auto simp: GetUnbondingDelegation_def stored_ubd_def run_iffs must_def dest!: gas_Get_Val split: option.splits)

lemma bnd_read_Val:
  assumes "bnd m f w = (Val r, t)" and "\<And>x u. m w = (Val x, u) \<Longrightarrow> x = y \<and> w_stores u = st"
  obtains u where "w_stores u = st" and "f y u = (Val r, t)"
  using assms by (auto simp: bnd_Val_iff)

context stake_bank
begin

lemma RemoveUnbondingDelegation_pool:
  "pool.I st p w \<Longrightarrow> RemoveUnbondingDelegation S u w = (Val r, t) \<Longrightarrow> pool.I st p t"
  using holdsD [OF pool.I_delegations(3)] by blast

end

lemma RemoveUnbondingDelegation_Val:
  "RemoveUnbondingDelegation S u w = (Val r, t) \<Longrightarrow> stored_ubd S t (ubd_DelegatorAddr u) (ubd_ValidatorAddr u) = None"
  by (auto simp: RemoveUnbondingDelegation_def Let_def run_iffs gas_Delete_run stored_ubd_def)

text \<open>The part of \<open>CompleteUnbonding\<close> that runs when a record has matured.\<close>

lemma complete_matured:
  assumes "stake_bank E S" and "accounts E st (balance E w) (coin_supply E w)" and "pool_view_is S (\<lambda>p. p) st p w1"
    and "bnd (addCoins E (ubd_DelegatorAddr u) [ubd_Balance u]) (\<lambda>r. case r of
      Inl err \<Rightarrow> ret (Some err) | Inr _ \<Rightarrow> bnd (RemoveUnbondingDelegation S u) (\<lambda>_. ret None)) w1 = (Val r, t)"
  shows "stored_pool S t = Some p \<and> bank_ok E t \<and> (case r of
      Some err \<Rightarrow> balance E t = balance E w
    | None \<Rightarrow> stored_ubd S t (ubd_DelegatorAddr u) (ubd_ValidatorAddr u) = None
        \<and> balance E t = (balance E w)(ubd_DelegatorAddr u :=
            \<lambda>x. balance E w (ubd_DelegatorAddr u) x + amt [ubd_Balance u] x))"
proof -
  obtain x w2 where add: "addCoins E (ubd_DelegatorAddr u) [ubd_Balance u] w1 = (Val x, w2)"
    and rest: "(case x of Inl err \<Rightarrow> ret (Some err) | Inr _ \<Rightarrow> bnd (RemoveUnbondingDelegation S u) (\<lambda>_. ret None)) w2 = (Val r, t)"
    using assms(4) by (auto simp: bnd_Val_iff)
  note step = tripleD [OF stake_bank.addCoins_step [OF assms(1,2)] assms(3) add]
  show ?thesis
  proof (cases x)
    case (Inl err)
    then have t: "r = Some err" "pool_view_is S (\<lambda>p. p) st p t" using rest step by (auto simp: ret_iff)
    then show ?thesis using stake_bank.accounts_at [OF assms(1) t(2) assms(2)] by (auto simp: pool_view_is_def)
  next
    case (Inr y)
    then obtain st' z where cr: "credited E st (balance E w) (coin_supply E w) (ubd_DelegatorAddr u) (amt [ubd_Balance u]) st'"
      and w2: "pool_view_is S (\<lambda>p. p) st' p w2" and rem: "RemoveUnbondingDelegation S u w2 = (Val z, t)" and r: "r = None"
      using step rest by (auto simp: run_iffs)
    note t = stake_bank.RemoveUnbondingDelegation_pool [OF assms(1) w2 rem]
    show ?thesis using r RemoveUnbondingDelegation_Val [OF rem] accounts_end [OF assms(1) t cr] t
      by (auto simp: pool_view_is_def)
  qed
qed

text \<open>
  C17: completing an unbonding.  Without a record or before its time it fails and leaves every
  store as it was.  Otherwise the coins of the record, and nothing else, are credited to the
  delegator it names and the record is gone, so that it cannot be completed twice; if the coins
  cannot be credited no balance changes.  The pool stays the same in every case.
\<close>

theorem complete_unbonding_exact:
  assumes "stake_bank E S" and "stored_pool S w = Some p" and "dels_ok S w" and "bank_ok E w"
    and "keeper_CompleteUnbonding E S ctx d v w = (Val r, t)"
  shows "stored_pool S t = Some p \<and> (case stored_ubd S w d v of
      None \<Rightarrow> r = Some (ErrNoUnbondingDelegation (sk_codespace S)) \<and> w_stores t = w_stores w
    | Some u \<Rightarrow>
        if ubd_MinTime u > hdr_Time (ctx_BlockHeader ctx)
        then r = Some (ErrNotMature (sk_codespace S)) \<and> w_stores t = w_stores w
        else bank_ok E t \<and> (case r of
            Some err \<Rightarrow> balance E t = balance E w
          | None \<Rightarrow> stored_ubd S t (ubd_DelegatorAddr u) (ubd_ValidatorAddr u) = None
              \<and> balance E t = (balance E w)(ubd_DelegatorAddr u :=
                  \<lambda>x. balance E w (ubd_DelegatorAddr u) x + amt [ubd_Balance u] x)))"
proof -
  note start = stake_bank_start [OF assms(2-4)]
  obtain w1 where get: "w_stores w1 = w_stores w" and rest: "(case stored_ubd S w d v of
      None \<Rightarrow> ret (Some (ErrNoUnbondingDelegation (sk_codespace S)))
    | Some u \<Rightarrow> if ubd_MinTime u > hdr_Time (ctx_BlockHeader ctx) then ret (Some (ErrNotMature (sk_codespace S)))
        else bnd (addCoins E (ubd_DelegatorAddr u) [ubd_Balance u]) (\<lambda>r. case r of
          Inl err \<Rightarrow> ret (Some err) | Inr _ \<Rightarrow> bnd (RemoveUnbondingDelegation S u) (\<lambda>_. ret None))) w1 = (Val r, t)"
    by (rule bnd_read_Val [OF assms(5) [unfolded keeper_CompleteUnbonding_def Let_def] GetUnbondingDelegation_Val])
  have w1: "pool_view_is S (\<lambda>p. p) (w_stores w) p w1"
    using start(1) get by (auto simp: pool_view_is_def stored_pool_def dels_ok_def stored_del_def)
  then have pool: "stored_pool S w1 = Some p" by (auto simp: pool_view_is_def)
  show ?thesis
  proof (cases "stored_ubd S w d v")
    case None
    then show ?thesis using rest get pool by (auto simp: ret_iff)
  next
    case (Some u)
    show ?thesis
      using complete_matured [OF assms(1) start(2) w1, of u r t] rest get pool
      by (cases "ubd_MinTime u > hdr_Time (ctx_BlockHeader ctx)") (simp_all add: Some ret_iff)
  qed
qed

theorem complete_unbonding_exact_witness:
  "\<exists>t. balance net_auth_env t ''bob'' ''steak'' = 100 \<and> stored_ubd net_stake_env t ''bob'' ''y'' = None"
proof -
  obtain t where "keeper_CompleteUnbonding net_auth_env net_stake_env ex_ctx ''bob'' ''y'' ex_stake = (Val None, t)"
    using ex_complete_run by (metis prod.collapse)
  moreover have "stored_ubd net_stake_env ex_stake ''bob'' ''y'' = Some ex_ubd"
    by (simp add: stored_ubd_def stake_exec)
  ultimately show ?thesis using complete_unbonding_exact [OF net_stake_bank.stake_bank_axioms ex_stake_facts, of ex_ctx "''bob''" "''y''" None t]
    by (intro exI [of _ t]) (auto simp: ex_balance ex_ubd_def ex_ctx_def NewContext_def NewCoin_def NewInt_def)
qed

text \<open>
  C31: a redelegation that succeeds moves no token out of the pool, and yet the delegator pays for
  it again: the amount of the stored record is taken from the delegator's account, although the
  tokens it is about have just been released by the source validator.
\<close>

theorem redelegation_charges_again:
  assumes "stake_bank E S" and "stored_pool S w = Some p" and "dels_ok S w" and "bank_ok E w"
    and "BeginRedelegation E S ctx d src dst shares w = (Val None, t)"
  shows "\<exists>q red. stored_pool S t = Some q \<and> stored_red S t d src dst = Some red \<and> TokenSupply q = TokenSupply p
    \<and> wrap64 (LooseTokens q) = wrap64 (LooseTokens p)
    \<and> balance E t = (balance E w)(d := \<lambda>x. balance E w d x - amt [red_Balance red] x)"
proof -
  note start = stake_bank_start [OF assms(2-4)]
  obtain red st' where cr: "credited E (w_stores w) (balance E w) (coin_supply E w) d (\<lambda>x. - amt [red_Balance red] x) st'"
    and t: "pool_view_is S (\<lambda>p. (TokenSupply p, wrap64 (LooseTokens p))) st' (TokenSupply p, wrap64 (LooseTokens p)) t"
    and red: "stored_red S t d src dst = Some red"
    using tripleD [OF stake_bank.BeginRedelegation_spec [OF assms(1) start(2)] start(1) assms(5)] by auto
  show ?thesis using accounts_end [OF assms(1) t cr] t red by (auto simp: pool_view_is_def)
qed

theorem redelegation_charges_again_witness:
  "\<exists>t red. stored_red net_stake_env t ''bob'' ''x'' ''y'' = Some red
     \<and> balance net_auth_env t ''bob'' ''steak'' = 96 - amt [red_Balance red] ''steak''"
proof -
  obtain t where "BeginRedelegation net_auth_env net_stake_env ex_ctx ''bob'' ''x'' ''y'' 2 ex_stake = (Val None, t)"
    using ex_redelegate_run by (metis prod.collapse)
  from redelegation_charges_again [OF net_stake_bank.stake_bank_axioms ex_stake_facts this] show ?thesis
    by (auto simp: ex_balance NewCoin_def NewInt_def intro!: exI [of _ t])
qed

section \<open>Inflation\<close>

lemma Rat_Round_near:
  assumes "0 < n" and "n < 2 ^ 63" and "0 \<le> r" and "r \<le> 1"
  shows "\<exists>x. Rat_Round r n = Val x \<and> \<bar>x - r\<bar> \<le> 1 / (2 * rat_of_int n)"
proof -
  have "0 \<le> r * rat_of_int n" "r * rat_of_int n \<le> rat_of_int n" using assms mult_right_mono [of r 1 "rat_of_int n"] by simp_all
  then have "RoundInt64 (r * rat_of_int n) = EvaluateBig (r * rat_of_int n)" using assms(2) by (intro RoundInt64_bound(3)) simp_all
  moreover have "\<bar>rat_of_int (EvaluateBig (r * rat_of_int n)) - r * rat_of_int n\<bar> \<le> 1 / 2"
    using half_even_EvaluateBig [of "r * rat_of_int n"] by (auto simp: half_even_def)
  then have "\<bar>rat_of_int (EvaluateBig (r * rat_of_int n)) - r * rat_of_int n\<bar> / rat_of_int n \<le> (1 / 2) / rat_of_int n"
    using assms(1) by (intro divide_right_mono) simp_all
  moreover have "\<bar>rat_of_int (EvaluateBig (r * rat_of_int n)) / rat_of_int n - r\<bar>
      = \<bar>rat_of_int (EvaluateBig (r * rat_of_int n)) - r * rat_of_int n\<bar> / \<bar>rat_of_int n\<bar>"
    unfolding abs_divide [symmetric] using assms(1) by (simp add: diff_divide_distrib)
  ultimately show ?thesis using assms(1) by (simp add: Rat_Round_def frac_def)
qed

text \<open>The part of the tokens that is bonded, and the rate before it is rounded.\<close>

definition bonded_part :: "Pool \<Rightarrow> rat" where
  "bonded_part p = (if TokenSupply p > 0 then rat_of_int (BondedTokens p) / rat_of_int (TokenSupply p) else 0)"

definition exact_rate :: "Params \<Rightarrow> Pool \<Rightarrow> rat" where
  "exact_rate params p = max (InflationMin params) (min (InflationMax params)
     (Inflation p + (1 - bonded_part p / GoalBonded params) * InflationRateChange params / hrsPerYrRat))"

lemma next_rate_exact:
  assumes "GoalBonded params \<noteq> 0"
  shows "next_rate params p = Rat_Round (exact_rate params p) inflation_precision"
proof -
  have "BondedRatio p = Val (bonded_part p)"
    by (simp add: BondedRatio_def bonded_part_def NewRat_def frac_def)
  moreover have "hrsPerYrRat \<noteq> 0" by (simp add: hrsPerYrRat_def hrsPerYr_def)
  ultimately show ?thesis
    using assms by (simp add: next_rate_def Rat_Quo_def Let_def exact_rate_def max_def min_def not_less)
qed

text \<open>
  C32: with sensible parameters the inflation rate of the next hour is always defined.  Up to half
  of the last digit kept it is the rate so far, changed by the hourly part of the change per year,
  which is proportional to the distance from the goal of bonded tokens, and cut off at the minimum
  and the maximum.  So the rate rises while fewer tokens are bonded than the goal, and falls
  while more are, as soon as the hourly change is more than the last digit kept and the rate is not at
  the bound.
\<close>

theorem next_inflation_bounds:
  assumes "0 < GoalBonded params" and "0 \<le> InflationRateChange params"
    and "0 \<le> InflationMin params" and "InflationMin params \<le> InflationMax params" and "InflationMax params \<le> 1"
    and "step = (1 - bonded_part p / GoalBonded params) * InflationRateChange params / 8766"
  shows "\<exists>x. next_rate params p = Val x
    \<and> InflationMin params - 1 / 200000000000 \<le> x \<and> x \<le> InflationMax params + 1 / 200000000000
    \<and> (InflationMin params \<le> Inflation p + step \<and> Inflation p + step \<le> InflationMax params \<longrightarrow>
         \<bar>x - (Inflation p + step)\<bar> \<le> 1 / 200000000000)
    \<and> (InflationMax params < Inflation p + step \<longrightarrow> \<bar>x - InflationMax params\<bar> \<le> 1 / 200000000000)
    \<and> (Inflation p + step < InflationMin params \<longrightarrow> \<bar>x - InflationMin params\<bar> \<le> 1 / 200000000000)
    \<and> (1 / 100000000000 < step \<and> Inflation p + 1 / 100000000000 < InflationMax params \<longrightarrow> Inflation p < x)
    \<and> (step < - 1 / 100000000000 \<and> InflationMin params + 1 / 100000000000 < Inflation p \<longrightarrow> x < Inflation p)"
proof -
  let ?e = "exact_rate params p"
  have e: "?e = max (InflationMin params) (min (InflationMax params) (Inflation p + step))"
    by (simp add: exact_rate_def assms(6) hrsPerYrRat_def hrsPerYr_def)
  then have range: "InflationMin params \<le> ?e" "?e \<le> InflationMax params" using assms(4) by auto
  obtain x where x: "next_rate params p = Val x" "\<bar>x - ?e\<bar> \<le> 1 / 200000000000"
    using Rat_Round_near [of inflation_precision ?e] next_rate_exact [of params p] assms range by (auto simp: inflation_precision_def)
  have near: "?e - 1 / 200000000000 \<le> x" "x \<le> ?e + 1 / 200000000000" using x(2) unfolding abs_le_iff by linarith+
  have cases: "InflationMin params \<le> Inflation p + step \<and> Inflation p + step \<le> InflationMax params \<Longrightarrow> ?e = Inflation p + step"
    "InflationMax params < Inflation p + step \<Longrightarrow> ?e = InflationMax params"
    "Inflation p + step < InflationMin params \<Longrightarrow> ?e = InflationMin params"
    using assms(4) unfolding e by simp_all
  have rises: "Inflation p < x" if "1 / 100000000000 < step" "Inflation p + 1 / 100000000000 < InflationMax params"
  proof -
    have "Inflation p + 1 / 100000000000 < ?e" using that unfolding e by simp
    then show ?thesis using near(1) by simp
  qed
  have falls: "x < Inflation p" if "step < - 1 / 100000000000" "InflationMin params + 1 / 100000000000 < Inflation p"
  proof -
    have "?e < Inflation p - 1 / 100000000000" using that unfolding e by (simp add: min_less_iff_disj)
    then show ?thesis using near(2) by simp
  qed
  show ?thesis
    using x cases near range rises falls by (intro exI [of _ x]) auto
qed

theorem next_inflation_bounds_witness:
  "\<exists>x. next_rate DefaultParams ex_pool2 = Val x \<and> x \<le> 20 / 100 + 1 / 200000000000"
  using next_inflation_bounds [OF _ _ _ _ _ refl, of DefaultParams ex_pool2] by (auto simp: DefaultParams_def)

section \<open>The end of a block\<close>

lemma decode_all_Val: "decode_all dec its w = (Val xs, t) \<Longrightarrow> map (\<lambda>it. dec (snd it)) its = map Some xs \<and> w_stores t = w_stores w"
proof (induction its arbitrary: xs w)
  case Nil
  then show ?case by (simp add: ret_iff)
next
  case (Cons it its)
  then show ?case by (auto simp: run_iffs must_def split: option.splits dest!: gas_iter_Value_Val)
qed

lemma delete_keys_Val:
  "iterM its (\<lambda>it. bnd (gas_iter_Key it) (\<lambda>k. gas_Delete s k)) w = (Val u, t) \<Longrightarrow>
   w_stores t = (w_stores w)(s := filter (\<lambda>kv. fst kv \<notin> fst ` set its) (w_stores w s))"
proof (induction its arbitrary: w)
  case Nil
  then show ?case by (simp add: ret_iff)
next
  case (Cons it its)
  then show ?case
    by (auto simp: run_iffs gas_Delete_run kv_Delete_def case_prod_unfold conj_commute dest!: gas_iter_Key_Val)
qed

lemma GetPool_Val: "GetPool S w = (Val p, t) \<Longrightarrow> stored_pool S w = Some p \<and> w_stores t = w_stores w"
  by (auto simp: GetPool_def stored_pool_def run_iffs must_def dest!: gas_Get_Val split: option.splits)

lemma stored_pool_cong: "w_stores v = w_stores w \<Longrightarrow> stored_pool S v = stored_pool S w"
  by (simp add: stored_pool_def)

lemma ProcessProvisions_Val:
  assumes "ProcessProvisions S w = (Val q, t)" and "stored_pool S w = Some p"
  shows "w_stores t = w_stores w \<and> InflationLastTime q = InflationLastTime p"
  using assms readsD [OF reads_stake(1)]
  by (auto simp: ProcessProvisions_def NextInflation_def Let_def run_iffs dest!: GetPool_Val)

text \<open>The updates of the validator set that are waiting to be handed over.\<close>

definition waiting_updates :: "stake_env \<Rightarrow> world \<Rightarrow> (bytes \<times> bytes) list" where
  "waiting_updates S w = filter (\<lambda>kv. prefix TendermintUpdatesKey (fst kv)) (w_stores w (sk_key S))"

lemma EndBlocker_steps:
  assumes "stake_EndBlocker S ctx w = (Val updates, t)" and "stored_pool S w = Some p"
  obtains q w1 u w2 u' w3 w4 u'' where "w_stores w1 = w_stores w" and "InflationLastTime q = InflationLastTime p"
    and "SetPool S q w1 = (Val u, w2)" and "SetIntraTxCounter S 0 w2 = (Val u', w3)"
    and "GetTendermintUpdates S w3 = (Val updates, w4)" and "ClearTendermintUpdates S w4 = (Val u'', t)"
proof -
  obtain p' w0 q w1 u w2 u' w3 w4 u'' where pool: "GetPool S w = (Val p', w0)"
    and step: "(if wrap64 (InflationLastTime p' + hdr_Time (ctx_BlockHeader ctx)) \<ge> 3600 then ProcessProvisions S else ret p') w0
      = (Val q, w1)"
    and rest: "SetPool S q w1 = (Val u, w2)" "SetIntraTxCounter S 0 w2 = (Val u', w3)"
      "GetTendermintUpdates S w3 = (Val updates, w4)" "ClearTendermintUpdates S w4 = (Val u'', t)"
    using assms(1) unfolding stake_EndBlocker_def Let_def bnd_Val_iff ret_iff outcome.inject by (elim exE conjE) (hypsubst, rule that)
  have "p' = p"
    using GetPool_Val [OF pool] assms(2) by simp
  have "stored_pool S w0 = Some p" and "w_stores w0 = w_stores w"
    using GetPool_Val [OF pool] assms(2) by (auto simp: stored_pool_def)
  with \<open>p' = p\<close> step ProcessProvisions_Val [of S w0 q w1 p] have "w_stores w1 = w_stores w" "InflationLastTime q = InflationLastTime p"
    by (auto simp: ret_iff split: if_splits)
  from that [OF this rest] show thesis .
qed

lemma kv_Get_filter: "P k \<Longrightarrow> kv_Get (filter (\<lambda>kv. P (fst kv)) m) k = kv_Get m k"
  by (induction m) (auto simp: kv_Get_def)

text \<open>
  C33: at the end of a block the updates of the validator set that have been stored are returned,
  each once and in the order of the store, and none is left, so that the next block does not
  report them again.  The time of the last inflation in the pool never changes, although the
  end of a block is meant to record it.
\<close>

theorem stake_EndBlocker_hands_over:
  assumes "stake_codec S" and "stored_pool S w = Some p" and "stake_EndBlocker S ctx w = (Val updates, t)"
  shows "map (\<lambda>kv. sk_decWRSP S (snd kv)) (waiting_updates S w) = map Some updates \<and> waiting_updates S t = []
    \<and> (\<exists>q. stored_pool S t = Some q \<and> InflationLastTime q = InflationLastTime p)"
proof -
  obtain q w1 u w2 u' w3 w4 u'' where w1: "w_stores w1 = w_stores w" and q: "InflationLastTime q = InflationLastTime p"
    and set_pool: "SetPool S q w1 = (Val u, w2)" and counter: "SetIntraTxCounter S 0 w2 = (Val u', w3)"
    and get: "GetTendermintUpdates S w3 = (Val updates, w4)" and clear: "ClearTendermintUpdates S w4 = (Val u'', t)"
    by (rule EndBlocker_steps [OF assms(3,2)])
  have dec: "sk_decPool S (sk_encPool S q) = Some q" by (rule stake_codec.dec_pool [OF assms(1)])
  have w3: "waiting_updates S w3 = waiting_updates S w" "stored_pool S w3 = Some q"
    using set_pool counter w1 dec
    by (auto simp: SetPool_def SetIntraTxCounter_def waiting_updates_def stored_pool_def filter_kv_Set stake_key_defs dest!: gas_Set_Val)
  have w4: "map (\<lambda>kv. sk_decWRSP S (snd kv)) (waiting_updates S w3) = map Some updates" "w_stores w4 = w_stores w3"
    using get
    by (auto simp: GetTendermintUpdates_def run_iffs waiting_updates_def stake_key_defs dest!: KVStorePrefixIterator_Val decode_all_Val)
  have t: "w_stores t = (w_stores w4)(sk_key S := filter (\<lambda>kv. fst kv \<notin> fst ` set (waiting_updates S w4)) (w_stores w4 (sk_key S)))"
    using clear by (auto simp: ClearTendermintUpdates_def run_iffs waiting_updates_def stake_key_defs dest!: KVStorePrefixIterator_Val
        delete_keys_Val)
  have "waiting_updates S t = []"
    using t by (auto simp: waiting_updates_def filter_empty_conv image_def)
  moreover have "PoolKey \<notin> fst ` set (waiting_updates S w4)" by (auto simp: waiting_updates_def stake_key_defs)
  then have "stored_pool S t = Some q"
    using t w3(2) w4(2) kv_Get_filter [of "\<lambda>k. k \<notin> fst ` set (waiting_updates S w4)" PoolKey] by (simp add: stored_pool_def)
  ultimately show ?thesis using w3 w4 q by simp
qed

definition ex_update :: wrsp_Validator where
  "ex_update = \<lparr>wv_PubKey = ''x'', wv_Power = 10\<rparr>"

definition ex_waiting :: world where
  "ex_waiting = free (ex_stores(''stake'' := kv_Set (ex_stores ''stake'') (GetTendermintUpdatesKey ''x'') (net_encWRSP ex_update))) 0"

lemma ex_end_run: "fst (stake_EndBlocker net_stake_env ex_ctx ex_waiting) = Val [ex_update]"
  by (simp add: stake_exec ex_waiting_def stake_EndBlocker_def [THEN fun_cong] GetTendermintUpdates_def [THEN fun_cong]
      ClearTendermintUpdates_def [THEN fun_cong] decode_all.simps [THEN fun_cong] iterM.simps [THEN fun_cong]
      net_stake.dec_wrsp [unfolded env_runs] cong: bnd_cong_weak)

lemma ex_waiting_pool: "stored_pool net_stake_env ex_waiting = Some ex_pool2"
  by (simp add: stored_pool_def stake_exec ex_waiting_def)

theorem stake_EndBlocker_hands_over_witness:
  "\<exists>t q. waiting_updates net_stake_env t = [] \<and> stored_pool net_stake_env t = Some q \<and> InflationLastTime q = 0"
proof -
  obtain t where "stake_EndBlocker net_stake_env ex_ctx ex_waiting = (Val [ex_update], t)"
    using ex_end_run by (metis prod.collapse)
  from stake_EndBlocker_hands_over [OF net_stake.stake_codec_axioms ex_waiting_pool this] show ?thesis
    by (auto simp: ex_pool2_def InitialPool_def)
qed

section \<open>The validator at the cliff\<close>

text \<open>
  An example: the validator at the cliff is bonded with ten tokens and is the only one the parameters
  allow; another one with five waits.  When seven of the ten are unbonded, the waiting validator
  is bonded and the one at the cliff is put out with the record it had before, so that ten bonded
  tokens are taken away where three are left.  The unbonding succeeds, the bonded tokens of the
  pool are negative, and the record written last still says that the validator is bonded, while
  the index of bonded validators no longer has it.
\<close>

theorem cliff_kick_corrupts:
  "case keeper_BeginUnbonding net_stake_env ex_ctx ''bob'' ''x'' 7 ex_stake of (r, t) \<Rightarrow>
     r = Val None
     \<and> map_option BondedTokens (stored_pool net_stake_env t) = Some (- 2)
     \<and> map_option val_Status (stored_val net_stake_env t ''x'') = Some Bonded
     \<and> kv_Get (w_stores t ''stake'') (GetValidatorsBondedIndexKey ''x'') = None"
  by (simp add: stake_exec stored_pool_def stored_val_def cong: bnd_cong_weak)

end
