(* ===== verification/Slashing.thy ===== *)
theory Slashing
  imports Frames StakeProperties
begin

text \<open>
  The slashing module (\<open>x/slashing\<close>): errors and the message to unrevoke a validator, the signing
  record of a validator and its window of signed blocks, what happens to a validator that misses
  too many blocks or signs twice, the begin blocker and the handler.  The set of validators is an
  interface of the source (\<open>types/stake.go\<close>): a record of its methods.  The codec, the address of
  a public key and the decoding of public keys of the consensus engine are fields of a record.
\<close>

section \<open>Errors and messages\<close>

definition slashing_DefaultCodespace :: CodespaceType where "slashing_DefaultCodespace = 10"

definition ErrNoValidatorForAddress :: "CodespaceType \<Rightarrow> sdkError" where
  "ErrNoValidatorForAddress codespace = NewError codespace 101"
definition slashing_ErrBadValidatorAddr :: "CodespaceType \<Rightarrow> sdkError" where
  "slashing_ErrBadValidatorAddr codespace = NewError codespace 101"
definition ErrValidatorJailed :: "CodespaceType \<Rightarrow> sdkError" where
  "ErrValidatorJailed codespace = NewError codespace 102"
definition ErrValidatorNotRevoked :: "CodespaceType \<Rightarrow> sdkError" where
  "ErrValidatorNotRevoked codespace = NewError codespace 103"

lemmas slashing_err_defs = ErrNoValidatorForAddress_def slashing_ErrBadValidatorAddr_def ErrValidatorJailed_def ErrValidatorNotRevoked_def

record MsgUnrevoke =
  mu_ValidatorAddr :: "bytes option"

definition MsgUnrevoke_ValidateBasic :: "MsgUnrevoke \<Rightarrow> sdkError option" where
  "MsgUnrevoke_ValidateBasic msg =
     (if mu_ValidatorAddr msg = None then Some (slashing_ErrBadValidatorAddr slashing_DefaultCodespace) else None)"

definition slashing_Msg :: "(string \<Rightarrow> bytes) \<Rightarrow> MsgUnrevoke Msg" where
  "slashing_Msg json =
     \<lparr>msg_Type = (\<lambda>_. ''slashing''),
      msg_ValidateBasic = (\<lambda>m. Val (MsgUnrevoke_ValidateBasic m)),
      msg_GetSignBytes = (\<lambda>m. json (raw (mu_ValidatorAddr m))),
      msg_GetSigners = (\<lambda>m. [raw (mu_ValidatorAddr m)])\<rparr>"

section \<open>Parameters\<close>

definition MaxEvidenceAge :: int where "MaxEvidenceAge = 60 * 2"
definition SignedBlocksWindow :: int where "SignedBlocksWindow = 40000"
definition MinSignedPerWindow :: int where "MinSignedPerWindow = quo SignedBlocksWindow 2"
definition DowntimeUnbondDuration :: int where "DowntimeUnbondDuration = 60 * 5"
definition DoubleSignUnbondDuration :: int where "DoubleSignUnbondDuration = 60 * 5"
definition SlashFractionDoubleSign :: rat where "SlashFractionDoubleSign = 1 / 20"
definition SlashFractionDowntime :: rat where "SlashFractionDowntime = 1 / 100"

section \<open>The signing record\<close>

record ValidatorSigningInfo =
  StartHeight :: int
  IndexOffset :: int
  JailedUntil :: int
  SignedBlocksCounter :: int

definition NewValidatorSigningInfo :: "int \<Rightarrow> int \<Rightarrow> int \<Rightarrow> int \<Rightarrow> ValidatorSigningInfo" where
  "NewValidatorSigningInfo startHeight indexOffset jailedUntil signedBlocksCounter =
     \<lparr>StartHeight = startHeight, IndexOffset = indexOffset, JailedUntil = jailedUntil,
      SignedBlocksCounter = signedBlocksCounter\<rparr>"

record slash_env =
  sl_key :: string
  sl_codespace :: CodespaceType
  sl_encInfo :: "ValidatorSigningInfo \<Rightarrow> bytes"
  sl_decInfo :: "bytes \<Rightarrow> ValidatorSigningInfo option"
  sl_encBool :: "bool \<Rightarrow> bytes"
  sl_decBool :: "bytes \<Rightarrow> bool option"
  sl_pkAddress :: "bytes \<Rightarrow> bytes"
  sl_PB2TM :: "bytes \<Rightarrow> bytes option"
  sl_duplicateVote :: string
  sl_addrString :: "bytes \<Rightarrow> string"

definition GetValidatorSigningInfoKey :: "bytes \<Rightarrow> bytes" where
  "GetValidatorSigningInfoKey v = CHR 0x01 # v"

text \<open>\<open>binary.LittleEndian.PutUint64\<close>.\<close>

definition little_endian64 :: "int \<Rightarrow> bytes" where
  "little_endian64 x = rev (big_endian 8 (x mod 2 ^ 64))"

definition GetValidatorSigningBitArrayKey :: "bytes \<Rightarrow> int \<Rightarrow> bytes" where
  "GetValidatorSigningBitArrayKey v i = CHR 0x02 # v @ little_endian64 i"

definition getValidatorSigningInfo :: "slash_env \<Rightarrow> bytes \<Rightarrow> (world, ValidatorSigningInfo option) M" where
  "getValidatorSigningInfo G address = bnd (gas_Get (sl_key G) (GetValidatorSigningInfoKey address)) (\<lambda>b. case b of
     None \<Rightarrow> ret None
   | Some bz \<Rightarrow> bnd (must (sl_decInfo G bz)) (\<lambda>info. ret (Some info)))"

definition setValidatorSigningInfo :: "slash_env \<Rightarrow> bytes \<Rightarrow> ValidatorSigningInfo \<Rightarrow> (world, unit) M" where
  "setValidatorSigningInfo G address info = gas_Set (sl_key G) (GetValidatorSigningInfoKey address) (sl_encInfo G info)"

definition getValidatorSigningBitArray :: "slash_env \<Rightarrow> bytes \<Rightarrow> int \<Rightarrow> (world, bool) M" where
  "getValidatorSigningBitArray G address index =
     bnd (gas_Get (sl_key G) (GetValidatorSigningBitArrayKey address index)) (\<lambda>b. case b of
       None \<Rightarrow> ret False
     | Some bz \<Rightarrow> must (sl_decBool G bz))"

definition setValidatorSigningBitArray :: "slash_env \<Rightarrow> bytes \<Rightarrow> int \<Rightarrow> bool \<Rightarrow> (world, unit) M" where
  "setValidatorSigningBitArray G address index present =
     gas_Set (sl_key G) (GetValidatorSigningBitArrayKey address index) (sl_encBool G present)"

section \<open>The keeper\<close>

text \<open>The methods of \<open>sdk.ValidatorSet\<close> that the module calls.\<close>

record validator_set =
  vs_Validator :: "bytes \<Rightarrow> (world, Validator option) M"
  vs_Slash :: "Context \<Rightarrow> bytes \<Rightarrow> int \<Rightarrow> int \<Rightarrow> rat \<Rightarrow> (world, unit) M"
  vs_Revoke :: "Context \<Rightarrow> bytes \<Rightarrow> (world, unit) M"
  vs_Unrevoke :: "Context \<Rightarrow> bytes \<Rightarrow> (world, unit) M"

definition handleDoubleSign ::
  "slash_env \<Rightarrow> validator_set \<Rightarrow> Context \<Rightarrow> bytes \<Rightarrow> int \<Rightarrow> int \<Rightarrow> int \<Rightarrow> (world, unit) M" where
  "handleDoubleSign G V ctx pubkey infractionHeight timestamp votes =
     (let time = hdr_Time (ctx_BlockHeader ctx);
          age = wrap64 (time - timestamp);
          address = sl_pkAddress G pubkey
      in
      if age > MaxEvidenceAge then ret ()
      else
        bnd (vs_Slash V ctx pubkey infractionHeight votes SlashFractionDoubleSign) (\<lambda>_.
        bnd (vs_Revoke V ctx pubkey) (\<lambda>_.
        bnd (getValidatorSigningInfo G address) (\<lambda>i. case i of
          None \<Rightarrow> panicM (GoPanic ''Expected signing info for validator but not found'')
        | Some signInfo \<Rightarrow>
            setValidatorSigningInfo G address (signInfo\<lparr>JailedUntil := wrap64 (time + DoubleSignUnbondDuration)\<rparr>)))))"

definition handleValidatorSignature ::
  "slash_env \<Rightarrow> validator_set \<Rightarrow> Context \<Rightarrow> bytes \<Rightarrow> int \<Rightarrow> bool \<Rightarrow> (world, unit) M" where
  "handleValidatorSignature G V ctx pubkey votes present =
     (let height = ctx_BlockHeight ctx;
          address = sl_pkAddress G pubkey
      in
      bnd (getValidatorSigningInfo G address) (\<lambda>i.
      let signInfo = (case i of None \<Rightarrow> NewValidatorSigningInfo height 0 0 0 | Some info \<Rightarrow> info);
          index = rem (IndexOffset signInfo) SignedBlocksWindow;
          signInfo = signInfo\<lparr>IndexOffset := wrap64 (IndexOffset signInfo + 1)\<rparr>
      in
      bnd (getValidatorSigningBitArray G address index) (\<lambda>previous.
      bnd (if previous = present then ret signInfo
           else if previous \<and> \<not> present then
             bnd (setValidatorSigningBitArray G address index False) (\<lambda>_.
             ret (signInfo\<lparr>SignedBlocksCounter := wrap64 (SignedBlocksCounter signInfo - 1)\<rparr>))
           else
             bnd (setValidatorSigningBitArray G address index True) (\<lambda>_.
             ret (signInfo\<lparr>SignedBlocksCounter := wrap64 (SignedBlocksCounter signInfo + 1)\<rparr>))) (\<lambda>signInfo.
      let minHeight = wrap64 (StartHeight signInfo + SignedBlocksWindow) in
      bnd (if height > minHeight \<and> SignedBlocksCounter signInfo < MinSignedPerWindow then
             bnd (vs_Slash V ctx pubkey height votes SlashFractionDowntime) (\<lambda>_.
             bnd (vs_Revoke V ctx pubkey) (\<lambda>_.
             ret (signInfo\<lparr>JailedUntil := wrap64 (hdr_Time (ctx_BlockHeader ctx) + DowntimeUnbondDuration)\<rparr>)))
           else ret signInfo) (\<lambda>signInfo.
      setValidatorSigningInfo G address signInfo)))))"

section \<open>The begin blocker\<close>

record Evidence =
  ev_Type :: string
  ev_PubKey :: bytes
  ev_Power :: int
  ev_Height :: int
  ev_Time :: int

definition slashing_BeginBlocker ::
  "slash_env \<Rightarrow> validator_set \<Rightarrow> Context \<Rightarrow> Header \<Rightarrow> SigningValidator list \<Rightarrow> Evidence list \<Rightarrow> (world, Tags) M" where
  "slashing_BeginBlocker G V ctx header validators byzantine =
     bnd (lift (NewTags [TagString ''height'', TagBytes (little_endian64 (hdr_Height header))])) (\<lambda>tags.
     bnd (iterM validators (\<lambda>sv. case sl_PB2TM G (sv_PubKey sv) of
            None \<Rightarrow> panicM (GoPanic ''invalid public key'')
          | Some pubkey \<Rightarrow> handleValidatorSignature G V ctx pubkey (sv_Power sv) (sv_SignedLastBlock sv))) (\<lambda>_.
     bnd (iterM byzantine (\<lambda>ev. case sl_PB2TM G (ev_PubKey ev) of
            None \<Rightarrow> panicM (GoPanic ''invalid public key'')
          | Some pk \<Rightarrow>
              if ev_Type ev = sl_duplicateVote G
              then handleDoubleSign G V ctx pk (ev_Height ev) (ev_Time ev) (ev_Power ev)
              else ret ())) (\<lambda>_.
     ret tags)))"

section \<open>The handler\<close>

definition handleMsgUnrevoke :: "slash_env \<Rightarrow> validator_set \<Rightarrow> Context \<Rightarrow> MsgUnrevoke \<Rightarrow> (world, Result) M" where
  "handleMsgUnrevoke G V ctx msg =
     bnd (vs_Validator V (raw (mu_ValidatorAddr msg))) (\<lambda>v. case v of
       None \<Rightarrow> ret (Error_Result (ErrNoValidatorForAddress (sl_codespace G)))
     | Some validator \<Rightarrow>
         if \<not> Revoked validator then ret (Error_Result (ErrValidatorNotRevoked (sl_codespace G)))
         else
           let addr = sl_pkAddress G (val_PubKey validator) in
           bnd (getValidatorSigningInfo G addr) (\<lambda>i. case i of
             None \<Rightarrow> ret (Error_Result (ErrNoValidatorForAddress (sl_codespace G)))
           | Some info \<Rightarrow>
               if hdr_Time (ctx_BlockHeader ctx) < JailedUntil info
               then ret (Error_Result (ErrValidatorJailed (sl_codespace G)))
               else if ctx_IsCheckTx ctx then ret emptyResult
               else
                 bnd (setValidatorSigningInfo G addr (info\<lparr>StartHeight := ctx_BlockHeight ctx\<rparr>)) (\<lambda>_.
                 bnd (vs_Unrevoke V ctx (val_PubKey validator)) (\<lambda>_.
                 bnd (lift (NewTags
                   [TagString ''action'', TagBytes ''unrevoke'',
                    TagString ''validator'', TagBytes (sl_addrString G (raw (mu_ValidatorAddr msg)))])) (\<lambda>tags.
                 ret (emptyResult\<lparr>res_Tags := tags\<rparr>))))))"

definition slashing_NewHandler :: "slash_env \<Rightarrow> validator_set \<Rightarrow> Context \<Rightarrow> MsgUnrevoke option \<Rightarrow> (world, Result) M" where
  "slashing_NewHandler G V ctx msg = (case msg of
     Some m \<Rightarrow> handleMsgUnrevoke G V ctx m
   | None \<Rightarrow> ret (Error_Result ErrTxDecode))"

section \<open>The window of signed blocks\<close>

text \<open>
  The specification: the history of a validator is the list of blocks it should have signed, the
  oldest first.  The keeper stores, instead of the history, a ring of bits and a counter.
\<close>

abbreviation window :: nat where "window \<equiv> nat SignedBlocksWindow"

definition signed_count :: "bool list \<Rightarrow> int" where
  "signed_count hist = int (length (filter (\<lambda>b. b) (take window (rev hist))))"

definition ring_bit :: "bool list \<Rightarrow> nat \<Rightarrow> bool" where
  "ring_bit hist i \<longleftrightarrow> (\<exists>j < length hist. length hist \<le> j + window \<and> j mod window = i \<and> hist ! j)"

definition stored_info :: "slash_env \<Rightarrow> world \<Rightarrow> bytes \<Rightarrow> ValidatorSigningInfo option" where
  "stored_info G w a = Option.bind (kv_Get (w_stores w (sl_key G)) (GetValidatorSigningInfoKey a)) (sl_decInfo G)"

definition stored_bit :: "slash_env \<Rightarrow> world \<Rightarrow> bytes \<Rightarrow> int \<Rightarrow> bool option" where
  "stored_bit G w a i = (case kv_Get (w_stores w (sl_key G)) (GetValidatorSigningBitArrayKey a i) of
     None \<Rightarrow> Some False | Some bz \<Rightarrow> sl_decBool G bz)"

text \<open>
  What the stores say about a validator at a height: the height it started at, until when it is
  jailed, and its history.  A validator without a record starts at this height.
\<close>

definition tracks :: "slash_env \<Rightarrow> int \<Rightarrow> bytes \<Rightarrow> int \<Rightarrow> int \<Rightarrow> bool list \<Rightarrow> world \<Rightarrow> bool" where
  "tracks G height a start jailed hist w \<longleftrightarrow>
     (case stored_info G w a of None \<Rightarrow> NewValidatorSigningInfo height 0 0 0 | Some info \<Rightarrow> info)
       = NewValidatorSigningInfo start (int (length hist)) jailed (signed_count hist)
     \<and> (\<forall>i < window. stored_bit G w a (int i) = Some (ring_bit hist i))"

definition downtime :: "Context \<Rightarrow> int \<Rightarrow> bool list \<Rightarrow> bool" where
  "downtime ctx start hist \<longleftrightarrow> ctx_BlockHeight ctx > start + SignedBlocksWindow \<and> signed_count hist < MinSignedPerWindow"

lemma window_pos: "0 < window" "0 < SignedBlocksWindow"
  by (simp_all add: SignedBlocksWindow_def)

lemma window_rem: "rem (int n) SignedBlocksWindow = int (n mod window)"
proof -
  have "rem (int n) SignedBlocksWindow = int n mod SignedBlocksWindow"
    by (simp add: rem_def quo_def SignedBlocksWindow_def minus_mult_div_eq_mod flip: of_nat_eq_0_iff)
  then show ?thesis using window_pos by (simp add: zmod_int)
qed

lemma ring_bit_old:
  "ring_bit hist (length hist mod window) \<longleftrightarrow> window \<le> length hist \<and> hist ! (length hist - window)"
proof -
  have "j = length hist - window \<and> window \<le> length hist"
    if j: "j < length hist" "length hist \<le> j + window" "j mod window = length hist mod window" for j
  proof -
    have "window dvd length hist - j" using j(1,3) by (metis less_imp_le_nat mod_eq_dvd_iff_nat)
    moreover have "0 < length hist - j" "length hist - j \<le> window" using j by auto
    ultimately have "length hist - j = window" by (metis dvd_imp_le le_antisym)
    then show ?thesis using j(1) by linarith
  qed
  moreover have "(length hist - window) mod window = length hist mod window" if "window \<le> length hist"
    using that by (simp add: le_mod_geq)
  moreover have "length hist - window < length hist" "length hist \<le> length hist - window + window" if "window \<le> length hist"
    using that window_pos(1) by linarith+
  ultimately show ?thesis unfolding ring_bit_def by metis
qed

lemma ring_bit_append:
  assumes "i < window"
  shows "ring_bit (hist @ [b]) i = (if i = length hist mod window then b else ring_bit hist i)"
proof (cases "i = length hist mod window")
  case True
  have "\<not> (j < length hist \<and> Suc (length hist) \<le> j + window \<and> j mod window = length hist mod window)" for j
  proof
    assume j: "j < length hist \<and> Suc (length hist) \<le> j + window \<and> j mod window = length hist mod window"
    then have "window dvd length hist - j" by (metis less_imp_le_nat mod_eq_dvd_iff_nat)
    moreover have "0 < length hist - j" "length hist - j < window" using j by auto
    ultimately show False by (metis dvd_imp_le leD)
  qed
  then show ?thesis using True window_pos(1) by (auto simp: ring_bit_def nth_append)
next
  case False
  have "(j < Suc (length hist) \<and> Suc (length hist) \<le> j + window \<and> j mod window = i \<and> (hist @ [b]) ! j) \<longleftrightarrow>
      (j < length hist \<and> length hist \<le> j + window \<and> j mod window = i \<and> hist ! j)" for j
  proof (cases "j = length hist \<or> length hist = j + window")
    case True
    then have "j mod window = length hist mod window" by auto
    then show ?thesis using False by auto
  next
    case neither: False
    then show ?thesis by (auto simp: nth_append)
  qed
  then show ?thesis using False by (simp add: ring_bit_def)
qed

lemma signed_count_append:
  "signed_count (hist @ [b]) = signed_count hist - of_bool (ring_bit hist (length hist mod window)) + of_bool b"
proof -
  obtain n where n: "window = Suc n" using window_pos(1) by (cases window) auto
  have new: "signed_count (hist @ [b]) = int (length (filter (\<lambda>b. b) (take n (rev hist)))) + of_bool b"
    by (simp add: signed_count_def n)
  have "take window (rev hist) = take n (rev hist) @ (if window \<le> length hist then [hist ! (length hist - window)] else [])"
    by (auto simp: n take_Suc_conv_app_nth rev_nth)
  then have "signed_count hist = int (length (filter (\<lambda>b. b) (take n (rev hist)))) + of_bool (ring_bit hist (length hist mod window))"
    by (simp add: signed_count_def ring_bit_old)
  with new show ?thesis by simp
qed

lemma signed_count_range: "0 \<le> signed_count hist" "signed_count hist \<le> SignedBlocksWindow"
proof -
  have "length (filter (\<lambda>b. b) (take window (rev hist))) \<le> window"
    by (rule order_trans [OF length_filter_le]) simp
  then show "0 \<le> signed_count hist" "signed_count hist \<le> SignedBlocksWindow"
    using window_pos by (simp_all add: signed_count_def)
qed

lemma few_signed:
  assumes "\<forall>b \<in> set (take (window div 2 + 1) (rev hist)). \<not> b"
  shows "signed_count hist < MinSignedPerWindow"
proof -
  let ?m = "window div 2 + 1"
  have m: "?m \<le> window" "MinSignedPerWindow = int (window - ?m) + 1" by (simp_all add: SignedBlocksWindow_def MinSignedPerWindow_def quo_def)
  have "take window (rev hist) = take ?m (rev hist) @ take (window - ?m) (drop ?m (rev hist))"
    using take_add [of ?m "window - ?m" "rev hist"] m(1) by simp
  moreover have "filter (\<lambda>b. b) (take ?m (rev hist)) = []" using assms by (simp add: filter_empty_conv)
  ultimately have "length (filter (\<lambda>b. b) (take window (rev hist))) \<le> window - ?m"
    by (simp only: filter_append append_Nil) (rule order_trans [OF length_filter_le], simp)
  then show ?thesis using m(2) by (simp add: signed_count_def)
qed

lemma length_big_endian [simp]: "length (big_endian n x) = n"
  by (induction n arbitrary: x) auto

lemma big_endian_inj:
  "big_endian n x = big_endian n y \<Longrightarrow> 0 \<le> x \<Longrightarrow> x < 256 ^ n \<Longrightarrow> 0 \<le> y \<Longrightarrow> y < 256 ^ n \<Longrightarrow> x = y"
proof (induction n arbitrary: x y)
  case (Suc n)
  have c: "char_of (nat (x mod 256)) = (char_of (nat (y mod 256)) :: char)" and q: "big_endian n (x div 256) = big_endian n (y div 256)"
    using Suc.prems(1) by simp_all
  have "nat (x mod 256) = of_char (char_of (nat (x mod 256)) :: char)" "nat (y mod 256) = of_char (char_of (nat (y mod 256)) :: char)"
    by (simp_all add: nat_mod_distrib [symmetric] nat_less_iff)
  with c have "nat (x mod 256) = nat (y mod 256)" by metis
  then have "x mod 256 = y mod 256" by (simp add: eq_nat_nat_iff)
  moreover have "x div 256 = y div 256"
    by (rule Suc.IH [OF q]) (use Suc.prems in \<open>auto simp: div_less_iff_less_mult\<close>)
  ultimately show ?case by (metis mult_div_mod_eq)
qed simp

lemma bit_key_inj:
  assumes "GetValidatorSigningBitArrayKey a (int i) = GetValidatorSigningBitArrayKey b (int j)" and "i < window" and "j < window"
  shows "a = b \<and> i = j"
proof -
  have "a @ little_endian64 (int i) = b @ little_endian64 (int j)" using assms(1) by (simp add: GetValidatorSigningBitArrayKey_def)
  then have ab: "a = b" and "little_endian64 (int i) = little_endian64 (int j)"
    by (simp_all add: little_endian64_def)
  then have "big_endian 8 (int i) = big_endian 8 (int j)"
    using assms(2,3) by (simp add: little_endian64_def SignedBlocksWindow_def)
  then have "int i = int j" using assms(2,3) by (intro big_endian_inj [of 8]) (simp_all add: SignedBlocksWindow_def)
  with ab show ?thesis by simp
qed

lemma signing_keys_differ: "GetValidatorSigningInfoKey a \<noteq> GetValidatorSigningBitArrayKey b i"
  by (simp add: GetValidatorSigningInfoKey_def GetValidatorSigningBitArrayKey_def)

text \<open>The operations on the signing record, as reads and writes of these views.\<close>

lemma getValidatorSigningInfo_Val:
  "getValidatorSigningInfo G a w = (Val i, t) \<Longrightarrow> i = stored_info G w a \<and> w_stores t = w_stores w"
  by (auto simp: getValidatorSigningInfo_def stored_info_def run_iffs dest!: gas_Get_Val)

lemma getValidatorSigningBitArray_Val:
  "getValidatorSigningBitArray G a i w = (Val b, t) \<Longrightarrow> stored_bit G w a i = Some b \<and> w_stores t = w_stores w"
  by (auto simp: getValidatorSigningBitArray_def stored_bit_def run_iffs dest!: gas_Get_Val)

lemma signing_views_cong:
  assumes "w_stores t (sl_key G) = w_stores w (sl_key G)"
  shows "stored_info G t = stored_info G w" and "stored_bit G t = stored_bit G w"
  using assms by (simp_all add: fun_eq_iff stored_info_def stored_bit_def)

text \<open>
  The contract of the module: what its codec does, and that the set of validators keeps to the
  stores \<open>A\<close>, which the store of the module is not among.
\<close>

locale slashing =
  fixes G :: slash_env and V :: validator_set and A :: "string set"
  assumes dec_info: "sl_decInfo G (sl_encInfo G info) = Some info"
    and dec_bool: "sl_decBool G (sl_encBool G b) = Some b"
    and own: "sl_key G \<notin> A"
    and reads_Validator: "reads (vs_Validator V a)"
    and confined_vs: "confined A (vs_Slash V ctx pk h n f)" "confined A (vs_Revoke V ctx pk)" "confined A (vs_Unrevoke V ctx pk)"
begin

lemma setValidatorSigningInfo_Val:
  assumes "setValidatorSigningInfo G a info w = (Val u, t)"
  shows "stored_info G t = (stored_info G w)(a \<mapsto> info)" and "stored_bit G t = stored_bit G w"
    and "s \<noteq> sl_key G \<Longrightarrow> w_stores t s = w_stores w s"
  using assms dec_info signing_keys_differ
  by (auto simp: setValidatorSigningInfo_def stored_info_def stored_bit_def fun_eq_iff GetValidatorSigningInfoKey_def
      GetValidatorSigningBitArrayKey_def dest!: gas_Set_Val)

lemma setValidatorSigningBitArray_Val:
  assumes "setValidatorSigningBitArray G a (int i) b w = (Val u, t)" and "i < window"
  shows "stored_info G t = stored_info G w" and "j < window \<Longrightarrow> stored_bit G t a (int j) = (if i = j then Some b else stored_bit G w a (int j))"
    and "s \<noteq> sl_key G \<Longrightarrow> w_stores t s = w_stores w s"
  using assms dec_bool signing_keys_differ bit_key_inj [of a i a j]
  by (auto simp: setValidatorSigningBitArray_def stored_info_def stored_bit_def fun_eq_iff GetValidatorSigningInfoKey_def
      GetValidatorSigningBitArrayKey_def dest!: gas_Set_Val)

text \<open>Recording the bit of one block in the ring and in the counter.\<close>

lemma record_bit:
  assumes bits: "\<forall>i < window. stored_bit G w a (int i) = Some (ring_bit hist i)"
    and prev: "stored_bit G w a (int (length hist mod window)) = Some previous"
    and info: "SignedBlocksCounter info = signed_count hist"
    and run: "(if previous = present then ret info
       else if previous \<and> \<not> present then
         bnd (setValidatorSigningBitArray G a (int (length hist mod window)) False) (\<lambda>_.
         ret (info\<lparr>SignedBlocksCounter := wrap64 (SignedBlocksCounter info - 1)\<rparr>))
       else
         bnd (setValidatorSigningBitArray G a (int (length hist mod window)) True) (\<lambda>_.
         ret (info\<lparr>SignedBlocksCounter := wrap64 (SignedBlocksCounter info + 1)\<rparr>))) w = (Val info', t)"
  shows "info' = info\<lparr>SignedBlocksCounter := signed_count (hist @ [present])\<rparr>"
    and "\<forall>i < window. stored_bit G t a (int i) = Some (ring_bit (hist @ [present]) i)"
    and "stored_info G t = stored_info G w" and "\<forall>s. s \<noteq> sl_key G \<longrightarrow> w_stores t s = w_stores w s"
proof -
  let ?k = "length hist mod window"
  have k: "?k < window" using window_pos(1) by simp
  have previous: "previous = ring_bit hist ?k" using bits prev k by simp
  have count: "signed_count (hist @ [present]) = signed_count hist - of_bool previous + of_bool present"
    by (simp add: signed_count_append previous)
  have small: "wrap64 (signed_count (hist @ [present])) = signed_count (hist @ [present])"
    using signed_count_range [of "hist @ [present]"] by (intro wrap64_id_range) (simp_all add: SignedBlocksWindow_def)
  consider "previous = present" "info' = info" "t = w" | b where "previous \<noteq> present" "b = present"
      "\<exists>u. setValidatorSigningBitArray G a (int ?k) b w = (Val u, t)" "info' = info\<lparr>SignedBlocksCounter := signed_count (hist @ [present])\<rparr>"
    using run count small info by (cases previous; cases present) (auto simp: run_iffs)
  then have "info' = info\<lparr>SignedBlocksCounter := signed_count (hist @ [present])\<rparr>
      \<and> (\<forall>i < window. stored_bit G t a (int i) = Some (ring_bit (hist @ [present]) i))
      \<and> stored_info G t = stored_info G w \<and> (\<forall>s. s \<noteq> sl_key G \<longrightarrow> w_stores t s = w_stores w s)"
  proof cases
    case 1
    then show ?thesis using info count bits previous by (simp add: ring_bit_append)
  next
    case 2
    then obtain u where u: "setValidatorSigningBitArray G a (int ?k) b w = (Val u, t)" by blast
    note set_facts = setValidatorSigningBitArray_Val [OF u k]
    have "\<forall>i < window. stored_bit G t a (int i) = Some (ring_bit (hist @ [present]) i)"
      using set_facts(2) bits 2(2) by (simp add: ring_bit_append)
    then show ?thesis using 2(4) set_facts(1,3) by simp
  qed
  then show "info' = info\<lparr>SignedBlocksCounter := signed_count (hist @ [present])\<rparr>"
    and "\<forall>i < window. stored_bit G t a (int i) = Some (ring_bit (hist @ [present]) i)"
    and "stored_info G t = stored_info G w" and "\<forall>s. s \<noteq> sl_key G \<longrightarrow> w_stores t s = w_stores w s"
    by blast+
qed

lemma vs_keeps:
  assumes "vs_Slash V ctx pk h n f w1 = (Val x, w2)" and "vs_Revoke V ctx pk w2 = (Val y, w3)"
  shows "stored_info G w3 = stored_info G w1" and "stored_bit G w3 = stored_bit G w1"
proof -
  have "w_stores w3 (sl_key G) = w_stores w1 (sl_key G)"
    using confinedD [OF confined_vs(1) assms(1) own] confinedD [OF confined_vs(2) assms(2) own] by simp
  from signing_views_cong [of w3 G w1, OF this] show "stored_info G w3 = stored_info G w1" and "stored_bit G w3 = stored_bit G w1" .
qed

lemma punish_step:
  assumes run: "bnd (if down then
      bnd (vs_Slash V ctx pk (ctx_BlockHeight ctx) n SlashFractionDowntime) (\<lambda>_.
      bnd (vs_Revoke V ctx pk) (\<lambda>_. ret (info\<lparr>JailedUntil := until\<rparr>)))
    else ret info) (\<lambda>signInfo. setValidatorSigningInfo G a signInfo) w = (Val u, t)"
  shows "stored_info G t = (stored_info G w)(a \<mapsto> if down then info\<lparr>JailedUntil := until\<rparr> else info)"
    and "stored_bit G t = stored_bit G w"
    and "if down
      then \<exists>u2 u3. vs_Slash V ctx pk (ctx_BlockHeight ctx) n SlashFractionDowntime w = (Val (), u2) \<and> vs_Revoke V ctx pk u2 = (Val (), u3)
        \<and> (\<forall>s. s \<noteq> sl_key G \<longrightarrow> w_stores t s = w_stores u3 s)
      else (\<forall>s. s \<noteq> sl_key G \<longrightarrow> w_stores t s = w_stores w s)"
proof -
  obtain info' w1 where step: "(if down then
      bnd (vs_Slash V ctx pk (ctx_BlockHeight ctx) n SlashFractionDowntime) (\<lambda>_.
      bnd (vs_Revoke V ctx pk) (\<lambda>_. ret (info\<lparr>JailedUntil := until\<rparr>)))
    else ret info) w = (Val info', w1)" and put: "setValidatorSigningInfo G a info' w1 = (Val u, t)"
    using run unfolding bnd_Val_iff [of "if down then _ else _"] by blast
  note put_facts = setValidatorSigningInfo_Val [OF put]
  have views: "info' = (if down then info\<lparr>JailedUntil := until\<rparr> else info)"
      "stored_info G w1 = stored_info G w" "stored_bit G w1 = stored_bit G w"
    using step by (auto simp: run_iffs vs_keeps split: if_splits)
  then show "stored_info G t = (stored_info G w)(a \<mapsto> if down then info\<lparr>JailedUntil := until\<rparr> else info)"
    and "stored_bit G t = stored_bit G w" using put_facts by auto
  show "if down
      then \<exists>u2 u3. vs_Slash V ctx pk (ctx_BlockHeight ctx) n SlashFractionDowntime w = (Val (), u2) \<and> vs_Revoke V ctx pk u2 = (Val (), u3)
        \<and> (\<forall>s. s \<noteq> sl_key G \<longrightarrow> w_stores t s = w_stores u3 s)
      else (\<forall>s. s \<noteq> sl_key G \<longrightarrow> w_stores t s = w_stores w s)"
    using step put_facts(3) by (auto simp: run_iffs split: if_splits)
qed

lemma signature_steps:
  assumes track: "tracks G (ctx_BlockHeight ctx) a start jailed hist w" and a: "a = sl_pkAddress G pk"
    and range: "int (length hist) < 2 ^ 62" "0 \<le> start" "start < 2 ^ 62"
    and run: "handleValidatorSignature G V ctx pk n present w = (Val u, t)"
  obtains w3 where "\<forall>i < window. stored_bit G w3 a (int i) = Some (ring_bit (hist @ [present]) i)"
    and "\<forall>s. s \<noteq> sl_key G \<longrightarrow> w_stores w3 s = w_stores w s"
    and "bnd (if downtime ctx start (hist @ [present]) then
        bnd (vs_Slash V ctx pk (ctx_BlockHeight ctx) n SlashFractionDowntime) (\<lambda>_.
        bnd (vs_Revoke V ctx pk) (\<lambda>_. ret ((NewValidatorSigningInfo start (int (length (hist @ [present]))) jailed
          (signed_count (hist @ [present])))\<lparr>JailedUntil := wrap64 (hdr_Time (ctx_BlockHeader ctx) + DowntimeUnbondDuration)\<rparr>)))
      else ret (NewValidatorSigningInfo start (int (length (hist @ [present]))) jailed (signed_count (hist @ [present]))))
      (\<lambda>signInfo. setValidatorSigningInfo G a signInfo) w3 = (Val u, t)"
proof -
  let ?k = "length hist mod window"
  let ?info1 = "NewValidatorSigningInfo start (int (length (hist @ [present]))) jailed (signed_count hist)"
  have info: "(case stored_info G w a of None \<Rightarrow> NewValidatorSigningInfo (ctx_BlockHeight ctx) 0 0 0 | Some info \<Rightarrow> info)
      = NewValidatorSigningInfo start (int (length hist)) jailed (signed_count hist)"
    and bits: "\<forall>i < window. stored_bit G w a (int i) = Some (ring_bit hist i)" using track by (simp_all add: tracks_def)
  have offset: "wrap64 (int (length hist) + 1) = int (length (hist @ [present]))" "wrap64 (start + SignedBlocksWindow) = start + SignedBlocksWindow"
    using range by (simp_all add: wrap64_id_range SignedBlocksWindow_def)
  obtain i w1 previous w2 info' w3 where get: "getValidatorSigningInfo G a w = (Val i, w1)"
    and prev: "getValidatorSigningBitArray G a (int ?k) w1 = (Val previous, w2)"
    and bit: "(if previous = present then ret ?info1
       else if previous \<and> \<not> present then
         bnd (setValidatorSigningBitArray G a (int ?k) False) (\<lambda>_.
         ret (?info1\<lparr>SignedBlocksCounter := wrap64 (SignedBlocksCounter ?info1 - 1)\<rparr>))
       else
         bnd (setValidatorSigningBitArray G a (int ?k) True) (\<lambda>_.
         ret (?info1\<lparr>SignedBlocksCounter := wrap64 (SignedBlocksCounter ?info1 + 1)\<rparr>))) w2 = (Val info', w3)"
    and rest: "bnd (if ctx_BlockHeight ctx > wrap64 (StartHeight info' + SignedBlocksWindow) \<and> SignedBlocksCounter info' < MinSignedPerWindow then
             bnd (vs_Slash V ctx pk (ctx_BlockHeight ctx) n SlashFractionDowntime) (\<lambda>_.
             bnd (vs_Revoke V ctx pk) (\<lambda>_.
             ret (info'\<lparr>JailedUntil := wrap64 (hdr_Time (ctx_BlockHeader ctx) + DowntimeUnbondDuration)\<rparr>)))
           else ret info') (\<lambda>signInfo. setValidatorSigningInfo G a signInfo) w3 = (Val u, t)"
  proof -
    obtain i w1 where get: "getValidatorSigningInfo G a w = (Val i, w1)"
      using run by (auto simp: handleValidatorSignature_def Let_def a bnd_Val_iff)
    have i: "(case i of None \<Rightarrow> NewValidatorSigningInfo (ctx_BlockHeight ctx) 0 0 0 | Some info \<Rightarrow> info)
        = NewValidatorSigningInfo start (int (length hist)) jailed (signed_count hist)"
      using getValidatorSigningInfo_Val [OF get] info by simp
    have first: "IndexOffset (NewValidatorSigningInfo x y z c) = y"
      "(NewValidatorSigningInfo x y z c)\<lparr>IndexOffset := y'\<rparr> = NewValidatorSigningInfo x y' z c" for x y y' z c
      by (simp_all add: NewValidatorSigningInfo_def)
    show thesis using run unfolding handleValidatorSignature_def Let_def a [symmetric] bnd_run(1) [of "getValidatorSigningInfo G a", OF get]
      unfolding i first offset(1) window_rem
      unfolding bnd_Val_iff [of "getValidatorSigningBitArray G a x" for x] bnd_Val_iff [of "if x = present then _ else _" for x]
      by (elim exE conjE) (rule that [OF get])
  qed
  have w2: "w_stores w2 = w_stores w" "stored_bit G w a (int ?k) = Some previous"
    using getValidatorSigningInfo_Val [OF get] getValidatorSigningBitArray_Val [OF prev] signing_views_cong [of w1 G w] by auto
  have views: "stored_bit G w2 = stored_bit G w" using signing_views_cong [of w2 G w] w2(1) by simp
  have "SignedBlocksCounter ?info1 = signed_count hist" by (simp add: NewValidatorSigningInfo_def)
  note bit_facts = record_bit [OF bits [folded views] w2(2) [folded views] this bit]
  have "info' = NewValidatorSigningInfo start (int (length (hist @ [present]))) jailed (signed_count (hist @ [present]))"
    using bit_facts(1) by (simp add: NewValidatorSigningInfo_def)
  moreover from this have "StartHeight info' = start" "SignedBlocksCounter info' = signed_count (hist @ [present])"
    by (simp_all add: NewValidatorSigningInfo_def)
  ultimately show thesis
    using that [OF bit_facts(2)] rest bit_facts(4) w2(1) by (simp only: offset(2) downtime_def)
qed

lemma signature_recorded:
  assumes "tracks G (ctx_BlockHeight ctx) (sl_pkAddress G pk) start jailed hist w"
    and "int (length hist) < 2 ^ 62" and "0 \<le> start" and "start < 2 ^ 62"
    and "handleValidatorSignature G V ctx pk n present w = (Val u, t)"
  shows "stored_info G t (sl_pkAddress G pk) \<noteq> None"
    and "tracks G h (sl_pkAddress G pk) start
       (if downtime ctx start (hist @ [present]) then wrap64 (hdr_Time (ctx_BlockHeader ctx) + DowntimeUnbondDuration) else jailed)
       (hist @ [present]) t"
    and "if downtime ctx start (hist @ [present])
      then \<exists>u1 u2 u3. vs_Slash V ctx pk (ctx_BlockHeight ctx) n SlashFractionDowntime u1 = (Val (), u2) \<and> vs_Revoke V ctx pk u2 = (Val (), u3)
        \<and> (\<forall>s. s \<noteq> sl_key G \<longrightarrow> w_stores u1 s = w_stores w s \<and> w_stores t s = w_stores u3 s)
      else (\<forall>s. s \<noteq> sl_key G \<longrightarrow> w_stores t s = w_stores w s)"
proof -
  obtain w3 where bits: "\<forall>i < window. stored_bit G w3 (sl_pkAddress G pk) (int i) = Some (ring_bit (hist @ [present]) i)"
    and same: "\<forall>s. s \<noteq> sl_key G \<longrightarrow> w_stores w3 s = w_stores w s"
    and run: "bnd (if downtime ctx start (hist @ [present]) then
        bnd (vs_Slash V ctx pk (ctx_BlockHeight ctx) n SlashFractionDowntime) (\<lambda>_.
        bnd (vs_Revoke V ctx pk) (\<lambda>_. ret ((NewValidatorSigningInfo start (int (length (hist @ [present]))) jailed
          (signed_count (hist @ [present])))\<lparr>JailedUntil := wrap64 (hdr_Time (ctx_BlockHeader ctx) + DowntimeUnbondDuration)\<rparr>)))
      else ret (NewValidatorSigningInfo start (int (length (hist @ [present]))) jailed (signed_count (hist @ [present]))))
      (\<lambda>signInfo. setValidatorSigningInfo G (sl_pkAddress G pk) signInfo) w3 = (Val u, t)"
    by (rule signature_steps [OF assms(1) refl assms(2-5)])
  note step = punish_step [OF run]
  show "stored_info G t (sl_pkAddress G pk) \<noteq> None" using step(1) by simp
  show "tracks G h (sl_pkAddress G pk) start
       (if downtime ctx start (hist @ [present]) then wrap64 (hdr_Time (ctx_BlockHeader ctx) + DowntimeUnbondDuration) else jailed)
       (hist @ [present]) t"
    using step(1,2) bits by (auto simp: tracks_def NewValidatorSigningInfo_def)
  show "if downtime ctx start (hist @ [present])
      then \<exists>u1 u2 u3. vs_Slash V ctx pk (ctx_BlockHeight ctx) n SlashFractionDowntime u1 = (Val (), u2) \<and> vs_Revoke V ctx pk u2 = (Val (), u3)
        \<and> (\<forall>s. s \<noteq> sl_key G \<longrightarrow> w_stores u1 s = w_stores w s \<and> w_stores t s = w_stores u3 s)
      else (\<forall>s. s \<noteq> sl_key G \<longrightarrow> w_stores t s = w_stores w s)"
    using step(3) same by (cases "downtime ctx start (hist @ [present])") (simp_all, blast)
qed

text \<open>A sequence of missed blocks.\<close>

lemma missed_blocks:
  assumes "tracks G h (sl_pkAddress G pk) start jailed hist w" and "stored_info G w (sl_pkAddress G pk) \<noteq> None"
    and "int (length hist + length cs) < 2 ^ 62" and "0 \<le> start" and "start < 2 ^ 62" and "cs \<noteq> []"
    and "iterM cs (\<lambda>ctx. handleValidatorSignature G V ctx pk n False) w = (Val u, t)"
  shows "\<exists>jailed'. tracks G h (sl_pkAddress G pk) start jailed' (hist @ replicate (length cs) False) t
    \<and> stored_info G t (sl_pkAddress G pk) \<noteq> None
    \<and> (downtime (last cs) start (hist @ replicate (length cs) False) \<longrightarrow>
       jailed' = wrap64 (hdr_Time (ctx_BlockHeader (last cs)) + DowntimeUnbondDuration)
       \<and> (\<exists>u0 u1 u2 u3. iterM (butlast cs) (\<lambda>ctx. handleValidatorSignature G V ctx pk n False) w = (Val (), u0)
          \<and> vs_Slash V (last cs) pk (ctx_BlockHeight (last cs)) n SlashFractionDowntime u1 = (Val (), u2)
          \<and> vs_Revoke V (last cs) pk u2 = (Val (), u3)
          \<and> (\<forall>s. s \<noteq> sl_key G \<longrightarrow> w_stores u1 s = w_stores u0 s \<and> w_stores t s = w_stores u3 s)))"
  using assms
proof (induction cs arbitrary: jailed hist w)
  case (Cons ctx cs)
  obtain w1 where step: "handleValidatorSignature G V ctx pk n False w = (Val (), w1)"
    and rest: "iterM cs (\<lambda>ctx. handleValidatorSignature G V ctx pk n False) w1 = (Val u, t)"
    using Cons.prems(7) by (auto simp: bnd_Val_iff)
  have "tracks G (ctx_BlockHeight ctx) (sl_pkAddress G pk) start jailed hist w"
    using Cons.prems(1,2) by (auto simp: tracks_def)
  note spec = signature_recorded [OF this _ Cons.prems(4,5) step]
  obtain jailed' where w1: "tracks G h (sl_pkAddress G pk) start jailed' (hist @ [False]) w1"
    and jail: "downtime ctx start (hist @ [False]) \<longrightarrow> jailed' = wrap64 (hdr_Time (ctx_BlockHeader ctx) + DowntimeUnbondDuration)"
    and some: "stored_info G w1 (sl_pkAddress G pk) \<noteq> None"
    using spec(1) spec(2) [of h] Cons.prems(3) by (auto split: if_splits)
  show ?case
  proof (cases "cs = []")
    case True
    then have t: "t = w1" using rest by (simp add: ret_iff)
    then show ?thesis using t True w1 jail some spec(3) Cons.prems(3) by (auto simp: ret_run)
  next
    case False
    have later: "iterM (butlast (ctx # cs)) (\<lambda>ctx. handleValidatorSignature G V ctx pk n False) w
        = iterM (butlast cs) (\<lambda>ctx. handleValidatorSignature G V ctx pk n False) w1"
      using False step by (simp add: bnd_run)
    show ?thesis using Cons.IH [OF w1 some _ Cons.prems(4,5) False rest] Cons.prems(3) False unfolding later
      by (simp add: replicate_append_same)
  qed
qed simp

lemma handleMsgUnrevoke_OK:
  assumes run: "handleMsgUnrevoke G V ctx msg w = (Val res, t)" and ok: "Result_IsOK res" and deliver: "\<not> ctx_IsCheckTx ctx"
  shows "\<exists>v info u1 u2. vs_Validator V (raw (mu_ValidatorAddr msg)) w = (Val (Some v), u1)
    \<and> stored_info G w (sl_pkAddress G (val_PubKey v)) = Some info \<and> Revoked v
    \<and> JailedUntil info \<le> hdr_Time (ctx_BlockHeader ctx)
    \<and> vs_Unrevoke V ctx (val_PubKey v) u2 = (Val (), t)
    \<and> stored_info G t = (stored_info G w)(sl_pkAddress G (val_PubKey v) \<mapsto> info\<lparr>StartHeight := ctx_BlockHeight ctx\<rparr>)"
proof -
  have errs: "\<not> Result_IsOK (Error_Result (ErrNoValidatorForAddress cs))" "\<not> Result_IsOK (Error_Result (ErrValidatorNotRevoked cs))"
    "\<not> Result_IsOK (Error_Result (ErrValidatorJailed cs))" for cs
    by (rule Error_Result_not_OK, simp add: slashing_err_defs NewError_def newError_def)+
  obtain v w1 info w2 w3 where val: "vs_Validator V (raw (mu_ValidatorAddr msg)) w = (Val (Some v), w1)" "Revoked v"
    and get: "getValidatorSigningInfo G (sl_pkAddress G (val_PubKey v)) w1 = (Val (Some info), w2)"
    and jail: "JailedUntil info \<le> hdr_Time (ctx_BlockHeader ctx)"
    and put: "setValidatorSigningInfo G (sl_pkAddress G (val_PubKey v)) (info\<lparr>StartHeight := ctx_BlockHeight ctx\<rparr>) w2 = (Val (), w3)"
    and un: "vs_Unrevoke V ctx (val_PubKey v) w3 = (Val (), t)"
    using run ok deliver errs by (auto simp: handleMsgUnrevoke_def Let_def run_iffs not_less)
  have w: "w_stores w2 = w_stores w" "stored_info G w (sl_pkAddress G (val_PubKey v)) = Some info"
    using readsD [OF reads_Validator val(1)] getValidatorSigningInfo_Val [OF get] signing_views_cong [of w1 G w] by auto
  have "stored_info G t = stored_info G w3"
    using signing_views_cong [of t G w3] confinedD [OF confined_vs(3) un own] by simp
  then have "stored_info G t = (stored_info G w)(sl_pkAddress G (val_PubKey v) \<mapsto> info\<lparr>StartHeight := ctx_BlockHeight ctx\<rparr>)"
    using setValidatorSigningInfo_Val(1) [OF put] signing_views_cong(1) [of w2 G w] w(1) by simp
  then show ?thesis using w(2) val jail un by blast
qed

end

section \<open>The set of validators of the staking keeper\<close>

definition stake_validator_set :: "stake_env \<Rightarrow> validator_set" where
  "stake_validator_set S =
     \<lparr>vs_Validator = keeper_Validator S, vs_Slash = Slash S, vs_Revoke = Revoke S, vs_Unrevoke = Unrevoke S\<rparr>"

definition net_encInfo :: "ValidatorSigningInfo \<Rightarrow> bytes" where
  "net_encInfo i = enc_fields [enc_int (StartHeight i), enc_int (IndexOffset i), enc_int (JailedUntil i), enc_int (SignedBlocksCounter i)]"

definition net_decInfo :: "bytes \<Rightarrow> ValidatorSigningInfo option" where
  "net_decInfo b = (case dec_fields b of
     Some [a, i, j, c] \<Rightarrow> (case (dec_int a, dec_int i, dec_int j, dec_int c) of
       (Some a, Some i, Some j, Some c) \<Rightarrow> Some (NewValidatorSigningInfo a i j c) | _ \<Rightarrow> None)
   | _ \<Rightarrow> None)"

definition net_slash_env :: slash_env where
  "net_slash_env = \<lparr>sl_key = ''slashing'', sl_codespace = slashing_DefaultCodespace, sl_encInfo = net_encInfo, sl_decInfo = net_decInfo,
     sl_encBool = enc_bool, sl_decBool = dec_bool, sl_pkAddress = (\<lambda>pk. pk), sl_PB2TM = Some,
     sl_duplicateVote = ''duplicate/vote'', sl_addrString = (\<lambda>a. a)\<rparr>"

lemma dec_enc_info: "net_decInfo (net_encInfo i) = Some i"
  by (simp add: net_decInfo_def net_encInfo_def NewValidatorSigningInfo_def)

interpretation net_slashing: slashing net_slash_env "stake_validator_set net_stake_env" "{''stake''}"
proof unfold_locales
  show "reads (vs_Validator (stake_validator_set net_stake_env) a)" for a
    by (simp add: stake_validator_set_def keeper_Validator_def reads_stake)
  have "sk_key net_stake_env \<in> {''stake''}" by (simp add: env_runs)
  note confined_Slash [OF this]
  then show "confined {''stake''} (vs_Slash (stake_validator_set net_stake_env) ctx pk h n f)"
    "confined {''stake''} (vs_Revoke (stake_validator_set net_stake_env) ctx pk)"
    "confined {''stake''} (vs_Unrevoke (stake_validator_set net_stake_env) ctx pk)" for ctx pk h n f
    by (simp_all add: stake_validator_set_def)
qed (simp_all add: net_slash_env_def dec_enc_info)

section \<open>Properties\<close>

text \<open>
  C6: the ring of bits and the counter that the keeper stores are a refinement of the history of
  the validator.  Handling the signature of a block appends to the history: the counter is the
  number of blocks signed in the last window, the ring holds exactly these blocks, and the
  validator is slashed, revoked and jailed exactly when it is past its first window and the
  number is below the minimum; otherwise no other store changes.
\<close>

theorem signature_window:
  assumes "slashing G V A" and "tracks G (ctx_BlockHeight ctx) (sl_pkAddress G pk) start jailed hist w"
    and "int (length hist) < 2 ^ 62" and "0 \<le> start" and "start < 2 ^ 62"
    and "handleValidatorSignature G V ctx pk n present w = (Val u, t)"
  shows "tracks G h (sl_pkAddress G pk) start
       (if downtime ctx start (hist @ [present]) then wrap64 (hdr_Time (ctx_BlockHeader ctx) + DowntimeUnbondDuration) else jailed)
       (hist @ [present]) t
    \<and> (if downtime ctx start (hist @ [present])
      then \<exists>u1 u2 u3. vs_Slash V ctx pk (ctx_BlockHeight ctx) n SlashFractionDowntime u1 = (Val (), u2) \<and> vs_Revoke V ctx pk u2 = (Val (), u3)
        \<and> (\<forall>s. s \<noteq> sl_key G \<longrightarrow> w_stores u1 s = w_stores w s \<and> w_stores t s = w_stores u3 s)
      else (\<forall>s. s \<noteq> sl_key G \<longrightarrow> w_stores t s = w_stores w s))"
  using slashing.signature_recorded(2,3) [OF assms] by blast

text \<open>
  C37: a validator stays revoked while it is jailed: when the message to unrevoke is delivered and
  succeeds, the time of the block has reached the end of the jail of the validator's signing
  record, the validator was revoked, and its window starts anew at this height.
\<close>

theorem unrevoke_after_jail:
  assumes "slashing G V A" and "handleMsgUnrevoke G V ctx msg w = (Val res, t)" and "Result_IsOK res" and "\<not> ctx_IsCheckTx ctx"
  shows "\<exists>v info u1 u2. vs_Validator V (raw (mu_ValidatorAddr msg)) w = (Val (Some v), u1)
    \<and> stored_info G w (sl_pkAddress G (val_PubKey v)) = Some info \<and> Revoked v
    \<and> JailedUntil info \<le> hdr_Time (ctx_BlockHeader ctx)
    \<and> vs_Unrevoke V ctx (val_PubKey v) u2 = (Val (), t)
    \<and> stored_info G t = (stored_info G w)(sl_pkAddress G (val_PubKey v) \<mapsto> info\<lparr>StartHeight := ctx_BlockHeight ctx\<rparr>)"
  by (rule slashing.handleMsgUnrevoke_OK [OF assms])

text \<open>The validators of the example, with the index by public key and a signing record.\<close>

definition ex_slash_stores :: "bytes \<Rightarrow> Validator \<Rightarrow> ValidatorSigningInfo \<Rightarrow> string \<Rightarrow> kvmap" where
  "ex_slash_stores a v info = ex_stores
     (''stake'' := kv_Set (kv_Set (ex_stores ''stake'') (GetValidatorKey a) (net_encVal v)) (GetValidatorByPubKeyIndexKey net_stake_env a) a,
      ''slashing'' := [(GetValidatorSigningInfoKey a, net_encInfo info)])"

definition ex_slash :: world where
  "ex_slash = free (ex_slash_stores ''x'' (ex_val ''x'' (NewBondedShares 10)) (NewValidatorSigningInfo 0 0 0 0)) 0"

definition ex_late :: Context where
  "ex_late = NewContext \<lparr>hdr_ChainID = ''chain'', hdr_Height = 50000, hdr_Time = 1000\<rparr> False"

lemma slash_env_runs:
  "sl_key net_slash_env = ''slashing''" "sl_encInfo net_slash_env = net_encInfo" "sl_decInfo net_slash_env = net_decInfo"
  "sl_encBool net_slash_env = enc_bool" "sl_decBool net_slash_env = dec_bool" "sl_pkAddress net_slash_env = (\<lambda>pk. pk)"
  "sl_addrString net_slash_env = (\<lambda>a. a)"
  by (simp_all add: net_slash_env_def)

lemmas slash_exec = handleValidatorSignature_def [THEN fun_cong] getValidatorSigningInfo_def [THEN fun_cong]
  setValidatorSigningInfo_def [THEN fun_cong] getValidatorSigningBitArray_def [THEN fun_cong] setValidatorSigningBitArray_def [THEN fun_cong]
  handleMsgUnrevoke_def [THEN fun_cong] stake_validator_set_def keeper_Validator_def [THEN fun_cong] Slash_def [THEN fun_cong]
  Revoke_def [THEN fun_cong] Unrevoke_def [THEN fun_cong] setRevoked_def [THEN fun_cong] GetValidatorByPubKey_def [THEN fun_cong]
  RemovePoolShares_def slash_env_runs dec_enc_info NewValidatorSigningInfo_def GetValidatorSigningInfoKey_def
  GetValidatorSigningBitArrayKey_def ex_slash_def ex_slash_stores_def ex_late_def SignedBlocksWindow_def MinSignedPerWindow_def
  SlashFractionDowntime_def rem_def quo_def
  RoundInt_def NewIntFromBigInt_def NewRatFromInt_def Int_GT_def DowntimeUnbondDuration_def

lemma EvaluateBig_numeral: "EvaluateBig (numeral k) = numeral k"
  using half_even_EvaluateBig [of "numeral k"] half_even_unique [of "numeral k" "EvaluateBig (numeral k)" "numeral k"]
  by (simp add: half_even_def)

lemma ex_slash_run:
  "fst (Slash net_stake_env ex_late ''x'' 50000 200 (1 / 100) ex_slash) = Val ()"
  by (simp add: slash_exec stake_exec EvaluateBig_numeral cong: bnd_cong_weak)

lemma ex_missed_run:
  "fst (handleValidatorSignature net_slash_env (stake_validator_set net_stake_env) ex_late ''x'' 200 False ex_slash) = Val ()"
  by (simp add: slash_exec stake_exec EvaluateBig_numeral cong: bnd_cong_weak)


lemma ex_tracks: "tracks net_slash_env (ctx_BlockHeight ex_late) (sl_pkAddress net_slash_env ''x'') 0 0 [] ex_slash"
  by (simp add: tracks_def stored_info_def stored_bit_def ring_bit_def signed_count_def slash_exec kv_Get_def)

lemma ex_downtime: "downtime ex_late 0 ([] @ [False])"
  by (simp add: downtime_def signed_count_def slash_exec NewContext_def)

theorem signature_window_witness:
  "\<exists>t. tracks net_slash_env 0 ''x'' 0 1300 [False] t \<and> (\<exists>u u'. Slash net_stake_env ex_late ''x'' 50000 200 (1 / 100) u = (Val (), u'))"
proof -
  obtain t where "handleValidatorSignature net_slash_env (stake_validator_set net_stake_env) ex_late ''x'' 200 False ex_slash = (Val (), t)"
    using ex_missed_run by (metis prod.collapse)
  from signature_window [OF net_slashing.slashing_axioms ex_tracks _ _ _ this, where h = 0] ex_downtime show ?thesis
    by (auto simp: slash_env_runs ex_late_def NewContext_def DowntimeUnbondDuration_def wrap64_def stake_validator_set_def SlashFractionDowntime_def)
qed

definition ex_revoked :: world where
  "ex_revoked = free (ex_slash_stores ''y'' ((ex_val ''y'' (NewUnbondedShares 5))\<lparr>Revoked := True\<rparr>) (NewValidatorSigningInfo 0 0 900 0)) 0"

definition ex_unrevoke :: MsgUnrevoke where
  "ex_unrevoke = \<lparr>mu_ValidatorAddr = Some ''y''\<rparr>"

lemma ex_unrevoke_run:
  "\<exists>res t. handleMsgUnrevoke net_slash_env (stake_validator_set net_stake_env) ex_late ex_unrevoke ex_revoked = (Val res, t) \<and> Result_IsOK res"
  by (simp add: slash_exec ex_revoked_def ex_unrevoke_def stake_exec EvaluateBig_numeral WRSPCodeOK_def cong: bnd_cong_weak)

theorem unrevoke_after_jail_witness:
  "\<exists>t a info. stored_info net_slash_env t a = Some (info\<lparr>StartHeight := 50000\<rparr>) \<and> JailedUntil info \<le> 1000"
proof -
  obtain res t where "handleMsgUnrevoke net_slash_env (stake_validator_set net_stake_env) ex_late ex_unrevoke ex_revoked = (Val res, t)" "Result_IsOK res"
    using ex_unrevoke_run by blast
  from unrevoke_after_jail [OF net_slashing.slashing_axioms this] obtain a info where "JailedUntil info \<le> 1000"
    "stored_info net_slash_env t = (stored_info net_slash_env ex_revoked)(a \<mapsto> info\<lparr>StartHeight := 50000\<rparr>)"
    by (auto simp: ex_late_def NewContext_def)
  then show ?thesis by (metis fun_upd_same)
qed

text \<open>
  C15: a validator that stops signing is punished.  As soon as it has missed more than half a
  window of blocks in a row (or has never signed), and its first window is over, handling the last of these blocks
  slashes it by the fraction for downtime and revokes it: the other stores are what \<open>Slash\<close> and
  then \<open>Revoke\<close> of the set of validators make of them.  The record says how long it is jailed.
\<close>

theorem downtime_punished:
  assumes "slashing G V A" and "tracks G h (sl_pkAddress G pk) start jailed hist w" and "stored_info G w (sl_pkAddress G pk) \<noteq> None"
    and "int (length hist + length cs) < 2 ^ 62" and "0 \<le> start" and "start < 2 ^ 62"
    and "iterM cs (\<lambda>ctx. handleValidatorSignature G V ctx pk n False) w = (Val u, t)"
    and "cs \<noteq> []" and "nat SignedBlocksWindow div 2 < length cs \<or> True \<notin> set hist" and "start + SignedBlocksWindow < ctx_BlockHeight (last cs)"
  shows "\<exists>info u0 u1 u2 u3. stored_info G t (sl_pkAddress G pk) = Some info
    \<and> JailedUntil info = wrap64 (hdr_Time (ctx_BlockHeader (last cs)) + DowntimeUnbondDuration)
    \<and> iterM (butlast cs) (\<lambda>ctx. handleValidatorSignature G V ctx pk n False) w = (Val (), u0)
    \<and> vs_Slash V (last cs) pk (ctx_BlockHeight (last cs)) n SlashFractionDowntime u1 = (Val (), u2)
    \<and> vs_Revoke V (last cs) pk u2 = (Val (), u3)
    \<and> (\<forall>s. s \<noteq> sl_key G \<longrightarrow> w_stores u1 s = w_stores u0 s \<and> w_stores t s = w_stores u3 s)"
proof -
  have "\<forall>b \<in> set (take (window div 2 + 1) (rev (hist @ replicate (length cs) False))). \<not> b"
    using assms(9)
  proof
    assume "window div 2 < length cs"
    then have "window div 2 + 1 - length cs = 0" by simp
    then show ?thesis by (auto dest: in_set_takeD)
  next
    assume "True \<notin> set hist"
    then show ?thesis by (auto dest!: in_set_takeD)
  qed
  then have down: "downtime (last cs) start (hist @ replicate (length cs) False)"
    using assms(10) few_signed by (simp add: downtime_def)
  obtain jailed' u0 u1 u2 u3 where track: "tracks G h (sl_pkAddress G pk) start jailed' (hist @ replicate (length cs) False) t"
      "stored_info G t (sl_pkAddress G pk) \<noteq> None" "jailed' = wrap64 (hdr_Time (ctx_BlockHeader (last cs)) + DowntimeUnbondDuration)"
    and calls: "iterM (butlast cs) (\<lambda>ctx. handleValidatorSignature G V ctx pk n False) w = (Val (), u0)"
      "vs_Slash V (last cs) pk (ctx_BlockHeight (last cs)) n SlashFractionDowntime u1 = (Val (), u2)"
      "vs_Revoke V (last cs) pk u2 = (Val (), u3)"
      "\<forall>s. s \<noteq> sl_key G \<longrightarrow> w_stores u1 s = w_stores u0 s \<and> w_stores t s = w_stores u3 s"
    using slashing.missed_blocks [OF assms(1-6,8,7)] down by blast
  from track obtain info where "stored_info G t (sl_pkAddress G pk) = Some info" "JailedUntil info = jailed'"
    by (auto simp: tracks_def NewValidatorSigningInfo_def)
  then show ?thesis using calls track(3) by blast
qed

theorem downtime_punished_witness:
  "\<exists>t info u1 u2 u3. stored_info net_slash_env t ''x'' = Some info \<and> JailedUntil info = 1300
     \<and> Slash net_stake_env ex_late ''x'' 50000 200 (1 / 100) u1 = (Val (), u2) \<and> Revoke net_stake_env ex_late ''x'' u2 = (Val (), u3)
     \<and> w_stores u1 ''stake'' = w_stores ex_slash ''stake'' \<and> w_stores t ''stake'' = w_stores u3 ''stake''"
proof -
  obtain t where "handleValidatorSignature net_slash_env (stake_validator_set net_stake_env) ex_late ''x'' 200 False ex_slash = (Val (), t)"
    using ex_missed_run by (metis prod.collapse)
  then have run: "iterM [ex_late] (\<lambda>ctx. handleValidatorSignature net_slash_env (stake_validator_set net_stake_env) ctx ''x'' 200 False)
      ex_slash = (Val (), t)"
    by (simp add: bnd_def ret_def)
  have "stored_info net_slash_env ex_slash (sl_pkAddress net_slash_env ''x'') \<noteq> None"
    by (simp add: stored_info_def slash_exec kv_Get_def)
  from downtime_punished [OF net_slashing.slashing_axioms ex_tracks this _ _ _ run] show ?thesis
    by (force simp: slash_env_runs ex_late_def NewContext_def SignedBlocksWindow_def DowntimeUnbondDuration_def SlashFractionDowntime_def
        stake_validator_set_def wrap64_def ret_iff)
qed

end
