(* ===== verification/Gov.thy ===== *)
theory Gov
  imports Frames StakeProperties "HOL-Library.AList"
begin

text \<open>
  The governance module (\<open>x/gov\<close>): proposals, deposits and votes, the messages and their handler,
  the two queues of proposals, the tally of the votes and the end of a block.  The sets of
  validators and of delegations are interfaces of the source (\<open>types/stake.go\<close>): a record of the
  methods the module calls.  The codec, the text of an address and the order in which Go walks
  over a map are fields of a record.
\<close>

section \<open>Options, statuses and kinds\<close>

type_synonym VoteOption = "8 word"
type_synonym VoteStatus = "8 word"
type_synonym ProposalKind = "8 word"

definition OptionEmpty :: VoteOption where "OptionEmpty = 0x00"
definition OptionYes :: VoteOption where "OptionYes = 0x01"
definition OptionAbstain :: VoteOption where "OptionAbstain = 0x02"
definition OptionNo :: VoteOption where "OptionNo = 0x03"
definition OptionNoWithVeto :: VoteOption where "OptionNoWithVeto = 0x04"

definition StatusDepositPeriod :: VoteStatus where "StatusDepositPeriod = 0x01"
definition StatusVotingPeriod :: VoteStatus where "StatusVotingPeriod = 0x02"
definition StatusPassed :: VoteStatus where "StatusPassed = 0x03"
definition StatusRejected :: VoteStatus where "StatusRejected = 0x04"

definition ProposalTypeText :: ProposalKind where "ProposalTypeText = 0x01"
definition ProposalTypeParameterChange :: ProposalKind where "ProposalTypeParameterChange = 0x02"
definition ProposalTypeSoftwareUpgrade :: ProposalKind where "ProposalTypeSoftwareUpgrade = 0x03"

lemmas gov_bytes = OptionEmpty_def OptionYes_def OptionAbstain_def OptionNo_def OptionNoWithVeto_def
  StatusDepositPeriod_def StatusVotingPeriod_def StatusPassed_def StatusRejected_def
  ProposalTypeText_def ProposalTypeParameterChange_def ProposalTypeSoftwareUpgrade_def

section \<open>Errors\<close>

definition gov_DefaultCodespace :: CodespaceType where "gov_DefaultCodespace = 5"

definition ErrUnknownProposal :: "CodespaceType \<Rightarrow> sdkError" where
  "ErrUnknownProposal codespace = NewError codespace 1"
definition ErrInactiveProposal :: "CodespaceType \<Rightarrow> sdkError" where
  "ErrInactiveProposal codespace = NewError codespace 2"
definition ErrAlreadyFinishedProposal :: "CodespaceType \<Rightarrow> sdkError" where
  "ErrAlreadyFinishedProposal codespace = NewError codespace 4"
definition ErrInvalidTitle :: "CodespaceType \<Rightarrow> sdkError" where
  "ErrInvalidTitle codespace = NewError codespace 6"
definition ErrInvalidDescription :: "CodespaceType \<Rightarrow> sdkError" where
  "ErrInvalidDescription codespace = NewError codespace 7"
definition ErrInvalidProposalType :: "CodespaceType \<Rightarrow> sdkError" where
  "ErrInvalidProposalType codespace = NewError codespace 8"
definition ErrInvalidVote :: "CodespaceType \<Rightarrow> sdkError" where
  "ErrInvalidVote codespace = NewError codespace 9"

text \<open>The code of an invalid vote is used for an invalid genesis too.\<close>

definition ErrInvalidGenesis :: "CodespaceType \<Rightarrow> sdkError" where
  "ErrInvalidGenesis codespace = NewError codespace 9"

lemmas gov_err_defs = ErrUnknownProposal_def ErrInactiveProposal_def ErrAlreadyFinishedProposal_def ErrInvalidTitle_def
  ErrInvalidDescription_def ErrInvalidProposalType_def ErrInvalidVote_def ErrInvalidGenesis_def

section \<open>Text forms\<close>

definition VoteOptionToString :: "VoteOption \<Rightarrow> string" where
  "VoteOptionToString opt =
     (if opt = OptionYes then ''Yes'' else if opt = OptionAbstain then ''Abstain''
      else if opt = OptionNo then ''No'' else if opt = OptionNoWithVeto then ''NoWithVeto'' else '''')"

definition validVoteOption :: "VoteOption \<Rightarrow> bool" where
  "validVoteOption opt \<longleftrightarrow> opt = OptionYes \<or> opt = OptionAbstain \<or> opt = OptionNo \<or> opt = OptionNoWithVeto"

definition StringToVoteOption :: "string \<Rightarrow> VoteOption \<times> sdkError option" where
  "StringToVoteOption str =
     (if str = ''Yes'' then (OptionYes, None) else if str = ''Abstain'' then (OptionAbstain, None)
      else if str = ''No'' then (OptionNo, None) else if str = ''NoWithVeto'' then (OptionNoWithVeto, None)
      else (0xff, Some (ErrInvalidVote gov_DefaultCodespace)))"

definition ProposalTypeToString :: "ProposalKind \<Rightarrow> string" where
  "ProposalTypeToString proposalType =
     (if proposalType = 0x00 then ''Text'' else if proposalType = 0x01 then ''ParameterChange''
      else if proposalType = 0x02 then ''SoftwareUpgrade'' else '''')"

definition validProposalType :: "ProposalKind \<Rightarrow> bool" where
  "validProposalType proposalType \<longleftrightarrow> proposalType = ProposalTypeText \<or> proposalType = ProposalTypeParameterChange
     \<or> proposalType = ProposalTypeSoftwareUpgrade"

definition StringToProposalType :: "string \<Rightarrow> ProposalKind \<times> sdkError option" where
  "StringToProposalType str =
     (if str = ''Text'' then (ProposalTypeText, None) else if str = ''ParameterChange'' then (ProposalTypeParameterChange, None)
      else if str = ''SoftwareUpgrade'' then (ProposalTypeSoftwareUpgrade, None)
      else (0xff, Some (ErrInvalidProposalType gov_DefaultCodespace)))"

definition StatusToString :: "VoteStatus \<Rightarrow> string" where
  "StatusToString status =
     (if status = StatusDepositPeriod then ''DepositPeriod'' else if status = StatusVotingPeriod then ''VotingPeriod''
      else if status = StatusPassed then ''Passed'' else if status = StatusRejected then ''Rejected'' else '''')"

definition StringToStatus :: "string \<Rightarrow> VoteStatus" where
  "StringToStatus status =
     (if status = ''DepositPeriod'' then StatusDepositPeriod else if status = ''VotingPeriod'' then StatusVotingPeriod
      else if status = ''Passed'' then StatusPassed else if status = ''Rejected'' then StatusRejected else 0xff)"

section \<open>Data\<close>

record Vote =
  vote_Voter :: bytes
  vote_ProposalID :: int
  vote_Option :: VoteOption

record Deposit =
  dep_Depositer :: bytes
  dep_ProposalID :: int
  dep_Amount :: Coins

record TextProposal =
  tp_ProposalID :: int
  tp_Title :: string
  tp_Description :: string
  tp_ProposalType :: ProposalKind
  tp_Status :: VoteStatus
  tp_SubmitBlock :: int
  tp_TotalDeposit :: Coins
  tp_VotingStartBlock :: int

definition ProposalEqual :: "TextProposal \<Rightarrow> TextProposal \<Rightarrow> bool" where
  "ProposalEqual a b \<longleftrightarrow> \<not> (tp_ProposalID a \<noteq> tp_ProposalID b \<or> tp_Title a \<noteq> tp_Title b
     \<or> tp_Description a \<noteq> tp_Description b \<or> tp_ProposalType a \<noteq> tp_ProposalType b \<or> tp_Status a \<noteq> tp_Status b
     \<or> tp_SubmitBlock a \<noteq> tp_SubmitBlock b \<or> \<not> Coins_IsEqual (tp_TotalDeposit a) (tp_TotalDeposit b)
     \<or> tp_VotingStartBlock a \<noteq> tp_VotingStartBlock b)"

record DepositProcedure =
  dp_MinDeposit :: Coins
  dp_MaxDepositPeriod :: int

record TallyingProcedure =
  ty_Threshold :: rat
  ty_Veto :: rat
  ty_GovernancePenalty :: rat

record VotingProcedure =
  vp_VotingPeriod :: int

definition GetDepositProcedure :: DepositProcedure where
  "GetDepositProcedure = \<lparr>dp_MinDeposit = [NewCoin ''steak'' 10], dp_MaxDepositPeriod = 200\<rparr>"

definition GetVotingProcedure :: VotingProcedure where
  "GetVotingProcedure = \<lparr>vp_VotingPeriod = 200\<rparr>"

definition GetTallyingProcedure :: TallyingProcedure where
  "GetTallyingProcedure = \<lparr>ty_Threshold = 1 / 2, ty_Veto = 1 / 3, ty_GovernancePenalty = 1 / 100\<rparr>"

section \<open>Messages\<close>

record MsgSubmitProposal =
  msp_Title :: string
  msp_Description :: string
  msp_ProposalType :: ProposalKind
  msp_Proposer :: bytes
  msp_InitialDeposit :: Coins

record MsgDeposit =
  mdp_ProposalID :: int
  mdp_Depositer :: bytes
  mdp_Amount :: Coins

record MsgVote =
  mvt_ProposalID :: int
  mvt_Voter :: bytes
  mvt_Option :: VoteOption

datatype gov_msg = GovSubmit MsgSubmitProposal | GovDeposit MsgDeposit | GovVote MsgVote

definition MsgSubmitProposal_ValidateBasic :: "MsgSubmitProposal \<Rightarrow> sdkError option" where
  "MsgSubmitProposal_ValidateBasic msg =
     (if length (msp_Title msg) = 0 then Some (ErrInvalidTitle gov_DefaultCodespace)
      else if length (msp_Description msg) = 0 then Some (ErrInvalidDescription gov_DefaultCodespace)
      else if \<not> validProposalType (msp_ProposalType msg) then Some (ErrInvalidProposalType gov_DefaultCodespace)
      else if length (msp_Proposer msg) = 0 then Some ErrInvalidAddress
      else if \<not> Coins_IsValid (msp_InitialDeposit msg) then Some ErrInvalidCoins
      else if \<not> Coins_IsNotNegative (msp_InitialDeposit msg) then Some ErrInvalidCoins
      else None)"

definition MsgDeposit_ValidateBasic :: "MsgDeposit \<Rightarrow> sdkError option" where
  "MsgDeposit_ValidateBasic msg =
     (if length (mdp_Depositer msg) = 0 then Some ErrInvalidAddress
      else if \<not> Coins_IsValid (mdp_Amount msg) then Some ErrInvalidCoins
      else if \<not> Coins_IsNotNegative (mdp_Amount msg) then Some ErrInvalidCoins
      else if mdp_ProposalID msg < 0 then Some (ErrUnknownProposal gov_DefaultCodespace)
      else None)"

definition MsgVote_ValidateBasic :: "MsgVote \<Rightarrow> sdkError option" where
  "MsgVote_ValidateBasic msg =
     (if length (mvt_Voter msg) = 0 then Some ErrInvalidAddress
      else if mvt_ProposalID msg < 0 then Some (ErrUnknownProposal gov_DefaultCodespace)
      else if \<not> validVoteOption (mvt_Option msg) then Some (ErrInvalidVote gov_DefaultCodespace)
      else None)"

definition gov_ValidateBasic :: "gov_msg \<Rightarrow> sdkError option" where
  "gov_ValidateBasic m = (case m of
     GovSubmit s \<Rightarrow> MsgSubmitProposal_ValidateBasic s
   | GovDeposit d \<Rightarrow> MsgDeposit_ValidateBasic d
   | GovVote v \<Rightarrow> MsgVote_ValidateBasic v)"

definition gov_GetSigners :: "gov_msg \<Rightarrow> bytes list" where
  "gov_GetSigners m = (case m of
     GovSubmit s \<Rightarrow> [msp_Proposer s] | GovDeposit d \<Rightarrow> [mdp_Depositer d] | GovVote v \<Rightarrow> [mvt_Voter v])"

definition gov_Msg :: "(gov_msg \<Rightarrow> bytes) \<Rightarrow> gov_msg Msg" where
  "gov_Msg json =
     \<lparr>msg_Type = (\<lambda>_. ''gov''), msg_ValidateBasic = (\<lambda>m. Val (gov_ValidateBasic m)), msg_GetSignBytes = json,
      msg_GetSigners = gov_GetSigners\<rparr>"

section \<open>The store\<close>

record validatorGovInfo =
  vg_Address :: bytes
  vg_Power :: rat
  vg_DelegatorShares :: rat
  vg_Minus :: rat
  vg_Vote :: VoteOption

record gov_env =
  gv_key :: string
  gv_codespace :: CodespaceType
  gv_encProposal :: "TextProposal \<Rightarrow> bytes"
  gv_decProposal :: "bytes \<Rightarrow> TextProposal option"
  gv_encVote :: "Vote \<Rightarrow> bytes"
  gv_decVote :: "bytes \<Rightarrow> Vote option"
  gv_encDeposit :: "Deposit \<Rightarrow> bytes"
  gv_decDeposit :: "bytes \<Rightarrow> Deposit option"
  gv_encInt :: "int \<Rightarrow> bytes"
  gv_decInt :: "bytes \<Rightarrow> int option"
  gv_encQueue :: "int list \<Rightarrow> bytes"
  gv_decQueue :: "bytes \<Rightarrow> int list option"
  gv_encBare :: "int \<Rightarrow> bytes"
  gv_fmtAddr :: "bytes \<Rightarrow> string"
  gv_addrString :: "bytes \<Rightarrow> string"
  gv_mapOrder :: "(string \<times> validatorGovInfo) list \<Rightarrow> (string \<times> validatorGovInfo) list"

definition KeyNextProposalID :: bytes where "KeyNextProposalID = ''newProposalID''"
definition KeyActiveProposalQueue :: bytes where "KeyActiveProposalQueue = ''activeProposalQueue''"
definition KeyInactiveProposalQueue :: bytes where "KeyInactiveProposalQueue = ''inactiveProposalQueue''"

definition KeyProposal :: "int \<Rightarrow> bytes" where
  "KeyProposal proposalID = ''proposals:'' @ show_int proposalID"

definition KeyDeposit :: "gov_env \<Rightarrow> int \<Rightarrow> bytes \<Rightarrow> bytes" where
  "KeyDeposit G proposalID depositerAddr = ''deposits:'' @ show_int proposalID @ '':'' @ gv_fmtAddr G depositerAddr"

definition KeyVote :: "gov_env \<Rightarrow> int \<Rightarrow> bytes \<Rightarrow> bytes" where
  "KeyVote G proposalID voterAddr = ''votes:'' @ show_int proposalID @ '':'' @ gv_fmtAddr G voterAddr"

definition KeyDepositsSubspace :: "int \<Rightarrow> bytes" where
  "KeyDepositsSubspace proposalID = ''deposits:'' @ show_int proposalID @ '':''"

definition KeyVotesSubspace :: "int \<Rightarrow> bytes" where
  "KeyVotesSubspace proposalID = ''votes:'' @ show_int proposalID @ '':''"

lemmas gov_key_defs = KeyNextProposalID_def KeyActiveProposalQueue_def KeyInactiveProposalQueue_def KeyProposal_def
  KeyDeposit_def KeyVote_def KeyDepositsSubspace_def KeyVotesSubspace_def

section \<open>Queues\<close>

definition getActiveProposalQueue :: "gov_env \<Rightarrow> (world, int list) M" where
  "getActiveProposalQueue G = bnd (gas_Get (gv_key G) KeyActiveProposalQueue) (\<lambda>b. case b of
     None \<Rightarrow> ret [] | Some bz \<Rightarrow> must (gv_decQueue G bz))"

definition setActiveProposalQueue :: "gov_env \<Rightarrow> int list \<Rightarrow> (world, unit) M" where
  "setActiveProposalQueue G proposalQueue = gas_Set (gv_key G) KeyActiveProposalQueue (gv_encQueue G proposalQueue)"

definition getInactiveProposalQueue :: "gov_env \<Rightarrow> (world, int list) M" where
  "getInactiveProposalQueue G = bnd (gas_Get (gv_key G) KeyInactiveProposalQueue) (\<lambda>b. case b of
     None \<Rightarrow> ret [] | Some bz \<Rightarrow> must (gv_decQueue G bz))"

definition setInactiveProposalQueue :: "gov_env \<Rightarrow> int list \<Rightarrow> (world, unit) M" where
  "setInactiveProposalQueue G proposalQueue = gas_Set (gv_key G) KeyInactiveProposalQueue (gv_encQueue G proposalQueue)"

definition GetProposal :: "gov_env \<Rightarrow> int \<Rightarrow> (world, TextProposal option) M" where
  "GetProposal G proposalID = bnd (gas_Get (gv_key G) (KeyProposal proposalID)) (\<lambda>b. case b of
     None \<Rightarrow> ret None
   | Some bz \<Rightarrow> bnd (must (gv_decProposal G bz)) (\<lambda>p. ret (Some p)))"

definition SetProposal :: "gov_env \<Rightarrow> TextProposal \<Rightarrow> (world, unit) M" where
  "SetProposal G proposal = gas_Set (gv_key G) (KeyProposal (tp_ProposalID proposal)) (gv_encProposal G proposal)"

definition DeleteProposal :: "gov_env \<Rightarrow> TextProposal \<Rightarrow> (world, unit) M" where
  "DeleteProposal G proposal = gas_Delete (gv_key G) (KeyProposal (tp_ProposalID proposal))"

definition ActiveProposalQueuePeek :: "gov_env \<Rightarrow> (world, TextProposal option) M" where
  "ActiveProposalQueuePeek G = bnd (getActiveProposalQueue G) (\<lambda>proposalQueue.
     case proposalQueue of [] \<Rightarrow> ret None | front # _ \<Rightarrow> GetProposal G front)"

definition ActiveProposalQueuePop :: "gov_env \<Rightarrow> (world, TextProposal option) M" where
  "ActiveProposalQueuePop G = bnd (getActiveProposalQueue G) (\<lambda>proposalQueue.
     case proposalQueue of [] \<Rightarrow> ret None
     | frontElement # proposalQueue \<Rightarrow>
         bnd (setActiveProposalQueue G proposalQueue) (\<lambda>_. GetProposal G frontElement))"

definition ActiveProposalQueuePush :: "gov_env \<Rightarrow> TextProposal \<Rightarrow> (world, unit) M" where
  "ActiveProposalQueuePush G proposal = bnd (getActiveProposalQueue G) (\<lambda>proposalQueue.
     setActiveProposalQueue G (proposalQueue @ [tp_ProposalID proposal]))"

definition InactiveProposalQueuePeek :: "gov_env \<Rightarrow> (world, TextProposal option) M" where
  "InactiveProposalQueuePeek G = bnd (getInactiveProposalQueue G) (\<lambda>proposalQueue.
     case proposalQueue of [] \<Rightarrow> ret None | front # _ \<Rightarrow> GetProposal G front)"

definition InactiveProposalQueuePop :: "gov_env \<Rightarrow> (world, TextProposal option) M" where
  "InactiveProposalQueuePop G = bnd (getInactiveProposalQueue G) (\<lambda>proposalQueue.
     case proposalQueue of [] \<Rightarrow> ret None
     | frontElement # proposalQueue \<Rightarrow>
         bnd (setInactiveProposalQueue G proposalQueue) (\<lambda>_. GetProposal G frontElement))"

definition InactiveProposalQueuePush :: "gov_env \<Rightarrow> TextProposal \<Rightarrow> (world, unit) M" where
  "InactiveProposalQueuePush G proposal = bnd (getInactiveProposalQueue G) (\<lambda>proposalQueue.
     setInactiveProposalQueue G (proposalQueue @ [tp_ProposalID proposal]))"

section \<open>Proposals\<close>

definition setInitialProposalID :: "gov_env \<Rightarrow> int \<Rightarrow> (world, sdkError option) M" where
  "setInitialProposalID G proposalID = bnd (gas_Get (gv_key G) KeyNextProposalID) (\<lambda>b.
     if b \<noteq> None then ret (Some (ErrInvalidGenesis (gv_codespace G)))
     else bnd (gas_Set (gv_key G) KeyNextProposalID (gv_encInt G proposalID)) (\<lambda>_. ret None))"

definition getNewProposalID :: "gov_env \<Rightarrow> (world, sdkError + int) M" where
  "getNewProposalID G = bnd (gas_Get (gv_key G) KeyNextProposalID) (\<lambda>b. case b of
     None \<Rightarrow> ret (Inl (ErrInvalidGenesis (gv_codespace G)))
   | Some bz \<Rightarrow>
       bnd (must (gv_decInt G bz)) (\<lambda>proposalID.
       bnd (gas_Set (gv_key G) KeyNextProposalID (gv_encInt G (wrap64 (proposalID + 1)))) (\<lambda>_.
       ret (Inr proposalID))))"

definition NewTextProposal :: "gov_env \<Rightarrow> Context \<Rightarrow> string \<Rightarrow> string \<Rightarrow> ProposalKind \<Rightarrow> (world, TextProposal option) M" where
  "NewTextProposal G ctx title description proposalType = bnd (getNewProposalID G) (\<lambda>r. case r of
     Inl err \<Rightarrow> ret None
   | Inr proposalID \<Rightarrow>
       let proposal = \<lparr>tp_ProposalID = proposalID, tp_Title = title, tp_Description = description,
             tp_ProposalType = proposalType, tp_Status = StatusDepositPeriod, tp_SubmitBlock = ctx_BlockHeight ctx,
             tp_TotalDeposit = [], tp_VotingStartBlock = - 1\<rparr>
       in
       bnd (SetProposal G proposal) (\<lambda>_.
       bnd (InactiveProposalQueuePush G proposal) (\<lambda>_.
       ret (Some proposal))))"

text \<open>The proposal is changed in place, and the caller goes on with the changed one.\<close>

definition activateVotingPeriod :: "gov_env \<Rightarrow> Context \<Rightarrow> TextProposal \<Rightarrow> (world, TextProposal) M" where
  "activateVotingPeriod G ctx proposal =
     (let proposal = proposal\<lparr>tp_VotingStartBlock := ctx_BlockHeight ctx, tp_Status := StatusVotingPeriod\<rparr> in
      bnd (SetProposal G proposal) (\<lambda>_.
      bnd (ActiveProposalQueuePush G proposal) (\<lambda>_.
      ret proposal)))"

section \<open>Votes and deposits\<close>

definition setVote :: "gov_env \<Rightarrow> int \<Rightarrow> bytes \<Rightarrow> Vote \<Rightarrow> (world, unit) M" where
  "setVote G proposalID voterAddr vote = gas_Set (gv_key G) (KeyVote G proposalID voterAddr) (gv_encVote G vote)"

definition GetVote :: "gov_env \<Rightarrow> int \<Rightarrow> bytes \<Rightarrow> (world, Vote option) M" where
  "GetVote G proposalID voterAddr = bnd (gas_Get (gv_key G) (KeyVote G proposalID voterAddr)) (\<lambda>b. case b of
     None \<Rightarrow> ret None
   | Some bz \<Rightarrow> bnd (must (gv_decVote G bz)) (\<lambda>v. ret (Some v)))"

definition GetVotes :: "gov_env \<Rightarrow> int \<Rightarrow> (world, (bytes \<times> bytes) list) M" where
  "GetVotes G proposalID = KVStorePrefixIterator (gv_key G) (KeyVotesSubspace proposalID)"

definition deleteVote :: "gov_env \<Rightarrow> int \<Rightarrow> bytes \<Rightarrow> (world, unit) M" where
  "deleteVote G proposalID voterAddr = gas_Delete (gv_key G) (KeyVote G proposalID voterAddr)"

definition AddVote :: "gov_env \<Rightarrow> int \<Rightarrow> bytes \<Rightarrow> VoteOption \<Rightarrow> (world, sdkError option) M" where
  "AddVote G proposalID voterAddr opt = bnd (GetProposal G proposalID) (\<lambda>p. case p of
     None \<Rightarrow> ret (Some (ErrUnknownProposal (gv_codespace G)))
   | Some proposal \<Rightarrow>
       if tp_Status proposal \<noteq> StatusVotingPeriod then ret (Some (ErrInactiveProposal (gv_codespace G)))
       else if opt \<noteq> OptionYes \<and> opt \<noteq> OptionAbstain \<and> opt \<noteq> OptionNo \<and> opt \<noteq> OptionNoWithVeto
       then ret (Some (ErrInvalidVote (gv_codespace G)))
       else
         bnd (setVote G proposalID voterAddr \<lparr>vote_Voter = voterAddr, vote_ProposalID = proposalID, vote_Option = opt\<rparr>) (\<lambda>_.
         ret None))"

definition GetDeposit :: "gov_env \<Rightarrow> int \<Rightarrow> bytes \<Rightarrow> (world, Deposit option) M" where
  "GetDeposit G proposalID depositerAddr = bnd (gas_Get (gv_key G) (KeyDeposit G proposalID depositerAddr)) (\<lambda>b. case b of
     None \<Rightarrow> ret None
   | Some bz \<Rightarrow> bnd (must (gv_decDeposit G bz)) (\<lambda>d. ret (Some d)))"

definition setDeposit :: "gov_env \<Rightarrow> int \<Rightarrow> bytes \<Rightarrow> Deposit \<Rightarrow> (world, unit) M" where
  "setDeposit G proposalID depositerAddr deposit =
     gas_Set (gv_key G) (KeyDeposit G proposalID depositerAddr) (gv_encDeposit G deposit)"

definition AddDeposit ::
  "auth_env \<Rightarrow> gov_env \<Rightarrow> Context \<Rightarrow> int \<Rightarrow> bytes \<Rightarrow> Coins \<Rightarrow> (world, sdkError option \<times> bool) M" where
  "AddDeposit E G ctx proposalID depositerAddr depositAmount = bnd (GetProposal G proposalID) (\<lambda>p. case p of
     None \<Rightarrow> ret (Some (ErrUnknownProposal (gv_codespace G)), False)
   | Some proposal \<Rightarrow>
       if tp_Status proposal \<noteq> StatusDepositPeriod \<and> tp_Status proposal \<noteq> StatusVotingPeriod
       then ret (Some (ErrAlreadyFinishedProposal (gv_codespace G)), False)
       else
         bnd (subtractCoins E depositerAddr depositAmount) (\<lambda>r. case r of
           Inl err \<Rightarrow> ret (Some err, False)
         | Inr _ \<Rightarrow>
             bnd (lift (Coins_Plus (tp_TotalDeposit proposal) depositAmount)) (\<lambda>totalDeposit.
             let proposal = proposal\<lparr>tp_TotalDeposit := totalDeposit\<rparr> in
             bnd (SetProposal G proposal) (\<lambda>_.
             bnd (if tp_Status proposal = StatusDepositPeriod
                  then lift (Coins_IsGTE (tp_TotalDeposit proposal) (dp_MinDeposit GetDepositProcedure))
                  else ret False) (\<lambda>enough.
             bnd (if enough then bnd (activateVotingPeriod G ctx proposal) (\<lambda>_. ret True) else ret False) (\<lambda>activatedVotingPeriod.
             bnd (GetDeposit G proposalID depositerAddr) (\<lambda>currDeposit.
             bnd (case currDeposit of
                    None \<Rightarrow> setDeposit G proposalID depositerAddr
                      \<lparr>dep_Depositer = depositerAddr, dep_ProposalID = proposalID, dep_Amount = depositAmount\<rparr>
                  | Some found \<Rightarrow>
                      bnd (lift (Coins_Plus (dep_Amount found) depositAmount)) (\<lambda>a.
                      setDeposit G proposalID depositerAddr (found\<lparr>dep_Amount := a\<rparr>))) (\<lambda>_.
             ret (None, activatedVotingPeriod)))))))))"

definition GetDeposits :: "gov_env \<Rightarrow> int \<Rightarrow> (world, (bytes \<times> bytes) list) M" where
  "GetDeposits G proposalID = KVStorePrefixIterator (gv_key G) (KeyDepositsSubspace proposalID)"

definition RefundDeposits :: "auth_env \<Rightarrow> gov_env \<Rightarrow> int \<Rightarrow> (world, unit) M" where
  "RefundDeposits E G proposalID = bnd (GetDeposits G proposalID) (\<lambda>its.
     iterM its (\<lambda>it.
       bnd (gas_iter_Value it) (\<lambda>bz.
       bnd (must (gv_decDeposit G bz)) (\<lambda>deposit.
       bnd (addCoins E (dep_Depositer deposit) (dep_Amount deposit)) (\<lambda>r. case r of
         Inl err \<Rightarrow> panicM (GoPanic ''should not happen'')
       | Inr _ \<Rightarrow> bnd (gas_iter_Key it) (\<lambda>k. gas_Delete (gv_key G) k))))))"

definition DeleteDeposits :: "gov_env \<Rightarrow> int \<Rightarrow> (world, unit) M" where
  "DeleteDeposits G proposalID = bnd (GetDeposits G proposalID) (\<lambda>its.
     iterM its (\<lambda>it. bnd (gas_iter_Key it) (\<lambda>k. gas_Delete (gv_key G) k)))"

section \<open>The tally\<close>

record tally_state =
  ts_validators :: "(string \<times> validatorGovInfo) list"
  ts_results :: "VoteOption \<Rightarrow> rat"
  ts_total :: rat

text \<open>The methods of \<open>sdk.ValidatorSet\<close> and \<open>sdk.DelegationSet\<close> that the tally calls; its callbacks never stop the walk.\<close>

record gov_sets =
  gs_IterateValidatorsBonded :: "(tally_state \<Rightarrow> Validator \<Rightarrow> tally_state outcome) \<Rightarrow> tally_state \<Rightarrow> (world, tally_state) M"
  gs_IterateDelegations :: "bytes \<Rightarrow> (tally_state \<Rightarrow> Delegation \<Rightarrow> tally_state outcome) \<Rightarrow> tally_state \<Rightarrow> (world, tally_state) M"

text \<open>
  The source puts only the four options of a vote into the map of the results.  An option that is
  not in it would have a rational with no value; no vote has one, since \<open>AddVote\<close> rejects it.
\<close>

definition empty_tally :: tally_state where
  "empty_tally = \<lparr>ts_validators = [], ts_results = (\<lambda>_. 0), ts_total = 0\<rparr>"

definition tally_validator :: "gov_env \<Rightarrow> tally_state \<Rightarrow> Validator \<Rightarrow> tally_state outcome" where
  "tally_validator G ts validator = Val (ts\<lparr>ts_validators := AList.update (gv_addrString G (Owner validator))
     \<lparr>vg_Address = Owner validator, vg_Power = PoolShares_Bonded (val_PoolShares validator),
      vg_DelegatorShares = DelegatorShares validator, vg_Minus = 0, vg_Vote = OptionEmpty\<rparr> (ts_validators ts)\<rparr>)"

text \<open>
  A validator that is not in the map comes out of it as the zero value, whose numbers are nil
  pointers: adding to them panics.
\<close>

definition tally_delegation :: "gov_env \<Rightarrow> VoteOption \<Rightarrow> tally_state \<Rightarrow> Delegation \<Rightarrow> tally_state outcome" where
  "tally_delegation G opt ts delegation =
     (case map_of (ts_validators ts) (gv_addrString G (del_ValidatorAddr delegation)) of
       None \<Rightarrow> Panic (GoPanic ''nil pointer dereference'')
     | Some val \<Rightarrow>
         let val = val\<lparr>vg_Minus := vg_Minus val + del_Shares delegation\<rparr> in
         obind (Rat_Quo (del_Shares delegation) (vg_DelegatorShares val)) (\<lambda>delegatorShare.
         let votingPower = vg_Power val * delegatorShare in
         Val (ts\<lparr>ts_validators := AList.update (gv_addrString G (del_ValidatorAddr delegation)) val (ts_validators ts),
              ts_results := (ts_results ts)(opt := ts_results ts opt + votingPower),
              ts_total := ts_total ts + votingPower\<rparr>)))"

fun tally_votes :: "gov_env \<Rightarrow> gov_sets \<Rightarrow> (bytes \<times> bytes) list \<Rightarrow> tally_state \<Rightarrow> (world, tally_state) M" where
  "tally_votes G D [] ts = ret ts"
| "tally_votes G D (it # its) ts =
     bnd (gas_iter_Value it) (\<lambda>bz.
     bnd (must (gv_decVote G bz)) (\<lambda>vote.
     bnd (case map_of (ts_validators ts) (gv_addrString G (vote_Voter vote)) of
            Some val \<Rightarrow> ret (ts\<lparr>ts_validators := AList.update (gv_addrString G (vote_Voter vote)) (val\<lparr>vg_Vote := vote_Option vote\<rparr>)
                          (ts_validators ts)\<rparr>)
          | None \<Rightarrow> gs_IterateDelegations D (vote_Voter vote) (tally_delegation G (vote_Option vote)) ts) (\<lambda>ts.
     bnd (deleteVote G (vote_ProposalID vote) (vote_Voter vote)) (\<lambda>_.
     tally_votes G D its ts))))"

fun tally_own :: "validatorGovInfo list \<Rightarrow> (VoteOption \<Rightarrow> rat) \<Rightarrow> rat \<Rightarrow> ((VoteOption \<Rightarrow> rat) \<times> rat \<times> bytes list) outcome" where
  "tally_own [] results total_power = Val (results, total_power, [])"
| "tally_own (val # vals) results total_power =
     (if vg_Vote val = OptionEmpty
      then obind (tally_own vals results total_power) (\<lambda>(r, t, nonVoting). Val (r, t, vg_Address val # nonVoting))
      else
        let sharesAfterMinus = vg_DelegatorShares val - vg_Minus val in
        obind (Rat_Quo sharesAfterMinus (vg_DelegatorShares val)) (\<lambda>percentAfterMinus.
        let votingPower = vg_Power val * percentAfterMinus in
        tally_own vals (results(vg_Vote val := results (vg_Vote val) + votingPower)) (total_power + votingPower)))"

definition tally_decide :: "(VoteOption \<Rightarrow> rat) \<Rightarrow> rat \<Rightarrow> bool outcome" where
  "tally_decide results total_power =
     (if total_power - results OptionAbstain = 0 then Val False
      else
        obind (Rat_Quo (results OptionNoWithVeto) total_power) (\<lambda>veto.
        if veto > ty_Veto GetTallyingProcedure then Val False
        else
          obind (Rat_Quo (results OptionYes) (total_power - results OptionAbstain)) (\<lambda>yes.
          if yes > ty_Threshold GetTallyingProcedure then Val True else Val False)))"

definition tally :: "gov_env \<Rightarrow> gov_sets \<Rightarrow> TextProposal \<Rightarrow> (world, bool \<times> bytes list) M" where
  "tally G D proposal =
     bnd (gs_IterateValidatorsBonded D (tally_validator G) empty_tally) (\<lambda>ts.
     bnd (GetVotes G (tp_ProposalID proposal)) (\<lambda>its.
     bnd (tally_votes G D its ts) (\<lambda>ts.
     bnd (lift (tally_own (map snd (gv_mapOrder G (ts_validators ts))) (ts_results ts) (ts_total ts))) (\<lambda>(results, total_power, nonVoting).
     bnd (lift (tally_decide results total_power)) (\<lambda>passes.
     ret (passes, nonVoting))))))"

section \<open>The handler\<close>

text \<open>
  The tags that the source appends to mark the start of the voting period are lost: \<open>AppendTag\<close>
  returns a new list, which is not used.
\<close>

definition handleMsgSubmitProposal :: "auth_env \<Rightarrow> gov_env \<Rightarrow> Context \<Rightarrow> MsgSubmitProposal \<Rightarrow> (world, Result) M" where
  "handleMsgSubmitProposal E G ctx msg =
     bnd (NewTextProposal G ctx (msp_Title msg) (msp_Description msg) (msp_ProposalType msg)) (\<lambda>p. case p of
       None \<Rightarrow> panicM (GoPanic ''nil pointer dereference'')
     | Some proposal \<Rightarrow>
         bnd (AddDeposit E G ctx (tp_ProposalID proposal) (msp_Proposer msg) (msp_InitialDeposit msg)) (\<lambda>(err, votingStarted). case err of
           Some e \<Rightarrow> ret (Error_Result e)
         | None \<Rightarrow>
             let proposalIDBytes = gv_encBare G (tp_ProposalID proposal) in
             bnd (lift (NewTags [TagString ''action'', TagBytes ''submitProposal'',
               TagString ''proposer'', TagBytes (gv_addrString G (msp_Proposer msg)),
               TagString ''proposalId'', TagBytes proposalIDBytes])) (\<lambda>tags.
             ret (emptyResult\<lparr>res_Data := proposalIDBytes, res_Tags := tags\<rparr>))))"

definition handleMsgDeposit :: "auth_env \<Rightarrow> gov_env \<Rightarrow> Context \<Rightarrow> MsgDeposit \<Rightarrow> (world, Result) M" where
  "handleMsgDeposit E G ctx msg =
     bnd (AddDeposit E G ctx (mdp_ProposalID msg) (mdp_Depositer msg) (mdp_Amount msg)) (\<lambda>(err, votingStarted). case err of
       Some e \<Rightarrow> ret (Error_Result e)
     | None \<Rightarrow>
         bnd (lift (NewTags [TagString ''action'', TagBytes ''deposit'',
           TagString ''depositer'', TagBytes (gv_addrString G (mdp_Depositer msg)),
           TagString ''proposalId'', TagBytes (gv_encBare G (mdp_ProposalID msg))])) (\<lambda>tags.
         ret (emptyResult\<lparr>res_Tags := tags\<rparr>)))"

definition handleMsgVote :: "gov_env \<Rightarrow> MsgVote \<Rightarrow> (world, Result) M" where
  "handleMsgVote G msg =
     bnd (AddVote G (mvt_ProposalID msg) (mvt_Voter msg) (mvt_Option msg)) (\<lambda>err. case err of
       Some e \<Rightarrow> ret (Error_Result e)
     | None \<Rightarrow>
         bnd (lift (NewTags [TagString ''action'', TagBytes ''vote'',
           TagString ''voter'', TagBytes (gv_addrString G (mvt_Voter msg)),
           TagString ''proposalId'', TagBytes (gv_encBare G (mvt_ProposalID msg))])) (\<lambda>tags.
         ret (emptyResult\<lparr>res_Tags := tags\<rparr>)))"

definition gov_NewHandler :: "auth_env \<Rightarrow> gov_env \<Rightarrow> Context \<Rightarrow> gov_msg option \<Rightarrow> (world, Result) M" where
  "gov_NewHandler E G ctx msg = (case msg of
     Some (GovDeposit m) \<Rightarrow> handleMsgDeposit E G ctx m
   | Some (GovSubmit m) \<Rightarrow> handleMsgSubmitProposal E G ctx m
   | Some (GovVote m) \<Rightarrow> handleMsgVote G m
   | None \<Rightarrow> ret (Error_Result ErrUnknownRequest))"

section \<open>The end of a block\<close>

definition shouldPopInactiveProposalQueue :: "gov_env \<Rightarrow> Context \<Rightarrow> (world, bool) M" where
  "shouldPopInactiveProposalQueue G ctx = bnd (InactiveProposalQueuePeek G) (\<lambda>p. case p of
     None \<Rightarrow> ret False
   | Some peekProposal \<Rightarrow>
       if tp_Status peekProposal \<noteq> StatusDepositPeriod then ret True
       else ret (ctx_BlockHeight ctx \<ge> wrap64 (tp_SubmitBlock peekProposal + dp_MaxDepositPeriod GetDepositProcedure)))"

definition shouldPopActiveProposalQueue :: "gov_env \<Rightarrow> Context \<Rightarrow> (world, bool) M" where
  "shouldPopActiveProposalQueue G ctx = bnd (ActiveProposalQueuePeek G) (\<lambda>p. case p of
     None \<Rightarrow> ret False
   | Some peekProposal \<Rightarrow>
       ret (ctx_BlockHeight ctx \<ge> wrap64 (tp_VotingStartBlock peekProposal + vp_VotingPeriod GetVotingProcedure)))"

text \<open>
  The two loops run as long as a proposal can be popped.  They have a number of rounds as fuel,
  and no value when it is used up; a round more than there are proposals in the queue is enough.
\<close>

fun inactive_loop :: "gov_env \<Rightarrow> Context \<Rightarrow> nat \<Rightarrow> (world, unit option) M" where
  "inactive_loop G ctx 0 = ret None"
| "inactive_loop G ctx (Suc n) = bnd (shouldPopInactiveProposalQueue G ctx) (\<lambda>more.
     if \<not> more then ret (Some ())
     else
       bnd (InactiveProposalQueuePop G) (\<lambda>p. case p of
         None \<Rightarrow> panicM (GoPanic ''nil pointer dereference'')
       | Some inactiveProposal \<Rightarrow>
           bnd (if tp_Status inactiveProposal = StatusDepositPeriod then DeleteProposal G inactiveProposal else ret ()) (\<lambda>_.
           inactive_loop G ctx n)))"

definition finish_proposal :: "auth_env \<Rightarrow> gov_env \<Rightarrow> gov_sets \<Rightarrow> TextProposal \<Rightarrow> (world, bytes list) M" where
  "finish_proposal E G D activeProposal =
     bnd (tally G D activeProposal) (\<lambda>(passes, nonVotingVals).
     bnd (if passes then RefundDeposits E G (tp_ProposalID activeProposal)
          else DeleteDeposits G (tp_ProposalID activeProposal)) (\<lambda>_.
     bnd (SetProposal G (activeProposal\<lparr>tp_Status := if passes then StatusPassed else StatusRejected\<rparr>)) (\<lambda>_.
     ret nonVotingVals)))"

fun active_loop :: "auth_env \<Rightarrow> gov_env \<Rightarrow> gov_sets \<Rightarrow> Context \<Rightarrow> nat \<Rightarrow> bytes list \<Rightarrow> (world, bytes list option) M" where
  "active_loop E G D ctx 0 nonVotingVals = ret None"
| "active_loop E G D ctx (Suc n) nonVotingVals = bnd (shouldPopActiveProposalQueue G ctx) (\<lambda>more.
     if \<not> more then ret (Some nonVotingVals)
     else
       bnd (ActiveProposalQueuePop G) (\<lambda>p. case p of
         None \<Rightarrow> panicM (GoPanic ''nil pointer dereference'')
       | Some activeProposal \<Rightarrow>
           bnd (if ctx_BlockHeight ctx \<ge> wrap64 (tp_VotingStartBlock activeProposal + vp_VotingPeriod GetVotingProcedure)
                then finish_proposal E G D activeProposal else ret nonVotingVals) (\<lambda>nonVotingVals.
           active_loop E G D ctx n nonVotingVals)))"

definition gov_EndBlocker :: "auth_env \<Rightarrow> gov_env \<Rightarrow> gov_sets \<Rightarrow> Context \<Rightarrow> nat \<Rightarrow> (world, (Tags \<times> bytes list) option) M" where
  "gov_EndBlocker E G D ctx fuel =
     bnd (lift (NewTags [])) (\<lambda>tags.
     bnd (inactive_loop G ctx fuel) (\<lambda>r. case r of
       None \<Rightarrow> ret None
     | Some _ \<Rightarrow>
         bnd (active_loop E G D ctx fuel []) (\<lambda>r. case r of
           None \<Rightarrow> ret None
         | Some nonVotingVals \<Rightarrow> ret (Some (tags, nonVotingVals)))))"

section \<open>Genesis\<close>

definition gov_InitGenesis :: "gov_env \<Rightarrow> int \<Rightarrow> (world, unit) M" where
  "gov_InitGenesis G startingProposalID = bnd (setInitialProposalID G startingProposalID) (\<lambda>err. case err of
     Some e \<Rightarrow> panicM (GoPanic ''Initial ProposalID already set'') | None \<Rightarrow> ret ())"

definition gov_WriteGenesis :: "gov_env \<Rightarrow> (world, int) M" where
  "gov_WriteGenesis G = bnd (getNewProposalID G) (\<lambda>r. case r of Inl _ \<Rightarrow> ret (- 1) | Inr proposalID \<Rightarrow> ret proposalID)"

end
