(* ===== verification/GovSafety.thy ===== *)
theory GovSafety
  imports Gov
begin

text \<open>
  What the governance store holds and what the operations of the module keep: every entry of the
  store decodes to a record of the kind its key says, and the coins in accounts and deposits
  together are conserved by messages, and never increased by the end of a block.
\<close>

section \<open>Entries of the store\<close>

definition prop_ok :: "TextProposal \<Rightarrow> bool" where
  "prop_ok p \<longleftrightarrow> tp_Status p \<in> {StatusDepositPeriod, StatusVotingPeriod, StatusPassed, StatusRejected}
     \<and> sorted_denoms (tp_TotalDeposit p)"

definition dep_ok :: "Deposit \<Rightarrow> bool" where
  "dep_ok x \<longleftrightarrow> sorted_denoms (dep_Amount x) \<and> (\<forall>c \<in> set (dep_Amount x). 0 \<le> Amount c)"

definition entry_ok :: "gov_env \<Rightarrow> bytes \<Rightarrow> bytes \<Rightarrow> bool" where
  "entry_ok G k bz \<longleftrightarrow>
     (prefix ''deposits:'' k \<longrightarrow> (\<exists>x. gv_decDeposit G bz = Some x \<and> k = KeyDeposit G (dep_ProposalID x) (dep_Depositer x) \<and> dep_ok x))
     \<and> (prefix ''votes:'' k \<longrightarrow> (\<exists>v. gv_decVote G bz = Some v \<and> k = KeyVote G (vote_ProposalID v) (vote_Voter v) \<and> validVoteOption (vote_Option v)))
     \<and> (prefix ''proposals:'' k \<longrightarrow> (\<exists>p. gv_decProposal G bz = Some p \<and> k = KeyProposal (tp_ProposalID p) \<and> prop_ok p))
     \<and> (k = KeyActiveProposalQueue \<or> k = KeyInactiveProposalQueue \<longrightarrow> gv_decQueue G bz \<noteq> None)"

definition gov_ok :: "gov_env \<Rightarrow> world \<Rightarrow> bool" where
  "gov_ok G w \<longleftrightarrow> kv_sorted (w_stores w (gv_key G))
     \<and> (\<forall>k bz. kv_Get (w_stores w (gv_key G)) k = Some bz \<longrightarrow> entry_ok G k bz)"

text \<open>The coins in the deposits.\<close>

definition entry_dep :: "gov_env \<Rightarrow> string \<Rightarrow> bytes \<times> bytes \<Rightarrow> int" where
  "entry_dep G d kv = (if prefix ''deposits:'' (fst kv)
     then (case gv_decDeposit G (snd kv) of None \<Rightarrow> 0 | Some x \<Rightarrow> amt (dep_Amount x) d) else 0)"

definition escrow :: "gov_env \<Rightarrow> world \<Rightarrow> string \<Rightarrow> int" where
  "escrow G w d = sum_list (map (entry_dep G d) (w_stores w (gv_key G)))"

definition coins_are :: "auth_env \<Rightarrow> gov_env \<Rightarrow> (string \<Rightarrow> int) \<Rightarrow> world \<Rightarrow> bool" where
  "coins_are E G n w \<longleftrightarrow> bank_ok E w \<and> gov_ok G w \<and> (\<forall>d. coin_supply E w d + escrow G w d = n d)"

lemma kv_Delete_sum:
  "kv_sorted m \<Longrightarrow> sum_list (map f (kv_Delete m k)) =
     sum_list (map f m) - (case kv_Get m k of None \<Rightarrow> 0 | Some old \<Rightarrow> (f (k, old) :: int))"
proof (induction m)
  case (Cons kv m)
  obtain k' v' where kv: "kv = (k', v')" by fastforce
  have "kv_Get m k = None" if "k = k'"
    using Cons.prems that by (auto simp: kv kv_Get_def map_of_eq_None_iff)
  then show ?case using Cons by (auto simp: kv kv_Delete_def kv_Get_def)
qed (simp add: kv_Delete_def kv_Get_def)

text \<open>Keys of different kinds differ in their first letter.\<close>

lemmas gov_keys = gov_key_defs entry_ok_def entry_dep_def

lemma escrow_Set:
  assumes "kv_sorted (w_stores w (gv_key G))" and "w_stores t (gv_key G) = kv_Set (w_stores w (gv_key G)) k v"
  shows "escrow G t d = escrow G w d - (case kv_Get (w_stores w (gv_key G)) k of None \<Rightarrow> 0 | Some old \<Rightarrow> entry_dep G d (k, old)) + entry_dep G d (k, v)"
  using kv_Set_sum [OF assms(1)] by (simp add: escrow_def assms(2))

lemma escrow_Delete:
  assumes "kv_sorted (w_stores w (gv_key G))" and "w_stores t (gv_key G) = kv_Delete (w_stores w (gv_key G)) k"
  shows "escrow G t d = escrow G w d - (case kv_Get (w_stores w (gv_key G)) k of None \<Rightarrow> 0 | Some old \<Rightarrow> entry_dep G d (k, old))"
  using kv_Delete_sum [OF assms(1)] by (simp add: escrow_def assms(2))

lemma gov_ok_Set:
  "gov_ok G w \<Longrightarrow> w_stores t (gv_key G) = kv_Set (w_stores w (gv_key G)) k v \<Longrightarrow> entry_ok G k v \<Longrightarrow> gov_ok G t"
  by (auto simp: gov_ok_def)

lemma gov_ok_Delete: "gov_ok G w \<Longrightarrow> w_stores t (gv_key G) = kv_Delete (w_stores w (gv_key G)) k \<Longrightarrow> gov_ok G t"
  by (auto simp: gov_ok_def)

lemma gov_views_cong:
  assumes "w_stores t (gv_key G) = w_stores w (gv_key G)"
  shows "gov_ok G t = gov_ok G w" and "escrow G t = escrow G w"
  using assms by (simp_all add: gov_ok_def escrow_def fun_eq_iff)

lemma reads_gov [reads_rules]:
  "reads (getActiveProposalQueue G)" "reads (getInactiveProposalQueue G)" "reads (GetProposal G i)" "reads (GetVote G i a)"
  "reads (GetVotes G i)" "reads (GetDeposit G i a)" "reads (GetDeposits G i)"
  unfolding getActiveProposalQueue_def getInactiveProposalQueue_def GetProposal_def GetVote_def GetVotes_def GetDeposit_def GetDeposits_def
  by (intro reads_rules)+

lemma reads_peek [reads_rules]:
  "reads (ActiveProposalQueuePeek G)" "reads (InactiveProposalQueuePeek G)"
  "reads (shouldPopActiveProposalQueue G ctx)" "reads (shouldPopInactiveProposalQueue G ctx)"
  unfolding ActiveProposalQueuePeek_def InactiveProposalQueuePeek_def shouldPopActiveProposalQueue_def shouldPopInactiveProposalQueue_def
  by (intro reads_bnd reads_gov reads_branches reads_basic; simp add: reads_gov reads_basic split: list.splits)+

lemma holds_case_list [holds_rules]:
  "holds P m Q \<Longrightarrow> (\<And>y ys. holds P (f y ys) Q) \<Longrightarrow> holds P (case_list m f xs) Q"
  by (simp split: list.splits)

section \<open>What operations keep\<close>

locale gov_bank = auth_codec E for E :: auth_env +
  fixes G :: gov_env and D :: gov_sets
  assumes dec_proposal: "gv_decProposal G (gv_encProposal G p) = Some p"
    and dec_vote: "gv_decVote G (gv_encVote G v) = Some v"
    and dec_deposit: "gv_decDeposit G (gv_encDeposit G x) = Some x"
    and dec_queue: "gv_decQueue G (gv_encQueue G q) = Some q"
    and stores: "ae_accKey E \<noteq> gv_key G"
    and reads_sets: "reads (gs_IterateValidatorsBonded D f ts)" "reads (gs_IterateDelegations D a g ts)"
begin

abbreviation C :: "(string \<Rightarrow> int) \<Rightarrow> world \<Rightarrow> bool" where "C \<equiv> coins_are E G"

lemma C_cong: "w_stores v = w_stores w \<Longrightarrow> C n w \<Longrightarrow> C n v"
  using coin_views_cong [of v E w] gov_views_cong [of v G w] by (simp add: coins_are_def)

lemma C_reads: "reads m \<Longrightarrow> holds (C n) m (\<lambda>_. True)"
  by (rule holds_reads) (auto intro: C_cong)

lemma C_Set:
  assumes "\<not> prefix ''deposits:'' k" and "entry_ok G k v"
  shows "holds (C n) (gas_Set (gv_key G) k v) (\<lambda>_. True)"
proof (rule holdsI)
  fix w r t assume w: "C n w" and "gas_Set (gv_key G) k v w = (Val r, t)"
  then have t: "w_stores t = (w_stores w)(gv_key G := kv_Set (w_stores w (gv_key G)) k v)" by (auto dest: gas_Set_Val)
  have same: "w_stores t (ae_accKey E) = w_stores w (ae_accKey E)" using t stores by simp
  have g: "w_stores t (gv_key G) = kv_Set (w_stores w (gv_key G)) k v" using t by simp
  have "escrow G t = escrow G w"
    using escrow_Set [OF _ g] w assms(1) by (auto simp: fun_eq_iff coins_are_def gov_ok_def entry_dep_def split: option.splits)
  then show "C n t \<and> True"
    using w gov_ok_Set [OF _ g assms(2)] coin_views_cong [OF same] by (simp add: coins_are_def)
qed

lemma C_Delete:
  assumes "\<not> prefix ''deposits:'' k"
  shows "holds (C n) (gas_Delete (gv_key G) k) (\<lambda>_. True)"
proof (rule holdsI)
  fix w r t assume w: "C n w" and "gas_Delete (gv_key G) k w = (Val r, t)"
  then have t: "w_stores t = (w_stores w)(gv_key G := kv_Delete (w_stores w (gv_key G)) k)" by (auto simp: gas_Delete_run)
  have same: "w_stores t (ae_accKey E) = w_stores w (ae_accKey E)" using t stores by simp
  have g: "w_stores t (gv_key G) = kv_Delete (w_stores w (gv_key G)) k" using t by simp
  have "escrow G t = escrow G w"
    using escrow_Delete [OF _ g] w assms(1) by (auto simp: fun_eq_iff coins_are_def gov_ok_def entry_dep_def split: option.splits)
  then show "C n t \<and> True"
    using w gov_ok_Delete [OF _ g] coin_views_cong [OF same] by (simp add: coins_are_def)
qed

lemma C_subtract:
  assumes "sorted_denoms cs"
  shows "triple (C n) (subtractCoins E a cs) (\<lambda>r t. case r of Inl _ \<Rightarrow> C n t | Inr _ \<Rightarrow> C (\<lambda>d. n d - amt cs d) t)"
proof (rule tripleI)
  fix w r t assume w: "C n w" and run: "subtractCoins E a cs w = (Val r, t)"
  show "case r of Inl _ \<Rightarrow> C n t | Inr _ \<Rightarrow> C (\<lambda>d. n d - amt cs d) t"
  proof (cases r)
    case (Inl e)
    then show ?thesis using C_cong [OF bank.sub_Inl w] run by simp
  next
    case (Inr x)
    then show ?thesis using bank.sub_Inr [OF run [unfolded Inr] _ assms] w gov_views_cong [of t G w] stores
      by (auto simp: coins_are_def algebra_simps)
  qed
qed

lemma C_add:
  assumes "sorted_denoms cs"
  shows "triple (C n) (addCoins E a cs) (\<lambda>r t. case r of Inl _ \<Rightarrow> C n t | Inr _ \<Rightarrow> C (\<lambda>d. n d + amt cs d) t)"
proof (rule tripleI)
  fix w r t assume w: "C n w" and run: "addCoins E a cs w = (Val r, t)"
  show "case r of Inl _ \<Rightarrow> C n t | Inr _ \<Rightarrow> C (\<lambda>d. n d + amt cs d) t"
  proof (cases r)
    case (Inl e)
    then show ?thesis using C_cong [OF bank.add_Inl w] run by simp
  next
    case (Inr x)
    then show ?thesis using bank.add_Inr [OF run [unfolded Inr] _ assms] w gov_views_cong [of t G w] stores
      by (auto simp: coins_are_def algebra_simps)
  qed
qed

lemma C_GetProposal: "holds (C n) (GetProposal G i) (\<lambda>r. \<forall>p. r = Some p \<longrightarrow> prop_ok p)"
proof (rule holdsI, rule conjI)
  fix w r t assume w: "C n w" and run: "GetProposal G i w = (Val r, t)"
  show "C n t" using holdsD [OF C_reads [OF reads_gov(3)] w run] by simp
  have "entry_ok G (KeyProposal i) bz" if "kv_Get (w_stores w (gv_key G)) (KeyProposal i) = Some bz" for bz
    using w that by (simp add: coins_are_def gov_ok_def)
  then show "\<forall>p. r = Some p \<longrightarrow> prop_ok p"
    using run by (fastforce simp: GetProposal_def run_iffs gov_keys dest!: gas_Get_Val)
qed

lemma C_SetProposal: "prop_ok p \<Longrightarrow> holds (C n) (SetProposal G p) (\<lambda>_. True)"
  unfolding SetProposal_def by (rule C_Set) (simp_all add: gov_keys dec_proposal)

lemma C_writes:
  "holds (C n) (setActiveProposalQueue G q) (\<lambda>_. True)" "holds (C n) (setInactiveProposalQueue G q) (\<lambda>_. True)"
  "holds (C n) (DeleteProposal G p) (\<lambda>_. True)" "holds (C n) (deleteVote G i a) (\<lambda>_. True)"
  "validVoteOption (vote_Option v) \<Longrightarrow> vote_ProposalID v = i \<Longrightarrow> vote_Voter v = a \<Longrightarrow> holds (C n) (setVote G i a v) (\<lambda>_. True)"
  unfolding setActiveProposalQueue_def setInactiveProposalQueue_def DeleteProposal_def deleteVote_def setVote_def
  by (rule C_Set C_Delete; simp add: gov_keys dec_queue dec_vote)+

lemma C_bnd_reads: "reads m \<Longrightarrow> (\<And>x. holds (C n) (f x) Q) \<Longrightarrow> holds (C n) (bnd m f) Q"
  using holds_bnd [OF C_reads] by blast

lemma C_bnd: "holds (C n) m (\<lambda>_. True) \<Longrightarrow> (\<And>x. holds (C n) (f x) Q) \<Longrightarrow> holds (C n) (bnd m f) Q"
  using holds_bnd by blast

lemma C_queues:
  "holds (C n) (ActiveProposalQueuePush G p) (\<lambda>_. True)" "holds (C n) (InactiveProposalQueuePush G p) (\<lambda>_. True)"
  "holds (C n) (ActiveProposalQueuePop G) (\<lambda>r. \<forall>p. r = Some p \<longrightarrow> prop_ok p)"
  "holds (C n) (InactiveProposalQueuePop G) (\<lambda>r. \<forall>p. r = Some p \<longrightarrow> prop_ok p)"
  unfolding ActiveProposalQueuePush_def InactiveProposalQueuePush_def ActiveProposalQueuePop_def InactiveProposalQueuePop_def
  by (intro C_bnd_reads reads_gov C_writes holds_case_list holds_ret C_bnd C_GetProposal; simp)+

lemma C_NewTextProposal: "holds (C n) (NewTextProposal G ctx title descr kind) (\<lambda>_. True)"
proof -
  have id: "holds (C n) (getNewProposalID G) (\<lambda>_. True)"
    unfolding getNewProposalID_def
    by (intro C_bnd_reads reads_basic holds_case_option holds_ret C_bnd C_Set TrueI) (simp_all add: gov_keys)
  show ?thesis
    unfolding NewTextProposal_def Let_def
    by (intro C_bnd id holds_case_sum holds_ret C_SetProposal C_queues TrueI) (simp add: prop_ok_def)
qed

lemma C_activate: "prop_ok p \<Longrightarrow> holds (C n) (activateVotingPeriod G ctx p) (\<lambda>_. True)"
  unfolding activateVotingPeriod_def Let_def by (intro C_bnd C_SetProposal C_queues holds_ret TrueI) (simp add: prop_ok_def)

lemma C_AddVote: "holds (C n) (AddVote G i a opt) (\<lambda>_. True)"
  unfolding AddVote_def
  by (intro C_bnd_reads reads_gov holds_case_option holds_if holds_ret C_bnd C_writes TrueI) (auto simp: validVoteOption_def)

text \<open>A deposit record is written: the coins in deposits change by the difference.\<close>

lemma C_setDeposit:
  assumes w: "C n w" and run: "setDeposit G i a x w = (Val u, t)" and x: "dep_ok x"
    and key: "KeyDeposit G i a = KeyDeposit G (dep_ProposalID x) (dep_Depositer x)"
    and old: "case kv_Get (w_stores w (gv_key G)) (KeyDeposit G i a) of None \<Rightarrow> (\<forall>d. b d = 0)
      | Some bz \<Rightarrow> \<exists>y. gv_decDeposit G bz = Some y \<and> b = amt (dep_Amount y)"
  shows "C (\<lambda>d. n d - b d + amt (dep_Amount x) d) t"
proof -
  have t: "w_stores t = (w_stores w)(gv_key G := kv_Set (w_stores w (gv_key G)) (KeyDeposit G i a) (gv_encDeposit G x))"
    using run by (auto simp: setDeposit_def dest: gas_Set_Val)
  have same: "w_stores t (ae_accKey E) = w_stores w (ae_accKey E)" using t stores by simp
  have g: "w_stores t (gv_key G) = kv_Set (w_stores w (gv_key G)) (KeyDeposit G i a) (gv_encDeposit G x)" using t by simp
  have "entry_ok G (KeyDeposit G i a) (gv_encDeposit G x)"
    using key x by (auto simp: entry_ok_def dec_deposit KeyDeposit_def KeyActiveProposalQueue_def KeyInactiveProposalQueue_def)
  then have ok: "gov_ok G t" using gov_ok_Set [OF _ g] w by (simp add: coins_are_def)
  have "prefix ''deposits:'' (KeyDeposit G i a)" by (simp add: KeyDeposit_def)
  then have "escrow G t d = escrow G w d - b d + amt (dep_Amount x) d" for d
    using escrow_Set [OF _ g, of d] w old by (auto simp: coins_are_def gov_ok_def entry_dep_def dec_deposit split: option.splits)
  then show ?thesis using w ok coin_views_cong [OF same] by (simp add: coins_are_def algebra_simps) (metis add.commute add.left_commute)
qed

lemma plus_prop_ok:
  "prop_ok p \<Longrightarrow> sorted_denoms cs \<Longrightarrow> Coins_Plus (tp_TotalDeposit p) cs = Val z \<Longrightarrow> prop_ok (p\<lparr>tp_TotalDeposit := z\<rparr>)"
  using Coins_Plus_facts [of "tp_TotalDeposit p" cs z] by (simp add: prop_ok_def)

lemma nonneg_Plus:
  assumes "dep_ok y" and "sorted_denoms cs" and "\<forall>c \<in> set cs. 0 \<le> Amount c" and "Coins_Plus (dep_Amount y) cs = Val r"
  shows "sorted_denoms r \<and> (\<forall>c \<in> set r. 0 \<le> Amount c) \<and> (\<forall>d. amt r d = amt (dep_Amount y) d + amt cs d)"
proof -
  have y: "sorted_denoms (dep_Amount y)" "\<forall>d. 0 \<le> amt (dep_Amount y) d" "\<forall>d. 0 \<le> amt cs d"
    using assms(1-3) sorted_nonneg_iff by (auto simp: dep_ok_def)
  note plus = Coins_Plus_facts [OF y(1) assms(2,4)]
  then have r: "sorted_denoms r" "\<forall>d. amt r d = amt (dep_Amount y) d + amt cs d" by blast+
  with y have "\<forall>d. 0 \<le> amt r d" by simp
  then show ?thesis using r sorted_nonneg_iff [OF r(1)] by blast
qed

lemma C_record_deposit:
  assumes cs: "sorted_denoms cs" "\<forall>c \<in> set cs. 0 \<le> Amount c"
  shows "triple (C n) (bnd (GetDeposit G i a) (\<lambda>currDeposit.
      bnd (case currDeposit of
             None \<Rightarrow> setDeposit G i a \<lparr>dep_Depositer = a, dep_ProposalID = i, dep_Amount = cs\<rparr>
           | Some found \<Rightarrow> bnd (lift (Coins_Plus (dep_Amount found) cs)) (\<lambda>x. setDeposit G i a (found\<lparr>dep_Amount := x\<rparr>))) (\<lambda>_.
      ret y))) (\<lambda>_. C (\<lambda>d. n d + amt cs d))"
proof (rule tripleI)
  fix w r t assume w: "C n w" and run: "bnd (GetDeposit G i a) (\<lambda>currDeposit.
      bnd (case currDeposit of
             None \<Rightarrow> setDeposit G i a \<lparr>dep_Depositer = a, dep_ProposalID = i, dep_Amount = cs\<rparr>
           | Some found \<Rightarrow> bnd (lift (Coins_Plus (dep_Amount found) cs)) (\<lambda>x. setDeposit G i a (found\<lparr>dep_Amount := x\<rparr>))) (\<lambda>_.
      ret y)) w = (Val r, t)"
  let ?k = "KeyDeposit G i a" and ?m = "w_stores w (gv_key G)"
  have entry: "entry_ok G ?k bz" if "kv_Get ?m ?k = Some bz" for bz
    using w that by (simp add: coins_are_def gov_ok_def)
  obtain found w1 where get: "GetDeposit G i a w = (Val found, w1)"
    and rest: "(case found of
             None \<Rightarrow> setDeposit G i a \<lparr>dep_Depositer = a, dep_ProposalID = i, dep_Amount = cs\<rparr>
           | Some found \<Rightarrow> bnd (lift (Coins_Plus (dep_Amount found) cs)) (\<lambda>x. setDeposit G i a (found\<lparr>dep_Amount := x\<rparr>))) w1 = (Val (), t)"
    using run by (auto simp: bnd_Val_iff ret_iff)
  have w1: "w_stores w1 = w_stores w" "C n w1" using readsD [OF reads_gov(6) get] C_cong [OF _ w] by auto
  show "C (\<lambda>d. n d + amt cs d) t"
  proof (cases found)
    case None
    then have "kv_Get ?m ?k = None" using get by (auto simp: GetDeposit_def run_iffs dest!: gas_Get_Val)
    then show ?thesis
      using C_setDeposit [OF w1(2), of i a "\<lparr>dep_Depositer = a, dep_ProposalID = i, dep_Amount = cs\<rparr>" "()" t "\<lambda>_. 0"] rest None cs w1(1)
      by (simp add: dep_ok_def)
  next
    case (Some x)
    then obtain bz where bz: "kv_Get ?m ?k = Some bz" "gv_decDeposit G bz = Some x"
      using get by (auto simp: GetDeposit_def run_iffs dest!: gas_Get_Val)
    then have x: "dep_ok x" "?k = KeyDeposit G (dep_ProposalID x) (dep_Depositer x)"
      using entry [OF bz(1)] by (auto simp: entry_ok_def KeyDeposit_def)
    obtain z where z: "Coins_Plus (dep_Amount x) cs = Val z" "setDeposit G i a (x\<lparr>dep_Amount := z\<rparr>) w1 = (Val (), t)"
      using rest Some by (auto simp: run_iffs)
    note plus = nonneg_Plus [OF x(1) cs z(1)]
    have "C (\<lambda>d. n d - amt (dep_Amount x) d + amt z d) t"
      using C_setDeposit [OF w1(2) z(2), of "amt (dep_Amount x)"] plus x(2) bz w1(1) by (simp add: dep_ok_def)
    then show ?thesis using plus by simp
  qed
qed

lemma C_AddDeposit:
  assumes cs: "sorted_denoms cs" "\<forall>c \<in> set cs. 0 \<le> Amount c"
  shows "triple (C n) (AddDeposit E G ctx i a cs) (\<lambda>_. C n)"
  unfolding AddDeposit_def
proof (rule triple_bnd_holds [OF C_GetProposal], rule triple_case_option, blast intro: triple_ret, rule triple_if, blast intro: triple_ret,
    rule triple_bnd [OF C_subtract [OF cs(1)]], rule triple_case_sum, goal_cases)
  case (1 x p r e)
  then show ?case by (auto intro: triple_ret)
next
  case (2 x p r z)
  then have p: "prop_ok p" by simp
  let ?n = "\<lambda>d. n d - amt cs d"
  have enough: "holds (C ?n) (if b then lift y else ret z) (\<lambda>_. True)" for b z and y :: "bool outcome"
    by (auto intro: holds_if holds_lift holds_ret)
  show ?case unfolding 2(4) sum.case Let_def
  proof (rule triple_bnd_lift, rule triple_bnd_holds [OF C_SetProposal], goal_cases)
    case (1 total')
    then show ?case using plus_prop_ok [OF p cs(1)] by blast
  next
    case (2 total' u)
    have p': "prop_ok (p\<lparr>tp_TotalDeposit := total'\<rparr>)" using 2 plus_prop_ok [OF p cs(1)] by blast
    have act: "holds (C ?n) (if b then bnd (activateVotingPeriod G ctx (p\<lparr>tp_TotalDeposit := total'\<rparr>)) (\<lambda>_. ret True) else ret False) (\<lambda>_. True)" for b
      by (intro holds_if holds_ret C_bnd C_activate p' TrueI)
    show ?case
      by (rule triple_bnd_holds [OF enough], rule triple_bnd_holds [OF act], rule triple_weaken [OF C_record_deposit [OF cs]]) simp
  qed
qed

lemma C_handler:
  assumes "\<And>m. msg = Some m \<Longrightarrow> gov_ValidateBasic m = None"
  shows "triple (C n) (gov_NewHandler E G ctx msg) (\<lambda>_. C n)"
proof -
  have valid: "sorted_denoms cs \<and> (\<forall>c \<in> set cs. 0 \<le> Amount c)" if "Coins_IsValid cs" "Coins_IsNotNegative cs" for cs
    using that by (auto simp: Coins_IsValid_iff Coins_IsNotNegative_def Coin_IsNotNegative_def Int_Sign_def list_all_iff split: if_splits)
  have finish: "triple (C n) (bnd (lift y) (\<lambda>tags. ret (f tags))) (\<lambda>_. C n)" for y and f :: "Tags \<Rightarrow> Result"
    by (intro triple_bnd_lift triple_ret)
  have deposit: "triple (C n) (handleMsgDeposit E G ctx m) (\<lambda>_. C n)" if "MsgDeposit_ValidateBasic m = None" for m
    using valid [of "mdp_Amount m"] that unfolding handleMsgDeposit_def
    by (intro triple_bnd [OF C_AddDeposit] triple_case_prod triple_case_option triple_ret finish)
      (auto simp: MsgDeposit_ValidateBasic_def split: if_splits)
  have submit: "triple (C n) (handleMsgSubmitProposal E G ctx m) (\<lambda>_. C n)" if "MsgSubmitProposal_ValidateBasic m = None" for m
    using valid [of "msp_InitialDeposit m"] that unfolding handleMsgSubmitProposal_def Let_def
    by (intro triple_bnd_holds [OF C_NewTextProposal] triple_case_option triple_panicM triple_bnd [OF C_AddDeposit] triple_case_prod
        triple_ret finish)
      (auto simp: MsgSubmitProposal_ValidateBasic_def split: if_splits)
  have vote: "triple (C n) (handleMsgVote G m) (\<lambda>_. C n)" for m
    unfolding handleMsgVote_def by (intro triple_bnd_holds [OF C_AddVote] triple_case_option triple_ret finish)
  show ?thesis
  proof (cases msg)
    case None
    then show ?thesis by (auto simp: gov_NewHandler_def intro: triple_ret)
  next
    case (Some m)
    then show ?thesis using assms [OF Some] deposit submit vote
      by (cases m) (simp_all add: gov_NewHandler_def gov_ValidateBasic_def)
  qed
qed

text \<open>Refunding and deleting deposits.\<close>

definition at_keys :: "(bytes \<times> bytes) list \<Rightarrow> world \<Rightarrow> bool" where
  "at_keys its w \<longleftrightarrow> distinct (map fst its)
     \<and> (\<forall>it \<in> set its. prefix ''deposits:'' (fst it) \<and> kv_Get (w_stores w (gv_key G)) (fst it) = Some (snd it))"

lemma at_keys_start:
  assumes "C n w" and "GetDeposits G i w = (Val its, t)"
  shows "at_keys its t \<and> C n t \<and> its = filter (\<lambda>kv. prefix (KeyDepositsSubspace i) (fst kv)) (w_stores w (gv_key G)) \<and> t = w"
proof -
  have its: "its = filter (\<lambda>kv. prefix (KeyDepositsSubspace i) (fst kv)) (w_stores w (gv_key G))" "t = w"
    using assms(2) KVStorePrefixIterator_Val unfolding GetDeposits_def by (auto simp: KeyDepositsSubspace_def)
  have sorted: "kv_sorted (w_stores w (gv_key G))" using assms(1) by (simp add: coins_are_def gov_ok_def)
  then have "distinct (map fst its)" using its(1) kv_sorted_distinct by (simp add: distinct_map_filter)
  moreover have "prefix ''deposits:'' (fst it) \<and> kv_Get (w_stores w (gv_key G)) (fst it) = Some (snd it)" if "it \<in> set its" for it
  proof -
    have "prefix ''deposits:'' (KeyDepositsSubspace i)" by (simp add: KeyDepositsSubspace_def)
    then show ?thesis using that its(1) kv_sorted_distinct [OF sorted] by (auto simp: kv_Get_def intro: prefix_order.trans)
  qed
  ultimately show ?thesis using its assms(1) by (simp add: at_keys_def)
qed

lemma delete_deposit:
  assumes "C n w" and "at_keys (it # its) w" and "gas_Delete (gv_key G) (fst it) w = (Val u, t)"
  obtains x where "gv_decDeposit G (snd it) = Some x" and "dep_ok x" and "C (\<lambda>d. n d - amt (dep_Amount x) d) t" and "at_keys its t"
proof -
  have t: "w_stores t = (w_stores w)(gv_key G := kv_Delete (w_stores w (gv_key G)) (fst it))"
    using assms(3) by (auto simp: gas_Delete_run)
  have same: "w_stores t (ae_accKey E) = w_stores w (ae_accKey E)" using t stores by simp
  have g: "w_stores t (gv_key G) = kv_Delete (w_stores w (gv_key G)) (fst it)" using t by simp
  have it: "prefix ''deposits:'' (fst it)" "kv_Get (w_stores w (gv_key G)) (fst it) = Some (snd it)"
    using assms(2) by (auto simp: at_keys_def)
  then have "entry_ok G (fst it) (snd it)" using assms(1) by (simp add: coins_are_def gov_ok_def)
  then obtain x where x: "gv_decDeposit G (snd it) = Some x" "dep_ok x" using it(1) by (auto simp: entry_ok_def)
  have "escrow G t d = escrow G w d - amt (dep_Amount x) d" for d
    using escrow_Delete [OF _ g, of d] it x(1) assms(1) by (simp add: coins_are_def gov_ok_def entry_dep_def)
  then have "C (\<lambda>d. n d - amt (dep_Amount x) d) t"
    using assms(1) gov_ok_Delete [OF _ g] coin_views_cong [OF same] by (simp add: coins_are_def algebra_simps)
  moreover have "at_keys its t" using assms(2) g by (auto simp: at_keys_def image_iff)
  ultimately show thesis using that x by blast
qed

lemma at_keys_cong: "w_stores t (gv_key G) = w_stores w (gv_key G) \<Longrightarrow> at_keys its t = at_keys its w"
  by (simp add: at_keys_def)

lemma refund_loop:
  "C n w \<Longrightarrow> at_keys its w \<Longrightarrow> iterM its (\<lambda>it.
       bnd (gas_iter_Value it) (\<lambda>bz.
       bnd (must (gv_decDeposit G bz)) (\<lambda>deposit.
       bnd (addCoins E (dep_Depositer deposit) (dep_Amount deposit)) (\<lambda>r. case r of
         Inl err \<Rightarrow> panicM (GoPanic ''should not happen'')
       | Inr _ \<Rightarrow> bnd (gas_iter_Key it) (\<lambda>k. gas_Delete (gv_key G) k))))) w = (Val u, t) \<Longrightarrow> C n t"
proof (induction its arbitrary: w)
  case Nil
  then show ?case by (simp add: ret_iff)
next
  case (Cons it its)
  obtain x w1 y w2 w3 w4 where x: "gv_decDeposit G (snd it) = Some x" and w1: "w_stores w1 = w_stores w"
    and add: "addCoins E (dep_Depositer x) (dep_Amount x) w1 = (Val (Inr y), w2)"
    and w3: "w_stores w3 = w_stores w2" and del: "gas_Delete (gv_key G) (fst it) w3 = (Val (), w4)"
    and rest: "iterM its (\<lambda>it.
       bnd (gas_iter_Value it) (\<lambda>bz.
       bnd (must (gv_decDeposit G bz)) (\<lambda>deposit.
       bnd (addCoins E (dep_Depositer deposit) (dep_Amount deposit)) (\<lambda>r. case r of
         Inl err \<Rightarrow> panicM (GoPanic ''should not happen'')
       | Inr _ \<Rightarrow> bnd (gas_iter_Key it) (\<lambda>k. gas_Delete (gv_key G) k))))) w4 = (Val u, t)"
    using Cons.prems(3) by (auto simp: run_iffs dest!: gas_iter_Value_Val gas_iter_Key_Val)
  have "entry_ok G (fst it) (snd it)" and "prefix ''deposits:'' (fst it)"
    using Cons.prems(1,2) by (auto simp: coins_are_def gov_ok_def at_keys_def)
  then have sorted: "sorted_denoms (dep_Amount x)" using x by (auto simp: entry_ok_def dep_ok_def)
  have C1: "C n w1" using C_cong [OF w1 Cons.prems(1)] .
  have "C (\<lambda>d. n d + amt (dep_Amount x) d) w2" using tripleD [OF C_add [OF sorted] C1 add] by simp
  then have C3: "C (\<lambda>d. n d + amt (dep_Amount x) d) w3" using C_cong [OF w3] by blast
  have "w_stores w3 (gv_key G) = w_stores w (gv_key G)"
    using bank.add_Inr [OF add _ sorted] C1 w1 w3 stores by (simp add: coins_are_def)
  then have "at_keys (it # its) w3" using at_keys_cong Cons.prems(2) by blast
  from delete_deposit [OF C3 this del] x show ?case
    using Cons.IH [OF _ _ rest] by (metis (no_types, lifting) add_diff_cancel_right' option.inject ext)
qed

lemma C_Refund: "triple (C n) (RefundDeposits E G i) (\<lambda>_. C n)"
proof (rule tripleI)
  fix w r t assume w: "C n w" and "RefundDeposits E G i w = (Val r, t)"
  then obtain its w1 where get: "GetDeposits G i w = (Val its, w1)" and run: "iterM its (\<lambda>it.
       bnd (gas_iter_Value it) (\<lambda>bz.
       bnd (must (gv_decDeposit G bz)) (\<lambda>deposit.
       bnd (addCoins E (dep_Depositer deposit) (dep_Amount deposit)) (\<lambda>r. case r of
         Inl err \<Rightarrow> panicM (GoPanic ''should not happen'')
       | Inr _ \<Rightarrow> bnd (gas_iter_Key it) (\<lambda>k. gas_Delete (gv_key G) k))))) w1 = (Val r, t)"
    unfolding RefundDeposits_def bnd_Val_iff [of "GetDeposits G i"] by blast
  show "C n t" using at_keys_start [OF w get] refund_loop [OF _ _ run] by blast
qed

lemma delete_loop:
  "C n w \<Longrightarrow> at_keys its w \<Longrightarrow> iterM its (\<lambda>it. bnd (gas_iter_Key it) (\<lambda>k. gas_Delete (gv_key G) k)) w = (Val u, t) \<Longrightarrow>
   \<exists>m. (\<forall>d. m d \<le> n d) \<and> C m t"
proof (induction its arbitrary: w n)
  case Nil
  then show ?case by (auto simp: ret_iff)
next
  case (Cons it its)
  obtain w1 w2 where w1: "w_stores w1 = w_stores w" and del: "gas_Delete (gv_key G) (fst it) w1 = (Val (), w2)"
    and rest: "iterM its (\<lambda>it. bnd (gas_iter_Key it) (\<lambda>k. gas_Delete (gv_key G) k)) w2 = (Val u, t)"
    using Cons.prems(3) by (auto simp: run_iffs dest!: gas_iter_Key_Val)
  have "C n w1" "at_keys (it # its) w1" using C_cong [OF w1 Cons.prems(1)] at_keys_cong [of w1 w] w1 Cons.prems(2) by simp_all
  from delete_deposit [OF this del] obtain x where x: "dep_ok x" "C (\<lambda>d. n d - amt (dep_Amount x) d) w2" "at_keys its w2" by blast
  obtain m where m: "\<forall>d. m d \<le> n d - amt (dep_Amount x) d" "C m t" using Cons.IH [OF x(2,3) rest] by blast
  have nonneg: "0 \<le> amt (dep_Amount x) d" for d using x(1) sorted_nonneg_iff by (auto simp: dep_ok_def)
  have "m d \<le> n d" for d using m(1) [rule_format, of d] nonneg [of d] by linarith
  then show ?case using m(2) by blast
qed

text \<open>At most the coins \<open>n\<close>, which is what the end of a block keeps.\<close>

abbreviation B :: "(string \<Rightarrow> int) \<Rightarrow> world \<Rightarrow> bool" where
  "B n w \<equiv> \<exists>m. (\<forall>d. m d \<le> n d) \<and> C m w"

lemma B_holds: "(\<And>m. holds (C m) f Q) \<Longrightarrow> holds (B n) f Q"
  unfolding holds_def by blast

lemma B_Refund: "holds (B n) (RefundDeposits E G i) (\<lambda>_. True)"
proof (rule holdsI)
  fix w r t assume "B n w" and run: "RefundDeposits E G i w = (Val r, t)"
  then obtain m where "\<forall>d. m d \<le> n d" "C m w" by blast
  then show "B n t \<and> True" using tripleD [OF C_Refund _ run] by blast
qed

lemma B_Delete: "holds (B n) (DeleteDeposits G i) (\<lambda>_. True)"
proof (rule holdsI)
  fix w r t assume "B n w" and "DeleteDeposits G i w = (Val r, t)"
  then obtain m its w1 where m: "\<forall>d. m d \<le> n d" "C m w" and get: "GetDeposits G i w = (Val its, w1)"
    and run: "iterM its (\<lambda>it. bnd (gas_iter_Key it) (\<lambda>k. gas_Delete (gv_key G) k)) w1 = (Val r, t)"
    unfolding DeleteDeposits_def bnd_Val_iff [of "GetDeposits G i"] by blast
  have "at_keys its w1" "C m w1" using at_keys_start [OF m(2) get] by blast+
  then obtain m' where m': "\<forall>d. m' d \<le> m d" "C m' t" using delete_loop [OF _ _ run] by blast
  have "m' d \<le> n d" for d using m(1) m'(1) order_trans by blast
  then show "B n t \<and> True" using m'(2) by blast
qed

lemma B_bnd_reads: "reads m \<Longrightarrow> (\<And>x. holds (B n) (f x) Q) \<Longrightarrow> holds (B n) (bnd m f) Q"
  by (rule holds_bnd [OF B_holds [OF C_reads]]) blast+

lemma B_bnd: "holds (B n) m (\<lambda>_. True) \<Longrightarrow> (\<And>x. holds (B n) (f x) Q) \<Longrightarrow> holds (B n) (bnd m f) Q"
  using holds_bnd by blast

lemma C_tally_votes: "holds (C n) (tally_votes G D its ts) (\<lambda>_. True)"
proof (induction its arbitrary: ts)
  case Nil
  then show ?case by (simp add: holds_ret)
next
  case (Cons it its)
  have "reads (case map_of (ts_validators ts) k of
      Some val \<Rightarrow> ret (f val) | None \<Rightarrow> gs_IterateDelegations D a g ts)" for k f a g
    by (auto intro: reads_rules reads_sets split: option.splits)
  then show ?case unfolding tally_votes.simps
    by (intro C_bnd_reads reads_basic C_bnd C_writes Cons.IH)
qed

lemma C_tally: "holds (C n) (tally G D p) (\<lambda>_. True)"
  unfolding tally_def
  by (intro C_bnd_reads reads_sets reads_gov reads_basic C_bnd C_tally_votes holds_case_prod holds_ret TrueI)

lemma B_finish: "prop_ok p \<Longrightarrow> holds (B n) (finish_proposal E G D p) (\<lambda>_. True)"
  unfolding finish_proposal_def
  by (intro B_bnd B_holds [OF C_tally] holds_case_prod holds_if B_Refund B_Delete B_holds [OF C_SetProposal] holds_ret TrueI)
    (auto simp: prop_ok_def)

lemma B_loops:
  "holds (B n) (inactive_loop G ctx k) (\<lambda>_. True)" "holds (B n) (active_loop E G D ctx k nv) (\<lambda>_. True)"
proof (induction k arbitrary: nv)
  case (Suc k)
  {
    case 1
    show ?case unfolding inactive_loop.simps
      by (intro B_bnd_reads reads_peek holds_if holds_ret holds_bnd [OF B_holds [OF C_queues(4)]] holds_case_option holds_panicM
          B_bnd B_holds [OF C_writes(3)] Suc.IH TrueI)
  next
    case 2
    show ?case unfolding active_loop.simps
      by (intro B_bnd_reads reads_peek holds_if holds_ret holds_bnd [OF B_holds [OF C_queues(3)]] holds_case_option holds_panicM
          B_bnd B_finish Suc.IH TrueI) auto
  }
qed (simp_all add: holds_ret)

lemma B_EndBlocker: "holds (B n) (gov_EndBlocker E G D ctx fuel) (\<lambda>_. True)"
  unfolding gov_EndBlocker_def
  by (intro holds_bnd_lift B_bnd B_loops holds_case_option holds_ret TrueI)

end

end
