(* ===== verification/GovTally.thy ===== *)
theory GovTally
  imports GovSafety "HOL-Library.Multiset"
begin

text \<open>
  What the tally of a proposal counts.  The tally walks the bonded validators, then the votes and
  for each vote the delegations of the voter, and accumulates a map and running sums.  The
  reference says the result as sums over the validators, the votes and the delegations.
\<close>

section \<open>The reference\<close>

text \<open>The votes of a proposal in the store, in the order of their keys.\<close>

definition stored_votes :: "gov_env \<Rightarrow> world \<Rightarrow> int \<Rightarrow> Vote list" where
  "stored_votes G w i = List.map_filter (\<lambda>kv. gv_decVote G (snd kv))
     (filter (\<lambda>kv. prefix (KeyVotesSubspace i) (fst kv)) (w_stores w (gv_key G)))"

text \<open>What an account voted: its last vote counts.\<close>

definition vote_of :: "Vote list \<Rightarrow> bytes \<Rightarrow> VoteOption" where
  "vote_of votes a = fold (\<lambda>x opt. if vote_Voter x = a then vote_Option x else opt) votes OptionEmpty"

text \<open>The delegations of the voters that are not validators themselves, each with the option of its vote.\<close>

definition voted_shares :: "Validator list \<Rightarrow> (bytes \<Rightarrow> Delegation list) \<Rightarrow> Vote list \<Rightarrow> (VoteOption \<times> Delegation) list" where
  "voted_shares vs dels votes = concat (map (\<lambda>x. if vote_Voter x \<in> Owner ` set vs then [] else map (Pair (vote_Option x)) (dels (vote_Voter x))) votes)"

definition shares_at :: "(VoteOption \<times> Delegation) list \<Rightarrow> bytes \<Rightarrow> rat" where
  "shares_at cs a = (\<Sum>(opt, d) \<leftarrow> cs. if del_ValidatorAddr d = a then del_Shares d else 0)"

definition shares_for :: "(VoteOption \<times> Delegation) list \<Rightarrow> VoteOption \<Rightarrow> bytes \<Rightarrow> rat" where
  "shares_for cs k a = (\<Sum>(opt, d) \<leftarrow> cs. if opt = k \<and> del_ValidatorAddr d = a then del_Shares d else 0)"

text \<open>
  The power for an option: each validator's power per share, times the shares of its delegators
  that voted so, and, when the validator itself voted so, the shares whose delegators did not vote.
\<close>

definition power_for :: "Validator list \<Rightarrow> Vote list \<Rightarrow> (VoteOption \<times> Delegation) list \<Rightarrow> VoteOption \<Rightarrow> rat" where
  "power_for vs votes cs k = (\<Sum>v \<leftarrow> vs. PoolShares_Bonded (val_PoolShares v) / DelegatorShares v *
     (shares_for cs k (Owner v) +
      (if vote_of votes (Owner v) = k \<and> k \<noteq> OptionEmpty then DelegatorShares v - shares_at cs (Owner v) else 0)))"

section \<open>The accumulated state\<close>

fun ofold :: "('a \<Rightarrow> 'x \<Rightarrow> 'a outcome) \<Rightarrow> 'a \<Rightarrow> 'x list \<Rightarrow> 'a outcome" where
  "ofold f a [] = Val a"
| "ofold f a (x # xs) = obind (f a x) (\<lambda>a. ofold f a xs)"

definition gov_info :: "Vote list \<Rightarrow> (VoteOption \<times> Delegation) list \<Rightarrow> Validator \<Rightarrow> validatorGovInfo" where
  "gov_info votes cs v = \<lparr>vg_Address = Owner v, vg_Power = PoolShares_Bonded (val_PoolShares v), vg_DelegatorShares = DelegatorShares v,
     vg_Minus = shares_at cs (Owner v), vg_Vote = vote_of votes (Owner v)\<rparr>"

definition tallied :: "gov_env \<Rightarrow> Validator list \<Rightarrow> Vote list \<Rightarrow> (VoteOption \<times> Delegation) list \<Rightarrow> tally_state \<Rightarrow> bool" where
  "tallied G vs votes cs ts \<longleftrightarrow> ts_validators ts = map (\<lambda>v. (gv_addrString G (Owner v), gov_info votes cs v)) vs
     \<and> (\<forall>k. ts_results ts k = (\<Sum>v \<leftarrow> vs. PoolShares_Bonded (val_PoolShares v) / DelegatorShares v * shares_for cs k (Owner v)))
     \<and> ts_total ts = sum (ts_results ts) UNIV
     \<and> (\<forall>(opt, d) \<in> set cs. del_ValidatorAddr d \<in> Owner ` set vs)"

lemma tallied_entries: "tallied G vs votes cs ts \<Longrightarrow> ts_validators ts = map (\<lambda>v. (gv_addrString G (Owner v), gov_info votes cs v)) vs"
  by (simp add: tallied_def)

lemma gov_info_sel:
  "vg_Address (gov_info votes cs v) = Owner v" "vg_Power (gov_info votes cs v) = PoolShares_Bonded (val_PoolShares v)"
  "vg_DelegatorShares (gov_info votes cs v) = DelegatorShares v" "vg_Minus (gov_info votes cs v) = shares_at cs (Owner v)"
  "vg_Vote (gov_info votes cs v) = vote_of votes (Owner v)"
  by (simp_all add: gov_info_def)

lemma sum_fun_upd: "sum (r(k := r k + x)) (UNIV :: 8 word set) = sum r UNIV + (x :: rat)"
proof -
  have "sum (r(k := r k + x)) UNIV = (r k + x) + sum (r(k := r k + x)) (UNIV - {k})"
    by (subst sum.remove [of UNIV k]) simp_all
  also have "sum (r(k := r k + x)) (UNIV - {k}) = sum r (UNIV - {k})" by (rule sum.cong) auto
  finally show ?thesis by (subst sum.remove [of UNIV k r]) simp_all
qed

lemma update_entry:
  "inj key \<Longrightarrow> distinct (map Owner vs) \<Longrightarrow> v \<in> set vs \<Longrightarrow>
     AList.update (key (Owner v)) x (map (\<lambda>v. (key (Owner v), f v)) vs) = map (\<lambda>u. (key (Owner u), if Owner u = Owner v then x else f u)) vs"
proof (induction vs)
  case (Cons u vs)
  show ?case
  proof (cases "Owner u = Owner v")
    case True
    then have "Owner t \<noteq> Owner v" if "t \<in> set vs" for t using Cons.prems that by (auto simp: image_iff)
    then show ?thesis using True by simp
  next
    case False
    then show ?thesis using Cons by (auto dest: injD)
  qed
qed simp

lemma update_new:
  "k \<notin> fst ` set xs \<Longrightarrow> AList.update k x xs = xs @ [(k, x)]"
  by (induction xs) auto

lemma map_of_entry:
  assumes "inj key" and "map_of (map (\<lambda>v. (key (Owner v), f v)) vs) (key a) = Some x"
  shows "\<exists>v \<in> set vs. Owner v = a \<and> f v = x"
  using map_of_SomeD [OF assms(2)] injD [OF assms(1)] by auto

lemma sum_entry:
  "distinct (map Owner vs) \<Longrightarrow> v \<in> set vs \<Longrightarrow>
     (\<Sum>u \<leftarrow> vs. if Owner u = Owner v then f u else 0) = (f v :: rat)"
proof (induction vs)
  case (Cons u vs)
  have "(\<Sum>t \<leftarrow> vs. if Owner t = Owner u then f t else 0) = (\<Sum>t \<leftarrow> vs. 0)"
    using Cons.prems(1) by (intro arg_cong [of _ _ sum_list] map_cong) (auto simp: image_iff)
  then have other: "(\<Sum>t \<leftarrow> vs. if Owner t = Owner u then f t else 0) = 0" by simp
  show ?case
  proof (cases "Owner u = Owner v")
    case True
    then have "u = v" using Cons.prems by (auto simp: image_iff)
    then show ?thesis using other by simp
  next
    case False
    then show ?thesis using Cons by auto
  qed
qed simp

lemma vote_of_snoc: "vote_of (votes @ [x]) a = (if vote_Voter x = a then vote_Option x else vote_of votes a)"
  by (simp add: vote_of_def)

lemma shares_snoc:
  "shares_at (cs @ [(opt, d)]) a = shares_at cs a + (if del_ValidatorAddr d = a then del_Shares d else 0)"
  "shares_for (cs @ [(opt, d)]) k a = shares_for cs k a + (if opt = k \<and> del_ValidatorAddr d = a then del_Shares d else 0)"
  by (simp_all add: shares_at_def shares_for_def)

lemma voted_shares_snoc:
  "voted_shares vs dels (votes @ [x]) =
     voted_shares vs dels votes @ (if vote_Voter x \<in> Owner ` set vs then [] else map (Pair (vote_Option x)) (dels (vote_Voter x)))"
  by (simp add: voted_shares_def)

lemma tally_delegation_step:
  assumes "inj (gv_addrString G)" and "distinct (map Owner vs)"
    and "tally_delegation G opt ts d = Val ts'" and "tallied G vs votes cs ts"
  shows "tallied G vs votes (cs @ [(opt, d)]) ts'"
proof -
  let ?k = "gv_addrString G (del_ValidatorAddr d)"
  obtain val where val: "map_of (ts_validators ts) ?k = Some val" and nz: "vg_DelegatorShares val \<noteq> 0"
    and ts': "ts' = ts\<lparr>ts_validators := AList.update ?k (val\<lparr>vg_Minus := vg_Minus val + del_Shares d\<rparr>) (ts_validators ts),
      ts_results := (ts_results ts)(opt := ts_results ts opt + vg_Power val * (del_Shares d / vg_DelegatorShares val)),
      ts_total := ts_total ts + vg_Power val * (del_Shares d / vg_DelegatorShares val)\<rparr>"
    using assms(3) by (auto simp: tally_delegation_def Rat_Quo_def Let_def split: option.splits if_splits)
  obtain v where v: "v \<in> set vs" "Owner v = del_ValidatorAddr d" "gov_info votes cs v = val"
    using map_of_entry [OF assms(1) val [unfolded tallied_entries [OF assms(4)]]] by blast
  let ?p = "\<lambda>v. PoolShares_Bonded (val_PoolShares v) / DelegatorShares v"
  have "(\<Sum>u \<leftarrow> vs. ?p u * shares_for (cs @ [(opt, d)]) k (Owner u)) =
      (\<Sum>u \<leftarrow> vs. ?p u * shares_for cs k (Owner u)) + (\<Sum>u \<leftarrow> vs. if Owner u = Owner v then (if opt = k then ?p u * del_Shares d else 0) else 0)" for k
    unfolding sum_list_addf [symmetric] by (intro arg_cong [of _ _ sum_list] map_cong) (auto simp: shares_snoc v(2) distrib_left)
  then have sums: "(\<Sum>u \<leftarrow> vs. ?p u * shares_for (cs @ [(opt, d)]) k (Owner u)) =
      (\<Sum>u \<leftarrow> vs. ?p u * shares_for cs k (Owner u)) + (if opt = k then ?p v * del_Shares d else 0)" for k
    using sum_entry [OF assms(2) v(1), of "\<lambda>u. if opt = k then ?p u * del_Shares d else 0"] by simp
  have p: "vg_Power val * (del_Shares d / vg_DelegatorShares val) = ?p v * del_Shares d" using v(3) by (auto simp: gov_info_def)
  have same: "u = v" if "u \<in> set vs" "Owner u = Owner v" for u
    using assms(2) v(1) that by (auto simp: distinct_map dest: inj_onD)
  have "ts_validators ts' = map (\<lambda>u. (gv_addrString G (Owner u),
      if Owner u = Owner v then val\<lparr>vg_Minus := vg_Minus val + del_Shares d\<rparr> else gov_info votes cs u)) vs"
    using update_entry [OF assms(1,2) v(1)] assms(4) by (simp add: ts' tallied_def flip: v(2))
  also have "\<dots> = map (\<lambda>v. (gv_addrString G (Owner v), gov_info votes (cs @ [(opt, d)]) v)) vs"
  proof (intro map_cong refl)
    fix u assume u: "u \<in> set vs"
    show "(gv_addrString G (Owner u), if Owner u = Owner v then val\<lparr>vg_Minus := vg_Minus val + del_Shares d\<rparr> else gov_info votes cs u) =
        (gv_addrString G (Owner u), gov_info votes (cs @ [(opt, d)]) u)"
      using same [OF u] by (cases "Owner u = Owner v") (auto simp: gov_info_def shares_snoc v(2) simp flip: v(3))
  qed
  finally have "ts_validators ts' = map (\<lambda>v. (gv_addrString G (Owner v), gov_info votes (cs @ [(opt, d)]) v)) vs" .
  moreover have "del_ValidatorAddr d \<in> Owner ` set vs" using v(1,2) by force
  ultimately show ?thesis
    using assms(4) sums sum_fun_upd [of "ts_results ts" opt "?p v * del_Shares d"] unfolding p ts' tallied_def by auto
qed

lemma tally_delegations_fold:
  assumes "inj (gv_addrString G)" and "distinct (map Owner vs)"
  shows "ofold (tally_delegation G opt) ts ds = Val ts' \<Longrightarrow> tallied G vs votes cs ts \<Longrightarrow> tallied G vs votes (cs @ map (Pair opt) ds) ts'"
proof (induction ds arbitrary: ts cs)
  case (Cons d ds)
  then obtain ts1 where d: "tally_delegation G opt ts d = Val ts1" and rest: "ofold (tally_delegation G opt) ts1 ds = Val ts'"
    by (auto simp: obind_Val_iff)
  show ?case using Cons.IH [OF rest tally_delegation_step [OF assms d Cons.prems(2)]] by simp
qed simp

lemma tally_vote_step:
  assumes "inj (gv_addrString G)" and "distinct (map Owner vs)" and "tallied G vs votes cs ts"
    and "map_of (ts_validators ts) (gv_addrString G (vote_Voter x)) = Some val"
  shows "vote_Voter x \<in> Owner ` set vs"
    and "tallied G vs (votes @ [x]) cs (ts\<lparr>ts_validators := AList.update (gv_addrString G (vote_Voter x)) (val\<lparr>vg_Vote := vote_Option x\<rparr>) (ts_validators ts)\<rparr>)"
proof -
  obtain v where v: "v \<in> set vs" "Owner v = vote_Voter x" "gov_info votes cs v = val"
    using map_of_entry [OF assms(1) assms(4) [unfolded tallied_entries [OF assms(3)]]] by blast
  then show "vote_Voter x \<in> Owner ` set vs" by force
  have same: "u = v" if "u \<in> set vs" "Owner u = Owner v" for u
    using assms(2) v(1) that by (auto simp: distinct_map dest: inj_onD)
  have "AList.update (gv_addrString G (vote_Voter x)) (val\<lparr>vg_Vote := vote_Option x\<rparr>) (ts_validators ts) =
      map (\<lambda>u. (gv_addrString G (Owner u), if Owner u = Owner v then val\<lparr>vg_Vote := vote_Option x\<rparr> else gov_info votes cs u)) vs"
    using update_entry [OF assms(1,2) v(1)] assms(3) by (simp add: tallied_def flip: v(2))
  also have "\<dots> = map (\<lambda>v. (gv_addrString G (Owner v), gov_info (votes @ [x]) cs v)) vs"
  proof (intro map_cong refl)
    fix u assume u: "u \<in> set vs"
    show "(gv_addrString G (Owner u), if Owner u = Owner v then val\<lparr>vg_Vote := vote_Option x\<rparr> else gov_info votes cs u) =
        (gv_addrString G (Owner u), gov_info (votes @ [x]) cs u)"
      using same [OF u] by (cases "Owner u = Owner v") (auto simp: gov_info_def vote_of_snoc v(2) simp flip: v(3))
  qed
  finally show "tallied G vs (votes @ [x]) cs (ts\<lparr>ts_validators := AList.update (gv_addrString G (vote_Voter x)) (val\<lparr>vg_Vote := vote_Option x\<rparr>) (ts_validators ts)\<rparr>)"
    using assms(3) by (simp add: tallied_def)
qed

lemma tallied_other_vote:
  assumes "tallied G vs votes cs ts" and "vote_Voter x \<notin> Owner ` set vs"
  shows "tallied G vs (votes @ [x]) cs ts"
  using assms by (auto simp: tallied_def gov_info_def vote_of_snoc image_iff)

lemma tally_validators_fold:
  assumes "inj (gv_addrString G)"
  shows "ofold (tally_validator G) ts vs = Val ts' \<Longrightarrow> distinct (map Owner (us @ vs)) \<Longrightarrow> tallied G us [] [] ts \<Longrightarrow> tallied G (us @ vs) [] [] ts'"
proof (induction vs arbitrary: us ts)
  case (Cons v vs)
  have "gv_addrString G (Owner v) \<notin> fst ` set (ts_validators ts)"
    using Cons.prems(2,3) by (auto simp: tallied_def dest!: injD [OF assms])
  then have "tallied G (us @ [v]) [] [] (ts\<lparr>ts_validators := ts_validators ts @ [(gv_addrString G (Owner v), gov_info [] [] v)]\<rparr>)"
    and "tally_validator G ts v = Val (ts\<lparr>ts_validators := ts_validators ts @ [(gv_addrString G (Owner v), gov_info [] [] v)]\<rparr>)"
    using Cons.prems(3) by (simp_all add: tallied_def tally_validator_def update_new gov_info_def shares_at_def shares_for_def vote_of_def)
  then show ?case using Cons.IH [of _ "us @ [v]"] Cons.prems(1,2) by simp
qed simp

lemma tally_own_counts:
  "tally_own vals r n = Val (results, total', nonVoting) \<Longrightarrow>
   results k = r k + (\<Sum>v \<leftarrow> vals. if vg_Vote v = k \<and> k \<noteq> OptionEmpty
     then vg_Power v / vg_DelegatorShares v * (vg_DelegatorShares v - vg_Minus v) else 0)
   \<and> sum results UNIV = sum r UNIV + total' - n
   \<and> nonVoting = map vg_Address (filter (\<lambda>v. vg_Vote v = OptionEmpty) vals)"
proof (induction vals arbitrary: r n nonVoting)
  case (Cons v vals)
  show ?case
  proof (cases "vg_Vote v = OptionEmpty")
    case True
    then obtain nv where "tally_own vals r n = Val (results, total', nv)" "nonVoting = vg_Address v # nv"
      using Cons.prems by (auto simp: obind_Val_iff)
    then show ?thesis using Cons.IH True by auto
  next
    case False
    let ?p = "vg_Power v * ((vg_DelegatorShares v - vg_Minus v) / vg_DelegatorShares v)"
    have run: "tally_own vals (r(vg_Vote v := r (vg_Vote v) + ?p)) (n + ?p) = Val (results, total', nonVoting)"
      using Cons.prems False by (auto simp: Let_def Rat_Quo_def split: if_splits)
    show ?thesis using Cons.IH [OF run] False sum_fun_upd [of r "vg_Vote v" ?p] by auto
  qed
qed simp

section \<open>The tally implements the reference\<close>

text \<open>The walks of the two sets call the callback on one entry after the other.\<close>

locale gov_tally = gov_bank E G D for E :: auth_env and G :: gov_env and D :: gov_sets +
  fixes bonded :: "world \<Rightarrow> Validator list" and delegations :: "world \<Rightarrow> bytes \<Rightarrow> Delegation list"
  assumes walk_validators: "gs_IterateValidatorsBonded D f ts w = (Val ts', t) \<Longrightarrow> ofold f ts (bonded w) = Val ts'"
    and walk_delegations: "gs_IterateDelegations D a g ts w = (Val ts', t) \<Longrightarrow> ofold g ts (delegations w a) = Val ts'"
    and delegations_frame: "(\<And>s. s \<noteq> gv_key G \<Longrightarrow> w_stores t s = w_stores w s) \<Longrightarrow> delegations t = delegations w"
    and map_order: "mset (gv_mapOrder G vals) = mset vals"
    and addr_inj: "inj (gv_addrString G)"
begin

lemma tally_votes_fold:
  "tally_votes G D its ts w = (Val ts', t) \<Longrightarrow> distinct (map Owner vs) \<Longrightarrow> delegations w = dels \<Longrightarrow>
   tallied G vs votes (voted_shares vs dels votes) ts \<Longrightarrow>
   (\<exists>rest. map (\<lambda>it. gv_decVote G (snd it)) its = map Some rest \<and> tallied G vs (votes @ rest) (voted_shares vs dels (votes @ rest)) ts')"
proof (induction its arbitrary: ts w votes)
  case Nil
  then have "ts' = ts" by (simp add: ret_iff)
  then show ?case using Nil.prems(4) by (intro exI [of _ "[]"]) simp
next
  case (Cons it its)
  obtain bz and x :: Vote and w0 w1 ts1 w2 u w3 where val: "gas_iter_Value it w = (Val bz, w0)" and dec: "must (gv_decVote G bz) w0 = (Val x, w1)"
    and step: "(case map_of (ts_validators ts) (gv_addrString G (vote_Voter x)) of
            Some val \<Rightarrow> ret (ts\<lparr>ts_validators := AList.update (gv_addrString G (vote_Voter x)) (val\<lparr>vg_Vote := vote_Option x\<rparr>)
                          (ts_validators ts)\<rparr>)
          | None \<Rightarrow> gs_IterateDelegations D (vote_Voter x) (tally_delegation G (vote_Option x)) ts) w1 = (Val ts1, w2)"
    and del: "deleteVote G (vote_ProposalID x) (vote_Voter x) w2 = (Val u, w3)"
    and rest: "tally_votes G D its ts1 w3 = (Val ts', t)"
    using Cons.prems(1) unfolding tally_votes.simps bnd_Val_iff by blast
  have w1: "gv_decVote G (snd it) = Some x" "w_stores w1 = w_stores w"
    using gas_iter_Value_Val [OF val] dec by (auto simp: run_iffs)
  have "tallied G vs (votes @ [x]) (voted_shares vs dels (votes @ [x])) ts1 \<and> w_stores w2 = w_stores w1"
  proof (cases "map_of (ts_validators ts) (gv_addrString G (vote_Voter x))")
    case None
    then have run: "gs_IterateDelegations D (vote_Voter x) (tally_delegation G (vote_Option x)) ts w1 = (Val ts1, w2)" using step by simp
    have "delegations w1 = dels" using delegations_frame [of w1 w] w1(2) Cons.prems(3) by simp
    then have "ofold (tally_delegation G (vote_Option x)) ts (dels (vote_Voter x)) = Val ts1" using walk_delegations [OF run] by simp
    note folded = tally_delegations_fold [OF addr_inj Cons.prems(2) this Cons.prems(4)]
    have other: "vote_Voter x \<notin> Owner ` set vs"
      using None Cons.prems(4) by (auto simp: tallied_def map_of_eq_None_iff image_iff)
    show ?thesis using tallied_other_vote [OF folded other] other readsD [OF reads_sets(2) run] by (simp add: voted_shares_snoc)
  next
    case (Some v)
    then show ?thesis using step tally_vote_step [OF addr_inj Cons.prems(2,4) Some] by (auto simp: ret_iff voted_shares_snoc)
  qed
  moreover have "delegations w3 = dels"
    using del delegations_frame [of w3 w] calculation w1(2) Cons.prems(3) by (auto simp: deleteVote_def gas_Delete_run)
  ultimately obtain xs where "map (\<lambda>it. gv_decVote G (snd it)) its = map Some xs"
    and "tallied G vs ((votes @ [x]) @ xs) (voted_shares vs dels ((votes @ [x]) @ xs)) ts'"
    using Cons.IH [OF rest Cons.prems(2)] by blast
  then show ?case using w1(1) by (intro exI [of _ "x # xs"]) simp
qed

lemma tally_spec:
  assumes "tally G D p w = (Val (passes, nonVoting), t)" and "distinct (map Owner (bonded w))"
  defines "votes \<equiv> stored_votes G w (tp_ProposalID p)"
  defines "results \<equiv> power_for (bonded w) votes (voted_shares (bonded w) (delegations w) votes)"
  shows "passes \<longleftrightarrow> sum results UNIV \<noteq> results OptionAbstain \<and> results OptionNoWithVeto / sum results UNIV \<le> 1 / 3
        \<and> results OptionYes / (sum results UNIV - results OptionAbstain) > 1 / 2"
    and "mset nonVoting = mset (filter (\<lambda>a. vote_of votes a = OptionEmpty) (map Owner (bonded w)))"
    and "\<forall>(opt, d) \<in> set (voted_shares (bonded w) (delegations w) votes). del_ValidatorAddr d \<in> Owner ` set (bonded w)"
proof -
  obtain ts0 w1 its w2 ts w3 res total' where start: "gs_IterateValidatorsBonded D (tally_validator G) empty_tally w = (Val ts0, w1)"
    and get: "GetVotes G (tp_ProposalID p) w1 = (Val its, w2)"
    and run: "tally_votes G D its ts0 w2 = (Val ts, w3)"
    and own: "tally_own (map snd (gv_mapOrder G (ts_validators ts))) (ts_results ts) (ts_total ts) = Val (res, total', nonVoting)"
    and decide: "tally_decide res total' = Val passes"
    using assms(1) unfolding tally_def by (auto simp: run_iffs)
  let ?vs = "bonded w" and ?cs = "voted_shares (bonded w) (delegations w) votes"
  have "tallied G [] [] [] empty_tally" by (simp add: tallied_def empty_tally_def)
  then have ts0: "tallied G ?vs [] (voted_shares ?vs (delegations w) []) ts0"
    using tally_validators_fold [OF addr_inj walk_validators [OF start], of "[]"] assms(2) by (simp add: voted_shares_def)
  have w1: "w_stores w1 = w_stores w" using readsD [OF reads_sets(1) start] .
  have its: "its = filter (\<lambda>kv. prefix (KeyVotesSubspace (tp_ProposalID p)) (fst kv)) (w_stores w (gv_key G)) \<and> w2 = w1"
    using KVStorePrefixIterator_Val [OF get [unfolded GetVotes_def]] by (simp add: KeyVotesSubspace_def w1)
  have "delegations w2 = delegations w" using delegations_frame [of w2 w] its w1 by simp
  then obtain xs where xs: "map (\<lambda>it. gv_decVote G (snd it)) its = map Some xs" "tallied G ?vs xs (voted_shares ?vs (delegations w) xs) ts"
    using tally_votes_fold [OF run assms(2) _ ts0] by auto
  have "List.map_filter (\<lambda>it. gv_decVote G (snd it)) its = xs"
    using xs(1) by (induction its arbitrary: xs) (auto simp: Cons_eq_map_conv)
  then have "xs = votes" using its by (simp add: votes_def stored_votes_def)
  then have ts: "tallied G ?vs votes ?cs ts" using xs(2) by simp
  then show "\<forall>(opt, d) \<in> set ?cs. del_ValidatorAddr d \<in> Owner ` set ?vs" by (simp add: tallied_def)
  let ?infos = "map (gov_info votes ?cs) ?vs"
  have order: "mset (map snd (gv_mapOrder G (ts_validators ts))) = mset ?infos"
    using map_order [of "ts_validators ts"] ts by (simp only: mset_map tallied_def) (simp flip: mset_map add: comp_def)
  have sum_order: "sum_list (map f (map snd (gv_mapOrder G (ts_validators ts)))) = sum_list (map f ?infos)" for f :: "validatorGovInfo \<Rightarrow> rat"
    using arg_cong [OF order, of "\<lambda>m. sum_mset (image_mset f m)"] by (simp add: sum_mset_sum_list flip: mset_map)
  note counts = tally_own_counts [OF own]
  have "res k = results k" for k
  proof -
    let ?p = "\<lambda>v. PoolShares_Bonded (val_PoolShares v) / DelegatorShares v"
    have "res k = (\<Sum>v \<leftarrow> ?vs. ?p v * shares_for ?cs k (Owner v)) + (\<Sum>v \<leftarrow> ?vs. if vote_of votes (Owner v) = k \<and> k \<noteq> OptionEmpty
        then ?p v * (DelegatorShares v - shares_at ?cs (Owner v)) else 0)"
      unfolding conjunct1 [OF counts] sum_order using ts by (simp add: tallied_def comp_def gov_info_sel cong: if_cong)
    also have "\<dots> = results k"
      unfolding results_def power_for_def sum_list_addf [symmetric]
      by (intro arg_cong [of _ _ sum_list] map_cong) (auto simp: distrib_left)
    finally show ?thesis .
  qed
  then have res: "res = results" by blast
  have "sum res UNIV = sum (ts_results ts) UNIV + total' - ts_total ts" using counts by blast
  then have total': "total' = sum results UNIV" using ts by (simp only: tallied_def res)
  have "mset nonVoting = image_mset vg_Address (filter_mset (\<lambda>v. vg_Vote v = OptionEmpty) (mset ?infos))"
    using counts order by simp
  then show "mset nonVoting = mset (filter (\<lambda>a. vote_of votes a = OptionEmpty) (map Owner ?vs))"
    by (simp add: filter_mset_image_mset image_mset.compositionality comp_def gov_info_sel)
  show "passes \<longleftrightarrow> sum results UNIV \<noteq> results OptionAbstain \<and> results OptionNoWithVeto / sum results UNIV \<le> 1 / 3
        \<and> results OptionYes / (sum results UNIV - results OptionAbstain) > 1 / 2"
    using decide unfolding total' res by (auto simp: tally_decide_def Rat_Quo_def GetTallyingProcedure_def split: if_splits)
qed

end

end
