(* ===== verification/GovProperties.thy ===== *)
theory GovProperties
  imports GovTally
begin

text \<open>
  The properties of the governance module: that the loops at the end of a block end, what the
  tally counts, what becomes of deposits, and runs on the staking keeper.
\<close>

section \<open>The loops of the end of a block\<close>

definition stored_queue :: "gov_env \<Rightarrow> bytes \<Rightarrow> world \<Rightarrow> int list option" where
  "stored_queue G k w = (case kv_Get (w_stores w (gv_key G)) k of None \<Rightarrow> Some [] | Some bz \<Rightarrow> gv_decQueue G bz)"

lemma stored_queue_cong: "w_stores t (gv_key G) = w_stores w (gv_key G) \<Longrightarrow> stored_queue G k t = stored_queue G k w"
  by (simp add: stored_queue_def)

lemma confined_bank [confined_rules]:
  assumes "ae_accKey E \<in> A"
  shows "confined A (addCoins E a cs)"
  unfolding addCoins_def getCoins_def setCoins_def GetAccount_def SetAccount_def decodeAccount_def NewAccountWithAddress_def
    GetNextAccountNumber_def Let_def
  by (intro confined_rules assms)

lemma case_list_run: "case_list m f xs s = r \<longleftrightarrow> (xs = [] \<and> m s = r) \<or> (\<exists>y ys. xs = y # ys \<and> f y ys s = r)"
  by (cases xs) auto

context gov_bank
begin

abbreviation Q :: "bytes \<Rightarrow> int list option \<Rightarrow> world \<Rightarrow> bool" where
  "Q k q w \<equiv> stored_queue G k w = q"

lemma Q_reads: "reads m \<Longrightarrow> holds (Q k q) m (\<lambda>_. True)"
  by (rule holds_reads) (auto simp: stored_queue_def)

lemma Q_bnd_reads: "reads m \<Longrightarrow> (\<And>x. holds (Q k q) (f x) R) \<Longrightarrow> holds (Q k q) (bnd m f) R"
  using holds_bnd [OF Q_reads] by blast

lemma Q_bnd: "holds (Q k q) m (\<lambda>_. True) \<Longrightarrow> (\<And>x. holds (Q k q) (f x) R) \<Longrightarrow> holds (Q k q) (bnd m f) R"
  using holds_bnd by blast

lemma Q_writes:
  "k' \<noteq> k \<Longrightarrow> holds (Q k q) (gas_Set (gv_key G) k' v) (\<lambda>_. True)" "k' \<noteq> k \<Longrightarrow> holds (Q k q) (gas_Delete (gv_key G) k') (\<lambda>_. True)"
  by (auto simp: stored_queue_def gas_Delete_run intro!: holdsI dest!: gas_Set_Val)

lemma Q_add: "holds (Q k q) (addCoins E a cs) (\<lambda>_. True)"
  using confinedD [OF confined_bank [of E "{ae_accKey E}"]] stores stored_queue_cong by (intro holdsI) (metis insert_iff singletonD)

lemma Q_iter_Key: "(\<And>x. x = fst it \<Longrightarrow> holds (Q k q) (f x) R) \<Longrightarrow> holds (Q k q) (bnd (gas_iter_Key it) f) R"
  unfolding holds_def bnd_Val_iff using gas_iter_Key_Val stored_queue_cong by (metis (no_types, lifting))

lemma Q_GetDeposits: "holds (Q k q) (GetDeposits G i) (\<lambda>its. \<forall>it \<in> set its. prefix ''deposits:'' (fst it))"
proof (rule holdsI)
  fix w its t assume w: "Q k q w" and "GetDeposits G i w = (Val its, t)"
  then have "its = filter (\<lambda>kv. prefix (KeyDepositsSubspace i) (fst kv)) (w_stores w (gv_key G)) \<and> t = w"
    unfolding GetDeposits_def by (intro KVStorePrefixIterator_Val) (simp_all add: KeyDepositsSubspace_def)
  moreover have "prefix ''deposits:'' (KeyDepositsSubspace i)" by (simp add: KeyDepositsSubspace_def)
  ultimately show "Q k q t \<and> (\<forall>it \<in> set its. prefix ''deposits:'' (fst it))" using w by (auto intro: prefix_order.trans)
qed

lemma Q_deposits:
  assumes "\<not> prefix ''deposits:'' k"
  shows "holds (Q k q) (RefundDeposits E G i) (\<lambda>_. True)" and "holds (Q k q) (DeleteDeposits G i) (\<lambda>_. True)"
proof -
  have other: "fst it \<noteq> k" if "prefix ''deposits:'' (fst it)" for it :: "bytes \<times> bytes" using that assms by auto
  show "holds (Q k q) (RefundDeposits E G i) (\<lambda>_. True)"
    unfolding RefundDeposits_def
    by (rule holds_bnd [OF Q_GetDeposits], rule holds_iterM, rule Q_bnd_reads [OF reads_basic(8)], rule Q_bnd_reads [OF reads_basic(4)],
        rule Q_bnd [OF Q_add], rule holds_case_sum, rule holds_panicM, rule Q_iter_Key, rule Q_writes(2), simp add: other)
  show "holds (Q k q) (DeleteDeposits G i) (\<lambda>_. True)"
    unfolding DeleteDeposits_def
    by (rule holds_bnd [OF Q_GetDeposits], rule holds_iterM, rule Q_iter_Key, rule Q_writes(2), simp add: other)
qed

lemma Q_tally: "\<not> prefix ''votes:'' k \<Longrightarrow> holds (Q k q) (tally G D p) (\<lambda>_. True)"
proof -
  assume k: "\<not> prefix ''votes:'' k"
  have votes: "holds (Q k q) (tally_votes G D its ts) (\<lambda>_. True)" for its ts
  proof (induction its arbitrary: ts)
    case (Cons it its)
    have "reads (case map_of (ts_validators ts) k of
        Some val \<Rightarrow> ret (f val) | None \<Rightarrow> gs_IterateDelegations D a g ts)" for k f a g
      by (auto intro: reads_rules reads_sets split: option.splits)
    moreover have "holds (Q k q) (deleteVote G i a) (\<lambda>_. True)" for i a
      unfolding deleteVote_def using k by (intro Q_writes) (auto simp: KeyVote_def)
    ultimately show ?case unfolding tally_votes.simps by (intro Q_bnd_reads reads_basic Q_bnd Cons.IH)
  qed (simp add: holds_ret)
  show ?thesis
    unfolding tally_def
    by (intro Q_bnd_reads reads_sets reads_gov reads_basic Q_bnd votes holds_case_prod holds_ret TrueI)
qed

lemma Q_finish:
  assumes "k = KeyActiveProposalQueue \<or> k = KeyInactiveProposalQueue"
  shows "holds (Q k q) (finish_proposal E G D p) (\<lambda>_. True)" and "holds (Q k q) (DeleteProposal G p) (\<lambda>_. True)"
proof -
  have k: "\<not> prefix ''deposits:'' k" "\<not> prefix ''votes:'' k" "KeyProposal i \<noteq> k" for i
    using assms by (auto simp: KeyActiveProposalQueue_def KeyInactiveProposalQueue_def KeyProposal_def)
  show "holds (Q k q) (finish_proposal E G D p) (\<lambda>_. True)"
    unfolding finish_proposal_def SetProposal_def
    by (intro Q_bnd Q_tally Q_deposits holds_case_prod holds_if Q_writes holds_ret TrueI k)
  show "holds (Q k q) (DeleteProposal G p) (\<lambda>_. True)"
    unfolding DeleteProposal_def by (intro Q_writes k)
qed

lemma getQueue_Val:
  "getActiveProposalQueue G w = (Val q, t) \<Longrightarrow> stored_queue G KeyActiveProposalQueue w = Some q \<and> w_stores t = w_stores w"
  "getInactiveProposalQueue G w = (Val q, t) \<Longrightarrow> stored_queue G KeyInactiveProposalQueue w = Some q \<and> w_stores t = w_stores w"
  by (auto simp: getActiveProposalQueue_def getInactiveProposalQueue_def stored_queue_def run_iffs dest!: gas_Get_Val)

lemma Pop_Val:
  "ActiveProposalQueuePop G w = (Val (Some p), t) \<Longrightarrow>
     \<exists>x q. stored_queue G KeyActiveProposalQueue w = Some (x # q) \<and> stored_queue G KeyActiveProposalQueue t = Some q"
  "InactiveProposalQueuePop G w = (Val (Some p), t) \<Longrightarrow>
     \<exists>x q. stored_queue G KeyInactiveProposalQueue w = Some (x # q) \<and> stored_queue G KeyInactiveProposalQueue t = Some q"
  unfolding ActiveProposalQueuePop_def InactiveProposalQueuePop_def setActiveProposalQueue_def setInactiveProposalQueue_def
  by (auto simp: run_iffs case_list_run dest!: getQueue_Val gas_Set_Val readsD [OF reads_gov(3)])
    (auto simp: stored_queue_def dec_queue)

lemma inactive_ends:
  "stored_queue G KeyInactiveProposalQueue w = Some q \<Longrightarrow> length q < n \<Longrightarrow> inactive_loop G ctx n w \<noteq> (Val None, t)"
proof (induction n arbitrary: w q)
  case (Suc n)
  show ?case
  proof
    assume "inactive_loop G ctx (Suc n) w = (Val None, t)"
    then obtain w1 p w2 w3 where peek: "shouldPopInactiveProposalQueue G ctx w = (Val True, w1)"
      and pop: "InactiveProposalQueuePop G w1 = (Val (Some p), w2)"
      and del: "(if tp_Status p = StatusDepositPeriod then DeleteProposal G p else ret ()) w2 = (Val (), w3)"
      and rest: "inactive_loop G ctx n w3 = (Val None, t)"
      by (auto simp: run_iffs)
    have "stored_queue G KeyInactiveProposalQueue w1 = Some q"
      using readsD [OF reads_peek(4) peek] Suc.prems(1) by (simp add: stored_queue_def)
    then obtain x q' where q: "q = x # q'" "stored_queue G KeyInactiveProposalQueue w2 = Some q'" using Pop_Val(2) [OF pop] by auto
    have keep: "holds (Q KeyInactiveProposalQueue (Some q')) (if tp_Status p = StatusDepositPeriod then DeleteProposal G p else ret ()) (\<lambda>_. True)"
      by (intro holds_if Q_finish holds_ret) simp_all
    have "stored_queue G KeyInactiveProposalQueue w3 = Some q'" using holdsD [OF keep q(2) del] by simp
    then show False using Suc.IH [of w3 q'] rest Suc.prems(2) q(1) by auto
  qed
qed simp

lemma active_ends:
  "stored_queue G KeyActiveProposalQueue w = Some q \<Longrightarrow> length q < n \<Longrightarrow> active_loop E G D ctx n nv w \<noteq> (Val None, t)"
proof (induction n arbitrary: w q nv)
  case (Suc n)
  show ?case
  proof
    assume "active_loop E G D ctx (Suc n) nv w = (Val None, t)"
    then obtain w1 p w2 w3 nv' where peek: "shouldPopActiveProposalQueue G ctx w = (Val True, w1)"
      and pop: "ActiveProposalQueuePop G w1 = (Val (Some p), w2)"
      and fin: "(if ctx_BlockHeight ctx \<ge> wrap64 (tp_VotingStartBlock p + vp_VotingPeriod GetVotingProcedure)
        then finish_proposal E G D p else ret nv) w2 = (Val nv', w3)"
      and rest: "active_loop E G D ctx n nv' w3 = (Val None, t)"
      by (auto simp: run_iffs)
    have "stored_queue G KeyActiveProposalQueue w1 = Some q"
      using readsD [OF reads_peek(3) peek] Suc.prems(1) by (simp add: stored_queue_def)
    then obtain x q' where q: "q = x # q'" "stored_queue G KeyActiveProposalQueue w2 = Some q'" using Pop_Val(1) [OF pop] by auto
    have keep: "holds (Q KeyActiveProposalQueue (Some q')) 
        (if ctx_BlockHeight ctx \<ge> wrap64 (tp_VotingStartBlock p + vp_VotingPeriod GetVotingProcedure) then finish_proposal E G D p else ret nv) (\<lambda>_. True)"
      by (intro holds_if Q_finish holds_ret) simp_all
    have "stored_queue G KeyActiveProposalQueue w3 = Some q'" using holdsD [OF keep q(2) fin] by simp
    then show False using Suc.IH [of w3 q'] rest Suc.prems(2) q(1) by auto
  qed
qed simp

lemma Q_inactive: "holds (Q KeyActiveProposalQueue q) (inactive_loop G ctx n) (\<lambda>_. True)"
proof (induction n)
  case (Suc n)
  have "holds (Q KeyActiveProposalQueue q) (InactiveProposalQueuePop G) (\<lambda>_. True)"
    unfolding InactiveProposalQueuePop_def setInactiveProposalQueue_def
    by (intro Q_bnd_reads reads_gov holds_case_list holds_ret Q_bnd Q_writes Q_reads)
      (simp_all add: KeyActiveProposalQueue_def KeyInactiveProposalQueue_def)
  then show ?case unfolding inactive_loop.simps
    by (intro Q_bnd_reads reads_peek holds_if holds_ret Q_bnd holds_case_option holds_panicM Q_finish Suc.IH TrueI) simp_all
qed (simp add: holds_ret)

lemma EndBlocker_ends:
  assumes "stored_queue G KeyActiveProposalQueue w = Some q" and "length q < n"
    and "stored_queue G KeyInactiveProposalQueue w = Some q'" and "length q' < n"
  shows "fst (gov_EndBlocker E G D ctx n w) \<noteq> Val None"
proof
  assume "fst (gov_EndBlocker E G D ctx n w) = Val None"
  then obtain t where "gov_EndBlocker E G D ctx n w = (Val None, t)" by (metis prod.collapse)
  then consider "inactive_loop G ctx n w = (Val None, t)"
    | w1 where "inactive_loop G ctx n w = (Val (Some ()), w1)" "active_loop E G D ctx n [] w1 = (Val None, t)"
    by (auto simp: gov_EndBlocker_def run_iffs)
  then show False
  proof cases
    case 1
    then show False using inactive_ends [OF assms(3,4)] by blast
  next
    case 2
    then have "stored_queue G KeyActiveProposalQueue w1 = Some q" using holdsD [OF Q_inactive assms(1)] by blast
    then show False using active_ends [OF _ assms(2)] 2(2) by blast
  qed
qed

end

section \<open>The sets of the staking keeper\<close>

definition stake_gov_sets :: "stake_env \<Rightarrow> gov_sets" where
  "stake_gov_sets S =
     \<lparr>gs_IterateValidatorsBonded = (\<lambda>f. IterateValidatorsBonded S (\<lambda>_ v ts. bnd (lift (f ts v)) (\<lambda>ts. ret (ts, False)))),
      gs_IterateDelegations = (\<lambda>a f. IterateDelegations S a (\<lambda>_ d ts. bnd (lift (f ts d)) (\<lambda>ts. ret (ts, False))))\<rparr>"

definition bonded_validators :: "stake_env \<Rightarrow> world \<Rightarrow> Validator list" where
  "bonded_validators S w = List.map_filter (\<lambda>kv. stored_val S w (snd kv))
     (filter (\<lambda>kv. prefix ValidatorsBondedIndexKey (fst kv)) (w_stores w (sk_key S)))"

definition delegations_of :: "stake_env \<Rightarrow> world \<Rightarrow> bytes \<Rightarrow> Delegation list" where
  "delegations_of S w a = List.map_filter (\<lambda>kv. sk_decDel S (snd kv))
     (filter (\<lambda>kv. prefix (GetDelegationsKey S a) (fst kv)) (w_stores w (sk_key S)))"

lemma get_val_or_panic_Val: "get_val_or_panic S a w = (Val v, t) \<Longrightarrow> stored_val S w a = Some v \<and> w_stores t = w_stores w"
  by (auto simp: get_val_or_panic_def GetValidator_def stored_val_def run_iffs split: option.splits dest!: gas_Get_Val)

lemma reads_get_val: "reads (get_val_or_panic S a)"
  unfolding get_val_or_panic_def GetValidator_def by (intro reads_rules)

lemma reads_walks:
  "reads (iter_bonded S (\<lambda>_ v ts. bnd (lift (f ts v)) (\<lambda>ts. ret (ts, False))) its i ts)"
  "reads (iter_delegations S (\<lambda>_ d ts. bnd (lift (g ts d)) (\<lambda>ts. ret (ts, False))) its i ts)"
proof -
  show "reads (iter_bonded S (\<lambda>_ v ts. bnd (lift (f ts v)) (\<lambda>ts. ret (ts, False))) its i ts)"
  proof (induction its arbitrary: i ts)
    case (Cons it its)
    then show ?case by (auto intro!: reads_bnd reads_basic reads_get_val)
  qed (simp add: reads_basic)
  show "reads (iter_delegations S (\<lambda>_ d ts. bnd (lift (g ts d)) (\<lambda>ts. ret (ts, False))) its i ts)"
  proof (induction its arbitrary: i ts)
    case (Cons it its)
    then show ?case by (auto intro!: reads_bnd reads_basic)
  qed (simp add: reads_basic)
qed

lemma walk_bonded:
  "iter_bonded S (\<lambda>_ v ts. bnd (lift (f ts v)) (\<lambda>ts. ret (ts, False))) its i ts w = (Val ts', t) \<Longrightarrow>
   ofold f ts (List.map_filter (\<lambda>kv. stored_val S w (snd kv)) its) = Val ts'"
proof (induction its arbitrary: i ts w)
  case (Cons it its)
  then obtain a w1 v w2 ts1 where run: "gas_iter_Value it w = (Val a, w1)" "get_val_or_panic S a w1 = (Val v, w2)" "f ts v = Val ts1"
    "iter_bonded S (\<lambda>_ v ts. bnd (lift (f ts v)) (\<lambda>ts. ret (ts, False))) its (wrap64 (i + 1)) ts1 w2 = (Val ts', t)"
    by (auto simp: run_iffs)
  then have "stored_val S w (snd it) = Some v" and "stored_val S w2 = stored_val S w"
    by (auto simp: stored_val_def fun_eq_iff dest!: gas_iter_Value_Val get_val_or_panic_Val)
  then show ?case using Cons.IH [OF run(4)] run(3) by simp
qed (simp add: ret_iff)

lemma walk_delegations:
  "iter_delegations S (\<lambda>_ d ts. bnd (lift (f ts d)) (\<lambda>ts. ret (ts, False))) its i ts w = (Val ts', t) \<Longrightarrow>
   ofold f ts (List.map_filter (\<lambda>kv. sk_decDel S (snd kv)) its) = Val ts'"
proof (induction its arbitrary: i ts w)
  case (Cons it its)
  then obtain a w1 d ts1 where run: "gas_iter_Value it w = (Val a, w1)" "sk_decDel S a = Some d" "f ts d = Val ts1"
    "iter_delegations S (\<lambda>_ d ts. bnd (lift (f ts d)) (\<lambda>ts. ret (ts, False))) its (wrap64 (i + 1)) ts1 w1 = (Val ts', t)"
    by (auto simp: run_iffs)
  then have "sk_decDel S (snd it) = Some d" by (auto dest!: gas_iter_Value_Val)
  then show ?case using Cons.IH [OF run(4)] run(3) by simp
qed (simp add: ret_iff)

section \<open>A concrete codec and the staking keeper\<close>

definition net_encProposal :: "TextProposal \<Rightarrow> bytes" where
  "net_encProposal p = enc_fields [enc_int (tp_ProposalID p), tp_Title p, tp_Description p, enc_int (uint (tp_ProposalType p)),
     enc_int (uint (tp_Status p)), enc_int (tp_SubmitBlock p), enc_coins (tp_TotalDeposit p), enc_int (tp_VotingStartBlock p)]"

definition net_decProposal :: "bytes \<Rightarrow> TextProposal option" where
  "net_decProposal b = (case dec_fields b of
     Some [i, t, d, k, s, h, c, v] \<Rightarrow> (case (dec_int i, dec_int k, dec_int s, dec_int h, dec_coins c, dec_int v) of
       (Some i, Some k, Some s, Some h, Some c, Some v) \<Rightarrow> Some \<lparr>tp_ProposalID = i, tp_Title = t, tp_Description = d,
         tp_ProposalType = word_of_int k, tp_Status = word_of_int s, tp_SubmitBlock = h, tp_TotalDeposit = c, tp_VotingStartBlock = v\<rparr>
     | _ \<Rightarrow> None)
   | _ \<Rightarrow> None)"

definition net_encVote :: "Vote \<Rightarrow> bytes" where
  "net_encVote v = enc_fields [vote_Voter v, enc_int (vote_ProposalID v), enc_int (uint (vote_Option v))]"

definition net_decVote :: "bytes \<Rightarrow> Vote option" where
  "net_decVote b = (case dec_fields b of
     Some [a, i, x] \<Rightarrow> (case (dec_int i, dec_int x) of
       (Some i, Some x) \<Rightarrow> Some \<lparr>vote_Voter = a, vote_ProposalID = i, vote_Option = word_of_int x\<rparr> | _ \<Rightarrow> None)
   | _ \<Rightarrow> None)"

definition net_encDeposit :: "Deposit \<Rightarrow> bytes" where
  "net_encDeposit x = enc_fields [dep_Depositer x, enc_int (dep_ProposalID x), enc_coins (dep_Amount x)]"

definition net_decDeposit :: "bytes \<Rightarrow> Deposit option" where
  "net_decDeposit b = (case dec_fields b of
     Some [a, i, c] \<Rightarrow> (case (dec_int i, dec_coins c) of
       (Some i, Some c) \<Rightarrow> Some \<lparr>dep_Depositer = a, dep_ProposalID = i, dep_Amount = c\<rparr> | _ \<Rightarrow> None)
   | _ \<Rightarrow> None)"

definition net_gov_env :: gov_env where
  "net_gov_env = \<lparr>gv_key = ''gov'', gv_codespace = gov_DefaultCodespace, gv_encProposal = net_encProposal, gv_decProposal = net_decProposal,
     gv_encVote = net_encVote, gv_decVote = net_decVote, gv_encDeposit = net_encDeposit, gv_decDeposit = net_decDeposit,
     gv_encInt = enc_int, gv_decInt = dec_int, gv_encQueue = enc_list enc_int, gv_decQueue = dec_list dec_int,
     gv_encBare = enc_int, gv_fmtAddr = (\<lambda>a. a), gv_addrString = (\<lambda>a. a), gv_mapOrder = (\<lambda>m. m)\<rparr>"

lemma gov_env_runs:
  "gv_key net_gov_env = ''gov''" "gv_codespace net_gov_env = gov_DefaultCodespace" "gv_encProposal net_gov_env = net_encProposal"
  "gv_encVote net_gov_env = net_encVote" "gv_encDeposit net_gov_env = net_encDeposit" "gv_encInt net_gov_env = enc_int"
  "gv_encQueue net_gov_env = enc_list enc_int" "gv_encBare net_gov_env = enc_int" "gv_fmtAddr net_gov_env = (\<lambda>a. a)"
  "gv_addrString net_gov_env = (\<lambda>a. a)" "gv_mapOrder net_gov_env = (\<lambda>m. m)"
  by (simp_all add: net_gov_env_def)

lemma gov_dec_enc:
  "gv_decProposal net_gov_env (net_encProposal p) = Some p" "gv_decVote net_gov_env (net_encVote v) = Some v"
  "gv_decDeposit net_gov_env (net_encDeposit x) = Some x" "gv_decQueue net_gov_env (enc_list enc_int q) = Some q"
  "gv_decInt net_gov_env (enc_int i) = Some i"
  by (simp_all add: net_gov_env_def net_decProposal_def net_encProposal_def net_decVote_def net_encVote_def net_decDeposit_def net_encDeposit_def)

interpretation net_gov: gov_tally net_auth_env net_gov_env "stake_gov_sets net_stake_env"
  "bonded_validators net_stake_env" "delegations_of net_stake_env"
proof unfold_locales
  show "reads (gs_IterateValidatorsBonded (stake_gov_sets net_stake_env) f ts)" "reads (gs_IterateDelegations (stake_gov_sets net_stake_env) a g ts)"
    for f ts a g
    by (simp_all add: stake_gov_sets_def IterateValidatorsBonded_def IterateDelegations_def reads_bnd reads_iterators reads_walks)
  show "ofold f ts (bonded_validators net_stake_env w) = Val ts'"
    if "gs_IterateValidatorsBonded (stake_gov_sets net_stake_env) f ts w = (Val ts', t)" for f ts w ts' t
    using that by (auto simp: stake_gov_sets_def IterateValidatorsBonded_def bnd_Val_iff bonded_validators_def stake_key_defs
        dest!: walk_bonded KVStorePrefixIterator_Val)
  show "ofold g ts (delegations_of net_stake_env w a) = Val ts'"
    if "gs_IterateDelegations (stake_gov_sets net_stake_env) a g ts w = (Val ts', t)" for g ts w ts' t a
    using that by (auto simp: stake_gov_sets_def IterateDelegations_def bnd_Val_iff delegations_of_def GetDelegationsKey_def DelegationKey_def
        dest!: walk_delegations KVStorePrefixIterator_Val)
  show "delegations_of net_stake_env t = delegations_of net_stake_env w"
    if "\<And>s. s \<noteq> gv_key net_gov_env \<Longrightarrow> w_stores t s = w_stores w s" for t w
    using that by (simp add: delegations_of_def fun_eq_iff gov_env_runs net_stake_env_def)
qed (simp_all add: gov_env_runs gov_dec_enc net_auth_env_def inj_def)

section \<open>A concrete state\<close>

text \<open>
  A proposal in its voting period, with a deposit of \<open>bob\<close> and the vote of \<open>bob\<close>, who delegates
  to the bonded validator \<open>x\<close>.
\<close>

definition ex_proposal :: TextProposal where
  "ex_proposal = \<lparr>tp_ProposalID = 1, tp_Title = ''t'', tp_Description = ''d'', tp_ProposalType = ProposalTypeText,
     tp_Status = StatusVotingPeriod, tp_SubmitBlock = 0, tp_TotalDeposit = [NewCoin ''steak'' 10], tp_VotingStartBlock = 0\<rparr>"

definition ex_gov_stores :: "string \<Rightarrow> kvmap" where
  "ex_gov_stores = ex_stores(''gov'' :=
     [(KeyActiveProposalQueue, enc_list enc_int [1]),
      (KeyDeposit net_gov_env 1 ''bob'', net_encDeposit \<lparr>dep_Depositer = ''bob'', dep_ProposalID = 1, dep_Amount = [NewCoin ''steak'' 10]\<rparr>),
      (KeyProposal 1, net_encProposal ex_proposal),
      (KeyVote net_gov_env 1 ''bob'', net_encVote \<lparr>vote_Voter = ''bob'', vote_ProposalID = 1, vote_Option = OptionYes\<rparr>)])"

definition ex_gov :: world where
  "ex_gov = free ex_gov_stores 0"

definition ex_vote_end :: Context where
  "ex_vote_end = ex_ctx\<lparr>ctx_BlockHeight := 500\<rparr>"

lemmas gov_runs = gov_EndBlocker_def [THEN fun_cong] inactive_loop.simps [THEN fun_cong] active_loop.simps [THEN fun_cong]
  finish_proposal_def [THEN fun_cong] tally_def [THEN fun_cong] tally_votes.simps [THEN fun_cong]
  shouldPopInactiveProposalQueue_def [THEN fun_cong] shouldPopActiveProposalQueue_def [THEN fun_cong]
  ActiveProposalQueuePeek_def [THEN fun_cong] InactiveProposalQueuePeek_def [THEN fun_cong] ActiveProposalQueuePop_def [THEN fun_cong]
  getActiveProposalQueue_def [THEN fun_cong] getInactiveProposalQueue_def [THEN fun_cong] setActiveProposalQueue_def [THEN fun_cong]
  GetProposal_def [THEN fun_cong] SetProposal_def [THEN fun_cong] GetVotes_def [THEN fun_cong] deleteVote_def [THEN fun_cong]
  GetDeposits_def [THEN fun_cong] RefundDeposits_def [THEN fun_cong] IterateValidatorsBonded_def [THEN fun_cong]
  iter_bonded.simps [THEN fun_cong] IterateDelegations_def [THEN fun_cong] iter_delegations.simps [THEN fun_cong]

lemmas gov_values = gov_env_runs gov_dec_enc ex_gov_def ex_gov_stores_def ex_proposal_def ex_vote_end_def stake_gov_sets_def
  tally_validator_def tally_delegation_def tally_decide_def empty_tally_def GetTallyingProcedure_def
  GetVotingProcedure_def GetDepositProcedure_def gov_key_defs OptionYes_def OptionAbstain_def OptionNo_def OptionNoWithVeto_def OptionEmpty_def
  StatusVotingPeriod_def StatusPassed_def StatusDepositPeriod_def

lemma show_int_1: "show_int 1 = ''1''"
  by code_simp

lemma ex_tally_run: "\<exists>t. tally net_gov_env (stake_gov_sets net_stake_env) ex_proposal ex_gov = (Val (True, [''x'']), t)"
  by (simp add: gov_runs gov_values show_int_1 stake_exec cong: bnd_cong_weak)

definition ex_gov_deposit :: MsgDeposit where
  "ex_gov_deposit = \<lparr>mdp_ProposalID = 1, mdp_Depositer = ''bob'', mdp_Amount = [NewCoin ''steak'' 5]\<rparr>"

lemma ex_deposit_run:
  "\<exists>res t. gov_NewHandler net_auth_env net_gov_env ex_ctx (Some (GovDeposit ex_gov_deposit)) ex_gov = (Val res, t) \<and> Result_IsOK res"
  by (simp add: gov_NewHandler_def handleMsgDeposit_def [THEN fun_cong] AddDeposit_def [THEN fun_cong] GetDeposit_def [THEN fun_cong]
      setDeposit_def [THEN fun_cong] ex_gov_deposit_def gov_runs gov_values show_int_1 stake_exec WRSPCodeOK_def cong: bnd_cong_weak)

lemma ex_gov_end_run:
  "\<exists>tags t. gov_EndBlocker net_auth_env net_gov_env (stake_gov_sets net_stake_env) ex_vote_end (Suc (Suc 0)) ex_gov = (Val (Some (tags, [''x''])), t)"
  by (simp add: gov_runs gov_values show_int_1 stake_exec cong: bnd_cong_weak)

lemma ex_gov_facts: "bank_ok net_auth_env ex_gov" "gov_ok net_gov_env ex_gov"
proof -
  have "w_stores ex_gov (ae_accKey net_auth_env) = w_stores ex_stake (ae_accKey net_auth_env)"
    by (simp add: ex_gov_def ex_gov_stores_def ex_stake_def env_runs)
  then show "bank_ok net_auth_env ex_gov" using coin_views_cong ex_stake_facts(3) by metis
  show "gov_ok net_gov_env ex_gov"
    by (auto simp: gov_ok_def entry_ok_def gov_values show_int_1 kv_Get_def dep_ok_def prop_ok_def NewCoin_def NewInt_def validVoteOption_def split: if_splits)
qed

lemma ex_gov_coins: "coin_supply net_auth_env ex_gov ''steak'' + escrow net_gov_env ex_gov ''steak'' = 106"
  by (simp add: coin_supply_def escrow_def entry_amt_def entry_dep_def gov_values show_int_1 ex_stores_def env_runs NewCoin_def NewInt_def AddressStoreKey_def)

lemma ex_views:
  "bonded_validators net_stake_env ex_gov = [ex_val ''x'' (NewBondedShares 10)]"
  "stored_votes net_gov_env ex_gov 1 = [\<lparr>vote_Voter = ''bob'', vote_ProposalID = 1, vote_Option = OptionYes\<rparr>]"
  "delegations_of net_stake_env ex_gov ''bob'' = [\<lparr>del_DelegatorAddr = ''bob'', del_ValidatorAddr = ''x'', del_Shares = 7, del_Height = 0\<rparr>]"
  by (simp_all add: bonded_validators_def stored_votes_def delegations_of_def stored_val_def ex_gov_def ex_gov_stores_def ex_stores_def gov_env_runs
      gov_dec_enc gov_key_defs show_int_1 env_runs dec_runs key_runs text_runs kv_Get_def ex_power_key_def)

text \<open>The same state with no validator bonded.\<close>

definition ex_unbonded :: world where
  "ex_unbonded = free (ex_gov_stores(''stake'' := kv_Delete (ex_stores ''stake'') (GetValidatorsBondedIndexKey ''x''))) 0"

lemma ex_unbonded_views:
  "bonded_validators net_stake_env ex_unbonded = []"
  "stored_votes net_gov_env ex_unbonded 1 = [\<lparr>vote_Voter = ''bob'', vote_ProposalID = 1, vote_Option = OptionYes\<rparr>]"
  "delegations_of net_stake_env ex_unbonded ''bob'' = [\<lparr>del_DelegatorAddr = ''bob'', del_ValidatorAddr = ''x'', del_Shares = 7, del_Height = 0\<rparr>]"
  by (simp_all add: bonded_validators_def stored_votes_def delegations_of_def stored_val_def ex_unbonded_def ex_gov_stores_def ex_stores_def gov_env_runs
      gov_dec_enc gov_key_defs show_int_1 env_runs dec_runs key_runs text_runs kv_Get_def kv_Delete_def ex_power_key_def)

section \<open>Properties\<close>

text \<open>The invariants with the numbers of coins that a world has.\<close>

lemma coins_start: "bank_ok E w \<Longrightarrow> gov_ok G w \<Longrightarrow> coins_are E G (\<lambda>d. coin_supply E w d + escrow G w d) w"
  by (simp add: coins_are_def)

lemma handler_coins:
  assumes "gov_bank E G D" and "bank_ok E w" and "gov_ok G w" and "gov_ValidateBasic msg = None"
    and "gov_NewHandler E G ctx (Some msg) w = (Val res, t)"
  shows "coins_are E G (\<lambda>d. coin_supply E w d + escrow G w d) t"
  using tripleD [OF gov_bank.C_handler [OF assms(1)] coins_start [OF assms(2,3)] assms(5)] assms(4) by simp

lemma EndBlocker_coins:
  assumes "gov_bank E G D" and "bank_ok E w" and "gov_ok G w" and "gov_EndBlocker E G D ctx fuel w = (Val out, t)"
  shows "\<exists>m. (\<forall>d. m d \<le> coin_supply E w d + escrow G w d) \<and> coins_are E G m t"
proof -
  have "\<exists>m. (\<forall>d. m d \<le> coin_supply E w d + escrow G w d) \<and> coins_are E G m w"
    using coins_start [OF assms(2,3)] by (intro exI [of _ "\<lambda>d. coin_supply E w d + escrow G w d"]) simp
  from holdsD [OF gov_bank.B_EndBlocker [OF assms(1)] this assms(4)] show ?thesis by simp
qed

text \<open>
  C13: a governance message that has passed its validation moves coins between accounts and
  deposits and neither makes nor loses any, whether it succeeds or fails.
\<close>

theorem gov_handler_conserves:
  assumes "gov_bank E G D" and "bank_ok E w" and "gov_ok G w" and "gov_ValidateBasic msg = None"
    and "gov_NewHandler E G ctx (Some msg) w = (Val res, t)"
  shows "coin_supply E t d + escrow G t d = coin_supply E w d + escrow G w d"
  using handler_coins [OF assms] by (simp add: coins_are_def)

theorem gov_handler_conserves_witness:
  "\<exists>res t. gov_NewHandler net_auth_env net_gov_env ex_ctx (Some (GovDeposit ex_gov_deposit)) ex_gov = (Val res, t) \<and> Result_IsOK res
     \<and> coin_supply net_auth_env t ''steak'' + escrow net_gov_env t ''steak'' = 106"
proof -
  have "gov_ValidateBasic (GovDeposit ex_gov_deposit) = None"
    by (simp add: gov_ValidateBasic_def MsgDeposit_ValidateBasic_def ex_gov_deposit_def Coins_IsValid_iff Coins_IsNotNegative_def Coin_IsNotNegative_def
        NewCoin_def NewInt_def Int_Sign_def)
  then show ?thesis
    using ex_deposit_run gov_handler_conserves [OF net_gov.gov_bank_axioms ex_gov_facts, of "GovDeposit ex_gov_deposit" ex_ctx _ _ "''steak''"] ex_gov_coins
    by metis
qed

text \<open>
  C38: the loops at the end of a block end: with one round more than there are proposals in either
  queue, the loops either run to their end or stop with a panic, and never run out of rounds.
\<close>

theorem gov_EndBlocker_ends:
  assumes "gov_bank E G D" and "stored_queue G KeyActiveProposalQueue w = Some active" and "stored_queue G KeyInactiveProposalQueue w = Some inactive"
    and "length active < fuel" and "length inactive < fuel"
  shows "fst (gov_EndBlocker E G D ctx fuel w) \<noteq> Val None"
  using gov_bank.EndBlocker_ends [OF assms(1,2,4,3,5)] .

theorem gov_EndBlocker_ends_witness:
  "fst (gov_EndBlocker net_auth_env net_gov_env (stake_gov_sets net_stake_env) ex_vote_end 2 ex_gov) \<noteq> Val None"
  by (rule gov_EndBlocker_ends [OF net_gov.gov_bank_axioms, of _ "[1]" "[]"])
    (simp_all add: stored_queue_def gov_values kv_Get_def show_int_1)

text \<open>
  C7: the tally decides by the voting power that the stored votes stand for.  The power of a
  validator is split evenly over its shares.  Shares of delegators that voted themselves count for
  the option they chose; the other shares of a validator count for the validator's vote.
  The proposal passes when not all of the power abstained, at most a third of it is a veto, and
  more than half of what did not abstain says yes.  The validators without a vote are reported.
\<close>

theorem tally_counts:
  assumes "gov_tally E G D bonded delegations" and "distinct (map Owner (bonded w))"
    and "tally G D p w = (Val (passes, nonVoting), t)"
    and "votes = stored_votes G w (tp_ProposalID p)"
    and "results = power_for (bonded w) votes (voted_shares (bonded w) (delegations w) votes)"
  shows "(passes \<longleftrightarrow> sum results UNIV \<noteq> results OptionAbstain \<and> results OptionNoWithVeto / sum results UNIV \<le> 1 / 3
        \<and> results OptionYes / (sum results UNIV - results OptionAbstain) > 1 / 2)
    \<and> mset nonVoting = mset (filter (\<lambda>a. vote_of votes a = OptionEmpty) (map Owner (bonded w)))"
  using gov_tally.tally_spec [OF assms(1,3,2)] unfolding assms(4,5) by blast

theorem tally_counts_witness:
  "\<exists>results. results = power_for (bonded_validators net_stake_env ex_gov) (stored_votes net_gov_env ex_gov 1)
     (voted_shares (bonded_validators net_stake_env ex_gov) (delegations_of net_stake_env ex_gov) (stored_votes net_gov_env ex_gov 1))
   \<and> results OptionYes = 7 \<and> results OptionNoWithVeto / sum results UNIV \<le> 1 / 3"
proof -
  obtain t where run: "tally net_gov_env (stake_gov_sets net_stake_env) ex_proposal ex_gov = (Val (True, [''x'']), t)"
    using ex_tally_run by blast
  have "distinct (map Owner (bonded_validators net_stake_env ex_gov))" by (simp add: ex_views)
  from tally_counts [OF net_gov.gov_tally_axioms this run refl refl] show ?thesis
    by (simp add: ex_proposal_def) (simp add: ex_views power_for_def voted_shares_def shares_for_def shares_at_def vote_of_def ex_val_def NewBondedShares_def
        PoolShares_Bonded_def NewValidator_def OptionYes_def OptionEmpty_def)
qed

text \<open>
  C39: the tally never returns when an account that is not a bonded validator has voted and
  delegates to a validator that is not bonded: the code looks this validator up among the bonded
  ones and uses what it does not find.
\<close>

theorem tally_needs_bonded:
  assumes "gov_tally E G D bonded delegations" and "distinct (map Owner (bonded w))"
    and "vote \<in> set (stored_votes G w (tp_ProposalID p))" and "vote_Voter vote \<notin> Owner ` set (bonded w)"
    and "d \<in> set (delegations w (vote_Voter vote))" and "del_ValidatorAddr d \<notin> Owner ` set (bonded w)"
  shows "fst (tally G D p w) \<noteq> Val result"
proof
  assume "fst (tally G D p w) = Val result"
  then obtain passes nonVoting t where "tally G D p w = (Val (passes, nonVoting), t)" by (metis prod.collapse)
  from gov_tally.tally_spec(3) [OF assms(1) this assms(2)] show False
    using assms(3-6) by (force simp: voted_shares_def)
qed

theorem tally_needs_bonded_witness:
  "fst (tally net_gov_env (stake_gov_sets net_stake_env) ex_proposal ex_unbonded) \<noteq> Val (True, [])"
  by (rule tally_needs_bonded [OF net_gov.gov_tally_axioms, where vote = "\<lparr>vote_Voter = ''bob'', vote_ProposalID = 1, vote_Option = OptionYes\<rparr>"
        and d = "\<lparr>del_DelegatorAddr = ''bob'', del_ValidatorAddr = ''x'', del_Shares = 7, del_Height = 0\<rparr>"])
    (simp_all add: ex_proposal_def ex_unbonded_views)

end
