(* ===== verification/GovBooks.thy ===== *)
theory GovBooks
  imports GovProperties
begin

text \<open>
  The books of the governance module: what its store says about proposals, deposits and queues,
  read as a record, how the operations change it, the consistency that they keep, and what the
  end of a block does to deposits and balances.
\<close>

section \<open>What the store says\<close>

record gov_view =
  gw_props :: "int \<Rightarrow> TextProposal option"
  gw_deps :: "int \<Rightarrow> Deposit list"
  gw_votes :: "int \<Rightarrow> Vote list"
  gw_next :: "int option option"
  gw_active :: "int list option"
  gw_inactive :: "int list option"

definition stored_deposits :: "gov_env \<Rightarrow> world \<Rightarrow> int \<Rightarrow> Deposit list" where
  "stored_deposits G w i = List.map_filter (\<lambda>kv. gv_decDeposit G (snd kv))
     (filter (\<lambda>kv. prefix (KeyDepositsSubspace i) (fst kv)) (w_stores w (gv_key G)))"

definition gov_view_of :: "gov_env \<Rightarrow> world \<Rightarrow> gov_view" where
  "gov_view_of G w =
     \<lparr>gw_props = (\<lambda>i. Option.bind (kv_Get (w_stores w (gv_key G)) (KeyProposal i)) (gv_decProposal G)),
      gw_deps = stored_deposits G w,
      gw_votes = stored_votes G w,
      gw_next = map_option (gv_decInt G) (kv_Get (w_stores w (gv_key G)) KeyNextProposalID),
      gw_active = stored_queue G KeyActiveProposalQueue w,
      gw_inactive = stored_queue G KeyInactiveProposalQueue w\<rparr>"

definition deposited :: "Deposit list \<Rightarrow> string \<Rightarrow> int" where
  "deposited xs d = (\<Sum>x \<leftarrow> xs. amt (dep_Amount x) d)"

definition deposited_by :: "bytes \<Rightarrow> Deposit list \<Rightarrow> string \<Rightarrow> int" where
  "deposited_by a xs d = (\<Sum>x \<leftarrow> xs. if dep_Depositer x = a then amt (dep_Amount x) d else 0)"

text \<open>
  The books are consistent: the next proposal id is readable and no proposal or deposit has it or
  a larger one; the active queue has exactly the proposals in their voting period, each once; the
  inactive queue has all that still wait for deposits, each once; the total deposit of a proposal
  is not negative, and until the proposal is decided it is the sum of the deposits on it.
\<close>

definition unused_id :: "gov_view \<Rightarrow> int \<Rightarrow> bool" where
  "unused_id v i \<longleftrightarrow> gw_props v i = None \<and> gw_deps v i = [] \<and> (\<forall>q. gw_inactive v = Some q \<longrightarrow> i \<notin> set q)"

definition ids_ok :: "gov_view \<Rightarrow> bool" where
  "ids_ok v \<longleftrightarrow> (case gw_next v of
     None \<Rightarrow> (\<forall>i. unused_id v i) | Some None \<Rightarrow> False | Some (Some n) \<Rightarrow> (\<forall>i \<ge> n. unused_id v i))"

definition queues_ok :: "gov_view \<Rightarrow> bool" where
  "queues_ok v \<longleftrightarrow>
     (\<exists>q. gw_active v = Some q \<and> distinct q
        \<and> (\<forall>i. i \<in> set q \<longleftrightarrow> (\<exists>p. gw_props v i = Some p \<and> tp_Status p = StatusVotingPeriod)))
     \<and> (\<exists>q. gw_inactive v = Some q \<and> distinct q \<and> (\<forall>i p. gw_props v i = Some p \<and> tp_Status p = StatusDepositPeriod \<longrightarrow> i \<in> set q))"

definition totals_ok :: "gov_view \<Rightarrow> bool" where
  "totals_ok v \<longleftrightarrow> (\<forall>i p. gw_props v i = Some p \<longrightarrow>
     tp_ProposalID p = i \<and> (\<forall>d. 0 \<le> amt (tp_TotalDeposit p) d)
     \<and> (tp_Status p \<in> {StatusDepositPeriod, StatusVotingPeriod} \<longrightarrow> (\<forall>d. amt (tp_TotalDeposit p) d = deposited (gw_deps v i) d)))"

definition gov_books :: "gov_env \<Rightarrow> world \<Rightarrow> bool" where
  "gov_books G w \<longleftrightarrow> ids_ok (gov_view_of G w) \<and> queues_ok (gov_view_of G w) \<and> totals_ok (gov_view_of G w)"

lemmas books_defs = ids_ok_def queues_ok_def totals_ok_def unused_id_def

section \<open>What the end of a block should do\<close>

text \<open>
  A proposal passes when not all of the power abstained, at most a third of it is a veto, and more
  than half of what did not abstain says yes.
\<close>

definition majority :: "Validator list \<Rightarrow> (bytes \<Rightarrow> Delegation list) \<Rightarrow> Vote list \<Rightarrow> bool" where
  "majority vs dels votes \<longleftrightarrow> (let results = power_for vs votes (voted_shares vs dels votes); all_power = sum results UNIV in
     all_power \<noteq> results OptionAbstain \<and> results OptionNoWithVeto / all_power \<le> 1 / 3
     \<and> results OptionYes / (all_power - results OptionAbstain) > 1 / 2)"

text \<open>
  From the front of the inactive queue go the proposals that do not wait for deposits any more or
  have waited long enough; the ones that still wait are forgotten.
\<close>

definition leaves_queue :: "Context \<Rightarrow> gov_view \<Rightarrow> int \<Rightarrow> bool" where
  "leaves_queue ctx v i \<longleftrightarrow> (case gw_props v i of None \<Rightarrow> False | Some p \<Rightarrow>
     tp_Status p \<noteq> StatusDepositPeriod \<or> ctx_BlockHeight ctx \<ge> wrap64 (tp_SubmitBlock p + dp_MaxDepositPeriod GetDepositProcedure))"

definition timed_out :: "Context \<Rightarrow> gov_view \<Rightarrow> int list" where
  "timed_out ctx v = (case gw_inactive v of None \<Rightarrow> [] | Some q \<Rightarrow> takeWhile (leaves_queue ctx v) q)"

definition gov_expire :: "Context \<Rightarrow> gov_view \<Rightarrow> gov_view" where
  "gov_expire ctx v = v\<lparr>gw_inactive := map_option (dropWhile (leaves_queue ctx v)) (gw_inactive v),
     gw_props := (\<lambda>i. if i \<in> set (timed_out ctx v) \<and> map_option tp_Status (gw_props v i) = Some StatusDepositPeriod then None else gw_props v i)\<rparr>"

text \<open>
  From the front of the active queue go the proposals whose voting period is over.  Each is marked
  as passed or rejected and keeps no deposits and no votes; deposits are paid back to those who
  made them when the proposal has passed, and are burnt otherwise.
\<close>

definition ends_vote :: "Context \<Rightarrow> gov_view \<Rightarrow> int \<Rightarrow> bool" where
  "ends_vote ctx v i \<longleftrightarrow> (case gw_props v i of None \<Rightarrow> False | Some p \<Rightarrow>
     ctx_BlockHeight ctx \<ge> wrap64 (tp_VotingStartBlock p + vp_VotingPeriod GetVotingProcedure))"

definition voted_out :: "Context \<Rightarrow> gov_view \<Rightarrow> int list" where
  "voted_out ctx v = (case gw_active v of None \<Rightarrow> [] | Some q \<Rightarrow> takeWhile (ends_vote ctx v) q)"

definition gov_decide :: "Context \<Rightarrow> (int \<Rightarrow> bool) \<Rightarrow> gov_view \<Rightarrow> gov_view" where
  "gov_decide ctx pass v = v\<lparr>gw_active := map_option (dropWhile (ends_vote ctx v)) (gw_active v),
     gw_props := (\<lambda>i. if i \<in> set (voted_out ctx v) then map_option (\<lambda>p. p\<lparr>tp_Status := if pass i then StatusPassed else StatusRejected\<rparr>) (gw_props v i)
       else gw_props v i),
     gw_deps := (\<lambda>i. if i \<in> set (voted_out ctx v) then [] else gw_deps v i),
     gw_votes := (\<lambda>i. if i \<in> set (voted_out ctx v) then [] else gw_votes v i)\<rparr>"

definition gov_refunds :: "Context \<Rightarrow> (int \<Rightarrow> bool) \<Rightarrow> gov_view \<Rightarrow> bytes \<Rightarrow> string \<Rightarrow> int" where
  "gov_refunds ctx pass v a d = (\<Sum>i \<leftarrow> voted_out ctx v. if pass i then deposited_by a (gw_deps v i) d else 0)"

lemmas end_defs = gov_expire_def gov_decide_def gov_refunds_def timed_out_def voted_out_def

text \<open>One proposal more.\<close>

lemma expire_step:
  assumes "gw_inactive v = Some (i # q)" and "distinct (i # q)" and "leaves_queue ctx v i"
    and "v' = v\<lparr>gw_inactive := Some q, gw_props := if map_option tp_Status (gw_props v i) = Some StatusDepositPeriod then (gw_props v)(i := None) else gw_props v\<rparr>"
  shows "gov_expire ctx v = gov_expire ctx v'"
proof -
  have same: "leaves_queue ctx v' j = leaves_queue ctx v j" if "j \<in> set q" for j
    using that assms(2,4) by (auto simp: leaves_queue_def)
  have "takeWhile (leaves_queue ctx v') q = takeWhile (leaves_queue ctx v) q" "dropWhile (leaves_queue ctx v') q = dropWhile (leaves_queue ctx v) q"
    using same by (auto intro: takeWhile_cong dropWhile_cong)
  moreover have "i \<notin> set (takeWhile (leaves_queue ctx v) q)" using assms(2) by (auto dest: set_takeWhileD)
  ultimately show ?thesis using assms by (intro gov_view.equality) (auto simp: gov_expire_def timed_out_def fun_eq_iff)
qed

lemma expire_none:
  assumes "gw_inactive v = Some q" and "\<forall>i q'. q = i # q' \<longrightarrow> \<not> leaves_queue ctx v i"
  shows "gov_expire ctx v = v"
  using assms by (cases q) (simp_all add: gov_expire_def timed_out_def)

lemma decide_step:
  assumes "gw_active v = Some (i # q)" and "distinct (i # q)" and "ends_vote ctx v i" and "gw_props v i = Some p"
    and "v' = v\<lparr>gw_active := Some q, gw_props := (gw_props v)(i \<mapsto> p\<lparr>tp_Status := if pass i then StatusPassed else StatusRejected\<rparr>),
      gw_deps := (gw_deps v)(i := []), gw_votes := (gw_votes v)(i := [])\<rparr>"
  shows "gov_decide ctx pass v = gov_decide ctx pass v'"
    and "gov_refunds ctx pass v a d = (if pass i then deposited_by a (gw_deps v i) d else 0) + gov_refunds ctx pass v' a d"
proof -
  have same: "ends_vote ctx v' j = ends_vote ctx v j" if "j \<in> set q" for j
    using that assms(2,5) by (auto simp: ends_vote_def)
  have t: "takeWhile (ends_vote ctx v') q = takeWhile (ends_vote ctx v) q" "dropWhile (ends_vote ctx v') q = dropWhile (ends_vote ctx v) q"
    using same by (auto intro: takeWhile_cong dropWhile_cong)
  have i: "i \<notin> set (takeWhile (ends_vote ctx v) q)" using assms(2) by (auto dest: set_takeWhileD)
  show "gov_decide ctx pass v = gov_decide ctx pass v'" using assms t i by (intro gov_view.equality) (auto simp: gov_decide_def voted_out_def fun_eq_iff)
  have "map (\<lambda>j. if pass j then deposited_by a (gw_deps v' j) d else 0) (takeWhile (ends_vote ctx v) q)
      = map (\<lambda>j. if pass j then deposited_by a (gw_deps v j) d else 0) (takeWhile (ends_vote ctx v) q)"
    using i assms(5) by auto
  moreover have "gw_active v' = Some q" using assms(5) by simp
  ultimately show "gov_refunds ctx pass v a d = (if pass i then deposited_by a (gw_deps v i) d else 0) + gov_refunds ctx pass v' a d"
    using assms(1,3) t by (simp add: gov_refunds_def voted_out_def del: map_eq_conv)
qed

lemma decide_none:
  assumes "gw_active v = Some q" and "\<forall>i q'. q = i # q' \<longrightarrow> \<not> ends_vote ctx v i"
  shows "gov_decide ctx pass v = v" and "gov_refunds ctx pass v a d = 0"
  using assms by (cases q; simp add: gov_decide_def gov_refunds_def voted_out_def)+

text \<open>Both keep the books.\<close>

lemma expire_books:
  assumes "ids_ok v" and "queues_ok v" and "totals_ok v"
  shows "ids_ok (gov_expire ctx v)" and "queues_ok (gov_expire ctx v)" and "totals_ok (gov_expire ctx v)"
proof -
  have "unused_id (gov_expire ctx v) i" if "unused_id v i" for i
    using that by (auto simp: unused_id_def gov_expire_def dest: set_dropWhileD)
  then show "ids_ok (gov_expire ctx v)" using assms(1) by (auto simp: ids_ok_def gov_expire_def split: option.splits)
  show "totals_ok (gov_expire ctx v)" using assms(3) by (auto simp: totals_ok_def gov_expire_def split: if_splits)
  obtain q q' where q: "gw_active v = Some q" "distinct q" "\<And>i. i \<in> set q \<longleftrightarrow> (\<exists>p. gw_props v i = Some p \<and> tp_Status p = StatusVotingPeriod)"
    and q': "gw_inactive v = Some q'" "distinct q'" "\<And>i p. gw_props v i = Some p \<Longrightarrow> tp_Status p = StatusDepositPeriod \<Longrightarrow> i \<in> set q'"
    using assms(2) by (auto simp: queues_ok_def)
  have "i \<in> set (dropWhile (leaves_queue ctx v) q')" if "gw_props (gov_expire ctx v) i = Some p" "tp_Status p = StatusDepositPeriod" for i p
  proof -
    have "i \<in> set q'" "i \<notin> set (takeWhile (leaves_queue ctx v) q')"
      using that q'(1,3) by (auto simp: gov_expire_def timed_out_def split: if_splits)
    then show ?thesis by (metis Un_iff set_append takeWhile_dropWhile_id)
  qed
  moreover have "(\<exists>p. gw_props (gov_expire ctx v) i = Some p \<and> tp_Status p = StatusVotingPeriod) \<longleftrightarrow> i \<in> set q" for i
    by (auto simp: q(3) gov_expire_def StatusDepositPeriod_def StatusVotingPeriod_def)
  ultimately show "queues_ok (gov_expire ctx v)"
    unfolding queues_ok_def using q(1,2) q'(1,2) by (auto simp: gov_expire_def)
qed

lemma decide_books:
  assumes "ids_ok v" and "queues_ok v" and "totals_ok v"
  shows "ids_ok (gov_decide ctx pass v)" and "queues_ok (gov_decide ctx pass v)" and "totals_ok (gov_decide ctx pass v)"
proof -
  have "unused_id (gov_decide ctx pass v) i" if "unused_id v i" for i
    using that by (auto simp: unused_id_def gov_decide_def)
  then show "ids_ok (gov_decide ctx pass v)" using assms(1) by (auto simp: ids_ok_def gov_decide_def split: option.splits)
  show "totals_ok (gov_decide ctx pass v)"
    using assms(3) by (auto simp: totals_ok_def gov_decide_def gov_bytes split: if_splits)
  obtain q q' where q: "gw_active v = Some q" "distinct q" "\<And>i. i \<in> set q \<longleftrightarrow> (\<exists>p. gw_props v i = Some p \<and> tp_Status p = StatusVotingPeriod)"
    and q': "gw_inactive v = Some q'" "distinct q'" "\<And>i p. gw_props v i = Some p \<Longrightarrow> tp_Status p = StatusDepositPeriod \<Longrightarrow> i \<in> set q'"
    using assms(2) by (auto simp: queues_ok_def)
  have split: "i \<in> set (dropWhile (ends_vote ctx v) q) \<longleftrightarrow> i \<in> set q \<and> i \<notin> set (takeWhile (ends_vote ctx v) q)" for i
    using q(2) by (metis Un_iff disjoint_iff distinct_append set_append takeWhile_dropWhile_id)
  have "(\<exists>p. gw_props (gov_decide ctx pass v) i = Some p \<and> tp_Status p = StatusVotingPeriod) \<longleftrightarrow> i \<in> set (dropWhile (ends_vote ctx v) q)" for i
    unfolding split q(3) using q(1) by (auto simp: gov_decide_def voted_out_def gov_bytes split: if_splits)
  moreover have "i \<in> set q'" if "gw_props (gov_decide ctx pass v) i = Some p" "tp_Status p = StatusDepositPeriod" for i p
    using that q'(3) by (auto simp: gov_decide_def gov_bytes split: if_splits)
  ultimately show "queues_ok (gov_decide ctx pass v)"
    unfolding queues_ok_def using q(1,2) q'(1,2) by (auto simp: gov_decide_def)
qed

section \<open>Keys\<close>

lemma digit_no_colon: "d < 10 \<Longrightarrow> digit_char d \<noteq> CHR '':''"
  using digit_val_digit_char [of d] by (auto simp: digit_val_def)

lemma show_nat_no_colon: "CHR '':'' \<notin> set (show_nat n)"
proof (induction n rule: show_nat.induct)
  case (1 n)
  then show ?case using digit_no_colon [of "n mod 10"] digit_no_colon [of n] by (subst show_nat.simps) auto
qed

lemma show_int_no_colon: "CHR '':'' \<notin> set (show_int i)"
  using show_nat_no_colon by (simp add: show_int_def)

lemma colon_prefix:
  assumes "prefix (pre @ show_int i @ '':'') k" and "prefix (pre @ show_int j @ '':'') k"
  shows "i = j"
proof -
  obtain ys zs where "show_int i @ CHR '':'' # ys = show_int j @ CHR '':'' # zs"
    using assms by (auto simp: prefix_def)
  from arg_cong [OF this, of "split_on (CHR '':'')"] have "show_int i = show_int j"
    by (simp add: split_on_append show_int_no_colon)
  then show ?thesis by (metis SetString0_show_int option.inject)
qed

lemma subspace_disjoint:
  "prefix (KeyDepositsSubspace i) k \<Longrightarrow> prefix (KeyDepositsSubspace j) k \<Longrightarrow> i = j"
  "prefix (KeyVotesSubspace i) k \<Longrightarrow> prefix (KeyVotesSubspace j) k \<Longrightarrow> i = j"
  unfolding KeyDepositsSubspace_def KeyVotesSubspace_def by (blast intro: colon_prefix)+

lemma subspace_key:
  "prefix (KeyDepositsSubspace i) (KeyDeposit G j a) \<longleftrightarrow> i = j" "prefix (KeyVotesSubspace i) (KeyVote G j a) \<longleftrightarrow> i = j"
proof -
  have own: "prefix (KeyDepositsSubspace j) (KeyDeposit G j a)" "prefix (KeyVotesSubspace j) (KeyVote G j a)"
    by (simp_all add: gov_key_defs)
  show "prefix (KeyDepositsSubspace i) (KeyDeposit G j a) \<longleftrightarrow> i = j" "prefix (KeyVotesSubspace i) (KeyVote G j a) \<longleftrightarrow> i = j"
    using own subspace_disjoint by blast+
qed

lemma KeyProposal_inj [simp]: "KeyProposal i = KeyProposal j \<longleftrightarrow> i = j"
  by (auto simp: KeyProposal_def) (metis SetString0_show_int option.inject)

lemma subspace_other:
  "\<not> prefix (KeyDepositsSubspace i) (KeyProposal j)" "\<not> prefix (KeyDepositsSubspace i) KeyNextProposalID"
  "\<not> prefix (KeyDepositsSubspace i) KeyActiveProposalQueue" "\<not> prefix (KeyDepositsSubspace i) KeyInactiveProposalQueue"
  "\<not> prefix (KeyDepositsSubspace i) (KeyVote G j a)" "\<not> prefix (KeyVotesSubspace i) (KeyProposal j)"
  "\<not> prefix (KeyVotesSubspace i) KeyNextProposalID" "\<not> prefix (KeyVotesSubspace i) KeyActiveProposalQueue"
  "\<not> prefix (KeyVotesSubspace i) KeyInactiveProposalQueue" "\<not> prefix (KeyVotesSubspace i) (KeyDeposit G j a)"
  "prefix (KeyDepositsSubspace i) k \<Longrightarrow> \<not> prefix (KeyVotesSubspace j) k"
  by (auto simp: gov_key_defs prefix_def)

lemma keys_differ:
  "KeyProposal i \<noteq> KeyNextProposalID" "KeyProposal i \<noteq> KeyActiveProposalQueue" "KeyProposal i \<noteq> KeyInactiveProposalQueue"
  "KeyProposal i \<noteq> KeyVote G j a" "KeyProposal i \<noteq> KeyDeposit G j a"
  "KeyNextProposalID \<noteq> KeyActiveProposalQueue" "KeyNextProposalID \<noteq> KeyInactiveProposalQueue" "KeyNextProposalID \<noteq> KeyVote G j a"
  "KeyNextProposalID \<noteq> KeyDeposit G j a" "KeyActiveProposalQueue \<noteq> KeyInactiveProposalQueue" "KeyActiveProposalQueue \<noteq> KeyVote G j a"
  "KeyActiveProposalQueue \<noteq> KeyDeposit G j a" "KeyInactiveProposalQueue \<noteq> KeyVote G j a" "KeyInactiveProposalQueue \<noteq> KeyDeposit G j a"
  by (simp_all add: gov_key_defs)

lemmas keys_apart = subspace_other keys_differ keys_differ [symmetric]

section \<open>How writes change it\<close>

lemma gov_view_cong: "w_stores t (gv_key G) = w_stores w (gv_key G) \<Longrightarrow> gov_view_of G t = gov_view_of G w"
  by (simp add: gov_view_of_def stored_deposits_def stored_votes_def stored_queue_def fun_eq_iff)

lemma filter_kv_Delete: "\<not> P k \<Longrightarrow> filter (\<lambda>kv. P (fst kv)) (kv_Delete m k) = filter (\<lambda>kv. P (fst kv)) m"
  by (induction m) (auto simp: kv_Delete_def)

lemma kv_Get_filter_in: "P k \<Longrightarrow> kv_Get (filter (\<lambda>kv. P (fst kv)) m) k = kv_Get m k"
  unfolding kv_Get_def by (induction m) auto

lemma kv_Set_below: "\<forall>kv \<in> set m. k < fst kv \<Longrightarrow> kv_Set m k v = (k, v) # m"
  by (cases m) auto

lemma filter_kv_Set_in:
  "kv_sorted m \<Longrightarrow> P k \<Longrightarrow> filter (\<lambda>kv. P (fst kv)) (kv_Set m k v) = kv_Set (filter (\<lambda>kv. P (fst kv)) m) k v"
proof (induction m)
  case (Cons kv m)
  obtain k' v' where kv: "kv = (k', v')" by fastforce
  have above: "\<forall>x \<in> set m. k' < fst x" and m: "kv_sorted m" using Cons.prems(1) by (auto simp: kv kv_sorted_def)
  have below: "kv_Set (filter (\<lambda>kv. P (fst kv)) m) k v = (k, v) # filter (\<lambda>kv. P (fst kv)) m" if "k \<le> k'"
    using above that by (intro kv_Set_below) auto
  show ?case using Cons.IH [OF m Cons.prems(2)] Cons.prems(2) below by (auto simp: kv)
qed simp

definition dep_part :: "gov_env \<Rightarrow> (Deposit \<Rightarrow> int) \<Rightarrow> bytes \<times> bytes \<Rightarrow> int" where
  "dep_part G f kv = (case gv_decDeposit G (snd kv) of None \<Rightarrow> 0 | Some x \<Rightarrow> f x)"

lemma sum_map_filter: "(\<Sum>x \<leftarrow> List.map_filter (\<lambda>kv. gv_decDeposit G (snd kv)) m. f x) = sum_list (map (dep_part G f) m)"
  by (induction m) (auto simp: dep_part_def split: option.splits)

text \<open>The writes, as changes of the record; a write of another key changes nothing.\<close>

lemma view_Set:
  assumes "w_stores t (gv_key G) = kv_Set (w_stores w (gv_key G)) k bz"
  shows "k = KeyProposal i \<Longrightarrow> gv_decProposal G bz = Some p \<Longrightarrow>
      gov_view_of G t = (gov_view_of G w)\<lparr>gw_props := (gw_props (gov_view_of G w))(i \<mapsto> p)\<rparr>"
    and "k = KeyNextProposalID \<Longrightarrow> gv_decInt G bz = Some n \<Longrightarrow> gov_view_of G t = (gov_view_of G w)\<lparr>gw_next := Some (Some n)\<rparr>"
    and "k = KeyActiveProposalQueue \<Longrightarrow> gv_decQueue G bz = Some q \<Longrightarrow> gov_view_of G t = (gov_view_of G w)\<lparr>gw_active := Some q\<rparr>"
    and "k = KeyInactiveProposalQueue \<Longrightarrow> gv_decQueue G bz = Some q \<Longrightarrow> gov_view_of G t = (gov_view_of G w)\<lparr>gw_inactive := Some q\<rparr>"
    and "k = KeyVote G i a \<Longrightarrow> \<exists>f. gov_view_of G t = (gov_view_of G w)\<lparr>gw_votes := f\<rparr>"
  using assms
  by (auto simp: gov_view_of_def stored_deposits_def stored_votes_def stored_queue_def fun_eq_iff filter_kv_Set keys_apart)

lemma view_Delete:
  assumes "w_stores t (gv_key G) = kv_Delete (w_stores w (gv_key G)) (KeyProposal i)"
  shows "gov_view_of G t = (gov_view_of G w)\<lparr>gw_props := (gw_props (gov_view_of G w))(i := None)\<rparr>"
  using assms
  by (auto simp: gov_view_of_def stored_deposits_def stored_votes_def stored_queue_def fun_eq_iff filter_kv_Delete keys_apart)

lemma view_setDeposit:
  assumes "w_stores t (gv_key G) = kv_Set (w_stores w (gv_key G)) (KeyDeposit G i a) bz" and "gv_decDeposit G bz = Some x"
    and "kv_sorted (w_stores w (gv_key G))"
  shows "\<exists>xs. gov_view_of G t = (gov_view_of G w)\<lparr>gw_deps := (gw_deps (gov_view_of G w))(i := xs)\<rparr>
    \<and> (\<forall>d. deposited xs d = deposited (gw_deps (gov_view_of G w) i) d + amt (dep_Amount x) d
        - (case kv_Get (w_stores w (gv_key G)) (KeyDeposit G i a) of None \<Rightarrow> 0 | Some old \<Rightarrow> dep_part G (\<lambda>x. amt (dep_Amount x) d) ([], old)))"
proof -
  let ?m = "w_stores w (gv_key G)" and ?P = "\<lambda>j kv. prefix (KeyDepositsSubspace j) (fst kv)" and ?k = "KeyDeposit G i a"
  have same: "filter (?P j) (kv_Set ?m ?k bz) = filter (?P j) ?m" if "j \<noteq> i" for j
    using that by (intro filter_kv_Set) (simp add: subspace_key)
  have here: "filter (?P i) (kv_Set ?m ?k bz) = kv_Set (filter (?P i) ?m) ?k bz"
    by (intro filter_kv_Set_in assms(3)) (simp add: subspace_key)
  have get: "kv_Get (filter (?P i) ?m) ?k = kv_Get ?m ?k"
    by (rule kv_Get_filter_in) (simp add: subspace_key)
  have sorted: "kv_sorted (filter (?P i) ?m)" using assms(3) by simp
  have "deposited (stored_deposits G t i) d = deposited (stored_deposits G w i) d + amt (dep_Amount x) d
      - (case kv_Get ?m ?k of None \<Rightarrow> 0 | Some old \<Rightarrow> dep_part G (\<lambda>x. amt (dep_Amount x) d) ([], old))" for d
    unfolding deposited_def stored_deposits_def assms(1) here sum_map_filter kv_Set_sum [OF sorted] get
    by (simp add: dep_part_def assms(2) split: option.splits)
  moreover have "gov_view_of G t = (gov_view_of G w)\<lparr>gw_deps := (gw_deps (gov_view_of G w))(i := stored_deposits G t i)\<rparr>"
    by (auto simp: gov_view_of_def stored_queue_def stored_votes_def assms(1) fun_eq_iff filter_kv_Set keys_apart) (auto simp: stored_deposits_def assms(1) same)
  ultimately show ?thesis by (intro exI [of _ "stored_deposits G t i"]) (simp add: gov_view_of_def)
qed

text \<open>All deposits, or all votes, of a proposal are removed.\<close>

lemma view_drop:
  assumes "w_stores t (gv_key G) = filter (\<lambda>kv. \<not> prefix s (fst kv)) (w_stores w (gv_key G))"
  shows "s = KeyDepositsSubspace i \<Longrightarrow> gov_view_of G t = (gov_view_of G w)\<lparr>gw_deps := (gw_deps (gov_view_of G w))(i := [])\<rparr>"
    and "s = KeyVotesSubspace i \<Longrightarrow> gov_view_of G t = (gov_view_of G w)\<lparr>gw_votes := (gw_votes (gov_view_of G w))(i := [])\<rparr>"
proof -
  let ?m = "w_stores w (gv_key G)" and ?P = "\<lambda>s kv. prefix s (fst kv)"
  have get: "kv_Get (filter (\<lambda>kv. \<not> ?P s kv) ?m) k = kv_Get ?m k" if "\<not> prefix s k" for k
    using that by (rule kv_Get_filter_in)
  show "gov_view_of G t = (gov_view_of G w)\<lparr>gw_deps := (gw_deps (gov_view_of G w))(i := [])\<rparr>" if s: "s = KeyDepositsSubspace i"
  proof -
    have "filter (?P (KeyDepositsSubspace j)) (filter (\<lambda>kv. \<not> ?P s kv) ?m) = (if j = i then [] else filter (?P (KeyDepositsSubspace j)) ?m)" for j
      using subspace_disjoint(1) [of i _ j] by (auto simp: s filter_empty_conv intro!: filter_cong)
    then have "stored_deposits G t = (stored_deposits G w)(i := [])" by (simp add: stored_deposits_def assms fun_eq_iff)
    moreover have "filter (?P (KeyVotesSubspace j)) (filter (\<lambda>kv. \<not> ?P s kv) ?m) = filter (?P (KeyVotesSubspace j)) ?m" for j
      using subspace_other(11) [of i _ j] by (auto simp: s intro!: filter_cong)
    then have "stored_votes G t = stored_votes G w" by (simp add: stored_votes_def assms fun_eq_iff)
    ultimately show ?thesis using get by (simp add: gov_view_of_def stored_queue_def assms s subspace_other)
  qed
  show "gov_view_of G t = (gov_view_of G w)\<lparr>gw_votes := (gw_votes (gov_view_of G w))(i := [])\<rparr>" if s: "s = KeyVotesSubspace i"
  proof -
    have "filter (?P (KeyVotesSubspace j)) (filter (\<lambda>kv. \<not> ?P s kv) ?m) = (if j = i then [] else filter (?P (KeyVotesSubspace j)) ?m)" for j
      using subspace_disjoint(2) [of i _ j] by (auto simp: s filter_empty_conv intro!: filter_cong)
    then have "stored_votes G t = (stored_votes G w)(i := [])" by (simp add: stored_votes_def assms fun_eq_iff)
    moreover have "filter (?P (KeyDepositsSubspace j)) (filter (\<lambda>kv. \<not> ?P s kv) ?m) = filter (?P (KeyDepositsSubspace j)) ?m" for j
      using subspace_other(11) [of j _ i] by (auto simp: s intro!: filter_cong)
    then have "stored_deposits G t = stored_deposits G w" by (simp add: stored_deposits_def assms fun_eq_iff)
    ultimately show ?thesis using get by (simp add: gov_view_of_def stored_queue_def assms s subspace_other)
  qed
qed

lemma stored_prop_ok:
  assumes "gov_ok G w" and "gw_props (gov_view_of G w) i = Some p"
  shows "prop_ok p"
proof -
  obtain bz where bz: "kv_Get (w_stores w (gv_key G)) (KeyProposal i) = Some bz" "gv_decProposal G bz = Some p"
    using assms(2) by (auto simp: gov_view_of_def bind_eq_Some_conv)
  have "entry_ok G (KeyProposal i) bz" using assms(1) bz(1) by (simp add: gov_ok_def)
  moreover have "prefix ''proposals:'' (KeyProposal i)" by (simp add: KeyProposal_def)
  ultimately show ?thesis using bz(2) by (auto simp: entry_ok_def)
qed

lemma books_votes:
  "ids_ok (v\<lparr>gw_votes := f\<rparr>) = ids_ok v" "queues_ok (v\<lparr>gw_votes := f\<rparr>) = queues_ok v" "totals_ok (v\<lparr>gw_votes := f\<rparr>) = totals_ok v"
proof -
  have "unused_id (v\<lparr>gw_votes := f\<rparr>) = unused_id v" by (simp add: unused_id_def fun_eq_iff)
  then show "ids_ok (v\<lparr>gw_votes := f\<rparr>) = ids_ok v" by (simp only: ids_ok_def) simp
qed (simp_all add: queues_ok_def totals_ok_def)

lemma valid_coins:
  "Coins_IsValid cs \<Longrightarrow> Coins_IsNotNegative cs \<Longrightarrow> sorted_denoms cs" "Coins_IsValid cs \<Longrightarrow> Coins_IsNotNegative cs \<Longrightarrow> \<forall>c \<in> set cs. 0 \<le> Amount c"
  by (auto simp: Coins_IsValid_iff Coins_IsNotNegative_def Coin_IsNotNegative_def Int_Sign_def list_all_iff split: if_splits)

lemma filter_not_in: "filter (\<lambda>kv. fst kv \<notin> fst ` {kv \<in> set m. P (fst kv)}) m = filter (\<lambda>kv. \<not> P (fst kv)) m"
  by (rule filter_cong) (auto simp: image_iff)

section \<open>Operations\<close>

locale gov_ledger = gov_tally E G D bonded delegations
  for E :: auth_env and G :: gov_env and D :: gov_sets and bonded :: "world \<Rightarrow> Validator list" and delegations :: "world \<Rightarrow> bytes \<Rightarrow> Delegation list" +
  assumes dec_id: "gv_decInt G (gv_encInt G i) = Some i"
    and sets_frame: "(\<And>s. s \<noteq> gv_key G \<Longrightarrow> s \<noteq> ae_accKey E \<Longrightarrow> w_stores t s = w_stores w s) \<Longrightarrow> bonded t = bonded w \<and> delegations t = delegations w"
begin

abbreviation view :: "world \<Rightarrow> gov_view" where "view \<equiv> gov_view_of G"

lemma view_reads: "reads m \<Longrightarrow> m w = (Val r, t) \<Longrightarrow> view t = view w"
  by (rule gov_view_cong) (simp add: readsD)

lemma GetProposal_view:
  assumes "GetProposal G i w = (Val r, t)"
  shows "r = gw_props (view w) i" and "view t = view w" and "w_stores t = w_stores w"
  using assms readsD [OF reads_gov(3) assms] view_reads [OF reads_gov(3) assms]
  by (auto simp: GetProposal_def gov_view_of_def run_iffs dest!: gas_Get_Val)

lemma SetProposal_view:
  "SetProposal G p w = (Val u, t) \<Longrightarrow> view t = (view w)\<lparr>gw_props := (gw_props (view w))(tp_ProposalID p \<mapsto> p)\<rparr>"
  using dec_proposal by (auto simp: SetProposal_def dest!: gas_Set_Val intro!: view_Set(1))

lemma queue_push_view:
  assumes "ActiveProposalQueuePush G p w = (Val u, t)"
  shows "\<exists>q. gw_active (view w) = Some q \<and> view t = (view w)\<lparr>gw_active := Some (q @ [tp_ProposalID p])\<rparr>"
proof -
  obtain q w1 where get: "getActiveProposalQueue G w = (Val q, w1)"
    and set: "setActiveProposalQueue G (q @ [tp_ProposalID p]) w1 = (Val (), t)"
    using assms by (auto simp: ActiveProposalQueuePush_def run_iffs)
  have "view t = (view w1)\<lparr>gw_active := Some (q @ [tp_ProposalID p])\<rparr>"
    using set dec_queue by (auto simp: setActiveProposalQueue_def dest!: gas_Set_Val intro!: view_Set(3))
  then show ?thesis using getQueue_Val(1) [OF get] view_reads [OF reads_gov(1) get] by (auto simp: gov_view_of_def)
qed

lemma inactive_push_view:
  assumes "InactiveProposalQueuePush G p w = (Val u, t)"
  shows "\<exists>q. gw_inactive (view w) = Some q \<and> view t = (view w)\<lparr>gw_inactive := Some (q @ [tp_ProposalID p])\<rparr>"
proof -
  obtain q w1 where get: "getInactiveProposalQueue G w = (Val q, w1)"
    and set: "setInactiveProposalQueue G (q @ [tp_ProposalID p]) w1 = (Val (), t)"
    using assms by (auto simp: InactiveProposalQueuePush_def run_iffs)
  have "view t = (view w1)\<lparr>gw_inactive := Some (q @ [tp_ProposalID p])\<rparr>"
    using set dec_queue by (auto simp: setInactiveProposalQueue_def dest!: gas_Set_Val intro!: view_Set(4))
  then show ?thesis using getQueue_Val(2) [OF get] view_reads [OF reads_gov(2) get] by (auto simp: gov_view_of_def)
qed

lemma NewTextProposal_view:
  assumes "NewTextProposal G ctx title descr kind w = (Val r, t)"
  shows "(r = None \<and> view t = view w) \<or> (\<exists>n p q. r = Some p \<and> gw_next (view w) = Some (Some n) \<and> gw_inactive (view w) = Some q
    \<and> tp_ProposalID p = n \<and> tp_Status p = StatusDepositPeriod \<and> tp_TotalDeposit p = []
    \<and> view t = (view w)\<lparr>gw_next := Some (Some (wrap64 (n + 1))), gw_props := (gw_props (view w))(n \<mapsto> p), gw_inactive := Some (q @ [n])\<rparr>)"
proof -
  obtain i w1 where new: "getNewProposalID G w = (Val i, w1)"
    using assms by (auto simp: NewTextProposal_def bnd_Val_iff)
  have nxt: "case i of Inl _ \<Rightarrow> view w1 = view w | Inr n \<Rightarrow> gw_next (view w) = Some (Some n)
      \<and> view w1 = (view w)\<lparr>gw_next := Some (Some (wrap64 (n + 1)))\<rparr>"
  proof -
    obtain b w2 where get: "gas_Get (gv_key G) KeyNextProposalID w = (Val b, w2)"
      using new by (auto simp: getNewProposalID_def bnd_Val_iff)
    have b: "b = kv_Get (w_stores w (gv_key G)) KeyNextProposalID" "w_stores w2 = w_stores w" using gas_Get_Val [OF get] by auto
    have v2: "view w2 = view w" using b(2) by (intro gov_view_cong) simp
    show ?thesis
    proof (cases b)
      case None
      then show ?thesis using new get v2 by (auto simp: getNewProposalID_def run_iffs)
    next
      case (Some bz)
      then obtain n where n: "gv_decInt G bz = Some n" "i = Inr n" and set: "gas_Set (gv_key G) KeyNextProposalID (gv_encInt G (wrap64 (n + 1))) w2 = (Val (), w1)"
        using new get by (auto simp: getNewProposalID_def run_iffs must_def split: option.splits)
      have "view w1 = (view w2)\<lparr>gw_next := Some (Some (wrap64 (n + 1)))\<rparr>"
        using gas_Set_Val [OF set] dec_id by (intro view_Set(2)) auto
      moreover have "gw_next (view w) = Some (Some n)" using b(1) [symmetric] Some n(1) by (simp add: gov_view_of_def)
      ultimately show ?thesis using n(2) v2 by simp
    qed
  qed
  show ?thesis
  proof (cases i)
    case (Inl e)
    then show ?thesis using assms new nxt by (auto simp: NewTextProposal_def run_iffs)
  next
    case (Inr n)
    let ?p = "\<lparr>tp_ProposalID = n, tp_Title = title, tp_Description = descr, tp_ProposalType = kind, tp_Status = StatusDepositPeriod,
      tp_SubmitBlock = ctx_BlockHeight ctx, tp_TotalDeposit = [], tp_VotingStartBlock = - 1\<rparr>"
    obtain w2 where r: "r = Some ?p" and set: "SetProposal G ?p w1 = (Val (), w2)" and push: "InactiveProposalQueuePush G ?p w2 = (Val (), t)"
      using assms new Inr by (auto simp: NewTextProposal_def run_iffs Let_def)
    obtain q where "gw_inactive (view w2) = Some q" "view t = (view w2)\<lparr>gw_inactive := Some (q @ [tp_ProposalID ?p])\<rparr>"
      using inactive_push_view [OF push] by blast
    then show ?thesis using SetProposal_view [OF set] nxt Inr r by (intro disjI2 exI [of _ n] exI [of _ ?p] exI [of _ q]) simp
  qed
qed

lemma NewTextProposal_books:
  assumes "NewTextProposal G ctx title descr kind w = (Val r, t)" and "gov_books G w"
    and "\<forall>n. gw_next (view w) = Some (Some n) \<longrightarrow> in_int64 (n + 1)"
  shows "gov_books G t"
  using NewTextProposal_view [OF assms(1)]
proof (elim disjE exE conjE, goal_cases)
  case 1
  then show ?case using assms(2) by (simp add: gov_books_def)
next
  case (2 n p q)
  let ?v = "view w"
  have unused: "gw_props ?v i = None" "gw_deps ?v i = []" "i \<notin> set q" if "n \<le> i" for i
    using assms(2) 2(2,3) that by (auto simp: gov_books_def ids_ok_def unused_id_def)
  have wrap: "wrap64 (n + 1) = n + 1" using assms(3) 2(2) by simp
  have "ids_ok (view t)" using unused 2 wrap by (simp add: ids_ok_def unused_id_def)
  moreover have "queues_ok (view t)"
    using assms(2) 2 unused(1,3) [of n] by (auto simp: gov_books_def queues_ok_def StatusDepositPeriod_def StatusVotingPeriod_def)
  moreover have "totals_ok (view t)"
    using assms(2) 2 unused(2) [of n] by (auto simp: gov_books_def totals_ok_def deposited_def)
  ultimately show ?case by (simp add: gov_books_def)
qed

lemma AddVote_view:
  assumes "AddVote G i a opt w = (Val r, t)"
  shows "\<exists>f. view t = (view w)\<lparr>gw_votes := f\<rparr>"
proof -
  obtain p w1 where get: "GetProposal G i w = (Val p, w1)" using assms by (auto simp: AddVote_def bnd_Val_iff)
  have "t = w1 \<or> (\<exists>x. setVote G i a x w1 = (Val (), t))"
    using assms get by (auto simp: AddVote_def run_iffs split: if_splits)
  then have "\<exists>f. view t = (view w1)\<lparr>gw_votes := f\<rparr>"
  proof
    assume "\<exists>x. setVote G i a x w1 = (Val (), t)"
    then obtain x where "gas_Set (gv_key G) (KeyVote G i a) (gv_encVote G x) w1 = (Val (), t)" by (auto simp: setVote_def)
    then show ?thesis using gas_Set_Val by (intro view_Set(5) [OF _ refl]) fastforce
  qed (auto intro: exI [of _ "gw_votes (view w1)"])
  then show ?thesis using GetProposal_view(2) [OF get] by simp
qed

text \<open>The steps of a deposit that is accepted.\<close>

lemma AddDeposit_steps:
  assumes "AddDeposit E G ctx i a cs w = (Val (err, started), t)"
  obtains (fails) "w_stores t = w_stores w"
  | (adds) p r w1 w2 z w3 w4 x cur w5 where "gw_props (view w) i = Some p" and "tp_Status p \<in> {StatusDepositPeriod, StatusVotingPeriod}"
      and "w_stores w1 = w_stores w" and "subtractCoins E a cs w1 = (Val (Inr r), w2)" and "Coins_Plus (tp_TotalDeposit p) cs = Val z"
      and "SetProposal G (p\<lparr>tp_TotalDeposit := z\<rparr>) w2 = (Val (), w3)"
      and "w4 = w3 \<or> (tp_Status p = StatusDepositPeriod \<and> activateVotingPeriod G ctx (p\<lparr>tp_TotalDeposit := z\<rparr>) w3 = (Val x, w4))"
      and "GetDeposit G i a w4 = (Val cur, w5)"
      and "(case cur of None \<Rightarrow> setDeposit G i a \<lparr>dep_Depositer = a, dep_ProposalID = i, dep_Amount = cs\<rparr>
          | Some found \<Rightarrow> bnd (lift (Coins_Plus (dep_Amount found) cs)) (\<lambda>y. setDeposit G i a (found\<lparr>dep_Amount := y\<rparr>))) w5 = (Val (), t)"
proof -
  obtain p w1 where get: "GetProposal G i w = (Val p, w1)" using assms by (auto simp: AddDeposit_def bnd_Val_iff)
  note p = GetProposal_view [OF get]
  show thesis
  proof (cases "\<exists>x. p = Some x \<and> tp_Status x \<in> {StatusDepositPeriod, StatusVotingPeriod}")
    case False
    then have "t = w1" using assms get by (auto simp: AddDeposit_def run_iffs split: if_splits)
    then show thesis using fails p(3) by simp
  next
    case True
    then obtain x where x: "p = Some x" "tp_Status x \<in> {StatusDepositPeriod, StatusVotingPeriod}" by blast
    have live: "(tp_Status x \<noteq> StatusDepositPeriod \<and> tp_Status x \<noteq> StatusVotingPeriod) = False" using x(2) by blast
    obtain r w2 where sub: "subtractCoins E a cs w1 = (Val r, w2)"
      using assms get x by (auto simp: AddDeposit_def bnd_Val_iff)
    show thesis
    proof (cases r)
      case (Inl e)
      then have "t = w2" using assms get x sub by (auto simp: AddDeposit_def run_iffs)
      then show thesis using fails p(3) bank.sub_Inl sub Inl by metis
    next
      case (Inr y)
      obtain z w3 enough w4 act w5 cur w6 where z: "Coins_Plus (tp_TotalDeposit x) cs = Val z"
        and set: "SetProposal G (x\<lparr>tp_TotalDeposit := z\<rparr>) w2 = (Val (), w3)"
        and enough: "(if tp_Status x = StatusDepositPeriod then lift (Coins_IsGTE (tp_TotalDeposit (x\<lparr>tp_TotalDeposit := z\<rparr>)) (dp_MinDeposit GetDepositProcedure)) else ret False) w3
          = (Val enough, w4)"
        and act: "(if enough then bnd (activateVotingPeriod G ctx (x\<lparr>tp_TotalDeposit := z\<rparr>)) (\<lambda>_. ret True) else ret False) w4 = (Val act, w5)"
        and cur: "GetDeposit G i a w5 = (Val cur, w6)"
        and dep: "(case cur of None \<Rightarrow> setDeposit G i a \<lparr>dep_Depositer = a, dep_ProposalID = i, dep_Amount = cs\<rparr>
          | Some found \<Rightarrow> bnd (lift (Coins_Plus (dep_Amount found) cs)) (\<lambda>y. setDeposit G i a (found\<lparr>dep_Amount := y\<rparr>))) w6 = (Val (), t)"
        using assms get sub Inr unfolding AddDeposit_def Let_def by (auto simp: bnd_Val_iff lift_iff ret_iff x(1) live)
      have w4: "w4 = w3" "enough \<longrightarrow> tp_Status x = StatusDepositPeriod" using enough by (auto simp: run_iffs split: if_splits)
      then obtain q where q: "w5 = w3 \<or> (tp_Status x = StatusDepositPeriod \<and> activateVotingPeriod G ctx (x\<lparr>tp_TotalDeposit := z\<rparr>) w3 = (Val q, w5))"
        using act by (auto simp: run_iffs split: if_splits)
      have "gw_props (view w) i = Some x" "subtractCoins E a cs w1 = (Val (Inr y), w2)" using p(1) x(1) sub Inr by simp_all
      then show thesis using adds [OF _ x(2) p(3) _ z set q cur dep] by blast
    qed
  qed
qed

lemma activate_view:
  assumes "activateVotingPeriod G ctx p w = (Val x, t)"
  shows "\<exists>q. gw_active (view w) = Some q \<and> view t = (view w)\<lparr>gw_props := (gw_props (view w))(tp_ProposalID p \<mapsto>
    p\<lparr>tp_VotingStartBlock := ctx_BlockHeight ctx, tp_Status := StatusVotingPeriod\<rparr>), gw_active := Some (q @ [tp_ProposalID p])\<rparr>"
proof -
  let ?p = "p\<lparr>tp_VotingStartBlock := ctx_BlockHeight ctx, tp_Status := StatusVotingPeriod\<rparr>"
  obtain w1 where "SetProposal G ?p w = (Val (), w1)" and push: "ActiveProposalQueuePush G ?p w1 = (Val (), t)"
    using assms by (auto simp: activateVotingPeriod_def Let_def run_iffs)
  then show ?thesis using SetProposal_view [of ?p w "()" w1] queue_push_view [OF push] by auto
qed

lemma record_deposit_view:
  assumes "gov_ok G w" and "sorted_denoms cs" and "\<forall>c \<in> set cs. 0 \<le> Amount c" and "GetDeposit G i a w = (Val cur, w1)"
    and "(case cur of None \<Rightarrow> setDeposit G i a \<lparr>dep_Depositer = a, dep_ProposalID = i, dep_Amount = cs\<rparr>
        | Some found \<Rightarrow> bnd (lift (Coins_Plus (dep_Amount found) cs)) (\<lambda>y. setDeposit G i a (found\<lparr>dep_Amount := y\<rparr>))) w1 = (Val (), t)"
  shows "\<exists>xs. view t = (view w)\<lparr>gw_deps := (gw_deps (view w))(i := xs)\<rparr>
    \<and> (\<forall>d. deposited xs d = deposited (gw_deps (view w) i) d + amt cs d)"
proof -
  let ?m = "w_stores w (gv_key G)" and ?k = "KeyDeposit G i a"
  have w1: "w_stores w1 = w_stores w" "view w1 = view w" using readsD [OF reads_gov(6) assms(4)] view_reads [OF reads_gov(6) assms(4)] by auto
  have sorted: "kv_sorted (w_stores w1 (gv_key G))" using assms(1) w1 by (simp add: gov_ok_def)
  have stored: "w_stores t (gv_key G) = kv_Set (w_stores w1 (gv_key G)) ?k (gv_encDeposit G x)" if "setDeposit G i a x w1 = (Val (), t)" for x
    using that by (auto simp: setDeposit_def dest!: gas_Set_Val)
  show ?thesis
  proof (cases cur)
    case None
    then have "kv_Get ?m ?k = None" using assms(4) by (auto simp: GetDeposit_def run_iffs dest!: gas_Get_Val)
    then show ?thesis using view_setDeposit [OF stored dec_deposit sorted, of "\<lparr>dep_Depositer = a, dep_ProposalID = i, dep_Amount = cs\<rparr>"]
      assms(5) None w1 by simp
  next
    case (Some x)
    then obtain bz where bz: "kv_Get ?m ?k = Some bz" "gv_decDeposit G bz = Some x"
      using assms(4) by (auto simp: GetDeposit_def run_iffs dest!: gas_Get_Val)
    have "entry_ok G ?k bz" using assms(1) bz(1) by (simp add: gov_ok_def)
    then have x: "dep_ok x" using bz(2) by (auto simp: entry_ok_def KeyDeposit_def)
    obtain z where z: "Coins_Plus (dep_Amount x) cs = Val z" "setDeposit G i a (x\<lparr>dep_Amount := z\<rparr>) w1 = (Val (), t)"
      using assms(5) Some by (auto simp: run_iffs)
    then show ?thesis using view_setDeposit [OF stored dec_deposit sorted, OF z(2)] nonneg_Plus [OF x assms(2,3) z(1)] bz w1
      by (auto simp: dep_part_def)
  qed
qed

text \<open>A deposit, as a change of the record.\<close>

lemma AddDeposit_view:
  assumes "AddDeposit E G ctx i a cs w = (Val (err, started), t)" and "bank_ok E w" and "gov_ok G w" and "totals_ok (view w)"
    and cs: "sorted_denoms cs" "\<forall>c \<in> set cs. 0 \<le> Amount c"
  shows "view t = view w \<or> (\<exists>p p' act xs. gw_props (view w) i = Some p
    \<and> view t = (view w)\<lparr>gw_props := (gw_props (view w))(i \<mapsto> p'), gw_active := act, gw_deps := (gw_deps (view w))(i := xs)\<rparr>
    \<and> tp_ProposalID p' = i \<and> (\<forall>d. amt (tp_TotalDeposit p') d = amt (tp_TotalDeposit p) d + amt cs d)
    \<and> (\<forall>d. deposited xs d = deposited (gw_deps (view w) i) d + amt cs d) \<and> tp_Status p \<in> {StatusDepositPeriod, StatusVotingPeriod}
    \<and> (tp_Status p' = tp_Status p \<and> act = gw_active (view w)
       \<or> tp_Status p = StatusDepositPeriod \<and> tp_Status p' = StatusVotingPeriod
          \<and> (\<exists>q. gw_active (view w) = Some q \<and> act = Some (q @ [i]))))"
  using assms(1)
proof (cases rule: AddDeposit_steps)
  case fails
  then show ?thesis using gov_view_cong [of t G w] by simp
next
  case (adds p r w1 w2 z w3 w4 x cur w5)
  let ?C = "\<lambda>w. \<exists>n. C n w" and ?p = "p\<lparr>tp_TotalDeposit := z\<rparr>"
  have id: "tp_ProposalID p = i" using assms(4) adds(1) by (simp add: totals_ok_def)
  have p: "prop_ok p" using stored_prop_ok [OF assms(3) adds(1)] .
  have p': "prop_ok ?p" using plus_prop_ok [OF p cs(1) adds(5)] .
  have "\<exists>n. C n w" using coins_start [OF assms(2,3)] by blast
  then have c1: "?C w1" using C_cong adds(3) by blast
  then have c2: "?C w2" using tripleD [OF C_subtract [OF cs(1)] _ adds(4)] by fastforce
  have c3: "?C w3" using c2 holdsD [OF C_SetProposal [OF p'] _ adds(6)] by blast
  have c4: "?C w4" using c3 adds(7) holdsD [OF C_activate [OF p'], where s = w3 and t = w4] by blast
  have "bank_ok E w1" using c1 by (auto simp: coins_are_def)
  then have "w_stores w2 (gv_key G) = w_stores w1 (gv_key G)" using bank.sub_Inr [OF adds(4) _ cs(1)] stores by auto
  then have v2: "view w2 = view w" using adds(3) by (intro gov_view_cong) simp
  have v3: "view w3 = (view w)\<lparr>gw_props := (gw_props (view w))(i \<mapsto> ?p)\<rparr>" using SetProposal_view [OF adds(6)] v2 id by simp
  have amts: "\<forall>d. amt z d = amt (tp_TotalDeposit p) d + amt cs d" using Coins_Plus_facts [OF _ cs(1) adds(5)] p by (simp add: prop_ok_def)
  obtain xs where xs: "view t = (view w4)\<lparr>gw_deps := (gw_deps (view w4))(i := xs)\<rparr>"
      "\<forall>d. deposited xs d = deposited (gw_deps (view w4) i) d + amt cs d"
    using record_deposit_view [OF _ cs adds(8,9)] c4 by (auto simp: coins_are_def)
  from adds(7) show ?thesis
  proof
    assume "w4 = w3"
    then show ?thesis using xs v3 amts adds(1,2) id
      by (intro disjI2 exI [of _ p] exI [of _ ?p] exI [of _ "gw_active (view w)"] exI [of _ xs]) simp
  next
    assume act: "tp_Status p = StatusDepositPeriod \<and> activateVotingPeriod G ctx ?p w3 = (Val x, w4)"
    let ?p' = "?p\<lparr>tp_VotingStartBlock := ctx_BlockHeight ctx, tp_Status := StatusVotingPeriod\<rparr>"
    obtain q where "gw_active (view w3) = Some q"
      "view w4 = (view w3)\<lparr>gw_props := (gw_props (view w3))(i \<mapsto> ?p'), gw_active := Some (q @ [i])\<rparr>"
      using activate_view [of ctx ?p w3 x w4] act id by auto
    then show ?thesis using xs v3 amts adds(1,2) id act
      by (intro disjI2 exI [of _ p] exI [of _ ?p'] exI [of _ "Some (q @ [i])"] exI [of _ xs]) simp
  qed
qed

lemma books_deposit:
  assumes "AddDeposit E G ctx i a cs w = (Val (err, started), t)" and "bank_ok E w" and "gov_ok G w" and "gov_books G w"
    and cs: "sorted_denoms cs" "\<forall>c \<in> set cs. 0 \<le> Amount c"
  shows "gov_books G t"
proof -
  let ?v = "view w"
  have books: "ids_ok ?v" "queues_ok ?v" "totals_ok ?v" using assms(4) by (simp_all add: gov_books_def)
  have nonneg: "0 \<le> amt cs d" for d using cs sorted_nonneg_iff by blast
  from AddDeposit_view [OF assms(1-3) books(3) cs] show ?thesis
  proof (elim disjE exE conjE, goal_cases)
    case 1
    then show ?case using assms(4) by (simp add: gov_books_def)
  next
    case (2 p p' act xs)
    have "ids_ok (view t)" using books(1) 2(1,2) by (auto simp: ids_ok_def unused_id_def split: option.splits)
    moreover have "totals_ok (view t)" using books(3) 2 nonneg by (auto simp: totals_ok_def)
    moreover have "queues_ok (view t)" using books(2) 2 by (auto simp: queues_ok_def)
    ultimately show ?case by (simp add: gov_books_def)
  next
    case (3 p p' act xs q)
    have "ids_ok (view t)" using books(1) 3(1,2) by (auto simp: ids_ok_def unused_id_def split: option.splits)
    moreover have "0 \<le> amt (tp_TotalDeposit p') d" for d
      using books(3) 3(1,4) nonneg [of d] by (auto simp: totals_ok_def)
    then have "totals_ok (view t)" using books(3) 3 by (auto simp: totals_ok_def)
    moreover have "queues_ok (view t)" using books(2) 3 by (auto simp: queues_ok_def StatusDepositPeriod_def StatusVotingPeriod_def)
    ultimately show ?case by (simp add: gov_books_def)
  qed
qed

lemma handler_books:
  assumes "bank_ok E w" and "gov_ok G w" and "gov_books G w" and "gov_ValidateBasic msg = None"
    and "gov_NewHandler E G ctx (Some msg) w = (Val res, t)" and "\<forall>n. gw_next (view w) = Some (Some n) \<longrightarrow> in_int64 (n + 1)"
  shows "gov_books G t"
proof (cases msg)
  case (GovDeposit m)
  obtain err started where run: "AddDeposit E G ctx (mdp_ProposalID m) (mdp_Depositer m) (mdp_Amount m) w = (Val (err, started), t)"
    using assms(5) GovDeposit by (auto simp: gov_NewHandler_def handleMsgDeposit_def run_iffs split: option.splits)
  have "Coins_IsValid (mdp_Amount m)" "Coins_IsNotNegative (mdp_Amount m)"
    using assms(4) GovDeposit by (auto simp: gov_ValidateBasic_def MsgDeposit_ValidateBasic_def split: if_splits)
  then show ?thesis using books_deposit [OF run assms(1-3)] valid_coins by blast
next
  case (GovSubmit m)
  obtain p w1 err started where new: "NewTextProposal G ctx (msp_Title m) (msp_Description m) (msp_ProposalType m) w = (Val (Some p), w1)"
    and run: "AddDeposit E G ctx (tp_ProposalID p) (msp_Proposer m) (msp_InitialDeposit m) w1 = (Val (err, started), t)"
    using assms(5) GovSubmit by (auto simp: gov_NewHandler_def handleMsgSubmitProposal_def Let_def run_iffs split: option.splits)
  have "Coins_IsValid (msp_InitialDeposit m)" "Coins_IsNotNegative (msp_InitialDeposit m)"
    using assms(4) GovSubmit by (auto simp: gov_ValidateBasic_def MsgSubmitProposal_ValidateBasic_def split: if_splits)
  moreover have "bank_ok E w1" "gov_ok G w1"
    using holdsD [OF C_NewTextProposal coins_start [OF assms(1,2)] new] by (simp_all add: coins_are_def)
  ultimately show ?thesis using books_deposit [OF run] NewTextProposal_books [OF new assms(3,6)] valid_coins by blast
next
  case (GovVote m)
  obtain r where "AddVote G (mvt_ProposalID m) (mvt_Voter m) (mvt_Option m) w = (Val r, t)"
    using assms(5) GovVote by (auto simp: gov_NewHandler_def handleMsgVote_def run_iffs split: option.splits)
  from AddVote_view [OF this] show ?thesis using assms(3) books_votes by (auto simp: gov_books_def)
qed

text \<open>The tally deletes the votes it counts.\<close>

lemma tally_votes_stores:
  "tally_votes G D its ts w = (Val ts', t) \<Longrightarrow>
   \<forall>it \<in> set its. \<forall>x. gv_decVote G (snd it) = Some x \<longrightarrow> fst it = KeyVote G (vote_ProposalID x) (vote_Voter x) \<Longrightarrow>
   w_stores t = (w_stores w)(gv_key G := filter (\<lambda>kv. fst kv \<notin> fst ` set its) (w_stores w (gv_key G)))"
proof (induction its arbitrary: ts w)
  case (Cons it its)
  obtain x w1 ts1 w2 w3 where x: "gv_decVote G (snd it) = Some x" and w1: "w_stores w1 = w_stores w"
    and step: "(case map_of (ts_validators ts) (gv_addrString G (vote_Voter x)) of
            Some val \<Rightarrow> ret (ts\<lparr>ts_validators := AList.update (gv_addrString G (vote_Voter x)) (val\<lparr>vg_Vote := vote_Option x\<rparr>)
                          (ts_validators ts)\<rparr>)
          | None \<Rightarrow> gs_IterateDelegations D (vote_Voter x) (tally_delegation G (vote_Option x)) ts) w1 = (Val ts1, w2)"
    and del: "deleteVote G (vote_ProposalID x) (vote_Voter x) w2 = (Val (), w3)" and rest: "tally_votes G D its ts1 w3 = (Val ts', t)"
    using Cons.prems(1) unfolding tally_votes.simps by (auto simp: bnd_Val_iff must_Val dest!: gas_iter_Value_Val)
  have w2: "w_stores w2 = w_stores w"
    using step w1 readsD [OF reads_sets(2)] by (auto simp: ret_iff split: option.splits)
  have "w_stores w3 = (w_stores w)(gv_key G := kv_Delete (w_stores w (gv_key G)) (fst it))"
    using del w2 x Cons.prems(2) by (auto simp: deleteVote_def gas_Delete_run)
  moreover have "w_stores t = (w_stores w3)(gv_key G := filter (\<lambda>kv. fst kv \<notin> fst ` set its) (w_stores w3 (gv_key G)))"
    using Cons.prems(2) by (intro Cons.IH [OF rest]) simp
  ultimately show ?case by (simp add: kv_Delete_def conj_commute case_prod_unfold)
qed (simp add: ret_iff)

lemma tally_view:
  assumes "tally G D p w = (Val (passes, nv), t)" and "gov_ok G w"
  shows "view t = (view w)\<lparr>gw_votes := (gw_votes (view w))(tp_ProposalID p := [])\<rparr>"
    and "\<forall>s. s \<noteq> gv_key G \<longrightarrow> w_stores t s = w_stores w s"
proof -
  let ?P = "prefix (KeyVotesSubspace (tp_ProposalID p))" and ?m = "w_stores w (gv_key G)"
  obtain ts0 w1 its w2 ts where start: "gs_IterateValidatorsBonded D (tally_validator G) empty_tally w = (Val ts0, w1)"
    and get: "GetVotes G (tp_ProposalID p) w1 = (Val its, w2)" and run: "tally_votes G D its ts0 w2 = (Val ts, t)"
    using assms(1) unfolding tally_def by (auto simp: run_iffs)
  have w1: "w_stores w1 = w_stores w" using readsD [OF reads_sets(1) start] .
  have its: "its = filter (\<lambda>kv. ?P (fst kv)) ?m" "w2 = w1"
    using KVStorePrefixIterator_Val [OF get [unfolded GetVotes_def]] by (auto simp: KeyVotesSubspace_def w1)
  have "fst it = KeyVote G (vote_ProposalID x) (vote_Voter x)" if "it \<in> set its" "gv_decVote G (snd it) = Some x" for it x
  proof -
    have "kv_Get ?m (fst it) = Some (snd it)"
      using that(1) its(1) assms(2) kv_sorted_distinct by (auto simp: gov_ok_def kv_Get_def)
    then have "entry_ok G (fst it) (snd it)" using assms(2) by (simp add: gov_ok_def)
    moreover have "prefix ''votes:'' (KeyVotesSubspace (tp_ProposalID p))" by (simp add: KeyVotesSubspace_def)
    then have "prefix ''votes:'' (fst it)" using that(1) its(1) prefix_order.trans by fastforce
    ultimately show ?thesis using that(2) by (auto simp: entry_ok_def)
  qed
  then have t: "w_stores t = (w_stores w)(gv_key G := filter (\<lambda>kv. fst kv \<notin> fst ` set its) ?m)"
    using tally_votes_stores [OF run] its(2) w1 by simp
  then show "\<forall>s. s \<noteq> gv_key G \<longrightarrow> w_stores t s = w_stores w s" by simp
  show "view t = (view w)\<lparr>gw_votes := (gw_votes (view w))(tp_ProposalID p := [])\<rparr>"
    using t by (intro view_drop(2) [OF _ refl]) (simp add: its(1) filter_not_in)
qed

lemma tally_majority:
  assumes "tally G D p w = (Val (passes, nv), t)" and "distinct (map Owner (bonded w))"
  shows "passes = majority (bonded w) (delegations w) (gw_votes (view w) (tp_ProposalID p))"
  using tally_spec(1) [OF assms] by (simp add: majority_def gov_view_of_def Let_def)

text \<open>Deposits are paid back or burnt.\<close>

lemma refund_loop_view:
  "iterM its (\<lambda>it.
       bnd (gas_iter_Value it) (\<lambda>bz.
       bnd (must (gv_decDeposit G bz)) (\<lambda>deposit.
       bnd (addCoins E (dep_Depositer deposit) (dep_Amount deposit)) (\<lambda>r. case r of
         Inl err \<Rightarrow> panicM (GoPanic ''should not happen'')
       | Inr _ \<Rightarrow> bnd (gas_iter_Key it) (\<lambda>k. gas_Delete (gv_key G) k))))) w = (Val u, t) \<Longrightarrow>
   bank_ok E w \<Longrightarrow> \<forall>it \<in> set its. \<forall>x. gv_decDeposit G (snd it) = Some x \<longrightarrow> sorted_denoms (dep_Amount x) \<Longrightarrow>
   w_stores t (gv_key G) = filter (\<lambda>kv. fst kv \<notin> fst ` set its) (w_stores w (gv_key G))
   \<and> (\<forall>s. s \<noteq> gv_key G \<and> s \<noteq> ae_accKey E \<longrightarrow> w_stores t s = w_stores w s)
   \<and> balance E t a d = balance E w a d + deposited_by a (List.map_filter (\<lambda>kv. gv_decDeposit G (snd kv)) its) d"
proof (induction its arbitrary: w)
  case (Cons it its)
  obtain x w1 y w2 w3 w4 where x: "gv_decDeposit G (snd it) = Some x" and w1: "w_stores w1 = w_stores w"
    and add: "addCoins E (dep_Depositer x) (dep_Amount x) w1 = (Val (Inr y), w2)"
    and w3: "w_stores w3 = w_stores w2" and del: "gas_Delete (gv_key G) (fst it) w3 = (Val (), w4)"
    and rest: "iterM its (\<lambda>it.
       bnd (gas_iter_Value it) (\<lambda>bz.
       bnd (must (gv_decDeposit G bz)) (\<lambda>deposit.
       bnd (addCoins E (dep_Depositer deposit) (dep_Amount deposit)) (\<lambda>r. case r of
         Inl err \<Rightarrow> panicM (GoPanic ''should not happen'')
       | Inr _ \<Rightarrow> bnd (gas_iter_Key it) (\<lambda>k. gas_Delete (gv_key G) k))))) w4 = (Val u, t)"
    using Cons.prems(1) by (auto simp: run_iffs dest!: gas_iter_Value_Val gas_iter_Key_Val)
  have ok1: "bank_ok E w1" "balance E w1 = balance E w" using coin_views_cong [of w1 E w] w1 Cons.prems(2) by auto
  have "sorted_denoms (dep_Amount x)" using Cons.prems(3) x by simp
  note v = bank.add_Inr [OF add ok1(1) this]
  have w4: "w_stores w4 = (w_stores w2)(gv_key G := kv_Delete (w_stores w2 (gv_key G)) (fst it))"
    using del w3 by (auto simp: gas_Delete_run)
  then have acc: "w_stores w4 (ae_accKey E) = w_stores w2 (ae_accKey E)" using stores by simp
  have "w_stores t (gv_key G) = filter (\<lambda>kv. fst kv \<notin> fst ` set its) (w_stores w4 (gv_key G))
   \<and> (\<forall>s. s \<noteq> gv_key G \<and> s \<noteq> ae_accKey E \<longrightarrow> w_stores t s = w_stores w4 s)
   \<and> balance E t a d = balance E w4 a d + deposited_by a (List.map_filter (\<lambda>kv. gv_decDeposit G (snd kv)) its) d"
    using Cons.IH [OF rest] Cons.prems(3) coin_views_cong(1) [OF acc] v by simp
  moreover have "balance E w4 a d = balance E w a d + (if dep_Depositer x = a then amt (dep_Amount x) d else 0)"
    using coin_views_cong(2) [OF acc] v ok1(2) by auto
  moreover have "w_stores w2 (gv_key G) = w_stores w (gv_key G)" using v w1 stores by simp
  ultimately show ?case using w4 v w1 x by (auto simp: deposited_by_def kv_Delete_def conj_commute case_prod_unfold)
qed (simp add: ret_iff deposited_by_def)

lemma GetDeposits_Val:
  assumes "GetDeposits G i w = (Val its, t)"
  shows "its = filter (\<lambda>kv. prefix (KeyDepositsSubspace i) (fst kv)) (w_stores w (gv_key G))" and "t = w"
  using assms KVStorePrefixIterator_Val unfolding GetDeposits_def by (auto simp: KeyDepositsSubspace_def)

lemma Refund_view:
  assumes "RefundDeposits E G i w = (Val u, t)" and "bank_ok E w" and "gov_ok G w"
  shows "view t = (view w)\<lparr>gw_deps := (gw_deps (view w))(i := [])\<rparr>"
    and "\<forall>s. s \<noteq> gv_key G \<and> s \<noteq> ae_accKey E \<longrightarrow> w_stores t s = w_stores w s"
    and "balance E t a d = balance E w a d + deposited_by a (gw_deps (view w) i) d"
proof -
  obtain its w1 where get: "GetDeposits G i w = (Val its, w1)" and run: "iterM its (\<lambda>it.
       bnd (gas_iter_Value it) (\<lambda>bz.
       bnd (must (gv_decDeposit G bz)) (\<lambda>deposit.
       bnd (addCoins E (dep_Depositer deposit) (dep_Amount deposit)) (\<lambda>r. case r of
         Inl err \<Rightarrow> panicM (GoPanic ''should not happen'')
       | Inr _ \<Rightarrow> bnd (gas_iter_Key it) (\<lambda>k. gas_Delete (gv_key G) k))))) w1 = (Val u, t)"
    using assms(1) unfolding RefundDeposits_def bnd_Val_iff [of "GetDeposits G i"] by blast
  note its = GetDeposits_Val [OF get]
  have "sorted_denoms (dep_Amount x)" if "it \<in> set its" "gv_decDeposit G (snd it) = Some x" for it x
  proof -
    have "kv_Get (w_stores w (gv_key G)) (fst it) = Some (snd it)"
      using that(1) its(1) assms(3) kv_sorted_distinct by (auto simp: gov_ok_def kv_Get_def)
    then have "entry_ok G (fst it) (snd it)" using assms(3) by (simp add: gov_ok_def)
    moreover have "prefix ''deposits:'' (KeyDepositsSubspace i)" by (simp add: KeyDepositsSubspace_def)
    then have "prefix ''deposits:'' (fst it)" using that(1) its(1) prefix_order.trans by fastforce
    ultimately show ?thesis using that(2) by (auto simp: entry_ok_def dep_ok_def)
  qed
  then have loop: "w_stores t (gv_key G) = filter (\<lambda>kv. fst kv \<notin> fst ` set its) (w_stores w (gv_key G))
   \<and> (\<forall>s. s \<noteq> gv_key G \<and> s \<noteq> ae_accKey E \<longrightarrow> w_stores t s = w_stores w s)
   \<and> balance E t a d = balance E w a d + deposited_by a (List.map_filter (\<lambda>kv. gv_decDeposit G (snd kv)) its) d" for a d
    using refund_loop_view [OF run] its(2) assms(2) by blast
  then show "view t = (view w)\<lparr>gw_deps := (gw_deps (view w))(i := [])\<rparr>" by (intro view_drop(1) [OF _ refl]) (simp add: its(1) filter_not_in)
  show "\<forall>s. s \<noteq> gv_key G \<and> s \<noteq> ae_accKey E \<longrightarrow> w_stores t s = w_stores w s" using loop by blast
  show "balance E t a d = balance E w a d + deposited_by a (gw_deps (view w) i) d"
    using loop [of a d] by (simp add: its(1) gov_view_of_def stored_deposits_def)
qed

lemma Delete_view:
  assumes "DeleteDeposits G i w = (Val u, t)"
  shows "view t = (view w)\<lparr>gw_deps := (gw_deps (view w))(i := [])\<rparr>"
    and "\<forall>s. s \<noteq> gv_key G \<longrightarrow> w_stores t s = w_stores w s"
proof -
  obtain its w1 where get: "GetDeposits G i w = (Val its, w1)"
    and run: "iterM its (\<lambda>it. bnd (gas_iter_Key it) (\<lambda>k. gas_Delete (gv_key G) k)) w1 = (Val u, t)"
    using assms unfolding DeleteDeposits_def bnd_Val_iff [of "GetDeposits G i"] by blast
  note its = GetDeposits_Val [OF get] and t = delete_keys_Val [OF run]
  show "view t = (view w)\<lparr>gw_deps := (gw_deps (view w))(i := [])\<rparr>"
    by (intro view_drop(1) [OF _ refl]) (simp add: t its filter_not_in)
  show "\<forall>s. s \<noteq> gv_key G \<longrightarrow> w_stores t s = w_stores w s" by (simp add: t its)
qed

lemma finish_view:
  assumes "finish_proposal E G D p w = (Val nv, t)" and "C n w" and "tp_ProposalID p = i" and "distinct (map Owner (bonded w))"
    and "pass = majority (bonded w) (delegations w) (gw_votes (view w) i)"
  shows "view t = (view w)\<lparr>gw_props := (gw_props (view w))(i \<mapsto> p\<lparr>tp_Status := if pass then StatusPassed else StatusRejected\<rparr>),
      gw_deps := (gw_deps (view w))(i := []), gw_votes := (gw_votes (view w))(i := [])\<rparr>"
    and "\<forall>s. s \<noteq> gv_key G \<and> s \<noteq> ae_accKey E \<longrightarrow> w_stores t s = w_stores w s"
    and "balance E t a d = balance E w a d + (if pass then deposited_by a (gw_deps (view w) i) d else 0)"
proof -
  let ?p = "p\<lparr>tp_Status := if pass then StatusPassed else StatusRejected\<rparr>"
  obtain passes w1 w2 where tal: "tally G D p w = (Val (passes, nv), w1)"
    and money: "(if passes then RefundDeposits E G (tp_ProposalID p) else DeleteDeposits G (tp_ProposalID p)) w1 = (Val (), w2)"
    and set: "SetProposal G (p\<lparr>tp_Status := if passes then StatusPassed else StatusRejected\<rparr>) w2 = (Val (), t)"
    using assms(1) by (auto simp: finish_proposal_def bnd_Val_iff ret_iff split: prod.splits)
  have pass: "passes = pass" using tally_majority [OF tal assms(4)] assms(3,5) by simp
  have w: "bank_ok E w" "gov_ok G w" using assms(2) by (simp_all add: coins_are_def)
  note v1 = tally_view [OF tal w(2)]
  have w1: "bank_ok E w1" "gov_ok G w1" using holdsD [OF C_tally assms(2) tal] by (simp_all add: coins_are_def)
  have bal1: "balance E w1 = balance E w" using coin_views_cong [of w1 E w] v1(2) stores by simp
  have v2: "view w2 = (view w1)\<lparr>gw_deps := (gw_deps (view w1))(i := [])\<rparr>"
    and others: "\<forall>s. s \<noteq> gv_key G \<and> s \<noteq> ae_accKey E \<longrightarrow> w_stores w2 s = w_stores w1 s"
    and bal2: "balance E w2 a d = balance E w1 a d + (if pass then deposited_by a (gw_deps (view w1) i) d else 0)"
    using money pass assms(3) Refund_view [OF _ w1, of i "()" w2] Delete_view [of i w1 "()" w2] coin_views_cong(2) [of w2 E w1] stores
    by (auto split: if_splits)
  have v3: "view t = (view w2)\<lparr>gw_props := (gw_props (view w2))(i \<mapsto> ?p)\<rparr>" using SetProposal_view [OF set] pass assms(3) by simp
  have same: "\<forall>s. s \<noteq> gv_key G \<longrightarrow> w_stores t s = w_stores w2 s" using set by (auto simp: SetProposal_def dest!: gas_Set_Val)
  then have bal3: "balance E t = balance E w2" using coin_views_cong [of t E w2] stores by simp
  show "view t = (view w)\<lparr>gw_props := (gw_props (view w))(i \<mapsto> ?p), gw_deps := (gw_deps (view w))(i := []), gw_votes := (gw_votes (view w))(i := [])\<rparr>"
    using v1(1) v2 v3 assms(3) by simp
  show "\<forall>s. s \<noteq> gv_key G \<and> s \<noteq> ae_accKey E \<longrightarrow> w_stores t s = w_stores w s" using v1(2) others same by simp
  show "balance E t a d = balance E w a d + (if pass then deposited_by a (gw_deps (view w) i) d else 0)"
    using bal1 bal2 bal3 v1(1) by simp
qed

text \<open>The queues are read and popped.\<close>

lemma peek_view:
  "shouldPopActiveProposalQueue G ctx w = (Val b, t) \<Longrightarrow>
     \<exists>q. gw_active (view w) = Some q \<and> (b \<longleftrightarrow> (\<exists>i q'. q = i # q' \<and> ends_vote ctx (view w) i)) \<and> w_stores t = w_stores w"
  "shouldPopInactiveProposalQueue G ctx w = (Val b, t) \<Longrightarrow>
     \<exists>q. gw_inactive (view w) = Some q \<and> (b \<longleftrightarrow> (\<exists>i q'. q = i # q' \<and> leaves_queue ctx (view w) i)) \<and> w_stores t = w_stores w"
proof -
  assume run: "shouldPopActiveProposalQueue G ctx w = (Val b, t)"
  then obtain q w1 where get: "getActiveProposalQueue G w = (Val q, w1)"
    by (auto simp: shouldPopActiveProposalQueue_def ActiveProposalQueuePeek_def bnd_Val_iff)
  have "w_stores t = w_stores w" using readsD [OF reads_peek(3) run] .
  moreover have "gw_active (view w) = Some q" "view w1 = view w"
    using getQueue_Val(1) [OF get] view_reads [OF reads_gov(1) get] by (simp_all add: gov_view_of_def)
  moreover have "b \<longleftrightarrow> (\<exists>i q'. q = i # q' \<and> ends_vote ctx (view w1) i)"
    using run get by (cases q) (auto simp: shouldPopActiveProposalQueue_def ActiveProposalQueuePeek_def ends_vote_def run_iffs dest!: GetProposal_view(1))
  ultimately show "\<exists>q. gw_active (view w) = Some q \<and> (b \<longleftrightarrow> (\<exists>i q'. q = i # q' \<and> ends_vote ctx (view w) i)) \<and> w_stores t = w_stores w" by simp
next
  assume run: "shouldPopInactiveProposalQueue G ctx w = (Val b, t)"
  then obtain q w1 where get: "getInactiveProposalQueue G w = (Val q, w1)"
    by (auto simp: shouldPopInactiveProposalQueue_def InactiveProposalQueuePeek_def bnd_Val_iff)
  have "w_stores t = w_stores w" using readsD [OF reads_peek(4) run] .
  moreover have "gw_inactive (view w) = Some q" "view w1 = view w"
    using getQueue_Val(2) [OF get] view_reads [OF reads_gov(2) get] by (simp_all add: gov_view_of_def)
  moreover have "b \<longleftrightarrow> (\<exists>i q'. q = i # q' \<and> leaves_queue ctx (view w1) i)"
    using run get by (cases q) (auto simp: shouldPopInactiveProposalQueue_def InactiveProposalQueuePeek_def leaves_queue_def run_iffs
        dest!: GetProposal_view(1) split: if_splits)
  ultimately show "\<exists>q. gw_inactive (view w) = Some q \<and> (b \<longleftrightarrow> (\<exists>i q'. q = i # q' \<and> leaves_queue ctx (view w) i)) \<and> w_stores t = w_stores w" by simp
qed

lemma pop_view:
  "ActiveProposalQueuePop G w = (Val r, t) \<Longrightarrow> gw_active (view w) = Some (i # q) \<Longrightarrow>
     r = gw_props (view w) i \<and> view t = (view w)\<lparr>gw_active := Some q\<rparr> \<and> (\<forall>s. s \<noteq> gv_key G \<longrightarrow> w_stores t s = w_stores w s)"
  "InactiveProposalQueuePop G w = (Val r, t) \<Longrightarrow> gw_inactive (view w) = Some (i # q) \<Longrightarrow>
     r = gw_props (view w) i \<and> view t = (view w)\<lparr>gw_inactive := Some q\<rparr> \<and> (\<forall>s. s \<noteq> gv_key G \<longrightarrow> w_stores t s = w_stores w s)"
proof -
  assume run: "ActiveProposalQueuePop G w = (Val r, t)" and q: "gw_active (view w) = Some (i # q)"
  obtain q0 w1 where get: "getActiveProposalQueue G w = (Val q0, w1)" using run by (auto simp: ActiveProposalQueuePop_def bnd_Val_iff)
  have w1: "q0 = i # q" "w_stores w1 = w_stores w" "view w1 = view w"
    using getQueue_Val(1) [OF get] view_reads [OF reads_gov(1) get] q by (simp_all add: gov_view_of_def)
  obtain w2 where set: "gas_Set (gv_key G) KeyActiveProposalQueue (gv_encQueue G q) w1 = (Val (), w2)" and front: "GetProposal G i w2 = (Val r, t)"
    using run get w1(1) by (auto simp: ActiveProposalQueuePop_def setActiveProposalQueue_def bnd_Val_iff)
  have "view w2 = (view w)\<lparr>gw_active := Some q\<rparr>" "\<forall>s. s \<noteq> gv_key G \<longrightarrow> w_stores w2 s = w_stores w s"
    using gas_Set_Val [OF set] view_Set(3) [OF _ refl dec_queue, of w2 w1 q] w1 by auto
  then show "r = gw_props (view w) i \<and> view t = (view w)\<lparr>gw_active := Some q\<rparr> \<and> (\<forall>s. s \<noteq> gv_key G \<longrightarrow> w_stores t s = w_stores w s)"
    using GetProposal_view [OF front] by simp
next
  assume run: "InactiveProposalQueuePop G w = (Val r, t)" and q: "gw_inactive (view w) = Some (i # q)"
  obtain q0 w1 where get: "getInactiveProposalQueue G w = (Val q0, w1)" using run by (auto simp: InactiveProposalQueuePop_def bnd_Val_iff)
  have w1: "q0 = i # q" "w_stores w1 = w_stores w" "view w1 = view w"
    using getQueue_Val(2) [OF get] view_reads [OF reads_gov(2) get] q by (simp_all add: gov_view_of_def)
  obtain w2 where set: "gas_Set (gv_key G) KeyInactiveProposalQueue (gv_encQueue G q) w1 = (Val (), w2)" and front: "GetProposal G i w2 = (Val r, t)"
    using run get w1(1) by (auto simp: InactiveProposalQueuePop_def setInactiveProposalQueue_def bnd_Val_iff)
  have "view w2 = (view w)\<lparr>gw_inactive := Some q\<rparr>" "\<forall>s. s \<noteq> gv_key G \<longrightarrow> w_stores w2 s = w_stores w s"
    using gas_Set_Val [OF set] view_Set(4) [OF _ refl dec_queue, of w2 w1 q] w1 by auto
  then show "r = gw_props (view w) i \<and> view t = (view w)\<lparr>gw_inactive := Some q\<rparr> \<and> (\<forall>s. s \<noteq> gv_key G \<longrightarrow> w_stores t s = w_stores w s)"
    using GetProposal_view [OF front] by simp
qed

text \<open>The two loops do what is said above.\<close>

lemma inactive_view:
  "inactive_loop G ctx n w = (Val (Some u), t) \<Longrightarrow> gw_inactive (view w) = Some q \<Longrightarrow> distinct q \<Longrightarrow>
   \<forall>i p. gw_props (view w) i = Some p \<longrightarrow> tp_ProposalID p = i \<Longrightarrow>
   view t = gov_expire ctx (view w) \<and> (\<forall>s. s \<noteq> gv_key G \<longrightarrow> w_stores t s = w_stores w s)"
proof (induction n arbitrary: w q)
  case (Suc n)
  obtain b w1 where peek: "shouldPopInactiveProposalQueue G ctx w = (Val b, w1)" using Suc.prems(1) by (auto simp: bnd_Val_iff)
  have b: "b \<longleftrightarrow> (\<exists>i q'. q = i # q' \<and> leaves_queue ctx (view w) i)" and w1: "w_stores w1 = w_stores w"
    using peek_view(2) [OF peek] Suc.prems(2) by auto
  have v1: "view w1 = view w" using w1 by (intro gov_view_cong) simp
  show ?case
  proof (cases b)
    case False
    then have "t = w1" using Suc.prems(1) peek by (auto simp: run_iffs)
    moreover have "gov_expire ctx (view w) = view w" using b False by (intro expire_none [OF Suc.prems(2)]) blast
    ultimately show ?thesis using v1 w1 by simp
  next
    case True
    then obtain i q' where q: "q = i # q'" "leaves_queue ctx (view w) i" using b by blast
    obtain r w2 where pop: "InactiveProposalQueuePop G w1 = (Val r, w2)" using Suc.prems(1) peek True by (auto simp: bnd_Val_iff)
    have v2: "r = gw_props (view w) i" "view w2 = (view w)\<lparr>gw_inactive := Some q'\<rparr>" "\<forall>s. s \<noteq> gv_key G \<longrightarrow> w_stores w2 s = w_stores w s"
      using pop_view(2) [OF pop, of i q'] Suc.prems(2) q(1) v1 w1 by auto
    obtain p where p: "r = Some p" using q(2) v2(1) by (auto simp: leaves_queue_def split: option.splits)
    obtain w3 where del: "(if tp_Status p = StatusDepositPeriod then DeleteProposal G p else ret ()) w2 = (Val (), w3)"
      and rest: "inactive_loop G ctx n w3 = (Val (Some u), t)"
      using Suc.prems(1) peek True pop p by (auto simp: bnd_Val_iff)
    have id: "tp_ProposalID p = i" using Suc.prems(4) v2(1) p by simp
    have v3: "view w3 = (view w)\<lparr>gw_inactive := Some q', gw_props := if map_option tp_Status (gw_props (view w) i) = Some StatusDepositPeriod
        then (gw_props (view w))(i := None) else gw_props (view w)\<rparr>" and w3: "\<forall>s. s \<noteq> gv_key G \<longrightarrow> w_stores w3 s = w_stores w s"
      using del v2 p id view_Delete [of w3 G w2 i] by (auto simp: DeleteProposal_def gas_Delete_run ret_iff split: if_splits)
    have ids: "\<forall>i p. gw_props (view w3) i = Some p \<longrightarrow> tp_ProposalID p = i" using Suc.prems(4) v3 by (auto split: if_splits)
    have act: "gw_inactive (view w3) = Some q'" using v3 by simp
    have "gov_expire ctx (view w) = gov_expire ctx (view w3)"
      using expire_step [OF _ _ q(2) v3] Suc.prems(2,3) q(1) by simp
    moreover have "view t = gov_expire ctx (view w3) \<and> (\<forall>s. s \<noteq> gv_key G \<longrightarrow> w_stores t s = w_stores w3 s)"
      using Suc.prems(3) q(1) by (intro Suc.IH [OF rest act _ ids]) simp
    ultimately show ?thesis using w3 by simp
  qed
qed (simp add: ret_iff)

lemma active_view:
  "active_loop E G D ctx n nv w = (Val (Some r), t) \<Longrightarrow> C m w \<Longrightarrow> gw_active (view w) = Some q \<Longrightarrow> distinct q \<Longrightarrow>
   \<forall>i p. gw_props (view w) i = Some p \<longrightarrow> tp_ProposalID p = i \<Longrightarrow> distinct (map Owner (bonded w)) \<Longrightarrow>
   \<forall>i \<in> set q. pass i = majority (bonded w) (delegations w) (gw_votes (view w) i) \<Longrightarrow>
   view t = gov_decide ctx pass (view w) \<and> balance E t a d = balance E w a d + gov_refunds ctx pass (view w) a d
   \<and> (\<forall>s. s \<noteq> gv_key G \<and> s \<noteq> ae_accKey E \<longrightarrow> w_stores t s = w_stores w s)"
proof (induction n arbitrary: w q nv m)
  case (Suc n)
  obtain b w1 where peek: "shouldPopActiveProposalQueue G ctx w = (Val b, w1)" using Suc.prems(1) by (auto simp: bnd_Val_iff)
  have b: "b \<longleftrightarrow> (\<exists>i q'. q = i # q' \<and> ends_vote ctx (view w) i)" and w1: "w_stores w1 = w_stores w"
    using peek_view(1) [OF peek] Suc.prems(3) by auto
  have v1: "view w1 = view w" "balance E w1 = balance E w" using w1 coin_views_cong [of w1 E w] gov_view_cong [of w1 G w] by simp_all
  show ?case
  proof (cases b)
    case False
    then have "t = w1" using Suc.prems(1) peek by (auto simp: run_iffs)
    moreover have "\<forall>i q'. q = i # q' \<longrightarrow> \<not> ends_vote ctx (view w) i" using b False by blast
    note decide_none [OF Suc.prems(3) this]
    ultimately show ?thesis using v1 w1 by simp
  next
    case True
    then obtain i q' where q: "q = i # q'" "ends_vote ctx (view w) i" using b by blast
    obtain x w2 where pop: "ActiveProposalQueuePop G w1 = (Val x, w2)" using Suc.prems(1) peek True by (auto simp: bnd_Val_iff)
    have v2: "x = gw_props (view w) i" "view w2 = (view w)\<lparr>gw_active := Some q'\<rparr>" "\<forall>s. s \<noteq> gv_key G \<longrightarrow> w_stores w2 s = w_stores w s"
      using pop_view(1) [OF pop, of i q'] Suc.prems(3) q(1) v1 w1 by auto
    obtain p where p: "x = Some p" "ctx_BlockHeight ctx \<ge> wrap64 (tp_VotingStartBlock p + vp_VotingPeriod GetVotingProcedure)"
      using q(2) v2(1) by (auto simp: ends_vote_def split: option.splits)
    obtain nv' w3 where fin: "finish_proposal E G D p w2 = (Val nv', w3)" and rest: "active_loop E G D ctx n nv' w3 = (Val (Some r), t)"
      using Suc.prems(1) peek True pop p by (auto simp: bnd_Val_iff)
    have c2: "C m w2" and ok: "prop_ok p"
      using holdsD [OF C_queues(3) C_cong [OF w1 Suc.prems(2)] pop] p(1) by auto
    have "\<exists>k. (\<forall>d. k d \<le> m d) \<and> C k w2" using c2 by blast
    from holdsD [OF B_finish [OF ok] this fin] obtain k where c3: "C k w3" by blast
    have sets: "bonded w2 = bonded w" "delegations w2 = delegations w" using sets_frame [of w2 w] v2(3) by auto
    have pass: "pass i = majority (bonded w2) (delegations w2) (gw_votes (view w2) i)"
      using Suc.prems(7) q(1) sets v2(2) by simp
    have id: "tp_ProposalID p = i" using Suc.prems(5) v2(1) p(1) by simp
    have dist: "distinct (map Owner (bonded w2))" using sets Suc.prems(6) by simp
    note f = finish_view [OF fin c2 id dist pass]
    have others: "\<forall>s. s \<noteq> gv_key G \<and> s \<noteq> ae_accKey E \<longrightarrow> w_stores w3 s = w_stores w s" using f(2) v2(3) by simp
    have sets3: "bonded w3 = bonded w" "delegations w3 = delegations w" using sets_frame [of w3 w] others by auto
    have v3: "view w3 = (view w)\<lparr>gw_active := Some q', gw_props := (gw_props (view w))(i \<mapsto> p\<lparr>tp_Status := if pass i then StatusPassed else StatusRejected\<rparr>),
        gw_deps := (gw_deps (view w))(i := []), gw_votes := (gw_votes (view w))(i := [])\<rparr>" using f(1) v2(2) by simp
    have bal: "balance E w3 a d = balance E w a d + (if pass i then deposited_by a (gw_deps (view w) i) d else 0)"
      using f(3) [of a d] v2(2,3) coin_views_cong(2) [of w2 E w] stores by simp
    have act: "gw_active (view w) = Some (i # q')" "distinct (i # q')" "gw_props (view w) i = Some p" using Suc.prems(3,4) q(1) v2(1) p(1) by auto
    note step = decide_step [where pass = pass, OF act(1,2) q(2) act(3) v3]
    have act3: "gw_active (view w3) = Some q'" using v3 by simp
    have ids3: "\<forall>i p. gw_props (view w3) i = Some p \<longrightarrow> tp_ProposalID p = i" using Suc.prems(5) v3 id by auto
    have "view t = gov_decide ctx pass (view w3) \<and> balance E t a d = balance E w3 a d + gov_refunds ctx pass (view w3) a d
        \<and> (\<forall>s. s \<noteq> gv_key G \<and> s \<noteq> ae_accKey E \<longrightarrow> w_stores t s = w_stores w3 s)"
      using Suc.prems(6,7) q(1) act(2) sets3 v3 by (intro Suc.IH [OF rest c3 act3 _ ids3]) auto
    then show ?thesis using step bal others by simp
  qed
qed (simp add: ret_iff)

lemma EndBlocker_view:
  assumes "gov_EndBlocker E G D ctx fuel w = (Val (Some out), t)" and "bank_ok E w" and "gov_ok G w" and "gov_books G w"
    and "distinct (map Owner (bonded w))" and pass: "\<And>i. pass i = majority (bonded w) (delegations w) (gw_votes (view w) i)"
  shows "view t = gov_decide ctx pass (gov_expire ctx (view w))"
    and "balance E t a d = balance E w a d + gov_refunds ctx pass (gov_expire ctx (view w)) a d"
    and "s \<noteq> gv_key G \<Longrightarrow> s \<noteq> ae_accKey E \<Longrightarrow> w_stores t s = w_stores w s"
proof -
  obtain w1 nv where inactive: "inactive_loop G ctx fuel w = (Val (Some ()), w1)" and active: "active_loop E G D ctx fuel [] w1 = (Val (Some nv), t)"
    using assms(1) by (auto simp: gov_EndBlocker_def run_iffs)
  obtain q q' where q: "gw_active (view w) = Some q" "distinct q" and q': "gw_inactive (view w) = Some q'" "distinct q'"
    using assms(4) by (auto simp: gov_books_def queues_ok_def)
  have ids: "\<forall>i p. gw_props (view w) i = Some p \<longrightarrow> tp_ProposalID p = i" using assms(4) by (auto simp: gov_books_def totals_ok_def)
  have w1: "view w1 = gov_expire ctx (view w)" "\<forall>s. s \<noteq> gv_key G \<longrightarrow> w_stores w1 s = w_stores w s"
    using inactive_view [OF inactive q' ids] by auto
  have "\<exists>k. (\<forall>d. k d \<le> coin_supply E w d + escrow G w d) \<and> C k w"
    using coins_start [OF assms(2,3)] by (intro exI [of _ "\<lambda>d. coin_supply E w d + escrow G w d"]) simp
  from holdsD [OF B_loops(1) this inactive] obtain k where c1: "C k w1" by blast
  have sets: "bonded w1 = bonded w" "delegations w1 = delegations w" using sets_frame [of w1 w] w1(2) by auto
  have "balance E w1 = balance E w" using coin_views_cong(2) [of w1 E w] w1(2) stores by simp
  moreover have "gw_active (view w1) = Some q" "\<forall>i p. gw_props (view w1) i = Some p \<longrightarrow> tp_ProposalID p = i"
    using w1(1) q(1) ids by (auto simp: gov_expire_def split: if_splits)
  moreover have "gw_votes (view w1) = gw_votes (view w)" using w1(1) by (simp add: gov_expire_def)
  ultimately show "view t = gov_decide ctx pass (gov_expire ctx (view w))"
    and "balance E t a d = balance E w a d + gov_refunds ctx pass (gov_expire ctx (view w)) a d"
    and "s \<noteq> gv_key G \<Longrightarrow> s \<noteq> ae_accKey E \<Longrightarrow> w_stores t s = w_stores w s"
    using active_view [OF active c1 _ q(2), of pass a d] sets assms(5) pass w1 by simp_all
qed

lemma EndBlocker_books:
  assumes "gov_EndBlocker E G D ctx fuel w = (Val (Some out), t)" and "bank_ok E w" and "gov_ok G w" and "gov_books G w"
    and "distinct (map Owner (bonded w))"
  shows "gov_books G t"
  using EndBlocker_view(1) [OF assms refl] assms(4) expire_books decide_books by (simp add: gov_books_def)

end

section \<open>The staking keeper and a concrete state\<close>

interpretation net_ledger: gov_ledger net_auth_env net_gov_env "stake_gov_sets net_stake_env"
  "bonded_validators net_stake_env" "delegations_of net_stake_env"
proof unfold_locales
  show "gv_decInt net_gov_env (gv_encInt net_gov_env i) = Some i" for i by (simp add: gov_env_runs gov_dec_enc)
  show "bonded_validators net_stake_env t = bonded_validators net_stake_env w \<and> delegations_of net_stake_env t = delegations_of net_stake_env w"
    if "\<And>s. s \<noteq> gv_key net_gov_env \<Longrightarrow> s \<noteq> ae_accKey net_auth_env \<Longrightarrow> w_stores t s = w_stores w s" for t w
  proof -
    have "w_stores t (sk_key net_stake_env) = w_stores w (sk_key net_stake_env)"
      by (rule that) (simp_all add: gov_env_runs net_stake_env_def net_auth_env_def)
    then show ?thesis by (simp add: bonded_validators_def delegations_of_def stored_val_def fun_eq_iff)
  qed
qed

text \<open>The proposal of above, with the number of the next one.\<close>

definition ex_books :: world where
  "ex_books = free (ex_gov_stores(''gov'' :=
     [(KeyActiveProposalQueue, enc_list enc_int [1]),
      (KeyDeposit net_gov_env 1 ''bob'', net_encDeposit \<lparr>dep_Depositer = ''bob'', dep_ProposalID = 1, dep_Amount = [NewCoin ''steak'' 10]\<rparr>),
      (KeyNextProposalID, enc_int 2),
      (KeyProposal 1, net_encProposal ex_proposal),
      (KeyVote net_gov_env 1 ''bob'', net_encVote \<lparr>vote_Voter = ''bob'', vote_ProposalID = 1, vote_Option = OptionYes\<rparr>)])) 0"

lemma ex_books_view:
  "gov_view_of net_gov_env ex_books =
     \<lparr>gw_props = [1 \<mapsto> ex_proposal], gw_deps = (\<lambda>_. [])(1 := [\<lparr>dep_Depositer = ''bob'', dep_ProposalID = 1, dep_Amount = [NewCoin ''steak'' 10]\<rparr>]),
      gw_votes = (\<lambda>_. [])(1 := [\<lparr>vote_Voter = ''bob'', vote_ProposalID = 1, vote_Option = OptionYes\<rparr>]),
      gw_next = Some (Some 2), gw_active = Some [1], gw_inactive = Some []\<rparr>"
  by (simp add: gov_view_of_def ex_books_def gov_env_runs gov_dec_enc kv_Get_def stored_deposits_def stored_votes_def stored_queue_def
      fun_eq_iff keys_apart subspace_key)

lemma ex_books_facts:
  "bank_ok net_auth_env ex_books" "gov_ok net_gov_env ex_books" "gov_books net_gov_env ex_books"
  "distinct (map Owner (bonded_validators net_stake_env ex_books))"
proof -
  have "w_stores ex_books (ae_accKey net_auth_env) = w_stores ex_stake (ae_accKey net_auth_env)"
    by (simp add: ex_books_def ex_gov_stores_def ex_stake_def env_runs)
  then show "bank_ok net_auth_env ex_books" using coin_views_cong ex_stake_facts(3) by metis
  show "gov_ok net_gov_env ex_books"
    by (auto simp: gov_ok_def entry_ok_def ex_books_def gov_values show_int_1 kv_Get_def dep_ok_def prop_ok_def NewCoin_def NewInt_def validVoteOption_def split: if_splits)
  show "gov_books net_gov_env ex_books"
    by (auto simp: gov_books_def ex_books_view ids_ok_def unused_id_def queues_ok_def totals_ok_def deposited_def ex_proposal_def NewCoin_def NewInt_def
        gov_bytes split: if_splits)
  have "bonded_validators net_stake_env ex_books = bonded_validators net_stake_env ex_gov"
    by (simp add: bonded_validators_def stored_val_def ex_books_def ex_gov_def ex_gov_stores_def env_runs)
  then show "distinct (map Owner (bonded_validators net_stake_env ex_books))" by (simp add: ex_views)
qed

lemma ex_books_runs:
  "\<exists>t. tally net_gov_env (stake_gov_sets net_stake_env) ex_proposal ex_books = (Val (True, [''x'']), t)"
  "\<exists>tags t. gov_EndBlocker net_auth_env net_gov_env (stake_gov_sets net_stake_env) ex_vote_end (Suc (Suc 0)) ex_books = (Val (Some (tags, [''x''])), t)"
  by (simp_all add: gov_runs gov_values ex_books_def show_int_1 stake_exec cong: bnd_cong_weak)

section \<open>Properties\<close>

lemma ledger_bank: "gov_ledger E G D bonded delegations \<Longrightarrow> gov_bank E G D"
  by (simp add: gov_ledger_def gov_tally_def)

text \<open>
  C14: the books of the governance module stay consistent.  A message that has passed its
  validation and the end of a block leave every proposal, vote, deposit and queue decodable and
  under its own key; the next proposal id unused; in the active queue exactly the proposals in their
  voting period, each once; in the inactive queue all that wait for deposits; and the
  total deposit of every undecided proposal equal to the sum of the deposits stored for it.
  The number of the proposals has to stay below the largest 64-bit integer.
\<close>

theorem gov_books_kept:
  assumes "gov_ledger E G D bonded delegations" and "bank_ok E w" and "gov_ok G w" and "gov_books G w" and "distinct (map Owner (bonded w))"
    and "\<forall>n. gw_next (gov_view_of G w) = Some (Some n) \<longrightarrow> in_int64 (n + 1)"
    and "(gov_ValidateBasic msg = None \<and> gov_NewHandler E G ctx (Some msg) w = (Val res, t))
      \<or> gov_EndBlocker E G D ctx fuel w = (Val (Some out), t)"
  shows "gov_books G t \<and> gov_ok G t \<and> bank_ok E t"
  using assms(7)
proof (elim disjE conjE)
  assume run: "gov_ValidateBasic msg = None" "gov_NewHandler E G ctx (Some msg) w = (Val res, t)"
  show ?thesis using handler_coins [OF ledger_bank [OF assms(1)] assms(2,3) run] gov_ledger.handler_books [OF assms(1-4) run assms(6)]
    by (simp add: coins_are_def)
next
  assume run: "gov_EndBlocker E G D ctx fuel w = (Val (Some out), t)"
  show ?thesis using EndBlocker_coins [OF ledger_bank [OF assms(1)] assms(2,3) run] gov_ledger.EndBlocker_books [OF assms(1) run assms(2-5)]
    by (auto simp: coins_are_def)
qed

theorem gov_books_kept_witness:
  "\<exists>tags t. gov_EndBlocker net_auth_env net_gov_env (stake_gov_sets net_stake_env) ex_vote_end (Suc (Suc 0)) ex_books = (Val (Some (tags, [''x''])), t)
     \<and> gov_books net_gov_env t \<and> gov_ok net_gov_env t \<and> bank_ok net_auth_env t"
proof -
  have "\<forall>n. gw_next (gov_view_of net_gov_env ex_books) = Some (Some n) \<longrightarrow> in_int64 (n + 1)" by (simp add: ex_books_view in_int64_def)
  from gov_books_kept [OF net_ledger.gov_ledger_axioms ex_books_facts this, where ctx = ex_vote_end and fuel = "Suc (Suc 0)"]
  show ?thesis using ex_books_runs(2) by blast
qed

text \<open>
  C18: what the end of a block does, completely.  From the front of the inactive queue go the
  proposals that have left their deposit period or have waited too long, and the latter are
  forgotten.  From the front of the active queue go the proposals whose voting period is over.
  Each of these is marked as passed when the votes stored for it at the start are a majority, and
  as rejected otherwise, and keeps no votes and no deposits.  The balance of every account grows
  by exactly the deposits that it made on the proposals that passed.  The deposits of a forgotten
  proposal stay stored.  No store but those of the accounts and of this module changes.
\<close>

theorem gov_EndBlocker_settles:
  assumes "gov_ledger E G D bonded delegations" and "bank_ok E w" and "gov_ok G w" and "gov_books G w" and "distinct (map Owner (bonded w))"
    and "gov_EndBlocker E G D ctx fuel w = (Val (Some out), t)"
    and "pass = (\<lambda>i. majority (bonded w) (delegations w) (stored_votes G w i))" and "v = gov_expire ctx (gov_view_of G w)"
  shows "gov_view_of G t = gov_decide ctx pass v \<and> balance E t a d = balance E w a d + gov_refunds ctx pass v a d
    \<and> (s = gv_key G \<or> s = ae_accKey E \<or> w_stores t s = w_stores w s)"
  using gov_ledger.EndBlocker_view [OF assms(1,6,2-5), of pass] by (simp add: assms(7,8) gov_view_of_def) blast

theorem gov_EndBlocker_settles_witness:
  "\<exists>out t. gov_EndBlocker net_auth_env net_gov_env (stake_gov_sets net_stake_env) ex_vote_end (Suc (Suc 0)) ex_books = (Val (Some out), t)
     \<and> gw_props (gov_view_of net_gov_env t) 1 = Some (ex_proposal\<lparr>tp_Status := StatusPassed\<rparr>)
     \<and> balance net_auth_env t ''bob'' ''steak'' = balance net_auth_env ex_books ''bob'' ''steak'' + 10"
proof -
  let ?pass = "\<lambda>i. majority (bonded_validators net_stake_env ex_books) (delegations_of net_stake_env ex_books) (stored_votes net_gov_env ex_books i)"
  obtain t0 where "tally net_gov_env (stake_gov_sets net_stake_env) ex_proposal ex_books = (Val (True, [''x'']), t0)" using ex_books_runs(1) by blast
  from net_ledger.tally_majority [OF this ex_books_facts(4)] have pass: "?pass 1" by (simp add: gov_view_of_def ex_proposal_def)
  obtain out t where run: "gov_EndBlocker net_auth_env net_gov_env (stake_gov_sets net_stake_env) ex_vote_end (Suc (Suc 0)) ex_books = (Val (Some out), t)"
    using ex_books_runs(2) by blast
  have "voted_out ex_vote_end (gov_expire ex_vote_end (gov_view_of net_gov_env ex_books)) = [1]"
    by (simp add: ex_books_view voted_out_def ends_vote_def gov_expire_def timed_out_def ex_proposal_def ex_vote_end_def GetVotingProcedure_def wrap64_def)
  then show ?thesis
    using gov_EndBlocker_settles [OF net_ledger.gov_ledger_axioms ex_books_facts run refl refl, of "''bob''" "''steak''"] run pass
    by (auto simp: gov_decide_def gov_refunds_def gov_expire_def timed_out_def ex_books_view deposited_by_def NewCoin_def NewInt_def)
qed

end
