(* ===== verification/TonApp.thy ===== *)
theory TonApp
  imports BaseApp Ibc Slashing GovProperties
begin

text \<open>
  The application of \<open>cmd/ton/app/\<close>, which puts the modules together: the keepers over their
  stores and codespaces, the routes, the ante handler, the blockers, the loading of a genesis
  state and its export, and the genesis state that is made of genesis transactions.
\<close>

section \<open>Messages and environment\<close>

datatype ton_msg = TonBank bank_msg | TonIbc ibc_msg | TonStake stake_msg | TonSlashing MsgUnrevoke | TonGov gov_msg

record ton_env =
  tn_auth :: auth_env
  tn_ibc :: ibc_env
  tn_stake :: stake_env
  tn_slash :: slash_env
  tn_gov :: gov_env
  tn_bankJson :: bank_json
  tn_stakeJson :: stake_json
  tn_slashJson :: "string \<Rightarrow> bytes"
  tn_govJson :: "gov_msg \<Rightarrow> bytes"

definition ton_Msg :: "ton_env \<Rightarrow> ton_msg Msg" where
  "ton_Msg T =
     \<lparr>msg_Type = (\<lambda>m. case m of
          TonBank b \<Rightarrow> msg_Type (bank_Msg (tn_bankJson T)) b | TonIbc i \<Rightarrow> msg_Type (ibc_Msg (tn_ibc T)) i
        | TonStake s \<Rightarrow> msg_Type (stake_Msg (tn_stakeJson T)) s | TonSlashing u \<Rightarrow> msg_Type (slashing_Msg (tn_slashJson T)) u
        | TonGov g \<Rightarrow> msg_Type (gov_Msg (tn_govJson T)) g),
      msg_ValidateBasic = (\<lambda>m. case m of
          TonBank b \<Rightarrow> msg_ValidateBasic (bank_Msg (tn_bankJson T)) b | TonIbc i \<Rightarrow> msg_ValidateBasic (ibc_Msg (tn_ibc T)) i
        | TonStake s \<Rightarrow> msg_ValidateBasic (stake_Msg (tn_stakeJson T)) s | TonSlashing u \<Rightarrow> msg_ValidateBasic (slashing_Msg (tn_slashJson T)) u
        | TonGov g \<Rightarrow> msg_ValidateBasic (gov_Msg (tn_govJson T)) g),
      msg_GetSignBytes = (\<lambda>m. case m of
          TonBank b \<Rightarrow> msg_GetSignBytes (bank_Msg (tn_bankJson T)) b | TonIbc i \<Rightarrow> msg_GetSignBytes (ibc_Msg (tn_ibc T)) i
        | TonStake s \<Rightarrow> msg_GetSignBytes (stake_Msg (tn_stakeJson T)) s | TonSlashing u \<Rightarrow> msg_GetSignBytes (slashing_Msg (tn_slashJson T)) u
        | TonGov g \<Rightarrow> msg_GetSignBytes (gov_Msg (tn_govJson T)) g),
      msg_GetSigners = (\<lambda>m. case m of
          TonBank b \<Rightarrow> msg_GetSigners (bank_Msg (tn_bankJson T)) b | TonIbc i \<Rightarrow> msg_GetSigners (ibc_Msg (tn_ibc T)) i
        | TonStake s \<Rightarrow> msg_GetSigners (stake_Msg (tn_stakeJson T)) s | TonSlashing u \<Rightarrow> msg_GetSigners (slashing_Msg (tn_slashJson T)) u
        | TonGov g \<Rightarrow> msg_GetSigners (gov_Msg (tn_govJson T)) g)\<rparr>"

text \<open>The handlers see a message of another module as one they do not know.\<close>

definition ton_handlers :: "ton_env \<Rightarrow> (string \<times> ton_msg Handler) list" where
  "ton_handlers T =
     (let V = stake_validator_set (tn_stake T) in
      [(''bank'', \<lambda>ctx m. bank_NewHandler (tn_auth T) (case m of TonBank b \<Rightarrow> Some b | _ \<Rightarrow> None)),
       (''ibc'', \<lambda>ctx m. ibc_NewHandler (tn_auth T) (tn_ibc T) (case m of TonIbc i \<Rightarrow> Some i | _ \<Rightarrow> None)),
       (''stake'', \<lambda>ctx m. stake_NewHandler (tn_auth T) (tn_stake T) ctx (case m of TonStake s \<Rightarrow> Some s | _ \<Rightarrow> None)),
       (''slashing'', \<lambda>ctx m. slashing_NewHandler (tn_slash T) V ctx (case m of TonSlashing u \<Rightarrow> Some u | _ \<Rightarrow> None)),
       (''gov'', \<lambda>ctx m. gov_NewHandler (tn_auth T) (tn_gov T) ctx (case m of TonGov g \<Rightarrow> Some g | _ \<Rightarrow> None))])"

fun add_routes :: "(string \<times> 'm Handler) list \<Rightarrow> 'm router \<Rightarrow> 'm router outcome" where
  "add_routes [] rtr = Val rtr"
| "add_routes ((r, h) # hs) rtr = obind (AddRoute rtr r h) (add_routes hs)"

section \<open>Blocks\<close>

definition ton_BeginBlocker :: "ton_env \<Rightarrow> Context \<Rightarrow> Evidence RequestBeginBlock \<Rightarrow> (world, Tags) M" where
  "ton_BeginBlocker T ctx req = slashing_BeginBlocker (tn_slash T) (stake_validator_set (tn_stake T)) ctx
     (rbb_Header req) (rbb_Validators req) (rbb_ByzantineValidators req)"

text \<open>
  The loops at the end of a block of the governance module get as many rounds as the longer of
  the queues has proposals, and one more.
\<close>

definition gov_rounds :: "gov_env \<Rightarrow> world \<Rightarrow> nat" where
  "gov_rounds G w = Suc (max (length (case stored_queue G KeyActiveProposalQueue w of None \<Rightarrow> [] | Some q \<Rightarrow> q))
     (length (case stored_queue G KeyInactiveProposalQueue w of None \<Rightarrow> [] | Some q \<Rightarrow> q)))"

definition ton_gov_end :: "ton_env \<Rightarrow> Context \<Rightarrow> (world, (Tags \<times> bytes list) option) M" where
  "ton_gov_end T ctx w = gov_EndBlocker (tn_auth T) (tn_gov T) (stake_gov_sets (tn_stake T)) ctx (gov_rounds (tn_gov T) w) w"

definition ton_EndBlocker :: "ton_env \<Rightarrow> Context \<Rightarrow> int \<Rightarrow> (world, wrsp_Validator list \<times> Tags) M" where
  "ton_EndBlocker T ctx height =
     bnd (stake_EndBlocker (tn_stake T) ctx) (\<lambda>validatorUpdates.
     bnd (ton_gov_end T ctx) (\<lambda>r. case r of
       None \<Rightarrow> panicM (GoPanic ''out of rounds'')
     | Some (tags, _) \<Rightarrow> ret (validatorUpdates, tags)))"

section \<open>Genesis\<close>

record GenesisAccount =
  ga_Address :: bytes
  ga_Coins :: Coins

record ton_GenesisState =
  tg_Accounts :: "GenesisAccount list"
  tg_StakeData :: stake_GenesisState

definition NewGenesisAccount :: "BaseAccount \<Rightarrow> GenesisAccount" where
  "NewGenesisAccount acc = \<lparr>ga_Address = ba_Address acc, ga_Coins = ba_Coins acc\<rparr>"

definition ToAccount :: "GenesisAccount \<Rightarrow> BaseAccount" where
  "ToAccount ga = zeroAccount\<lparr>ba_Address := ga_Address ga, ba_Coins := Coins_Sort (ga_Coins ga)\<rparr>"

definition load_accounts :: "ton_env \<Rightarrow> GenesisAccount list \<Rightarrow> (world, unit) M" where
  "load_accounts T gaccs = iterM gaccs (\<lambda>gacc.
     bnd (GetNextAccountNumber (tn_auth T)) (\<lambda>n.
     SetAccount (tn_auth T) ((ToAccount gacc)\<lparr>ba_AccountNumber := n\<rparr>)))"

definition ton_initChainer :: "ton_env \<Rightarrow> (bytes \<Rightarrow> ton_GenesisState option) \<Rightarrow> Context \<Rightarrow> RequestInitChain \<Rightarrow> (world, unit) M" where
  "ton_initChainer T unmarshalJSON ctx req = (case unmarshalJSON (ric_AppStateBytes req) of
     None \<Rightarrow> panicM (GoPanic ''genesis state'')
   | Some genesisState \<Rightarrow>
       bnd (load_accounts T (tg_Accounts genesisState)) (\<lambda>_.
       bnd (stake_InitGenesis (tn_stake T) (tg_StakeData genesisState)) (\<lambda>_.
       gov_InitGenesis (tn_gov T) 1)))"

definition ExportAppState :: "ton_env \<Rightarrow> (world, ton_GenesisState \<times> GenesisValidator list) M" where
  "ExportAppState T =
     bnd (IterateAccounts (tn_auth T) (\<lambda>gaccs acc. (False, gaccs @ [NewGenesisAccount acc])) []) (\<lambda>gaccs.
     bnd (stake_WriteGenesis (tn_stake T)) (\<lambda>stakeData.
     bnd (WriteValidators (tn_stake T)) (\<lambda>validators.
     ret (\<lparr>tg_Accounts = gaccs, tg_StakeData = stakeData\<rparr>, validators))))"

definition ExportAppStateAndValidators ::
  "ton_env \<Rightarrow> (ton_msg, Evidence, wrsp_Validator) BaseApp \<Rightarrow> (ton_GenesisState \<times> GenesisValidator list) outcome" where
  "ExportAppStateAndValidators T app =
     obind (app_NewContext True (chain_header []) app) (\<lambda>(ctx, ms).
     fst (ExportAppState T \<lparr>w_stores = ms, w_gas = NewInfiniteGasMeter\<rparr>))"

definition freeFermionVal :: int where "freeFermionVal = 100"
definition freeFermionsAcc :: int where "freeFermionsAcc = 50"

record GaiaGenTx =
  gt_Name :: string
  gt_Address :: bytes
  gt_PubKey :: bytes

definition gen_account :: "GaiaGenTx \<Rightarrow> GenesisAccount" where
  "gen_account genTx = NewGenesisAccount ((NewBaseAccountWithAddress (gt_Address genTx))
     \<lparr>ba_Coins := [NewCoin (gt_Name genTx @ ''Token'') 1000, NewCoin ''steak'' freeFermionsAcc]\<rparr>)"

definition gen_validator :: "GaiaGenTx \<Rightarrow> stake_GenesisState \<Rightarrow> stake_GenesisState outcome" where
  "gen_validator genTx stakeData =
     (let pool = sg_Pool stakeData;
          stakeData = stakeData\<lparr>sg_Pool := pool\<lparr>LooseTokens := wrap64 (LooseTokens pool + freeFermionsAcc)\<rparr>\<rparr>
      in if length (gt_Name genTx) > 0 then
           let desc = NewDescription (gt_Name genTx) [] [] [];
               validator = NewValidator (gt_Address genTx) (gt_PubKey genTx) desc;
               pool = sg_Pool stakeData;
               pool = pool\<lparr>LooseTokens := wrap64 (LooseTokens pool + freeFermionVal)\<rparr>
           in obind (AddTokensFromDel validator pool freeFermionVal) (\<lambda>(validator, pool, issuedDelShares).
              let delegation = \<lparr>del_DelegatorAddr = Owner validator, del_ValidatorAddr = Owner validator,
                    del_Shares = issuedDelShares, del_Height = 0\<rparr>
              in Val (stakeData\<lparr>sg_Pool := pool, sg_Validators := sg_Validators stakeData @ [validator],
                    sg_Bonds := sg_Bonds stakeData @ [delegation]\<rparr>))
         else Val stakeData)"

fun gen_loop :: "(bytes \<Rightarrow> GaiaGenTx option) \<Rightarrow> bytes list \<Rightarrow> ton_GenesisState \<Rightarrow> ton_GenesisState option outcome" where
  "gen_loop unmarshal [] st = Val (Some st)"
| "gen_loop unmarshal (bz # bzs) st = (case unmarshal bz of
     None \<Rightarrow> Val None
   | Some genTx \<Rightarrow> obind (gen_validator genTx (tg_StakeData st)) (\<lambda>stakeData.
       gen_loop unmarshal bzs \<lparr>tg_Accounts = tg_Accounts st @ [gen_account genTx], tg_StakeData = stakeData\<rparr>))"

definition GaiaAppGenState :: "(bytes \<Rightarrow> GaiaGenTx option) \<Rightarrow> bytes list \<Rightarrow> ton_GenesisState option outcome" where
  "GaiaAppGenState unmarshal appGenTxs =
     (if length appGenTxs = 0 then Val None
      else gen_loop unmarshal appGenTxs \<lparr>tg_Accounts = [], tg_StakeData = stake_DefaultGenesisState\<rparr>)"

section \<open>The application\<close>

text \<open>
  The keepers get the codespaces that the application registers for them.  What the stores hold
  is loaded from disk; when that fails, the process exits.
\<close>

definition ton_keepers :: "ton_env \<Rightarrow> (ton_msg, Evidence, wrsp_Validator) BaseApp \<Rightarrow> (ton_env \<times> (ton_msg, Evidence, wrsp_Validator) BaseApp) outcome" where
  "ton_keepers T app =
     (case RegisterCodespace ibc_DefaultCodespace app of (Panic p, _) \<Rightarrow> Panic p | (Val c1, app) \<Rightarrow>
     (case RegisterCodespace stake_DefaultCodespace app of (Panic p, _) \<Rightarrow> Panic p | (Val c2, app) \<Rightarrow>
     (case RegisterCodespace slashing_DefaultCodespace app of (Panic p, _) \<Rightarrow> Panic p | (Val c3, app) \<Rightarrow>
     (case RegisterCodespace gov_DefaultCodespace app of (Panic p, _) \<Rightarrow> Panic p | (Val c4, app) \<Rightarrow>
       Val (T\<lparr>tn_ibc := (tn_ibc T)\<lparr>ib_codespace := c1\<rparr>, tn_stake := (tn_stake T)\<lparr>sk_codespace := c2\<rparr>,
              tn_slash := (tn_slash T)\<lparr>sl_codespace := c3\<rparr>, tn_gov := (tn_gov T)\<lparr>gv_codespace := c4\<rparr>\<rparr>, app)))))"

definition NewGaiaApp ::
  "ton_env \<Rightarrow> (bytes \<Rightarrow> ton_msg StdTx option) \<Rightarrow> (bytes \<Rightarrow> ton_GenesisState option) \<Rightarrow> (stores \<times> int) option
   \<Rightarrow> (ton_msg, Evidence, wrsp_Validator) BaseApp outcome" where
  "NewGaiaApp T unmarshalTx unmarshalGenesis loaded =
     obind (NewBaseApp ''GaiaApp'' unmarshalTx) (\<lambda>app.
     obind (ton_keepers T app) (\<lambda>(T, app).
     obind (add_routes (ton_handlers T) (app_router app)) (\<lambda>rtr.
     case loaded of
       None \<Rightarrow> Panic (GoPanic ''exit'')
     | Some (ms, version) \<Rightarrow>
         Val (app\<lparr>app_router := rtr, app_initChainer := Some (ton_initChainer T unmarshalGenesis),
           app_beginBlocker := Some (ton_BeginBlocker T), app_endBlocker := Some (ton_EndBlocker T),
           app_anteHandler := Some (NewAnteHandler (tn_auth T) (ton_Msg T)), app_cms := ms, app_version := version\<rparr>))))"

end
