(* ===== verification/TonProperties.thy ===== *)
theory TonProperties
  imports TonApp
begin

text \<open>
  Properties of the modules together: which stores the messages of each module can reach, and
  what a transaction of the whole application does to the coins.
\<close>

section \<open>Which stores the modules reach\<close>

lemma confined_accounts [confined_rules]:
  assumes "ae_accKey E \<in> A"
  shows "confined A (subtractCoins E a cs)" "confined A (SetAccount E acc)" "confined A (GetAccount E a)"
  unfolding subtractCoins_def getCoins_def setCoins_def GetAccount_def SetAccount_def decodeAccount_def NewAccountWithAddress_def
    GetNextAccountNumber_def Let_def
  by (intro confined_rules assms)+

lemma confined_io_loops [confined_rules]:
  "ae_accKey E \<in> A \<Longrightarrow> confined A (inputs_loop E ins tags)" "ae_accKey E \<in> A \<Longrightarrow> confined A (outputs_loop E outs tags)"
  by (induction ins arbitrary: tags) (auto intro!: confined_rules, induction outs arbitrary: tags, auto intro!: confined_rules)

lemma confined_msgs [confined_rules]:
  "(\<And>x. confined A (f1 x)) \<Longrightarrow> (\<And>x. confined A (f2 x)) \<Longrightarrow> confined A (case_bank_msg f1 f2 bm)"
  "(\<And>x. confined A (g1 x)) \<Longrightarrow> (\<And>x. confined A (g2 x)) \<Longrightarrow> confined A (case_ibc_msg g1 g2 im)"
  "(\<And>x. confined A (h1 x)) \<Longrightarrow> (\<And>x. confined A (h2 x)) \<Longrightarrow> (\<And>x. confined A (h3 x)) \<Longrightarrow> confined A (case_gov_msg h1 h2 h3 gm)"
  "\<lbrakk>\<And>x. confined A (k1 x); \<And>x. confined A (k2 x); \<And>x. confined A (k3 x); \<And>x. confined A (k4 x); \<And>x. confined A (k5 x);
    \<And>x. confined A (k6 x); \<And>x. confined A (k7 x)\<rbrakk> \<Longrightarrow> confined A (case_stake_msg k1 k2 k3 k4 k5 k6 k7 sm)"
  "confined A n \<Longrightarrow> (\<And>x xs. confined A (l x xs)) \<Longrightarrow> confined A (case_list n l ys)"
  by (simp_all split: bank_msg.split ibc_msg.split gov_msg.split stake_msg.split list.split)

lemma confined_bank_handler:
  "ae_accKey E \<in> A \<Longrightarrow> confined A (bank_NewHandler E msg)"
  unfolding bank_NewHandler_def handleMsgSend_def handleMsgIssue_def inputOutputCoins_def
  by (intro confined_rules)

lemma confined_ibc_handler:
  assumes "ae_accKey E \<in> A" and "ib_key I \<in> A"
  shows "confined A (ibc_NewHandler E I msg)"
  unfolding ibc_NewHandler_def handleIBCTransferMsg_def handleIBCReceiveMsg_def getEgressLength_def PostIBCPacket_def
    GetIngressSequence_def SetIngressSequence_def
  by (intro confined_rules assms)

lemma confined_gov_handler:
  assumes "ae_accKey E \<in> A" and "gv_key G \<in> A"
  shows "confined A (gov_NewHandler E G ctx msg)"
  unfolding gov_NewHandler_def handleMsgDeposit_def handleMsgSubmitProposal_def handleMsgVote_def AddDeposit_def AddVote_def NewTextProposal_def
    activateVotingPeriod_def getNewProposalID_def GetProposal_def SetProposal_def GetVote_def setVote_def GetDeposit_def setDeposit_def
    ActiveProposalQueuePush_def InactiveProposalQueuePush_def getActiveProposalQueue_def getInactiveProposalQueue_def
    setActiveProposalQueue_def setInactiveProposalQueue_def
  by (intro confined_rules assms)

lemma confined_slashing_handler:
  assumes "sk_key S \<in> A" and "sl_key G \<in> A"
  shows "confined A (slashing_NewHandler G (stake_validator_set S) ctx msg)"
  unfolding slashing_NewHandler_def handleMsgUnrevoke_def stake_validator_set_def getValidatorSigningInfo_def setValidatorSigningInfo_def
    validator_set.simps
  by (intro confined_rules assms)

lemma confined_keeper [confined_rules]:
  assumes "sk_key S \<in> A" and "ae_accKey E \<in> A"
  shows "confined A (keeper_Delegate E S ctx d c v)" "confined A (keeper_CompleteUnbonding E S ctx d a)"
    "confined A (BeginRedelegation E S ctx d a b sh)"
  unfolding keeper_Delegate_def keeper_CompleteUnbonding_def BeginRedelegation_def
    GetUnbondingDelegation_def RemoveUnbondingDelegation_def HasReceivingRedelegation_def
  by (intro confined_rules assms)+

lemma confined_keeper_own [confined_rules]:
  assumes "sk_key S \<in> A"
  shows "confined A (keeper_BeginUnbonding S ctx d a sh)" "confined A (CompleteRedelegation S ctx d a b)"
  unfolding keeper_BeginUnbonding_def CompleteRedelegation_def GetRedelegation_def RemoveRedelegation_def
  by (intro confined_rules assms)+

lemma confined_stake_handler:
  assumes "sk_key S \<in> A" and "ae_accKey E \<in> A"
  shows "confined A (stake_NewHandler E S ctx msg)"
  unfolding stake_NewHandler_def handleMsgCreateValidator_def handleMsgEditValidator_def handleMsgDelegate_def handleMsgBeginUnbonding_def
    handleMsgCompleteUnbonding_def handleMsgBeginRedelegate_def handleMsgCompleteRedelegate_def SetValidator_def SetValidatorByPubKeyIndex_def
  by (intro confined_rules assms)

lemma confined_sigs:
  assumes "ae_feeKey E \<in> A"
  shows "confined A (processSig E addr sig bz)" "confined A (pay_fee E fee acc)"
  unfolding processSig_def pay_fee_def addCollectedFees_def GetCollectedFees_def setCollectedFees_def GetAccount_def decodeAccount_def Let_def
  by (intro confined_rules assms)+

lemma confined_ante:
  assumes "ae_accKey E \<in> A" and "ae_feeKey E \<in> A"
  shows "confined A (NewAnteHandler E mi ctx tx)"
proof -
  have "confined A (ante_sigs E bz fee i xs accs)" for bz fee i xs accs
  proof (induction xs arbitrary: i accs)
    case (Cons x xs)
    obtain a sig where x: "x = (a, sig)" by fastforce
    show ?case unfolding x ante_sigs.simps by (intro confined_rules confined_sigs assms Cons.IH)
  qed (simp add: confined_rules)
  then show ?thesis
    unfolding NewAnteHandler_def AnteHandler_def Let_def by (cases tx; simp only: Tx.simps; intro confined_rules)
qed

section \<open>A transaction reaches the stores of its messages\<close>

definition module_stores :: "ton_env \<Rightarrow> ton_msg \<Rightarrow> string set" where
  "module_stores T m = (case m of
     TonBank _ \<Rightarrow> {} | TonIbc _ \<Rightarrow> {ib_key (tn_ibc T)} | TonStake _ \<Rightarrow> {sk_key (tn_stake T)}
   | TonSlashing _ \<Rightarrow> {sl_key (tn_slash T), sk_key (tn_stake T)} | TonGov _ \<Rightarrow> {gv_key (tn_gov T)})"

definition reach :: "ton_env \<Rightarrow> ton_msg list \<Rightarrow> string set" where
  "reach T msgs = {ae_accKey (tn_auth T), ae_feeKey (tn_auth T)} \<union> (\<Union>m \<in> set msgs. module_stores T m)"

text \<open>The router and the ante handler of the application, for some registered codespaces.\<close>

definition ton_app :: "ton_env \<Rightarrow> (ton_msg, 'e, 'u) BaseApp \<Rightarrow> bool" where
  "ton_app T app \<longleftrightarrow> add_routes (ton_handlers T) [] = Val (app_router app) \<and> app_anteHandler app = Some (NewAnteHandler (tn_auth T) (ton_Msg T))"

lemma add_routes_Route:
  "add_routes hs rtr = Val rtr' \<Longrightarrow> Route rtr' path = (case Route rtr path of Some h \<Rightarrow> Some h | None \<Rightarrow> map_of hs path)"
proof (induction hs rtr rule: add_routes.induct)
  case (2 r h hs rtr)
  have append: "Route (xs @ [\<lparr>route_r = r, route_h = h\<rparr>]) path =
      (case Route xs path of Some k \<Rightarrow> Some k | None \<Rightarrow> if r = path then Some h else None)" for xs
    by (induction xs) auto
  show ?case using 2 by (auto simp: AddRoute_def append split: if_splits option.splits)
qed (simp split: option.split)

lemma ton_Route:
  assumes "ton_app T app" and "Route (app_router app) (msg_Type (ton_Msg T) m) = Some h"
  shows "h ctx m = (case m of
      TonBank b \<Rightarrow> bank_NewHandler (tn_auth T) (Some b) | TonIbc i \<Rightarrow> ibc_NewHandler (tn_auth T) (tn_ibc T) (Some i)
    | TonStake s \<Rightarrow> stake_NewHandler (tn_auth T) (tn_stake T) ctx (Some s)
    | TonSlashing u \<Rightarrow> slashing_NewHandler (tn_slash T) (stake_validator_set (tn_stake T)) ctx (Some u)
    | TonGov g \<Rightarrow> gov_NewHandler (tn_auth T) (tn_gov T) ctx (Some g))"
proof -
  have "map_of (ton_handlers T) (msg_Type (ton_Msg T) m) = Some h"
    using assms add_routes_Route [of "ton_handlers T" "[]" "app_router app"] by (simp add: ton_app_def)
  then show ?thesis
    by (cases m) (auto simp: ton_handlers_def ton_Msg_def bank_Msg_def ibc_Msg_def stake_Msg_def slashing_Msg_def gov_Msg_def stake_MsgType_def Let_def)
qed

lemma ton_handler_confined:
  assumes "ton_app T app" and "Route (app_router app) (msg_Type (ton_Msg T) m) = Some h" and "m \<in> set msgs"
  shows "confined (reach T msgs) (h ctx m)"
proof -
  have "module_stores T m \<subseteq> reach T msgs" "ae_accKey (tn_auth T) \<in> reach T msgs" using assms(3) by (auto simp: reach_def)
  then show ?thesis
    unfolding ton_Route [OF assms(1,2)]
    by (cases m) (auto simp: module_stores_def intro!: confined_bank_handler confined_ibc_handler confined_stake_handler
        confined_slashing_handler confined_gov_handler)
qed

lemma msgs_pass_confined:
  assumes "ton_app T app"
  shows "msgs_pass (ton_Msg T) (app_router app) ctx ms w t \<Longrightarrow> set ms \<subseteq> set msgs \<Longrightarrow> same_but (reach T msgs) w t"
proof (induction rule: msgs_pass.induct)
  case (pass_done w)
  then show ?case by (simp add: same_but_def)
next
  case (pass_msg msg handler w result u msgs' t)
  have "confined (reach T msgs) (handler ctx msg)" using ton_handler_confined [OF assms pass_msg(1)] pass_msg.prems by simp
  from confinedD [OF this pass_msg(2)] show ?case using pass_msg.IH pass_msg.prems by (simp add: same_but_def)
qed

lemma run_ante_confined:
  assumes "ton_app T app"
  shows "confined (reach T msgs) (run_ante app ctx tx)"
proof -
  have "ae_accKey (tn_auth T) \<in> reach T msgs" "ae_feeKey (tn_auth T) \<in> reach T msgs" by (simp_all add: reach_def)
  then show ?thesis using assms unfolding run_ante_def ton_app_def
    by (auto intro!: confined_rules confined_ante)
qed

lemma runTx_confined:
  assumes "ton_app T app" and "runTx (ton_Msg T) mode txBytes tx app = (res, app')"
    and "mode_state mode app = Some st" and "mode_state mode app' = Some st'" and "s \<notin> reach T (Tx_GetMsgs tx)"
  shows "st_ms st' s = st_ms st s"
proof -
  let ?ante = "run_ante app (tx_context mode txBytes app st) tx (world_of st)"
  have ante: "w_stores (snd ?ante) s = st_ms st s"
    using confinedD [OF run_ante_confined [OF assms(1)] prod.collapse [symmetric] assms(5)] by (simp add: world_of_def)
  have "w_stores w s = st_ms st s \<and> w_stores t s = st_ms st s" if "tx_passes (ton_Msg T) mode txBytes tx app st w t" for w t
    using that msgs_pass_confined [OF assms(1) _ subset_refl, of _ "Tx_GetMsgs tx" w t] ante assms(5)
    by (auto simp: tx_passes_def same_but_def)
  then show ?thesis using runTx_exact [OF assms(2,3)] ante assms(4) by (auto split: if_splits)
qed

section \<open>From the start of the application\<close>

lemma runTx_wiring:
  "app_router (snd (runTx mi mode b tx app)) = app_router app" "app_anteHandler (snd (runTx mi mode b tx app)) = app_anteHandler app"
  "app_txDecoder (snd (runTx mi mode b tx app)) = app_txDecoder app"
  by (simp_all add: runTx_def set_mode_state_def Let_def split: outcome.split option.split prod.split sum.split)

lemma on_deliver_wiring:
  "on_deliver f app = Val (x, app') \<Longrightarrow>
     app_router app' = app_router app \<and> app_anteHandler app' = app_anteHandler app \<and> app_txDecoder app' = app_txDecoder app"
  by (auto simp: on_deliver_def nil_state_def split: option.splits prod.splits outcome.splits)

lemma handle_wiring:
  assumes "handle mi req app = Val app'"
  shows "app_router app' = app_router app \<and> app_anteHandler app' = app_anteHandler app \<and> app_txDecoder app' = app_txDecoder app"
proof (cases req)
  case (ReqInitChain r)
  then show ?thesis using assms
    by (auto simp: InitChain_def setDeliverState_def setCheckState_def Let_def map_outcome_Val split: option.splits dest!: on_deliver_wiring)
next
  case (ReqBeginBlock r)
  then show ?thesis using assms
    by (auto simp: BeginBlock_def setDeliverState_def Let_def obind_Val_iff map_outcome_Val split: option.splits dest!: on_deliver_wiring)
next
  case (ReqEndBlock h)
  then show ?thesis using assms by (auto simp: EndBlock_def map_outcome_Val split: option.splits dest!: on_deliver_wiring)
next
  case ReqCommit
  then show ?thesis using assms by (auto simp: Commit_def setCheckState_def Let_def nil_state_def map_outcome_Val split: option.splits)
qed (use assms in \<open>auto simp: CheckTx_def DeliverTx_def Simulate_def runTx_wiring split: sum.splits\<close>)

lemma serve_wiring:
  "serve mi reqs app = Val app' \<Longrightarrow>
     app_router app' = app_router app \<and> app_anteHandler app' = app_anteHandler app \<and> app_txDecoder app' = app_txDecoder app"
proof (induction reqs arbitrary: app)
  case (Cons req reqs)
  then obtain app1 where "handle mi req app = Val app1" "serve mi reqs app1 = Val app'" by (auto simp: obind_Val_iff)
  then show ?case using Cons.IH [of app1] handle_wiring [of mi req app app1] by simp
qed simp

definition with_codespaces :: "CodespaceType \<times> CodespaceType \<times> CodespaceType \<times> CodespaceType \<Rightarrow> ton_env \<Rightarrow> ton_env" where
  "with_codespaces cs T = (case cs of (c1, c2, c3, c4) \<Rightarrow>
     T\<lparr>tn_ibc := (tn_ibc T)\<lparr>ib_codespace := c1\<rparr>, tn_stake := (tn_stake T)\<lparr>sk_codespace := c2\<rparr>,
       tn_slash := (tn_slash T)\<lparr>sl_codespace := c3\<rparr>, tn_gov := (tn_gov T)\<lparr>gv_codespace := c4\<rparr>\<rparr>)"

lemma with_codespaces_same [simp]:
  "ton_Msg (with_codespaces cs T) = ton_Msg T" "reach (with_codespaces cs T) = reach T" "tn_auth (with_codespaces cs T) = tn_auth T"
proof -
  obtain c1 c2 c3 c4 where cs: "cs = (c1, c2, c3, c4)" by (cases cs)
  have "module_stores (with_codespaces cs T) m = module_stores T m" for m
    by (cases m) (simp_all add: module_stores_def with_codespaces_def cs)
  then show "reach (with_codespaces cs T) = reach T" by (simp add: reach_def with_codespaces_def cs fun_eq_iff)
  have "ibc_Msg (tn_ibc (with_codespaces cs T)) = ibc_Msg (tn_ibc T)" "tn_bankJson (with_codespaces cs T) = tn_bankJson T"
    "tn_stakeJson (with_codespaces cs T) = tn_stakeJson T" "tn_slashJson (with_codespaces cs T) = tn_slashJson T"
    "tn_govJson (with_codespaces cs T) = tn_govJson T"
    by (simp_all add: with_codespaces_def cs ibc_Msg_def IBCPacket_GetSignBytes_def IBCReceiveMsg_GetSignBytes_def fun_eq_iff
        split: ibc_msg.split)
  then show "ton_Msg (with_codespaces cs T) = ton_Msg T" by (simp only: ton_Msg_def)
qed (simp add: with_codespaces_def split: prod.split)

lemma ton_keepers_Val:
  assumes "ton_keepers T app = Val (T', app')"
  shows "(\<exists>cs. T' = with_codespaces cs T) \<and> app_router app' = app_router app \<and> app_txDecoder app' = app_txDecoder app
    \<and> app_checkState app' = app_checkState app"
  using assms
  by (auto simp: ton_keepers_def RegisterCodespace_def with_codespaces_def split: prod.splits outcome.splits)

lemma NewGaiaApp_wiring:
  assumes "NewGaiaApp T unmarshalTx unmarshalGenesis loaded = Val app"
  shows "app_txDecoder app = defaultTxDecoder unmarshalTx \<and> (\<exists>cs. ton_app (with_codespaces cs T) app)"
  using assms
  by (auto simp: NewGaiaApp_def NewBaseApp_def ton_app_def NewRouter_def obind_Val_iff
      split: prod.splits outcome.splits option.splits dest!: ton_keepers_Val) (intro exI, assumption)

lemma NewGaiaApp_no_check: "NewGaiaApp T unmarshalTx unmarshalGenesis loaded = Val app \<Longrightarrow> app_checkState app = None"
  by (auto simp: NewGaiaApp_def NewBaseApp_def obind_Val_iff split: prod.splits outcome.splits option.splits dest!: ton_keepers_Val)

text \<open>The application at any time of its life, with the messages of the next transaction.\<close>

lemma ton_life:
  assumes "NewGaiaApp T unmarshalTx unmarshalGenesis loaded = Val app0" and "serve (ton_Msg T) reqs app0 = Val app"
  obtains cs where "ton_app (with_codespaces cs T) app" and "app_txDecoder app = defaultTxDecoder unmarshalTx"
  using NewGaiaApp_wiring [OF assms(1)] serve_wiring [OF assms(2)] that by (auto simp: ton_app_def)

definition tx_msgs :: "(bytes \<Rightarrow> 'm StdTx option) \<Rightarrow> bytes \<Rightarrow> 'm list" where
  "tx_msgs unmarshalTx txBytes = (case unmarshalTx txBytes of None \<Rightarrow> [] | Some tx \<Rightarrow> tx_Msgs tx)"

lemma ton_deliver_reach:
  assumes "NewGaiaApp T unmarshalTx unmarshalGenesis loaded = Val app0" and "serve (ton_Msg T) reqs app0 = Val app"
    and "app_deliverState app = Some st" and "DeliverTx (ton_Msg T) txBytes app = (res, app')"
  shows "\<exists>st'. app_deliverState app' = Some st' \<and> (\<forall>s. s \<notin> reach T (tx_msgs unmarshalTx txBytes) \<longrightarrow> st_ms st' s = st_ms st s)"
proof -
  obtain cs where app: "ton_app (with_codespaces cs T) app" and dec: "app_txDecoder app = defaultTxDecoder unmarshalTx"
    by (rule ton_life [OF assms(1,2)])
  show ?thesis
  proof (cases "defaultTxDecoder unmarshalTx txBytes")
    case (Inl e)
    then show ?thesis using assms(3,4) dec by (auto simp: DeliverTx_def)
  next
    case (Inr tx)
    then have msgs: "tx_msgs unmarshalTx txBytes = Tx_GetMsgs tx" by (auto simp: defaultTxDecoder_def tx_msgs_def split: if_splits option.splits)
    have run: "runTx (ton_Msg T) runTxModeDeliver txBytes tx app = (res, app')" using assms(4) dec Inr by (simp add: DeliverTx_def)
    have st: "mode_state runTxModeDeliver app = Some st" using assms(3) by (simp add: mode_state_def)
    obtain st' where st': "mode_state runTxModeDeliver app' = Some st'" using runTx_exact [OF run st] by (elim exE conjE)
    have "st_ms st' s = st_ms st s" if "s \<notin> reach T (Tx_GetMsgs tx)" for s
      using runTx_confined [OF app _ st st'] run that by simp
    then show ?thesis using st' msgs by (auto simp: mode_state_def)
  qed
qed

section \<open>Coins\<close>

text \<open>The coins of the chain: those of the accounts, those in deposits, and the collected fees.\<close>

definition fees :: "auth_env \<Rightarrow> world \<Rightarrow> string \<Rightarrow> int" where
  "fees E w d = (case feepool E w of None \<Rightarrow> 0 | Some cs \<Rightarrow> amt cs d)"

definition fees_ok :: "auth_env \<Rightarrow> world \<Rightarrow> bool" where
  "fees_ok E w \<longleftrightarrow> (case feepool E w of None \<Rightarrow> False | Some cs \<Rightarrow> sorted_denoms cs)"

definition paid_coins :: "auth_env \<Rightarrow> world \<Rightarrow> string \<Rightarrow> int" where
  "paid_coins E w d = coin_supply E w d + fees E w d"

lemma pool_step_fees:
  assumes "pool_step E fee pays w t" and "fees_ok E w" and "sorted_denoms (fee_Amount fee)"
  shows "fees_ok E t \<and> fees E t d = fees E w d + (if pays \<and> \<not> Coins_IsZero (fee_Amount fee) then amt (fee_Amount fee) d else 0)"
proof (cases "pays \<and> \<not> Coins_IsZero (fee_Amount fee)")
  case True
  then obtain old new where pool: "feepool E w = Some old" "Coins_Plus old (fee_Amount fee) = Val new" "feepool E t = Some new"
    using assms(1) by (auto simp: pool_step_def)
  then have "sorted_denoms old" using assms(2) by (simp add: fees_ok_def)
  from Coins_Plus_facts [OF this assms(3) pool(2)] show ?thesis using pool True by (simp add: fees_ok_def fees_def)
next
  case False
  then have "feepool E t = feepool E w" using assms(1) by (simp only: pool_step_def if_False)
  then show ?thesis using assms(2) unfolding if_not_P [OF False] by (simp add: fees_ok_def fees_def)
qed

lemma coins_step_amt:
  assumes "coins_step fee pays acc acc'" and "sorted_denoms (ba_Coins acc)" and "\<forall>c \<in> set (ba_Coins acc). 0 \<le> Amount c"
    and "sorted_denoms (fee_Amount fee)"
  shows "sorted_denoms (ba_Coins acc') \<and> (\<forall>c \<in> set (ba_Coins acc'). 0 \<le> Amount c)
    \<and> amt (ba_Coins acc') d = amt (ba_Coins acc) d - (if pays \<and> \<not> Coins_IsZero (fee_Amount fee) then amt (fee_Amount fee) d else 0)"
proof (cases "pays \<and> \<not> Coins_IsZero (fee_Amount fee)")
  case True
  then have minus: "Coins_Minus (ba_Coins acc) (fee_Amount fee) = Val (ba_Coins acc')" "\<forall>c \<in> set (ba_Coins acc'). 0 \<le> Amount c"
    using assms(1) by (simp_all add: coins_step_def)
  from Coins_Minus_facts(1,2) [OF assms(2,4) minus(1)] show ?thesis using minus(2) True by simp
next
  case False
  then have "ba_Coins acc' = ba_Coins acc" using assms(1) by (simp only: coins_step_def if_False)
  then show ?thesis using assms(2,3) unfolding if_not_P [OF False] by simp
qed

lemma signer_coins:
  assumes E: "auth_codec E" and sig: "processSig E addr sig bz w = (Val (Inr acc1), u)"
    and pay: "(if i = 0 then pay_fee E fee acc1 else ret (Inr acc1)) u = (Val (Inr acc2), v)"
    and set: "SetAccount E acc2 v = (Val (), t)"
    and ok: "bank_ok E w" "fees_ok E w" and fee: "sorted_denoms (fee_Amount fee)"
  shows "bank_ok E t \<and> fees_ok E t \<and> paid_coins E t = paid_coins E w"
proof -
  have keys: "ae_accKey E \<notin> {ae_feeKey E}" using auth_codec.keys [OF E] by simp
  have pays: "confined {ae_feeKey E} (if i = 0 then pay_fee E fee acc1 else ret (Inr acc1))"
    by (intro confined_rules confined_sigs) simp_all
  have v: "w_stores v (ae_accKey E) = w_stores w (ae_accKey E)"
    using confinedD [OF confined_sigs(1) sig keys] confinedD [OF pays pay keys] by simp
  obtain acc where acc: "acct E w addr = Some acc" "seq_step E bz addr sig acc acc2" "coins_step fee (i = 0) acc acc2"
      "pool_step E fee (i = 0) w t" "acct E t = (acct E w)(addr \<mapsto> acc2)"
    using auth_codec.ante_first [OF E sig pay set] ok(1) by (auto simp: bank_ok_def)
  have at: "ba_Address acc2 = addr" using acc(1,2) ok(1) by (auto simp: bank_ok_def accts_ok_def seq_step_def)
  have old: "sorted_denoms (ba_Coins acc)" "\<forall>c \<in> set (ba_Coins acc). 0 \<le> Amount c" using ok(1) acc(1) by (auto simp: bank_ok_def)
  note new = coins_step_amt [OF acc(3) old fee]
  note sup = auth_codec.SetAccount_supply [OF E set]
  have sorted: "kv_sorted (w_stores v (ae_accKey E))" using ok(1) v by (simp add: bank_ok_def)
  have "bank_ok E t" using sup(1) [OF sorted] ok(1) acc(5) at new by (auto simp: bank_ok_def accts_ok_def split: if_splits)
  moreover have "paid_coins E t d = paid_coins E w d" for d
    using sup(2) [OF sorted, of d] coin_views_cong [OF v] new [of d] pool_step_fees [OF acc(4) ok(2) fee, of d] acc(1) at
    by (simp add: paid_coins_def balance_def)
  ultimately show ?thesis using pool_step_fees [OF acc(4) ok(2) fee] by auto
qed

lemma ante_sigs_coins:
  assumes "auth_codec E" and "sorted_denoms (fee_Amount fee)"
  shows "ante_sigs E bz fee i xs accs w = (Val (Inr accs'), t) \<Longrightarrow> bank_ok E w \<Longrightarrow> fees_ok E w \<Longrightarrow>
    bank_ok E t \<and> fees_ok E t \<and> paid_coins E t = paid_coins E w"
proof (induction xs arbitrary: i accs w)
  case (Cons x xs)
  obtain addr sig where x: "x = (addr, sig)" by fastforce
  obtain acc1 u acc2 v t1 where steps: "processSig E addr sig (bz sig) w = (Val (Inr acc1), u)"
      "(if i = 0 then pay_fee E fee acc1 else ret (Inr acc1)) u = (Val (Inr acc2), v)" "SetAccount E acc2 v = (Val (), t1)"
    and rest: "ante_sigs E bz fee (i + 1) xs (accs @ [acc2]) t1 = (Val (Inr accs'), t)"
    using Cons.prems(1) unfolding x ante_sigs.simps bnd_Val_iff branch_run_iffs(2) ret_iff by auto
  show ?case using Cons.IH [OF rest] signer_coins [OF assms(1) steps Cons.prems(2,3) assms(2)] by simp
qed (simp add: ret_iff)

lemma run_ante_coins:
  assumes "auth_codec (tn_auth T)" and "ton_app T app" and "run_ante app ctx (TxStd stdTx) w = (Val (Inr ctx'), t)"
    and "bank_ok (tn_auth T) w" and "fees_ok (tn_auth T) w" and "sorted_denoms (fee_Amount (tx_Fee stdTx))"
  shows "bank_ok (tn_auth T) t \<and> fees_ok (tn_auth T) t \<and> paid_coins (tn_auth T) t = paid_coins (tn_auth T) w"
proof -
  obtain accs res where "AnteHandler (tn_auth T) (ton_Msg T) ctx (TxStd stdTx) w = (Val (accs, res, False), t)"
    using assms(2,3) by (auto simp: run_ante_def ton_app_def NewAnteHandler_def run_iffs split: if_splits)
  then obtain tx u where tx: "TxStd stdTx = TxStd tx" and u: "w_stores u = w_stores w"
    and sigs: "ante_sigs (tn_auth T) (\<lambda>sig. StdSignBytes (tn_auth T) (ton_Msg T) (ctx_ChainID ctx) (sig_AccountNumber sig) (sig_Sequence sig)
           (tx_Fee tx) (tx_Msgs tx) (tx_Memo tx)) (tx_Fee tx) 0
           (zip (StdTx_GetSigners (tn_auth T) (ton_Msg T) tx) (tx_Signatures tx)) [] u = (Val (Inr accs), t)"
    by (rule AnteHandler_continue)
  have "bank_ok (tn_auth T) u" "coin_supply (tn_auth T) u = coin_supply (tn_auth T) w" "feepool (tn_auth T) u = feepool (tn_auth T) w"
    using coin_views_cong [of u "tn_auth T" w] feepool_cong [of u "tn_auth T" w] u assms(4) by simp_all
  then show ?thesis
    using ante_sigs_coins [OF assms(1) _ sigs] assms(5,6) tx by (simp add: fees_ok_def paid_coins_def fees_def fun_eq_iff)
qed

text \<open>The messages that move no coins to or from the pool of the staking module and to no other chain.\<close>

fun plain :: "ton_msg \<Rightarrow> bool" where
  "plain (TonBank _) = True"
| "plain (TonSlashing _) = True"
| "plain (TonGov _) = True"
| "plain _ = False"

definition chain_coins :: "ton_env \<Rightarrow> world \<Rightarrow> string \<Rightarrow> int" where
  "chain_coins T w d = coin_supply (tn_auth T) w d + escrow (tn_gov T) w d + fees (tn_auth T) w d"

definition chain_ok :: "ton_env \<Rightarrow> world \<Rightarrow> bool" where
  "chain_ok T w \<longleftrightarrow> bank_ok (tn_auth T) w \<and> gov_ok (tn_gov T) w \<and> fees_ok (tn_auth T) w"

definition ton_keys :: "ton_env \<Rightarrow> string list" where
  "ton_keys T = [ae_accKey (tn_auth T), ae_feeKey (tn_auth T), ib_key (tn_ibc T), sk_key (tn_stake T), sl_key (tn_slash T), gv_key (tn_gov T)]"

lemma chain_cong:
  assumes "\<forall>s \<in> {ae_accKey (tn_auth T), ae_feeKey (tn_auth T), gv_key (tn_gov T)}. w_stores t s = w_stores w s"
  shows "chain_ok T t = chain_ok T w" "chain_coins T t = chain_coins T w"
  using coin_views_cong [of t "tn_auth T" w] feepool_cong [of t "tn_auth T" w] assms
  by (auto simp: chain_ok_def chain_coins_def fees_def fees_ok_def escrow_def gov_ok_def fun_eq_iff)

lemma gov_cong:
  "w_stores t (gv_key G) = w_stores w (gv_key G) \<Longrightarrow> gov_ok G t = gov_ok G w \<and> escrow G t = escrow G w"
  by (simp add: gov_ok_def escrow_def fun_eq_iff)

lemma fees_cong:
  "w_stores t (ae_feeKey E) = w_stores w (ae_feeKey E) \<Longrightarrow> fees_ok E t = fees_ok E w \<and> fees E t = fees E w"
  using feepool_cong [of t E w] by (simp add: fees_ok_def fees_def fun_eq_iff)

lemma plain_handler_coins:
  assumes T: "gov_bank (tn_auth T) (tn_gov T) D" "distinct (ton_keys T)" "ton_app T app"
    and h: "Route (app_router app) (msg_Type (ton_Msg T) m) = Some h" "h ctx m w = (Val res, t)" "Result_IsOK res"
    and m: "plain m" "msg_ValidateBasic (ton_Msg T) m = Val None" and ok: "chain_ok T w"
  shows "chain_ok T t \<and> chain_coins T t = chain_coins T w"
proof -
  have E: "auth_codec (tn_auth T)" by (rule gov_bank.axioms(1) [OF T(1)])
  show ?thesis
  proof (cases m)
    case (TonBank b)
    then obtain msg where b: "b = BankSend msg"
      using h(2) ton_Route [OF T(3) h(1)] by (cases b) (auto simp: bank_NewHandler_def handleMsgIssue_def run_iffs)
    then have run: "handleMsgSend (tn_auth T) msg w = (Val res, t)" "MsgSend_ValidateBasic msg = Val None"
      using h(2) ton_Route [OF T(3) h(1)] TonBank m(2) by (simp_all add: bank_NewHandler_def ton_Msg_def bank_Msg_def)
    have "w_stores t (ae_feeKey (tn_auth T)) = w_stores w (ae_feeKey (tn_auth T))" "w_stores t (gv_key (tn_gov T)) = w_stores w (gv_key (tn_gov T))"
      using handleMsgSend_spec [OF E _ run(2,1)] ok T(2) by (auto simp: chain_ok_def ton_keys_def)
    then show ?thesis
      using handleMsgSend_spec [OF E _ run(2,1)] ok h(3) fees_cong [of t "tn_auth T" w] gov_cong [of t "tn_gov T" w]
      by (simp add: chain_ok_def chain_coins_def fun_eq_iff)
  next
    case (TonSlashing u)
    have "confined {sk_key (tn_stake T), sl_key (tn_slash T)} (h ctx m)"
      using ton_Route [OF T(3) h(1), of ctx] TonSlashing by (simp add: confined_slashing_handler)
    from confinedD [OF this h(2)] have "\<forall>s \<in> {ae_accKey (tn_auth T), ae_feeKey (tn_auth T), gv_key (tn_gov T)}. w_stores t s = w_stores w s"
      using T(2) by (auto simp: ton_keys_def)
    then show ?thesis using chain_cong [of T t w] ok by simp
  next
    case (TonGov g)
    then have run: "gov_NewHandler (tn_auth T) (tn_gov T) ctx (Some g) w = (Val res, t)" "gov_ValidateBasic g = None"
      using h(2) ton_Route [OF T(3) h(1)] m(2) by (simp_all add: ton_Msg_def gov_Msg_def)
    have "confined {ae_accKey (tn_auth T), gv_key (tn_gov T)} (gov_NewHandler (tn_auth T) (tn_gov T) ctx (Some g))"
      by (simp add: confined_gov_handler)
    from confinedD [OF this run(1)] have "w_stores t (ae_feeKey (tn_auth T)) = w_stores w (ae_feeKey (tn_auth T))"
      using T(2) by (auto simp: ton_keys_def)
    then show ?thesis
      using handler_coins [OF T(1) _ _ run(2,1)] ok fees_cong [of t "tn_auth T" w]
      by (auto simp: chain_ok_def chain_coins_def coins_are_def)
  qed (use m in simp_all)
qed

lemma validate_msgs_each: "validate_msgs mi msgs = Val None \<Longrightarrow> \<forall>m \<in> set msgs. msg_ValidateBasic mi m = Val None"
  by (induction msgs) (auto simp: obind_Val_iff split: option.splits)

lemma plain_msgs_coins:
  assumes "gov_bank (tn_auth T) (tn_gov T) D" and "distinct (ton_keys T)" and "ton_app T app"
  shows "msgs_pass (ton_Msg T) (app_router app) ctx msgs w t \<Longrightarrow> \<forall>m \<in> set msgs. plain m \<and> msg_ValidateBasic (ton_Msg T) m = Val None \<Longrightarrow>
    chain_ok T w \<Longrightarrow> chain_ok T t \<and> chain_coins T t = chain_coins T w"
proof (induction rule: msgs_pass.induct)
  case (pass_msg msg handler w result u msgs' t)
  from plain_handler_coins [OF assms pass_msg.hyps(1-3)] pass_msg.prems have "chain_ok T u \<and> chain_coins T u = chain_coins T w" by simp
  then show ?case using pass_msg.IH pass_msg.prems by simp
qed simp

lemma tx_passes_coins:
  assumes T: "gov_bank (tn_auth T) (tn_gov T) D" "distinct (ton_keys T)" "ton_app T app"
    and pass: "tx_passes (ton_Msg T) mode txBytes (TxStd stdTx) app st w t"
    and tx: "\<forall>m \<in> set (tx_Msgs stdTx). plain m" "sorted_denoms (fee_Amount (tx_Fee stdTx))" and ok: "chain_ok T (world_of st)"
  shows "chain_ok T t \<and> chain_coins T t = chain_coins T (world_of st)"
proof -
  obtain ctx where ante: "run_ante app (tx_context mode txBytes app st) (TxStd stdTx) (world_of st) = (Val (Inr ctx), w)"
    and msgs: "msgs_pass (ton_Msg T) (app_router app) ctx (tx_Msgs stdTx) w t" and valid: "tx_valid (ton_Msg T) (TxStd stdTx)"
    using pass by (auto simp: tx_passes_def)
  have gov: "w_stores w (gv_key (tn_gov T)) = w_stores (world_of st) (gv_key (tn_gov T))"
    using confinedD [OF run_ante_confined [OF T(3), of "[]"] ante] T(2) by (auto simp: reach_def ton_keys_def)
  have E: "auth_codec (tn_auth T)" by (rule gov_bank.axioms(1) [OF T(1)])
  have "chain_ok T w \<and> chain_coins T w = chain_coins T (world_of st)"
    using run_ante_coins [OF E T(3) ante] ok tx(2) gov_cong [OF gov] by (auto simp: chain_ok_def chain_coins_def paid_coins_def fun_eq_iff)
  moreover have "\<forall>m \<in> set (tx_Msgs stdTx). plain m \<and> msg_ValidateBasic (ton_Msg T) m = Val None"
    using tx(1) valid validate_msgs_each [of "ton_Msg T" "tx_Msgs stdTx"] by (auto simp: tx_valid_def)
  ultimately show ?thesis using plain_msgs_coins [OF T msgs] by simp
qed

lemma chain_codespaces:
  "chain_ok (with_codespaces cs T) = chain_ok T" "chain_coins (with_codespaces cs T) = chain_coins T"
  "ton_keys (with_codespaces cs T) = ton_keys T"
  "gov_bank E (tn_gov (with_codespaces cs T)) D = gov_bank E (tn_gov T) D"
proof -
  obtain c1 c2 c3 c4 where cs: "cs = (c1, c2, c3, c4)" by (cases cs)
  have gov: "tn_gov (with_codespaces cs T) = (tn_gov T)\<lparr>gv_codespace := c4\<rparr>" by (simp add: with_codespaces_def cs)
  have "entry_ok (G\<lparr>gv_codespace := c\<rparr>) k bz = entry_ok G k bz" "entry_dep (G\<lparr>gv_codespace := c\<rparr>) = entry_dep G" for G c k bz
    by (simp_all add: entry_ok_def entry_dep_def KeyDeposit_def KeyVote_def fun_eq_iff)
  then have "gov_ok (G\<lparr>gv_codespace := c\<rparr>) w = gov_ok G w" "escrow (G\<lparr>gv_codespace := c\<rparr>) w d = escrow G w d" for G c w d
    by (simp_all add: gov_ok_def escrow_def)
  then show "chain_ok (with_codespaces cs T) = chain_ok T" "chain_coins (with_codespaces cs T) = chain_coins T"
    by (simp_all add: chain_ok_def chain_coins_def gov fun_eq_iff)
  show "ton_keys (with_codespaces cs T) = ton_keys T" by (simp add: ton_keys_def with_codespaces_def cs)
  show "gov_bank E (tn_gov (with_codespaces cs T)) D = gov_bank E (tn_gov T) D"
    by (simp add: gov gov_bank_def gov_bank_axioms_def)
qed

lemma ton_deliver_coins:
  assumes new: "NewGaiaApp T unmarshalTx unmarshalGenesis loaded = Val app0" and life: "serve (ton_Msg T) reqs app0 = Val app"
    and st: "app_deliverState app = Some st" and run: "DeliverTx (ton_Msg T) txBytes app = (res, app')"
    and tx: "txBytes \<noteq> []" "unmarshalTx txBytes = Some stdTx"
    and pass: "tx_passes (ton_Msg T) runTxModeDeliver txBytes (TxStd stdTx) app st w t"
    and plain: "\<forall>m \<in> set (tx_Msgs stdTx). plain m" "sorted_denoms (fee_Amount (tx_Fee stdTx))"
    and T: "gov_bank (tn_auth T) (tn_gov T) D" "distinct (ton_keys T)" and ok: "chain_ok T (world_of st)"
  shows "Result_IsOK res \<and> (\<exists>st'. app_deliverState app' = Some st' \<and> chain_ok T (world_of st') \<and> chain_coins T (world_of st') = chain_coins T (world_of st))"
proof -
  obtain cs where app: "ton_app (with_codespaces cs T) app" and dec: "app_txDecoder app = defaultTxDecoder unmarshalTx"
    by (rule ton_life [OF new life])
  have run': "runTx (ton_Msg T) runTxModeDeliver txBytes (TxStd stdTx) app = (res, app')"
    using run dec tx by (simp add: DeliverTx_def defaultTxDecoder_def)
  have mode: "mode_state runTxModeDeliver app = Some st" using st by (simp add: mode_state_def)
  have "\<exists>w t. tx_passes (ton_Msg T) runTxModeDeliver txBytes (TxStd stdTx) app st w t" using pass by (intro exI)
  then obtain st' w' t' where st': "mode_state runTxModeDeliver app' = Some st'" "Result_IsOK res" "st_ms st' = w_stores t'"
    and pass': "tx_passes (ton_Msg T) runTxModeDeliver txBytes (TxStd stdTx) app st w' t'"
    using runTx_exact [OF run' mode] by auto
  have "chain_ok T t' \<and> chain_coins T t' = chain_coins T (world_of st)"
    using tx_passes_coins [of "with_codespaces cs T" D app runTxModeDeliver txBytes stdTx st w' t'] T app pass' plain ok
    by (simp only: chain_codespaces with_codespaces_same)
  then have "chain_ok T (world_of st') \<and> chain_coins T (world_of st') = chain_coins T (world_of st)"
    using chain_cong [of T "world_of st'" t'] st'(3) by (simp add: world_of_def)
  then show ?thesis using st'(1,2) by (auto simp: mode_state_def)
qed

section \<open>A concrete application\<close>

definition net_ton_env :: ton_env where
  "net_ton_env = \<lparr>tn_auth = net_auth_env, tn_ibc = net_ibc_env, tn_stake = net_stake_env, tn_slash = net_slash_env, tn_gov = net_gov_env,
     tn_bankJson = \<lparr>bj_Bech32ifyAcc = (\<lambda>a. a), bj_addrCoins = (\<lambda>a cs. a @ Coins_String cs), bj_send = (\<lambda>is outs. concat (is @ outs)),
       bj_issue = (\<lambda>a outs. a @ concat outs)\<rparr>,
     tn_stakeJson = \<lparr>sj_Bech32ifyAcc = (\<lambda>a. case a of None \<Rightarrow> [] | Some b \<Rightarrow> b), sj_Bech32ifyVal = (\<lambda>a. case a of None \<Rightarrow> [] | Some b \<Rightarrow> b),
       sj_Bech32ifyValPub = (\<lambda>a. a), sj_ratString = (\<lambda>r. []), sj_create = (\<lambda>d a p b. a @ p), sj_edit = (\<lambda>d a. a), sj_delegate = (\<lambda>a b c. a @ b),
       sj_beginRedelegate = (\<lambda>a b c d. concat [a, b, c, d]), sj_completeRedelegate = (\<lambda>a b c. concat [a, b, c]),
       sj_beginUnbonding = (\<lambda>a b c. concat [a, b, c]), sj_completeUnbonding = (\<lambda>a b. a @ b)\<rparr>,
     tn_slashJson = (\<lambda>a. a), tn_govJson = (\<lambda>_. [])\<rparr>"

definition ex_ton_tx :: "ton_msg StdTx" where
  "ex_ton_tx = NewStdTx [TonBank (BankSend ex_send)] ex_fee
     [\<lparr>sig_PubKey = Some ''bob'',
       sig_Signature = ''bob'' @ StdSignBytes net_auth_env (ton_Msg net_ton_env) ''chain'' 0 7 ex_fee [TonBank (BankSend ex_send)] ''memo'',
       sig_AccountNumber = 0, sig_Sequence = 7\<rparr>] ''memo''"

definition ex_unmarshal :: "bytes \<Rightarrow> ton_msg StdTx option" where
  "ex_unmarshal b = (if b = ''tx'' then Some ex_ton_tx else None)"

definition ex_gaia :: "(ton_msg, Evidence, wrsp_Validator) BaseApp outcome" where
  "ex_gaia = NewGaiaApp net_ton_env ex_unmarshal (\<lambda>_. None) (Some (w_stores ex_world, 1))"

definition ex_begin :: "(ton_msg, Evidence) request" where
  "ex_begin = ReqBeginBlock \<lparr>rbb_Header = \<lparr>hdr_ChainID = ''chain'', hdr_Height = 2, hdr_Time = 0\<rparr>, rbb_Validators = [], rbb_ByzantineValidators = []\<rparr>"

lemma ex_gaia_runs:
  "case obind ex_gaia (serve (ton_Msg net_ton_env) [ex_begin]) of Panic _ \<Rightarrow> False
   | Val app \<Rightarrow> (case app_deliverState app of None \<Rightarrow> False | Some st \<Rightarrow>
       st_ms st ''acc'' = w_stores ex_world ''acc'' \<and> st_ms st ''fee'' = [] \<and> st_ms st ''gov'' = [] \<and>
       (case run_ante app (tx_context runTxModeDeliver ''tx'' app st) (TxStd ex_ton_tx) (world_of st) of
          (Val (Inr ctx), w) \<Rightarrow> (case run_msgs (ton_Msg net_ton_env) (app_router app) ctx 1 (tx_Msgs ex_ton_tx) emptyResult w of
              (Val (Inr _), _) \<Rightarrow> True | _ \<Rightarrow> False)
        | _ \<Rightarrow> False))"
  by code_simp

lemma ex_gaia_life:
  "\<exists>app0 app st w t. ex_gaia = Val app0 \<and> serve (ton_Msg net_ton_env) [ex_begin] app0 = Val app \<and> app_deliverState app = Some st
     \<and> st_ms st ''acc'' = w_stores ex_world ''acc'' \<and> st_ms st ''fee'' = [] \<and> st_ms st ''gov'' = []
     \<and> tx_passes (ton_Msg net_ton_env) runTxModeDeliver ''tx'' (TxStd ex_ton_tx) app st w t"
proof -
  have valid: "tx_valid (ton_Msg net_ton_env) (TxStd ex_ton_tx)"
    using ex_send_valid by (simp add: tx_valid_def ex_ton_tx_def NewStdTx_def ton_Msg_def bank_Msg_def)
  obtain app0 app where app: "ex_gaia = Val app0" "serve (ton_Msg net_ton_env) [ex_begin] app0 = Val app"
      "obind ex_gaia (serve (ton_Msg net_ton_env) [ex_begin]) = Val app"
    using ex_gaia_runs by (cases "obind ex_gaia (serve (ton_Msg net_ton_env) [ex_begin])") (auto simp only: obind_Val_iff outcome.case)
  note runs = ex_gaia_runs [unfolded app(3) outcome.case]
  obtain st where st: "app_deliverState app = Some st" using runs by (cases "app_deliverState app") simp_all
  note runs = runs [unfolded st option.case]
  obtain ctx w where ante: "run_ante app (tx_context runTxModeDeliver ''tx'' app st) (TxStd ex_ton_tx) (world_of st) = (Val (Inr ctx), w)"
    using runs by (auto split: prod.splits outcome.splits sum.splits)
  obtain r t where "run_msgs (ton_Msg net_ton_env) (app_router app) ctx 1 (tx_Msgs ex_ton_tx) emptyResult w = (Val (Inr r), t)"
    using runs unfolding ante by (auto split: prod.splits outcome.splits sum.splits)
  from run_msgs_Inr [OF this] ante valid have "tx_passes (ton_Msg net_ton_env) runTxModeDeliver ''tx'' (TxStd ex_ton_tx) app st w t"
    by (auto simp: tx_passes_def)
  with app st runs show ?thesis by (intro exI conjI) simp_all
qed

section \<open>Properties\<close>

text \<open>
  C10: the modules are isolated.  Whatever requests the application has served since its start, a
  transaction that is delivered leaves every store alone but those of the accounts and of the
  collected fees and those of the modules that its messages belong to: \<open>bank\<close> has no other, \<open>ibc\<close>,
  \<open>stake\<close> and \<open>gov\<close> have their own, and \<open>slashing\<close> has its own and that of \<open>stake\<close>.  That holds also
  when the transaction fails or panics.
\<close>

theorem ton_isolation:
  assumes "NewGaiaApp T unmarshalTx unmarshalGenesis loaded = Val app0" and "serve (ton_Msg T) reqs app0 = Val app"
    and "app_deliverState app = Some st" and "DeliverTx (ton_Msg T) txBytes app = (res, app')"
  shows "\<exists>st'. app_deliverState app' = Some st' \<and> (\<forall>s. s \<notin> reach T (tx_msgs unmarshalTx txBytes) \<longrightarrow> st_ms st' s = st_ms st s)"
  using ton_deliver_reach [OF assms] .

theorem ton_isolation_witness:
  "\<exists>app0 app st st'. ex_gaia = Val app0 \<and> serve (ton_Msg net_ton_env) [ex_begin] app0 = Val app \<and> app_deliverState app = Some st
     \<and> app_deliverState (snd (DeliverTx (ton_Msg net_ton_env) ''tx'' app)) = Some st' \<and> st_ms st' ''gov'' = [] \<and> st_ms st' ''stake'' = st_ms st ''stake''"
  using ex_gaia_life
proof (elim exE conjE, goal_cases)
  case (1 app0 app st w t)
  have out: "''gov'' \<notin> reach net_ton_env (tx_msgs ex_unmarshal ''tx'')" "''stake'' \<notin> reach net_ton_env (tx_msgs ex_unmarshal ''tx'')"
    by (simp_all add: reach_def tx_msgs_def ex_unmarshal_def ex_ton_tx_def NewStdTx_def module_stores_def net_ton_env_def net_auth_env_def)
  from ton_isolation [OF 1(1) [unfolded ex_gaia_def] 1(2,3) prod.collapse [symmetric], of "''tx''"] show ?case
  proof (elim exE conjE, goal_cases)
    case (1 st')
    then show ?case using out \<open>st_ms st ''gov'' = []\<close> \<open>ex_gaia = Val app0\<close> \<open>serve _ _ app0 = Val app\<close> \<open>app_deliverState app = Some st\<close>
      by (intro exI [of _ app0] exI [of _ app] exI [of _ st] exI [of _ st']) simp
  qed
qed

text \<open>
  C1: a transaction of bank, governance and slashing messages that passes creates and destroys no
  coins: what the accounts hold, what lies in deposits of proposals and the fees that have been
  collected add up to the same as before, for every denomination, and the accounts, the fees and
  the governance store stay well formed.
\<close>

theorem ton_coins_conserved:
  assumes "NewGaiaApp T unmarshalTx unmarshalGenesis loaded = Val app0" and "serve (ton_Msg T) reqs app0 = Val app"
    and "app_deliverState app = Some st" and "DeliverTx (ton_Msg T) txBytes app = (res, app')"
    and "txBytes \<noteq> []" and "unmarshalTx txBytes = Some stdTx"
    and "tx_passes (ton_Msg T) runTxModeDeliver txBytes (TxStd stdTx) app st w t"
    and "\<forall>m \<in> set (tx_Msgs stdTx). plain m" and "sorted_denoms (fee_Amount (tx_Fee stdTx))"
    and "gov_bank (tn_auth T) (tn_gov T) D" and "distinct (ton_keys T)" and "chain_ok T (world_of st)"
  shows "Result_IsOK res \<and> (\<exists>st'. app_deliverState app' = Some st' \<and> chain_ok T (world_of st') \<and> chain_coins T (world_of st') = chain_coins T (world_of st))"
  using ton_deliver_coins [OF assms] .

theorem ton_coins_conserved_witness:
  "\<exists>app0 app st' res app'. ex_gaia = Val app0 \<and> serve (ton_Msg net_ton_env) [ex_begin] app0 = Val app
     \<and> DeliverTx (ton_Msg net_ton_env) ''tx'' app = (res, app') \<and> Result_IsOK res \<and> app_deliverState app' = Some st'
     \<and> chain_coins net_ton_env (world_of st') ''atom'' = 100"
  using ex_gaia_life
proof (elim exE conjE, goal_cases)
  case (1 app0 app st w t)
  have bank: "bank_ok net_auth_env (world_of st)" "coin_supply net_auth_env (world_of st) = coin_supply net_auth_env ex_world"
    using coin_views_cong [of "world_of st" net_auth_env ex_world] ex_bank_ok 1(4) by (simp_all add: world_of_def net_auth_env_def)
  have views: "gov_ok net_gov_env (world_of st)" "escrow net_gov_env (world_of st) d = 0" "feepool net_auth_env (world_of st) = Some []" for d
    using 1(5,6) by (simp_all add: gov_ok_def escrow_def feepool_def world_of_def gov_env_runs net_auth_env_def kv_Get_def)
  have ok: "chain_ok net_ton_env (world_of st)" using bank(1) views by (simp add: chain_ok_def net_ton_env_def fees_ok_def)
  have "coin_supply net_auth_env ex_world ''atom'' = 100" by code_simp
  then have coins: "chain_coins net_ton_env (world_of st) ''atom'' = 100"
    using bank(2) views by (simp add: chain_coins_def net_ton_env_def fees_def)
  have D: "gov_bank (tn_auth net_ton_env) (tn_gov net_ton_env) (stake_gov_sets net_stake_env)"
    using net_gov.gov_bank_axioms by (simp add: net_ton_env_def)
  have keys: "distinct (ton_keys net_ton_env)"
    by (simp add: ton_keys_def net_ton_env_def net_auth_env_def net_ibc_env_def net_stake_env_def net_slash_env_def net_gov_env_def)
  have tx: "ex_unmarshal ''tx'' = Some ex_ton_tx" "\<forall>m \<in> set (tx_Msgs ex_ton_tx). plain m" "sorted_denoms (fee_Amount (tx_Fee ex_ton_tx))"
    by (simp_all add: ex_unmarshal_def ex_ton_tx_def NewStdTx_def ex_fee_def NewStdFee_def)
  obtain res app' where run: "DeliverTx (ton_Msg net_ton_env) ''tx'' app = (res, app')" by fastforce
  have "''tx'' \<noteq> []" by simp
  from ton_coins_conserved [OF 1(1) [unfolded ex_gaia_def] 1(2,3) run this tx(1) 1(7) tx(2,3) D keys ok] show ?case
  proof (elim conjE exE, goal_cases)
    case (1 st')
    then show ?case using \<open>ex_gaia = Val app0\<close> \<open>serve _ _ app0 = Val app\<close> run coins
      by (intro exI [of _ app0] exI [of _ app] exI [of _ st'] exI [of _ res] exI [of _ app']) simp
  qed
qed

text \<open>
  C40: the state of an application that has been loaded from disk cannot be exported.  The export
  reads the check state, which an application has only after \<open>InitChain\<close> or \<open>Commit\<close>, so the
  command that loads the application and exports it at once always panics.
\<close>

theorem export_after_load_panics:
  assumes "NewGaiaApp T unmarshalTx unmarshalGenesis loaded = Val app"
  shows "ExportAppStateAndValidators T app = Panic (GoPanic ''nil pointer dereference'')"
  using NewGaiaApp_no_check [OF assms] by (simp add: ExportAppStateAndValidators_def app_NewContext_def nil_state_def)

theorem export_after_load_panics_witness:
  "\<exists>app. ex_gaia = Val app \<and> ExportAppStateAndValidators net_ton_env app = Panic (GoPanic ''nil pointer dereference'')"
  using ex_gaia_life
proof (elim exE conjE, goal_cases)
  case (1 app0 app st w t)
  then show ?case using export_after_load_panics [of net_ton_env ex_unmarshal "\<lambda>_. None" "Some (w_stores ex_world, 1)" app0]
    by (intro exI [of _ app0]) (simp add: ex_gaia_def)
qed

end
