(* ===== verification/Spec2Isabelle.thy ===== *)
theory Spec2Isabelle
  imports SdkCoins SdkRat CacheStore AppQuery Ibc Slashing GovBooks BaseApp TonProperties
begin

text \<open>
  A model of the tepleton SDK and of the application \<open>cmd/ton\<close> that is built with it, and the
  theorems that make it correct.

  \<^bold>\<open>The program.\<close>  An application answers the requests of a consensus engine: \<open>InitChain\<close>,
  and for every block \<open>BeginBlock\<close>, \<open>DeliverTx\<close> for each transaction, \<open>EndBlock\<close> and \<open>Commit\<close>;
  between them \<open>CheckTx\<close> and \<open>Query\<close> come at any time.  \<open>baseapp\<close> holds the committed state and two
  caches of it, one to check and one to deliver, runs a transaction through the ante handler of
  \<open>x/auth\<close> (signatures, sequences, fee) and then hands each message to the handler that the router
  has for its type.  The handlers of \<open>x/bank\<close>, \<open>x/ibc\<close>, \<open>x/stake\<close>, \<open>x/slashing\<close> and \<open>x/gov\<close> work
  through keepers, and a keeper reads and writes one store under a key it holds, through a gas meter.
  The stores are those of \<open>store/\<close>: a versioned tree for each key, a root store that commits them
  together, and caches over each and over all.  \<open>cmd/ton/app\<close> puts the modules together.

  \<^bold>\<open>How code becomes definitions.\<close>  A struct is a record with the fields of the source (short
  prefixes keep the fields of different records apart), an enum a datatype, a function of the
  source a definition of the same name (with the module in front where two packages share a name).
  A byte string is a \<open>string\<close>; an \<open>int64\<close> is an integer on which \<open>wrap64\<close> is written out wherever
  the code computes; error codes are words of 16 and 32 bits; a \<open>big.Int\<close> is an \<open>int\<close> and a \<open>big.Rat\<close> a \<open>rat\<close>.  A
  Go interface is a record of its methods.  Code that can panic returns \<open>Val\<close> or \<open>Panic\<close> of the type
  \<open>outcome\<close>; code that also has state runs in the monad \<open>M\<close>, whose state survives a panic, since
  \<open>runTx\<close> recovers from one.  An error is a value of a sum or option type, as in the source.  The
  state of the keepers is \<open>world\<close>: the stores by name, and the gas meter.

  \<^bold>\<open>The theories.\<close>

  \<^item> \<open>Prelude\<close>: bytes, \<open>wrap64\<close>, outcomes, the state monad and their rules.  \<open>GoStrings\<close>: the text
    functions of the Go library that parsing uses.  \<open>Invariants\<close>: a small logic for keepers
    (\<open>holds P m Q\<close>).  \<open>Frames\<close>: which stores a program can change (\<open>confined A m\<close>).  \<open>Netstring\<close>: a
    concrete codec, on which the hypotheses about codecs are discharged.

  \<^item> \<open>SdkInt\<close> (\<open>types/int.go\<close>), \<open>SdkRat\<close> (\<open>types/rational.go\<close>), \<open>SdkCoins\<close> (\<open>types/coin.go\<close>),
    \<open>SdkErrors\<close> (\<open>types/errors.go\<close>, \<open>result.go\<close>, \<open>tags.go\<close>, \<open>codespacer.go\<close>).  Shown: the operations are
    exact within the documented widths and panic outside; \<open>EvaluateBig\<close> rounds to nearest, ties to
    even; \<open>Coins.Plus\<close> is the sum per denomination on canonical lists; the binary search of
    \<open>AmountOf\<close> is a lookup; parsing undoes printing.  The locales \<open>checked_arith\<close> and \<open>purse\<close> are
    the contracts of bounded arithmetic and of a set of coins.

  \<^item> \<open>SdkStore\<close> (\<open>types/gas.go\<close>, \<open>types/store.go\<close>, \<open>store/gaskvstore.go\<close>) and \<open>SdkContext\<close>
    (\<open>types/context.go\<close>, \<open>types/tx_msg.go\<close>): gas meters, the sorted list of items as the reference
    of a store, prefix ranges, the metered operations of keepers, the context.

  \<^item> \<open>CacheStore\<close> (\<open>store/cachekvstore.go\<close>, \<open>memiterator.go\<close>, \<open>cachemergeiterator.go\<close>,
    \<open>prefixstore.go\<close>): a cache answers every sequence of operations as its parent would and writes
    exactly the difference, for iterations in both directions.  The locales \<open>kv_forward\<close>, \<open>kvstore\<close> and \<open>key_domain\<close>
    are the contract of a store and of a range test, \<open>kvstore_back\<close> and \<open>key_domain_back\<close> add what holds
    of descending ranges; \<open>cache_over\<close> and \<open>cache_back\<close> are a cache over any store, interpreted on a
    store and on a cache of it.

  \<^item> \<open>MultiStore\<close> (\<open>store/iavlstore.go\<close>, \<open>rootmultistore.go\<close>, \<open>cachemultistore.go\<close>): a commit saves all
    stores and prunes old versions, a restart loads what was committed last, and the commit id does
    not depend on the order of a Go map.  \<open>versioned_tree\<close> is what is used of the tree package, and
    \<open>multi_store\<close> the root store over it; both are interpreted on a reference tree that keeps the
    saved versions in a map.

  \<^item> \<open>Auth\<close> (\<open>x/auth\<close>: \<open>account.go\<close>, \<open>mapper.go\<close>, \<open>feekeeper.go\<close>, \<open>stdtx.go\<close>, \<open>ante.go\<close>): what passes the
    ante handler is signed by every signer for this chain, account number and sequence, and cannot
    pass again.  \<open>Bank\<close> (\<open>x/bank\<close>): a transfer moves exactly the coins of the message and conserves
    every denomination; \<open>coin_keeper\<close> is the contract the other modules use.  \<open>Ibc\<close> (\<open>x/ibc\<close>): the
    runs of a chain, with arbitrary packets that arrive, keep exact books of supply, sequences and
    queues; two chains with relayers that deliver only what was sent conserve what they have and
    what is in flight; and negative amounts, which the message check lets through, create coins.

  \<^item> \<open>StakeTypes\<close> (\<open>x/stake/types\<close>), \<open>StakeKeeper\<close> (\<open>x/stake/keeper\<close>, \<open>handler.go\<close>, \<open>genesis.go\<close>),
    \<open>StakeViews\<close>, \<open>StakeSafety\<close>, \<open>StakeProperties\<close>: pool and validators stay well formed on the level of
    types; no message changes the token supply; delegations and completed unbondings move exactly
    the stated coins; the inflation rate moves towards the goal within its bounds; every validator
    update is handed over once.  What goes wrong: a redelegation always charges again, and in an
    example leaving the validator at the cliff corrupts the pool.

  \<^item> \<open>Slashing\<close> (\<open>x/slashing\<close>): counter and bit array of a validator implement a window of its last
    signatures (a refinement), one that keeps missing blocks is slashed and revoked after a bounded
    number of blocks, and unrevoking waits for the jail time.

  \<^item> \<open>Gov\<close> (\<open>x/gov\<close>), \<open>GovSafety\<close>, \<open>GovTally\<close>, \<open>GovProperties\<close>: what the governance store holds,
    conservation of coins in accounts and deposits, the tally as sums over validators, votes and
    delegations (a refinement), and the end of the loops over the queues.  \<open>GovBooks\<close> reads the store
    as a record of proposals, deposits, votes and queues (\<open>gov_view\<close>), shows that messages and the end
    of a block keep it consistent (\<open>gov_books\<close>), and that the end of a block refines a
    specification on this record and the balances (\<open>gov_expire\<close>, \<open>gov_decide\<close>, \<open>gov_refunds\<close>).

  \<^item> \<open>BaseApp\<close> (\<open>baseapp/baseapp.go\<close>, \<open>router.go\<close>): \<open>runTx\<close> in its three modes and the life of a block;
    a transaction is executed all or not at all, requests of the mempool change nothing but the
    check state, and \<open>Commit\<close> alone changes what is committed.  \<open>AppQuery\<close>: the query paths.

  \<^item> \<open>TonApp\<close> (\<open>cmd/ton/app/app.go\<close>, \<open>genesis.go\<close>) and \<open>TonProperties\<close>: the keepers, routes, blockers,
    genesis and export of the application.  Here the modules meet: a delivered transaction changes
    only the stores of its modules, and transactions of bank, governance and slashing messages
    keep the sum of balances, deposits and collected fees.

  \<^bold>\<open>Parameters and hypotheses.\<close>  Libraries outside the repository are fields of environment
  records (\<open>auth_env\<close>, \<open>ibc_env\<close>, \<open>stake_env\<close>, \<open>slash_env\<close>, \<open>gov_env\<close>, \<open>ms_env\<close> and \<open>ton_env\<close>): binary
  and JSON codecs, the address of a public key and its signature check, the range test of the
  database library, the versioned tree and the merkle hash, and the order in which Go walks a map.
  The locales \<open>auth_codec\<close>, \<open>ibc_codec\<close>, \<open>stake_codec\<close>, \<open>slashing\<close>, \<open>gov_bank\<close>, \<open>gov_tally\<close> and
  \<open>gov_ledger\<close> state what is relied on, such as that decoding undoes encoding and that walking a map visits every
  entry once.  All are interpreted on the netstring codec, and witnesses run the model on it.  An
  iterator of a keeper yields the items the store had when it was made.

  \<^bold>\<open>Bounds and fuel.\<close>  The loops at the end of a block of \<open>x/gov\<close> take a number of rounds and return
  nothing when it is used up; the application gives them one round more than the longer queue has
  proposals, and \<open>gov_EndBlocker_ends\<close> shows that this is enough.  An iterator is drained with as
  many rounds as both its sources have items, and \<open>cacheMergeIterator_drain\<close> shows that nothing is
  left.  The netstring decoder takes the length of its input, of which each field uses at least two
  bytes.  Versions of stores, numbers of proposals and of packets are assumed to stay below the
  largest \<open>int64\<close>.  All other recursion is
  structural or has a termination proof.

  \<^bold>\<open>Not modelled.\<close>  The command line, REST and key management code (\<open>client\<close>, \<open>server\<close>, \<open>crypto\<close>, the
  client directories of the modules and the binaries) is input and output, and cryptography that
  the model takes as a parameter.  The adapter \<open>store/dbstoreadapter.go\<close> only forwards to the
  database library.  The texts of errors and logs are left out, as they do not influence the state.
  Mutexes and the goroutine of the tree iterator are left out, as the engine calls the application
  sequentially.  The human-readable printers, and the flags and key generation of \<open>GaiaAppInit\<close>, are
  client code.  The repository also keeps older generations of its framework beside the current
  one (\<open>_attic\<close>, \<open>app\<close>, \<open>modules\<close>, \<open>plugins\<close>, \<open>stack\<close>, \<open>state\<close>, \<open>x/coin\<close>, \<open>x/fee\<close>, \<open>types/coins.go\<close> and
  others).  The application does not load them and they do not compile together with the current
  files, so they have no behaviour to be modelled.
\<close>

end
